(* ===== verification/Prelude.thy ===== *)
theory Prelude
  imports Main "HOL-Library.Word"
begin

text \<open>
  Shared vocabulary of the development: bytes and fixed-width words, the result type with the
  early-return bind of Rust's question-mark operator, checked \<open>Option\<close> and slice access, the
  little-endian conversions of the integer types, and the checked, saturating and wrapping
  arithmetic of 64-bit positions.

  Conventions. A byte is \<open>8 word\<close>; a byte slice or vector is a list of bytes. Values of type
  \<open>u64\<close> and \<open>usize\<close> that are positions, lengths or counts are natural numbers, and each
  operation on them whose overflow the code decides (\<open>checked_add\<close>, \<open>saturating_add\<close>,
  plain \<open>+\<close> on attacker-controlled operands) is one of the functions below, with its bound
  written out. \<open>usize\<close> is 64 bits wide. Table entries of type \<open>u32\<close> are \<open>32 word\<close>.
\<close>

unbundle bit_operations_syntax

type_synonym byte = "8 word"
type_synonym bytes = "8 word list"
type_synonym u16 = "16 word"
type_synonym u32 = "32 word"
type_synonym u64 = "64 word"

named_theorems result_simps \<open>rewriting of result-valued programs\<close>
named_theorems width_defs \<open>definitions of the fixed-width operations\<close>

subsection \<open>Results\<close>

definition and_then :: "'e + 'a \<Rightarrow> ('a \<Rightarrow> 'e + 'b) \<Rightarrow> 'e + 'b" where
  "and_then r f = (case r of Inl e \<Rightarrow> Inl e | Inr x \<Rightarrow> f x)"

definition ok_or :: "'a option \<Rightarrow> 'e \<Rightarrow> 'e + 'a" where
  "ok_or x e = (case x of None \<Rightarrow> Inl e | Some y \<Rightarrow> Inr y)"

definition is_ok :: "'e + 'a \<Rightarrow> bool" where
  "is_ok r = (case r of Inl e \<Rightarrow> False | Inr x \<Rightarrow> True)"

lemma and_then_Inl [simp]: "and_then (Inl e) f = Inl e"
  by (simp add: and_then_def)

lemma and_then_Inr [simp]: "and_then (Inr x) f = f x"
  by (simp add: and_then_def)

lemma ok_or_None [simp]: "ok_or None e = Inl e"
  by (simp add: ok_or_def)

lemma ok_or_Some [simp]: "ok_or (Some x) e = Inr x"
  by (simp add: ok_or_def)

lemma is_ok_Inl [simp]: "\<not> is_ok (Inl e)"
  by (simp add: is_ok_def)

lemma is_ok_Inr [simp]: "is_ok (Inr x)"
  by (simp add: is_ok_def)

lemma and_then_cong [fundef_cong]:
  "r = r' \<Longrightarrow> (\<And>x. r' = Inr x \<Longrightarrow> f x = g x) \<Longrightarrow> and_then r f = and_then r' g"
  by (cases r') auto

lemma and_then_eq_Inr [result_simps]:
  "(and_then r f = Inr y) = (\<exists>x. r = Inr x \<and> f x = Inr y)"
  by (cases r) auto

lemma and_then_eq_Inl [result_simps]:
  "(and_then r f = Inl e) = (r = Inl e \<or> (\<exists>x. r = Inr x \<and> f x = Inl e))"
  by (cases r) auto

lemma ok_or_eq_Inr [result_simps]: "(ok_or x e = Inr y) = (x = Some y)"
  by (cases x) auto

lemma ok_or_eq_Inl [result_simps]: "(ok_or x e = Inl e') = (x = None \<and> e = e')"
  by (cases x) auto

lemma if_eq_Inr [result_simps]:
  "((if c then Inl e else r) = Inr y) = (\<not> c \<and> r = Inr y)"
  "((if c then r else Inl e) = Inr y) = (c \<and> r = Inr y)"
  by auto

lemma is_ok_iff: "is_ok r = (\<exists>x. r = Inr x)"
  by (cases r) auto

lemma and_then_assoc: "and_then (and_then r f) g = and_then r (\<lambda>x. and_then (f x) g)"
  by (cases r) auto

text \<open>A loop that pushes \<open>f x?\<close> for every element, stopping at the first error.\<close>

fun try_map :: "('a \<Rightarrow> 'e + 'b) \<Rightarrow> 'a list \<Rightarrow> 'e + 'b list" where
  "try_map f [] = Inr []"
| "try_map f (x # xs) =
     and_then (f x) (\<lambda>y. and_then (try_map f xs) (\<lambda>ys. Inr (y # ys)))"

lemma try_map_cong [fundef_cong]:
  "xs = ys \<Longrightarrow> (\<And>x. x \<in> set ys \<Longrightarrow> f x = g x) \<Longrightarrow> try_map f xs = try_map g ys"
  by (induction ys arbitrary: xs) auto

lemma try_map_Inr:
  "try_map f xs = Inr ys \<longleftrightarrow> length ys = length xs \<and> (\<forall>i < length xs. f (xs ! i) = Inr (ys ! i))"
proof (induction xs arbitrary: ys)
  case Nil
  then show ?case by auto
next
  case (Cons x xs)
  show ?case
  proof (cases ys)
    case Nil
    then show ?thesis by (simp add: result_simps)
  next
    case (Cons y zs)
    then show ?thesis
      by (auto simp: result_simps Cons.IH All_less_Suc2)
  qed
qed

lemma try_map_length: "try_map f xs = Inr ys \<Longrightarrow> length ys = length xs"
  by (simp add: try_map_Inr)

lemma try_map_nth: "try_map f xs = Inr ys \<Longrightarrow> i < length xs \<Longrightarrow> f (xs ! i) = Inr (ys ! i)"
  by (simp add: try_map_Inr)

lemma try_map_pure [simp]: "try_map (\<lambda>x. Inr (f x)) xs = Inr (map f xs)"
  by (induction xs) auto

lemma try_map_all_ok: "(\<And>x. x \<in> set xs \<Longrightarrow> f x = Inr (g x)) \<Longrightarrow> try_map f xs = Inr (map g xs)"
  by (induction xs) auto

lemma try_map_append:
  "try_map f (xs @ ys) = and_then (try_map f xs) (\<lambda>us. and_then (try_map f ys) (\<lambda>vs. Inr (us @ vs)))"
proof (induction xs)
  case Nil
  then show ?case by (cases "try_map f ys") auto
next
  case (Cons x xs)
  then show ?case by (cases "f x"; cases "try_map f xs"; cases "try_map f ys") auto
qed

subsection \<open>Runs on fuel\<close>

text \<open>
  A loop or recursion whose depth the input decides runs on fuel: \<open>None\<close> says the fuel ran out,
  \<open>Some\<close> carries the result of the run.
\<close>

type_synonym ('e, 'a) run = "('e + 'a) option"

definition run_bind :: "('e, 'a) run \<Rightarrow> ('a \<Rightarrow> ('e, 'b) run) \<Rightarrow> ('e, 'b) run" where
  "run_bind m f =
     (case m of None \<Rightarrow> None | Some (Inl e) \<Rightarrow> Some (Inl e) | Some (Inr x) \<Rightarrow> f x)"

lemma run_bind_simps [simp]:
  "run_bind None f = None" "run_bind (Some (Inl e)) f = Some (Inl e)"
  "run_bind (Some (Inr x)) f = f x"
  by (simp_all add: run_bind_def)

lemma run_bind_eq_Some_Inr [result_simps]:
  "run_bind m f = Some (Inr y) \<longleftrightarrow> (\<exists>x. m = Some (Inr x) \<and> f x = Some (Inr y))"
  by (auto simp: run_bind_def split: option.splits sum.splits)

lemma run_bind_eq_None [result_simps]:
  "run_bind m f = None \<longleftrightarrow> m = None \<or> (\<exists>x. m = Some (Inr x) \<and> f x = None)"
  by (auto simp: run_bind_def split: option.splits sum.splits)

lemma run_bind_Some_res: "run_bind (Some r) f = (case r of Inl e \<Rightarrow> Some (Inl e) | Inr x \<Rightarrow> f x)"
  by (cases r) auto

subsection \<open>Slices\<close>

definition get_at :: "'a list \<Rightarrow> nat \<Rightarrow> 'a option" where
  "get_at xs i = (if i < length xs then Some (xs ! i) else None)"

definition subslice :: "'a list \<Rightarrow> nat \<Rightarrow> nat \<Rightarrow> 'a list" where
  "subslice xs a b = take (b - a) (drop a xs)"

lemma get_at_Some [result_simps]: "(get_at xs i = Some x) = (i < length xs \<and> xs ! i = x)"
  by (auto simp: get_at_def)

lemma get_at_None [result_simps]: "(get_at xs i = None) = (length xs \<le> i)"
  by (auto simp: get_at_def)

lemma get_at_less [simp]: "i < length xs \<Longrightarrow> get_at xs i = Some (xs ! i)"
  by (simp add: get_at_def)

lemma length_subslice [simp]: "b \<le> length xs \<Longrightarrow> length (subslice xs a b) = b - a"
  by (simp add: subslice_def)

lemma subslice_nth: "i < b - a \<Longrightarrow> b \<le> length xs \<Longrightarrow> subslice xs a b ! i = xs ! (a + i)"
  by (simp add: subslice_def)

lemma subslice_full [simp]: "subslice xs 0 (length xs) = xs"
  by (simp add: subslice_def)

lemma subslice_empty [simp]: "b \<le> a \<Longrightarrow> subslice xs a b = []"
  by (simp add: subslice_def)

lemma subslice_0: "subslice xs 0 n = take n xs"
  by (simp add: subslice_def)

lemma subslice_to_end: "subslice xs a (length xs) = drop a xs"
  by (simp add: subslice_def)

lemma subslice_subslice:
  "b + d \<le> c \<Longrightarrow> subslice (subslice xs a (a + c)) b (b + d) = subslice xs (a + b) (a + b + d)"
  by (simp add: subslice_def drop_take add.commute min_def)

lemma subslice_append_subslice:
  "a \<le> b \<Longrightarrow> b \<le> c \<Longrightarrow> subslice xs a b @ subslice xs b c = subslice xs a c"
proof -
  assume ab: "a \<le> b" and bc: "b \<le> c"
  have "take (b - a) (drop a xs) @ take (c - b) (drop (b - a) (drop a xs))
      = take ((b - a) + (c - b)) (drop a xs)"
    by (rule take_add [symmetric])
  with ab bc show ?thesis by (simp add: subslice_def)
qed

lemma subslice_append1: "b \<le> length xs \<Longrightarrow> subslice (xs @ ys) a b = subslice xs a b"
  by (cases "a \<le> b") (simp_all add: subslice_def)

lemma subslice_append2: "length xs \<le> a \<Longrightarrow> subslice (xs @ ys) a b = subslice ys (a - length xs) (b - length xs)"
  by (simp add: subslice_def)

lemma subslice_append_at: "n = length ys \<Longrightarrow> subslice (xs @ ys @ zs) (length xs) (length xs + n) = ys"
  by (simp add: subslice_def)

lemma subslice_take: "b \<le> n \<Longrightarrow> subslice (take n xs) a b = subslice xs a b"
  by (simp add: subslice_def drop_take min_def)

lemma subslice_drop: "subslice (drop n xs) a b = subslice xs (n + a) (n + b)"
  by (simp add: subslice_def add.commute)

lemma set_subslice: "set (subslice xs a b) \<subseteq> set xs"
  by (auto simp: subslice_def dest!: in_set_takeD in_set_dropD)

subsection \<open>Little-endian integers\<close>

fun le_nat :: "bytes \<Rightarrow> nat" where
  "le_nat [] = 0"
| "le_nat (b # bs) = unat b + 256 * le_nat bs"

fun le_bytes :: "nat \<Rightarrow> nat \<Rightarrow> bytes" where
  "le_bytes 0 x = []"
| "le_bytes (Suc n) x = word_of_nat (x mod 256) # le_bytes n (x div 256)"

definition from_le_bytes :: "bytes \<Rightarrow> 'a::len word" where
  "from_le_bytes bs = word_of_nat (le_nat bs)"

definition to_le_bytes :: "'a::len word \<Rightarrow> bytes" where
  "to_le_bytes w = le_bytes (LENGTH('a) div 8) (unat w)"

lemma unat_byte_less: "unat (b :: byte) < 256"
  using unsigned_less [of b] by simp

lemma length_le_bytes [simp]: "length (le_bytes n x) = n"
  by (induction n arbitrary: x) auto

lemma le_nat_less: "le_nat bs < 256 ^ length bs"
proof (induction bs)
  case Nil
  then show ?case by simp
next
  case (Cons b bs)
  have "unat b < 256" by (rule unat_byte_less)
  with Cons show ?case by simp
qed

lemma unat_word_of_nat_byte [simp]: "unat (word_of_nat (x mod 256) :: byte) = x mod 256"
  by (simp add: unat_of_nat)

lemma le_nat_le_bytes: "le_nat (le_bytes n x) = x mod 256 ^ n"
proof (induction n arbitrary: x)
  case 0
  then show ?case by simp
next
  case (Suc n)
  have "x mod (256 * 256 ^ n) = 256 * (x div 256 mod 256 ^ n) + x mod 256"
    by (rule mod_mult2_eq)
  with Suc show ?case by simp
qed

lemma le_bytes_le_nat: "length bs = n \<Longrightarrow> le_bytes n (le_nat bs) = bs"
proof (induction bs arbitrary: n)
  case Nil
  then show ?case by simp
next
  case (Cons b bs)
  have b: "unat b < 256" by (rule unat_byte_less)
  then have "(unat b + 256 * le_nat bs) mod 256 = unat b"
    and "(unat b + 256 * le_nat bs) div 256 = le_nat bs" by auto
  with Cons show ?case by auto
qed

lemma le_nat_append: "le_nat (xs @ ys) = le_nat xs + 256 ^ length xs * le_nat ys"
  by (induction xs) (simp_all add: algebra_simps)

lemma length_to_le_bytes [simp]: "length (to_le_bytes (w :: 'a::len word)) = LENGTH('a) div 8"
  by (simp add: to_le_bytes_def)

lemma pow256: "(256 :: nat) ^ n = 2 ^ (8 * n)"
  by (simp add: power_mult)

lemma from_to_le_bytes [simp]:
  assumes "8 dvd LENGTH('a::len)"
  shows "from_le_bytes (to_le_bytes (w :: 'a word)) = w"
proof -
  from assms have "8 * (LENGTH('a) div 8) = LENGTH('a)" by simp
  then have "unat w mod 256 ^ (LENGTH('a) div 8) = unat w"
    using unsigned_less [of w] by (simp add: pow256)
  then show ?thesis
    by (simp add: from_le_bytes_def to_le_bytes_def le_nat_le_bytes)
qed

lemma unat_from_le_bytes:
  assumes "8 * length bs \<le> LENGTH('a::len)"
  shows "unat (from_le_bytes bs :: 'a word) = le_nat bs"
proof -
  have "le_nat bs < 2 ^ (8 * length bs)" using le_nat_less [of bs] by (simp add: pow256)
  also have "\<dots> \<le> 2 ^ LENGTH('a)" using assms by (intro power_increasing) auto
  finally show ?thesis by (simp add: from_le_bytes_def unat_of_nat)
qed

lemma to_from_le_bytes:
  assumes "8 * length bs = LENGTH('a::len)"
  shows "to_le_bytes (from_le_bytes bs :: 'a word) = bs"
proof -
  have "unat (from_le_bytes bs :: 'a word) = le_nat bs"
    by (rule unat_from_le_bytes) (simp add: assms)
  moreover have "LENGTH('a) div 8 = length bs" using assms by presburger
  ultimately show ?thesis by (simp add: to_le_bytes_def le_bytes_le_nat)
qed

subsection \<open>Arithmetic on 64-bit positions\<close>

definition checked_add64 :: "nat \<Rightarrow> nat \<Rightarrow> nat option" where
  [width_defs]: "checked_add64 a b = (if a + b < 2 ^ 64 then Some (a + b) else None)"

definition checked_mul64 :: "nat \<Rightarrow> nat \<Rightarrow> nat option" where
  [width_defs]: "checked_mul64 a b = (if a * b < 2 ^ 64 then Some (a * b) else None)"

definition checked_sub :: "nat \<Rightarrow> nat \<Rightarrow> nat option" where
  [width_defs]: "checked_sub a b = (if b \<le> a then Some (a - b) else None)"

definition saturating_add64 :: "nat \<Rightarrow> nat \<Rightarrow> nat" where
  [width_defs]: "saturating_add64 a b = min (a + b) (2 ^ 64 - 1)"

definition saturating_mul64 :: "nat \<Rightarrow> nat \<Rightarrow> nat" where
  [width_defs]: "saturating_mul64 a b = min (a * b) (2 ^ 64 - 1)"

definition wrapping_add64 :: "nat \<Rightarrow> nat \<Rightarrow> nat" where
  [width_defs]: "wrapping_add64 a b = (a + b) mod 2 ^ 64"

definition u32_try_from :: "nat \<Rightarrow> u32 option" where
  [width_defs]: "u32_try_from x = (if x < 2 ^ 32 then Some (word_of_nat x) else None)"

lemma checked_add64_Some [result_simps]:
  "(checked_add64 a b = Some c) = (c = a + b \<and> a + b < 2 ^ 64)"
  by (auto simp: checked_add64_def)

lemma checked_add64_None [result_simps]: "(checked_add64 a b = None) = (2 ^ 64 \<le> a + b)"
  by (auto simp: checked_add64_def)

lemma checked_mul64_Some [result_simps]:
  "(checked_mul64 a b = Some c) = (c = a * b \<and> a * b < 2 ^ 64)"
  by (auto simp: checked_mul64_def)

lemma checked_sub_Some [result_simps]: "(checked_sub a b = Some c) = (b \<le> a \<and> c = a - b)"
  by (auto simp: checked_sub_def)

lemma u32_try_from_Some [result_simps]:
  "(u32_try_from x = Some w) = (x < 2 ^ 32 \<and> unat w = x)"
  by (auto simp: u32_try_from_def unat_of_nat)

lemma u32_try_from_unat [simp]: "u32_try_from (unat (w :: u32)) = Some w"
  using unsigned_less [of w] by (simp add: u32_try_from_def)

lemma unat_u32_less: "unat (w :: u32) < 2 ^ 32"
  using unsigned_less [of w] by simp

lemma unat_u64_less: "unat (w :: u64) < 2 ^ 64"
  using unsigned_less [of w] by simp

subsection \<open>Going through a sequence piece by piece\<close>

lemma chunk_step:
  assumes "offset < length F" "0 < n"
  defines "piece \<equiv> take n (drop offset F)"
  shows "0 < length piece" "offset + length piece \<le> length F"
    and "length F - (offset + length piece) < length F - offset"
    and "take (offset + length piece) F = take offset F @ piece"
  using assms by (auto simp: piece_def take_add min_def)

end
