(* ===== verification/Errors.thy ===== *)
theory Errors
  imports Prelude
begin

text \<open>
  The crate-wide error type of \<open>src/src/error.rs\<close>. The human-readable part of an \<open>Io\<close>,
  \<open>Decode\<close> or \<open>Encode\<close> error is the format string of the source that raises it; the values
  the source interpolates into that string are not rendered.
\<close>

datatype error =
    Io string
  | TruncatedHeader nat
  | BadMagic nat
  | NotADwarfsImage
  | is_UnsupportedVersion: UnsupportedVersion "8 word" "8 word"
  | TruncatedSection "32 word" nat
  | CorruptSectionIndex string
  | IntegrityMismatch "32 word" string
  | CapExceeded string nat nat
  | CodecDisabled string
  | CodecUnimplemented string
  | SourceOutOfBounds nat nat nat
  | UnsupportedFeature string
  | UnknownCompression "16 word"
  | Decode string string
  | Encode string string

type_synonym 'a result = "error + 'a"

end
