(* ===== verification/Leb128.thy ===== *)
theory Leb128
  imports Errors
begin

text \<open>
  The unsigned LEB128 encoding shared by the brotli framing (\<open>src/src/compression/brotli.rs\<close>)
  and the Thrift reader (\<open>src/src/metadata/thrift.rs\<close>): the checked shift both readers use, the
  writer of their tests, and the bit-level step both round trips rest on.
\<close>

definition checked_shl64 :: "u64 \<Rightarrow> nat \<Rightarrow> u64 option" where
  "checked_shl64 x shift = (if shift < 64 then Some (push_bit shift x) else None)"

function write_varint :: "u64 \<Rightarrow> bytes" where
  "write_varint v =
     (let byte = ucast (v AND 0x7F) :: byte; v' = drop_bit 7 v in
      if v' \<noteq> 0 then (byte OR 0x80) # write_varint v' else [byte])"
  by pat_completeness auto

lemma unat_drop7: "unat (drop_bit 7 (v :: u64)) = unat v div 128"
  by (simp only: unat_drop_bit_eq drop_bit_eq_div [of 7 "unat v"]) simp

lemma drop7_decreases: "drop_bit 7 (v :: u64) \<noteq> 0 \<Longrightarrow> unat (drop_bit 7 v) < unat v"
proof -
  assume "drop_bit 7 v \<noteq> 0"
  then have "unat v \<noteq> 0" by (auto simp: unat_eq_0)
  then show ?thesis by (simp add: unat_drop7)
qed

termination write_varint
  by (relation "measure unat") (simp_all add: drop7_decreases)

declare write_varint.simps [simp del]

lemma byte_masks: "(0x7F :: byte) = mask 7" "(0x7F :: u64) = mask 7"
  by (simp_all add: mask_eq_exp_minus_1)

lemma bit_0x80: "bit (0x80 :: int) n \<longleftrightarrow> n = 7"
proof -
  have "(0x80 :: int) = 2 ^ 7" by simp
  then show ?thesis by (auto simp only: bit_exp_iff possible_bit_int)
qed

lemma low7_bits [simp]: "(x OR 0x80) AND 0x80 = (0x80 :: byte)"
  by (rule bit_word_eqI) (auto simp: bit_simps bit_0x80)

lemma low7_stop [simp]: "ucast (v AND 0x7F :: u64) AND 0x80 = (0 :: byte)"
  unfolding byte_masks by (rule bit_word_eqI) (auto simp: bit_simps bit_0x80)

lemma low7_value: "ucast ((ucast (v AND 0x7F) :: byte) AND 0x7F) = (v AND 0x7F :: u64)"
  unfolding byte_masks by (rule bit_word_eqI) (auto simp: bit_simps)

lemma low7_value_cont:
  "ucast (((ucast (v AND 0x7F) :: byte) OR 0x80) AND 0x7F) = (v AND 0x7F :: u64)"
  unfolding byte_masks by (rule bit_word_eqI) (auto simp: bit_simps bit_0x80)

lemma varint_join:
  "push_bit s (v AND 0x7F) OR push_bit (s + 7) (drop_bit 7 v) = push_bit s (v :: u64)"
  unfolding byte_masks
proof (rule bit_word_eqI)
  fix n assume "n < LENGTH(64)"
  have "7 + (n - (s + 7)) = n - s" if "s + 7 \<le> n" using that by simp
  then show "bit (push_bit s (v AND mask 7) OR push_bit (s + 7) (drop_bit 7 v)) n
      = bit (push_bit s v) n"
    using \<open>n < LENGTH(64)\<close> by (cases "s + 7 \<le> n") (auto simp: bit_simps)
qed

lemma low7_all: "drop_bit 7 v = 0 \<Longrightarrow> v AND 0x7F = (v :: u64)"
  using varint_join [of 0 v] by simp

lemma write_varint_last:
  "drop_bit 7 v = 0 \<Longrightarrow>
     \<exists>b. write_varint v = [b] \<and> b AND 0x80 = 0 \<and> ucast (b AND 0x7F) = v"
proof (intro exI conjI)
  assume last_byte: "drop_bit 7 v = 0"
  show "write_varint v = [ucast (v AND 0x7F)]"
    by (simp only: write_varint.simps [of v] Let_def last_byte simp_thms if_False)
  show "ucast (v AND 0x7F) AND 0x80 = (0 :: byte)" by (rule low7_stop)
  show "ucast ((ucast (v AND 0x7F) :: byte) AND 0x7F) = v"
    by (rule trans [OF low7_value low7_all [OF last_byte]])
qed

lemma write_varint_more:
  "drop_bit 7 v \<noteq> 0 \<Longrightarrow>
     \<exists>b. write_varint v = b # write_varint (drop_bit 7 v) \<and> b AND 0x80 \<noteq> 0
       \<and> ucast (b AND 0x7F) = v AND 0x7F"
  by (intro exI [of _ "ucast (v AND 0x7F) OR 0x80"])
    (simp only: write_varint.simps [of v] Let_def low7_bits low7_value_cont simp_thms if_True, simp)

lemma varint_fits_step:
  assumes "unat (v :: u64) * 2 ^ s < 2 ^ 64" "drop_bit 7 v \<noteq> 0"
  shows "unat (drop_bit 7 v) * 2 ^ (s + 7) < 2 ^ 64" "s + 7 < 64"
proof -
  have "unat v div 128 * 128 * 2 ^ s \<le> unat v * 2 ^ s" by (rule mult_le_mono1) simp
  moreover have "unat v div 128 * 128 * 2 ^ s = unat (drop_bit 7 v) * 2 ^ (s + 7)"
    unfolding unat_drop7 power_add by simp
  ultimately show fits: "unat (drop_bit 7 v) * 2 ^ (s + 7) < 2 ^ 64"
    using assms(1) by (simp only:)
  have "1 \<le> unat (drop_bit 7 v)"
    using assms(2) by (metis One_nat_def Suc_leI neq0_conv unat_eq_0)
  then have "1 * (2 :: nat) ^ (s + 7) \<le> unat (drop_bit 7 v) * 2 ^ (s + 7)"
    by (rule mult_le_mono1)
  from le_less_trans [OF this fits] have "(2 :: nat) ^ (s + 7) < 2 ^ 64" by (simp only: mult_1)
  then show "s + 7 < 64" by (rule power_less_imp_less_exp [rotated]) simp
qed

lemma length_write_varint_bound: "unat v < 2 ^ (7 * Suc k) \<Longrightarrow> length (write_varint v) \<le> Suc k"
proof (induction k arbitrary: v)
  case 0
  then have "drop_bit 7 v = 0" by (simp add: unat_eq_0 [symmetric] unat_drop7)
  then show ?case by (simp add: write_varint.simps [of v])
next
  case (Suc k)
  then have "unat v < 2 ^ (7 * Suc k) * 128" by (simp add: power_add)
  then have "unat (drop_bit 7 v) < 2 ^ (7 * Suc k)"
    unfolding unat_drop7 by (rule less_mult_imp_div_less)
  with Suc.IH [of "drop_bit 7 v"] show ?case by (simp add: write_varint.simps [of v] Let_def)
qed

lemma length_write_varint: "length (write_varint v) \<le> 10"
proof -
  have "unat v < 2 ^ 64" by (rule unat_u64_less)
  then have "unat v < 2 ^ (7 * Suc 9)" by simp
  from length_write_varint_bound [OF this] show ?thesis by simp
qed

end
