(* ===== verification/Thrift.thy ===== *)
theory Thrift
  imports Leb128
begin

text \<open>
  \<open>src/src/metadata/thrift.rs\<close>: the Thrift compact-protocol reader. A method of the source that
  returns \<open>Result<T, Error>\<close> from \<open>&mut self\<close> is a function from the reader to a result that
  pairs the value with the reader after it. The signed integer types are \<open>int\<close> with the range
  checks of \<open>try_from\<close>; strings are validated UTF-8 bytes.

  \<open>skip_value\<close> recurses as deep as the input nests, so it runs on a depth fuel, and a loop over
  the fields of a struct on a count of fields. Both are shown to suffice at one more than the
  number of bytes left.
\<close>

datatype ttype =
    TStop | TBoolTrue | TBoolFalse | TI8 | TI16 | TI32 | TI64 | TDouble | TBinary
  | TList | TSet | TMap | TStruct

definition thrift_error :: "string \<Rightarrow> error" where
  "thrift_error message = Decode ''thrift'' message"

definition ttype_from_code :: "byte \<Rightarrow> ttype result" where
  "ttype_from_code code =
     (let c = code AND 0x0F in
      if c = 0 then Inr TStop
      else if c = 1 then Inr TBoolTrue
      else if c = 2 then Inr TBoolFalse
      else if c = 3 then Inr TI8
      else if c = 4 then Inr TI16
      else if c = 5 then Inr TI32
      else if c = 6 then Inr TI64
      else if c = 7 then Inr TDouble
      else if c = 8 then Inr TBinary
      else if c = 9 then Inr TList
      else if c = 10 then Inr TSet
      else if c = 11 then Inr TMap
      else if c = 12 then Inr TStruct
      else Inl (thrift_error ''unknown thrift type code {other}''))"

record field_header =
  fh_ttype :: ttype
  fh_id :: int

record thrift_reader =
  tr_bytes :: bytes
  tr_pos :: nat
  tr_last_field_id :: int
  tr_stack :: "int list"

type_synonym 'a thrift = "thrift_reader \<Rightarrow> ('a \<times> thrift_reader) result"

definition thrift_new :: "bytes \<Rightarrow> thrift_reader" where
  "thrift_new bs = \<lparr>tr_bytes = bs, tr_pos = 0, tr_last_field_id = 0, tr_stack = []\<rparr>"

definition read_byte :: "byte thrift" where
  "read_byte r =
     and_then (ok_or (get_at (tr_bytes r) (tr_pos r))
                (thrift_error ''unexpected end of thrift input'')) (\<lambda>b.
     Inr (b, r\<lparr>tr_pos := tr_pos r + 1\<rparr>))"

definition read_slice :: "nat \<Rightarrow> bytes thrift" where
  "read_slice len r =
     and_then (ok_or (checked_add64 (tr_pos r) len)
                (thrift_error ''length overflow in thrift input'')) (\<lambda>e.
     if length (tr_bytes r) < e
     then Inl (thrift_error ''thrift slice of {len} bytes at {} runs past end'')
     else Inr (subslice (tr_bytes r) (tr_pos r) e, r\<lparr>tr_pos := e\<rparr>))"

primrec read_varint_from :: "nat \<Rightarrow> u64 \<Rightarrow> nat \<Rightarrow> u64 thrift" where
  "read_varint_from 0 res shift r = Inl (thrift_error ''varint too long'')"
| "read_varint_from (Suc n) res shift r =
     and_then (read_byte r) (\<lambda>(b, r).
     and_then (ok_or (checked_shl64 (ucast (b AND 0x7F)) shift)
                (thrift_error ''varint overflow'')) (\<lambda>chunk.
     let res' = res OR chunk in
     if b AND 0x80 = 0 then Inr (res', r)
     else read_varint_from n res' (shift + 7) r))"

definition read_varint_u64 :: "u64 thrift" where
  "read_varint_u64 r = read_varint_from 10 0 0 r"

definition zigzag_decode :: "u64 \<Rightarrow> int" where
  "zigzag_decode v = sint (drop_bit 1 v XOR - (v AND 1))"

definition read_zigzag_i64 :: "int thrift" where
  "read_zigzag_i64 r = and_then (read_varint_u64 r) (\<lambda>(v, r). Inr (zigzag_decode v, r))"

definition read_i16 :: "int thrift" where
  "read_i16 r =
     and_then (read_zigzag_i64 r) (\<lambda>(v, r).
     if - (2 ^ 15) \<le> v \<and> v < 2 ^ 15 then Inr (v, r)
     else Inl (thrift_error ''value {v} out of range for i16''))"

definition read_i32 :: "int thrift" where
  "read_i32 r =
     and_then (read_zigzag_i64 r) (\<lambda>(v, r).
     if - (2 ^ 31) \<le> v \<and> v < 2 ^ 31 then Inr (v, r)
     else Inl (thrift_error ''value {v} out of range for i32''))"

definition read_i64 :: "int thrift" where
  "read_i64 r = read_zigzag_i64 r"

definition read_i8 :: "int thrift" where
  "read_i8 r = and_then (read_byte r) (\<lambda>(b, r). Inr (sint b, r))"

definition read_binary :: "bytes thrift" where
  "read_binary r = and_then (read_varint_u64 r) (\<lambda>(len, r). read_slice (unat len) r)"

text \<open>\<open>std::str::from_utf8\<close>: the well-formed byte sequences of the Unicode standard.\<close>

definition utf8_tail :: "byte \<Rightarrow> bool" where
  "utf8_tail b \<longleftrightarrow> 0x80 \<le> b \<and> b \<le> 0xBF"

fun utf8_valid :: "bytes \<Rightarrow> bool" where
  "utf8_valid [] = True"
| "utf8_valid (b # bs) =
     (if b \<le> 0x7F then utf8_valid bs
      else if 0xC2 \<le> b \<and> b \<le> 0xDF then
        (case bs of c # rest \<Rightarrow> utf8_tail c \<and> utf8_valid rest | _ \<Rightarrow> False)
      else if 0xE0 \<le> b \<and> b \<le> 0xEF then
        (case bs of
           c # d # rest \<Rightarrow>
             utf8_tail c \<and> utf8_tail d \<and> (b = 0xE0 \<longrightarrow> 0xA0 \<le> c) \<and> (b = 0xED \<longrightarrow> c \<le> 0x9F)
             \<and> utf8_valid rest
         | _ \<Rightarrow> False)
      else if 0xF0 \<le> b \<and> b \<le> 0xF4 then
        (case bs of
           c # d # e # rest \<Rightarrow>
             utf8_tail c \<and> utf8_tail d \<and> utf8_tail e \<and> (b = 0xF0 \<longrightarrow> 0x90 \<le> c)
             \<and> (b = 0xF4 \<longrightarrow> c \<le> 0x8F) \<and> utf8_valid rest
         | _ \<Rightarrow> False)
      else False)"

definition read_string :: "bytes thrift" where
  "read_string r =
     and_then (read_binary r) (\<lambda>(bs, r).
     if utf8_valid bs then Inr (bs, r) else Inl (thrift_error ''non-utf8 thrift string''))"

definition read_list_header :: "(ttype \<times> nat) thrift" where
  "read_list_header r =
     and_then (read_byte r) (\<lambda>(header, r).
     and_then (ttype_from_code header) (\<lambda>etype.
     let small = drop_bit 4 header AND 0x0F in
     if small = 0x0F then
       and_then (read_varint_u64 r) (\<lambda>(big, r).
       and_then (ok_or (u32_try_from (unat big)) (thrift_error ''list length {big} exceeds u32''))
         (\<lambda>count. Inr ((etype, unat count), r)))
     else Inr ((etype, unat small), r)))"

definition read_set_header :: "(ttype \<times> nat) thrift" where
  "read_set_header r = read_list_header r"

definition read_map_header :: "(ttype \<times> ttype \<times> nat) thrift" where
  "read_map_header r =
     and_then (read_varint_u64 r) (\<lambda>(count, r).
     and_then (ok_or (u32_try_from (unat count)) (thrift_error ''map length {count} exceeds u32''))
       (\<lambda>count.
     if count = 0 then Inr ((TStop, TStop, 0), r)
     else and_then (read_byte r) (\<lambda>(kv, r).
       and_then (ttype_from_code (drop_bit 4 kv)) (\<lambda>key.
       and_then (ttype_from_code (kv AND 0x0F)) (\<lambda>val.
       Inr ((key, val, unat count), r))))))"

definition read_struct_begin :: "thrift_reader \<Rightarrow> thrift_reader" where
  "read_struct_begin r =
     r\<lparr>tr_stack := tr_last_field_id r # tr_stack r, tr_last_field_id := 0\<rparr>"

definition read_struct_end :: "thrift_reader \<Rightarrow> thrift_reader" where
  "read_struct_end r =
     (case tr_stack r of
        [] \<Rightarrow> r\<lparr>tr_last_field_id := 0\<rparr>
      | x # xs \<Rightarrow> r\<lparr>tr_last_field_id := x, tr_stack := xs\<rparr>)"

definition checked_add_i16 :: "int \<Rightarrow> int \<Rightarrow> int option" where
  "checked_add_i16 a b =
     (if - (2 ^ 15) \<le> a + b \<and> a + b < 2 ^ 15 then Some (a + b) else None)"

definition read_field_header :: "field_header option thrift" where
  "read_field_header r =
     and_then (read_byte r) (\<lambda>(b, r).
     if b = 0 then Inr (None, r)
     else and_then (ttype_from_code (b AND 0x0F)) (\<lambda>ttype.
       let delta = drop_bit 4 b AND 0x0F in
       and_then
         (if delta = 0 then read_i16 r
          else and_then (ok_or (checked_add_i16 (tr_last_field_id r) (uint delta))
                          (thrift_error ''field id delta overflow'')) (\<lambda>id. Inr (id, r)))
         (\<lambda>(id, r). Inr (Some \<lparr>fh_ttype = ttype, fh_id = id\<rparr>, r\<lparr>tr_last_field_id := id\<rparr>))))"

definition read_bool_element :: "bool thrift" where
  "read_bool_element r = and_then (read_byte r) (\<lambda>(b, r). Inr (b \<noteq> 0, r))"

subsection \<open>Loops\<close>

type_synonym 'a thrift_run = "thrift_reader \<Rightarrow> (error, 'a \<times> thrift_reader) run"

text \<open>\<open>for _ in 0..count\<close>, threading an accumulator.\<close>

primrec repeat_read :: "('a \<Rightarrow> 'a thrift_run) \<Rightarrow> nat \<Rightarrow> 'a \<Rightarrow> 'a thrift_run" where
  "repeat_read f 0 acc r = Some (Inr (acc, r))"
| "repeat_read f (Suc n) acc r = run_bind (f acc r) (\<lambda>(acc, r). repeat_read f n acc r)"

text \<open>\<open>while let Some(field) = r.read_field_header()?\<close>, threading an accumulator.\<close>

primrec while_fields :: "(field_header \<Rightarrow> 'a \<Rightarrow> 'a thrift_run) \<Rightarrow> nat \<Rightarrow> 'a \<Rightarrow> 'a thrift_run" where
  "while_fields f 0 acc r = None"
| "while_fields f (Suc n) acc r =
     run_bind (Some (read_field_header r)) (\<lambda>(field, r).
     case field of
       None \<Rightarrow> Some (Inr (acc, r))
     | Some fh \<Rightarrow> run_bind (f fh acc r) (\<lambda>(acc, r). while_fields f n acc r))"

definition remaining :: "thrift_reader \<Rightarrow> nat" where
  "remaining r = length (tr_bytes r) - tr_pos r"

text \<open>A struct: its frame pushed, its fields, its frame popped.\<close>

definition read_struct :: "(field_header \<Rightarrow> 'a \<Rightarrow> 'a thrift_run) \<Rightarrow> 'a \<Rightarrow> 'a thrift_run" where
  "read_struct f acc r =
     run_bind (while_fields f (Suc (remaining r)) acc (read_struct_begin r)) (\<lambda>(acc, r).
     Some (Inr (acc, read_struct_end r)))"

definition discard :: "'a thrift \<Rightarrow> unit thrift_run" where
  "discard m r = Some (and_then (m r) (\<lambda>(x, r). Inr ((), r)))"

definition skip_element_with :: "(ttype \<Rightarrow> unit thrift_run) \<Rightarrow> ttype \<Rightarrow> unit thrift_run" where
  "skip_element_with skip t r =
     (if t = TBoolTrue \<or> t = TBoolFalse then discard read_byte r else skip t r)"

primrec skip_depth :: "nat \<Rightarrow> ttype \<Rightarrow> unit thrift_run" where
  "skip_depth 0 t r = None"
| "skip_depth (Suc d) t r =
     (case t of
        TStop \<Rightarrow> Some (Inr ((), r))
      | TBoolTrue \<Rightarrow> Some (Inr ((), r))
      | TBoolFalse \<Rightarrow> Some (Inr ((), r))
      | TI8 \<Rightarrow> discard read_byte r
      | TI16 \<Rightarrow> discard read_varint_u64 r
      | TI32 \<Rightarrow> discard read_varint_u64 r
      | TI64 \<Rightarrow> discard read_varint_u64 r
      | TDouble \<Rightarrow> discard (read_slice 8) r
      | TBinary \<Rightarrow> discard read_binary r
      | TList \<Rightarrow>
          run_bind (Some (read_list_header r)) (\<lambda>((etype, count), r).
          repeat_read (\<lambda>_. skip_element_with (skip_depth d) etype) count () r)
      | TSet \<Rightarrow>
          run_bind (Some (read_list_header r)) (\<lambda>((etype, count), r).
          repeat_read (\<lambda>_. skip_element_with (skip_depth d) etype) count () r)
      | TMap \<Rightarrow>
          run_bind (Some (read_map_header r)) (\<lambda>((kt, vt, count), r).
          repeat_read (\<lambda>_ r.
            run_bind (skip_element_with (skip_depth d) kt r) (\<lambda>(_, r).
            skip_element_with (skip_depth d) vt r)) count () r)
      | TStruct \<Rightarrow> read_struct (\<lambda>fh _. skip_depth d (fh_ttype fh)) () r)"

definition skip_value :: "ttype \<Rightarrow> unit thrift_run" where
  "skip_value t r = skip_depth (Suc (remaining r)) t r"

subsection \<open>Progress\<close>

text \<open>A reader only moves forward over the same bytes.\<close>

definition advances :: "thrift_reader \<Rightarrow> thrift_reader \<Rightarrow> bool" where
  "advances r r' \<longleftrightarrow>
     tr_bytes r' = tr_bytes r \<and> tr_pos r \<le> tr_pos r'
     \<and> (tr_pos r \<le> length (tr_bytes r) \<longrightarrow> tr_pos r' \<le> length (tr_bytes r))"

definition same_frame :: "thrift_reader \<Rightarrow> thrift_reader \<Rightarrow> bool" where
  "same_frame r r' \<longleftrightarrow> tr_stack r' = tr_stack r \<and> tr_last_field_id r' = tr_last_field_id r"

definition steps_forward :: "thrift_reader \<Rightarrow> thrift_reader \<Rightarrow> bool" where
  "steps_forward r r' \<longleftrightarrow> advances r r' \<and> remaining r' < remaining r"

named_theorems progress

lemma advances_refl [simp]: "advances r r"
  by (simp add: advances_def)

lemma advances_trans [trans]: "advances r r' \<Longrightarrow> advances r' r'' \<Longrightarrow> advances r r''"
  by (auto simp: advances_def)

lemma same_frame_trans: "same_frame r r' \<Longrightarrow> same_frame r' r'' \<Longrightarrow> same_frame r r''"
  by (simp add: same_frame_def)

lemma same_frame_refl [simp]: "same_frame r r"
  by (simp add: same_frame_def)

lemma advances_remaining: "advances r r' \<Longrightarrow> remaining r' \<le> remaining r"
  by (auto simp: advances_def remaining_def)

lemma steps_forward_advances: "steps_forward r r' \<Longrightarrow> advances r r'"
  by (simp add: steps_forward_def)

lemma steps_forward_trans:
  "steps_forward r r' \<Longrightarrow> advances r' r'' \<Longrightarrow> steps_forward r r''"
  "advances r r' \<Longrightarrow> steps_forward r' r'' \<Longrightarrow> steps_forward r r''"
  using advances_trans by (auto simp: steps_forward_def dest: advances_remaining)

lemma read_byte_progress:
  "read_byte r = Inr (b, r') \<Longrightarrow> steps_forward r r' \<and> same_frame r r'"
  by (auto simp: read_byte_def result_simps steps_forward_def advances_def remaining_def
      same_frame_def)

lemma read_slice_progress: "read_slice n r = Inr (b, r') \<Longrightarrow> advances r r' \<and> same_frame r r'"
  by (auto simp: read_slice_def result_simps advances_def same_frame_def split: if_splits)

lemma read_varint_from_progress:
  "read_varint_from n res shift r = Inr (v, r') \<Longrightarrow> steps_forward r r' \<and> same_frame r r'"
proof (induction n arbitrary: res shift r)
  case 0
  then show ?case by simp
next
  case (Suc n)
  then obtain b r1 where b: "read_byte r = Inr (b, r1)"
    and rest: "r' = r1 \<or> (\<exists>res shift. read_varint_from n res shift r1 = Inr (v, r'))"
    by (auto simp: result_simps Let_def split: if_splits)
  with Suc.IH read_byte_progress [OF b] show ?case
    by (blast dest: steps_forward_advances same_frame_trans steps_forward_trans)
qed

lemma read_varint_progress:
  "read_varint_u64 r = Inr (v, r') \<Longrightarrow> steps_forward r r' \<and> same_frame r r'"
  unfolding read_varint_u64_def by (rule read_varint_from_progress)

lemma read_binary_progress:
  "read_binary r = Inr (v, r') \<Longrightarrow> steps_forward r r' \<and> same_frame r r'"
  by (auto simp: read_binary_def result_simps dest!: read_varint_progress read_slice_progress
      intro: steps_forward_trans same_frame_trans)

lemma read_zigzag_progress:
  "read_zigzag_i64 r = Inr (v, r') \<Longrightarrow> steps_forward r r' \<and> same_frame r r'"
  by (auto simp: read_zigzag_i64_def result_simps dest!: read_varint_progress)

lemma read_i16_progress: "read_i16 r = Inr (v, r') \<Longrightarrow> steps_forward r r' \<and> same_frame r r'"
  by (auto simp: read_i16_def result_simps dest!: read_zigzag_progress split: if_splits)

lemma read_i32_progress: "read_i32 r = Inr (v, r') \<Longrightarrow> steps_forward r r' \<and> same_frame r r'"
  by (auto simp: read_i32_def result_simps dest!: read_zigzag_progress split: if_splits)

lemma read_i64_progress: "read_i64 r = Inr (v, r') \<Longrightarrow> steps_forward r r' \<and> same_frame r r'"
  by (simp add: read_i64_def read_zigzag_progress)

lemma read_string_progress:
  "read_string r = Inr (v, r') \<Longrightarrow> steps_forward r r' \<and> same_frame r r'"
  by (auto simp: read_string_def result_simps dest!: read_binary_progress split: if_splits)

lemma read_list_header_progress:
  "read_list_header r = Inr (v, r') \<Longrightarrow> steps_forward r r' \<and> same_frame r r'"
  by (auto simp: read_list_header_def Let_def result_simps split: if_splits
      dest!: read_byte_progress read_varint_progress
      intro: steps_forward_trans same_frame_trans steps_forward_advances)

lemma read_map_header_progress:
  "read_map_header r = Inr (v, r') \<Longrightarrow> steps_forward r r' \<and> same_frame r r'"
  by (auto simp: read_map_header_def result_simps split: if_splits
      dest!: read_byte_progress read_varint_progress
      intro: steps_forward_trans same_frame_trans steps_forward_advances)

lemma read_field_header_progress:
  "read_field_header r = Inr (f, r') \<Longrightarrow> steps_forward r r' \<and> tr_stack r' = tr_stack r"
  by (auto simp: read_field_header_def Let_def result_simps steps_forward_def advances_def
      same_frame_def remaining_def split: if_splits
      dest!: read_byte_progress read_i16_progress)

subsection \<open>Loops restore the frame, and their fuel suffices\<close>

definition forward_body :: "('a \<Rightarrow> 'a thrift_run) \<Rightarrow> bool" where
  "forward_body f \<longleftrightarrow>
     (\<forall>acc r acc' r'. f acc r = Some (Inr (acc', r')) \<longrightarrow> advances r r' \<and> same_frame r r')"

lemma forward_bodyD:
  assumes "forward_body f" "f acc r = Some (Inr (acc', r'))"
  shows "advances r r'" "same_frame r r'" "remaining r' \<le> remaining r"
  using assms unfolding forward_body_def by (blast intro: advances_remaining)+

lemma repeat_read_progress:
  assumes "forward_body f"
  shows "repeat_read f n acc r = Some (Inr (acc', r')) \<Longrightarrow> advances r r' \<and> same_frame r r'"
proof (induction n arbitrary: acc r)
  case 0
  then show ?case by simp
next
  case (Suc n)
  then obtain a1 r1 where "f acc r = Some (Inr (a1, r1))"
    and rest: "repeat_read f n a1 r1 = Some (Inr (acc', r'))" by (auto simp: result_simps)
  with assms have "advances r r1 \<and> same_frame r r1" by (auto simp: forward_body_def)
  with Suc.IH [OF rest] show ?case by (auto intro: advances_trans same_frame_trans)
qed

lemma while_fields_progress:
  assumes "\<And>fh. forward_body (f fh)"
  shows "while_fields f n acc r = Some (Inr (acc', r')) \<Longrightarrow>
    steps_forward r r' \<and> tr_stack r' = tr_stack r"
proof (induction n arbitrary: acc r)
  case 0
  then show ?case by simp
next
  case (Suc n)
  then obtain field r1 where h: "read_field_header r = Inr (field, r1)"
    and rest: "(case field of None \<Rightarrow> Some (Inr (acc, r1))
        | Some fh \<Rightarrow> run_bind (f fh acc r1) (\<lambda>(acc, r). while_fields f n acc r))
        = Some (Inr (acc', r'))" by (auto simp: result_simps)
  have h': "steps_forward r r1 \<and> tr_stack r1 = tr_stack r"
    using h by (rule read_field_header_progress)
  show ?case
  proof (cases field)
    case None
    with rest h' show ?thesis by simp
  next
    case (Some fh)
    with rest obtain a2 r2 where "f fh acc r1 = Some (Inr (a2, r2))"
      and tail: "while_fields f n a2 r2 = Some (Inr (acc', r'))" by (auto simp: result_simps)
    with assms have "advances r1 r2 \<and> same_frame r1 r2" by (auto simp: forward_body_def)
    with Suc.IH [OF tail] h' show ?thesis
      by (auto simp: same_frame_def intro: steps_forward_trans steps_forward_advances)
  qed
qed

lemma read_struct_begin_simps [simp]:
  "remaining (read_struct_begin r) = remaining r" "tr_bytes (read_struct_begin r) = tr_bytes r"
  "tr_pos (read_struct_begin r) = tr_pos r"
  "tr_stack (read_struct_begin r) = tr_last_field_id r # tr_stack r"
  by (simp_all add: read_struct_begin_def remaining_def)

lemma read_struct_progress:
  assumes "\<And>fh. forward_body (f fh)" "read_struct f acc r = Some (Inr (acc', r'))"
  shows "steps_forward r r' \<and> same_frame r r'"
proof -
  from assms(2) obtain r1 where
    w: "while_fields f (Suc (remaining r)) acc (read_struct_begin r) = Some (Inr (acc', r1))"
    and r': "r' = read_struct_end r1" by (auto simp: read_struct_def result_simps)
  from while_fields_progress [OF assms(1) w] show ?thesis
    by (auto simp: r' read_struct_end_def steps_forward_def advances_def same_frame_def
        remaining_def)
qed

lemma discard_progress:
  assumes "\<And>x r'. m r = Inr (x, r') \<Longrightarrow> advances r r' \<and> same_frame r r'"
    and "discard m r = Some (Inr (u, r'))"
  shows "advances r r' \<and> same_frame r r'"
  using assms by (auto simp: discard_def result_simps)

definition forward_skip :: "(ttype \<Rightarrow> unit thrift_run) \<Rightarrow> bool" where
  "forward_skip skip \<longleftrightarrow> (\<forall>t. forward_body (\<lambda>_. skip t))"

lemma forward_skipI:
  "(\<And>t r u r'. skip t r = Some (Inr (u, r')) \<Longrightarrow> advances r r' \<and> same_frame r r') \<Longrightarrow> forward_skip skip"
  by (auto simp: forward_skip_def forward_body_def)

lemma forward_skip_bodies:
  assumes "forward_skip skip"
  shows "forward_body (\<lambda>_. skip_element_with skip e)"
    and "forward_body (\<lambda>_ r. run_bind (skip_element_with skip k r)
           (\<lambda>(_, r). skip_element_with skip v r))"
    and "forward_body (\<lambda>_. skip (fh_ttype fh))"
proof -
  have elem: "advances r r' \<and> same_frame r r'" if "skip_element_with skip t r = Some (Inr (u, r'))"
    for t r u r'
    using that assms
    by (auto simp: forward_skip_def forward_body_def skip_element_with_def discard_def result_simps
        steps_forward_advances dest!: read_byte_progress split: if_splits)
  then show "forward_body (\<lambda>_. skip_element_with skip e)"
    unfolding forward_body_def by blast
  show "forward_body (\<lambda>_ r. run_bind (skip_element_with skip k r)
           (\<lambda>(_, r). skip_element_with skip v r))"
    unfolding forward_body_def
    by (auto simp: result_simps dest!: elem intro: advances_trans same_frame_trans)
  show "forward_body (\<lambda>_. skip (fh_ttype fh))"
    using assms by (simp add: forward_skip_def)
qed

lemma skip_depth_progress:
  "skip_depth d t r = Some (Inr (u, r')) \<Longrightarrow> advances r r' \<and> same_frame r r'"
proof (induction d arbitrary: t r u r')
  case 0
  then show ?case by simp
next
  case (Suc d)
  note bodies = forward_skip_bodies [OF forward_skipI [of "skip_depth d", OF Suc.IH]]
  have list: "forward_body (\<lambda>_. skip_element_with (skip_depth d) e)" for e
    by (rule bodies)
  have pair: "forward_body (\<lambda>_ r. run_bind (skip_element_with (skip_depth d) k r)
      (\<lambda>(_, r). skip_element_with (skip_depth d) v r))" for k v
    by (rule bodies)
  have fields: "forward_body (\<lambda>_. skip_depth d (fh_ttype fh))" for fh
    by (rule bodies)
  show ?case
  proof (cases t)
    case TList
    with Suc.prems show ?thesis
      by (auto simp: result_simps dest!: repeat_read_progress [OF list] read_list_header_progress
          steps_forward_advances intro: advances_trans same_frame_trans)
  next
    case TSet
    with Suc.prems show ?thesis
      by (auto simp: result_simps dest!: repeat_read_progress [OF list] read_list_header_progress
          steps_forward_advances intro: advances_trans same_frame_trans)
  next
    case TMap
    with Suc.prems show ?thesis
      by (auto simp: result_simps dest!: repeat_read_progress [OF pair] read_map_header_progress
          steps_forward_advances intro: advances_trans same_frame_trans)
  next
    case TStruct
    with Suc.prems have "read_struct (\<lambda>fh _. skip_depth d (fh_ttype fh)) () r = Some (Inr ((), r'))"
      by simp
    from read_struct_progress [OF fields this] show ?thesis by (auto dest: steps_forward_advances)
  qed (use Suc.prems in \<open>auto simp: discard_def result_simps dest!: read_byte_progress
        read_varint_progress read_binary_progress read_slice_progress steps_forward_advances\<close>)
qed

lemma repeat_read_returns:
  assumes "forward_body f" "\<And>acc r1. remaining r1 \<le> k \<Longrightarrow> f acc r1 \<noteq> None"
  shows "remaining r \<le> k \<Longrightarrow> repeat_read f n acc r \<noteq> None"
proof (induction n arbitrary: acc r)
  case 0
  then show ?case by simp
next
  case (Suc n)
  have "repeat_read f n a1 r1 \<noteq> None" if "f acc r = Some (Inr (a1, r1))" for a1 r1
    using forward_bodyD(3) [OF assms(1) that] Suc.prems by (intro Suc.IH) simp
  with assms(2) [of r acc] Suc.prems show ?case by (auto simp: result_simps)
qed

lemma while_fields_returns:
  assumes "\<And>fh. forward_body (f fh)" "\<And>fh acc r1. remaining r1 < k \<Longrightarrow> f fh acc r1 \<noteq> None"
  shows "remaining r \<le> k \<Longrightarrow> remaining r < n \<Longrightarrow> while_fields f n acc r \<noteq> None"
proof (induction n arbitrary: acc r)
  case 0
  then show ?case by simp
next
  case (Suc n)
  have "run_bind (f fh acc r1) (\<lambda>(acc, r). while_fields f n acc r) \<noteq> None"
    if h: "read_field_header r = Inr (Some fh, r1)" for fh r1
  proof -
    from read_field_header_progress [OF h] have lt: "remaining r1 < remaining r"
      by (simp add: steps_forward_def)
    have "while_fields f n a2 r2 \<noteq> None" if "f fh acc r1 = Some (Inr (a2, r2))" for a2 r2
      using forward_bodyD(3) [OF assms(1) that] lt Suc.prems by (intro Suc.IH) auto
    moreover have "f fh acc r1 \<noteq> None" using assms(2) [of r1 fh acc] lt Suc.prems by simp
    ultimately show ?thesis by (simp add: run_bind_eq_None del: not_None_eq)
  qed
  then show ?case
    by (auto simp: run_bind_eq_None simp del: not_None_eq split: option.splits)
qed

lemma read_struct_returns:
  assumes "\<And>fh. forward_body (f fh)" "\<And>fh acc r1. remaining r1 < remaining r \<Longrightarrow> f fh acc r1 \<noteq> None"
  shows "read_struct f acc r \<noteq> None"
  using while_fields_returns [where f = f and k = "remaining r" and r = "read_struct_begin r"
      and n = "Suc (remaining r)"] assms
  by (auto simp: read_struct_def result_simps)

text \<open>Nesting never goes deeper than the bytes that are left.\<close>

lemma skip_depth_returns: "remaining r < d \<Longrightarrow> skip_depth d t r \<noteq> None"
proof (induction d arbitrary: t r)
  case 0
  then show ?case by simp
next
  case (Suc d)
  note bodies = forward_skip_bodies [OF forward_skipI [of "skip_depth d", OF skip_depth_progress]]
  have list: "forward_body (\<lambda>_. skip_element_with (skip_depth d) e)" for e
    by (rule bodies)
  have pair: "forward_body (\<lambda>_ r. run_bind (skip_element_with (skip_depth d) k r)
      (\<lambda>(_, r). skip_element_with (skip_depth d) v r))" for k v
    by (rule bodies)
  have fields: "forward_body (\<lambda>_. skip_depth d (fh_ttype fh))" for fh
    by (rule bodies)
  have each: "skip_element_with (skip_depth d) e r1 \<noteq> None" if "remaining r1 < remaining r" for e r1
    using Suc that by (auto simp: skip_element_with_def discard_def)
  have each2: "run_bind (skip_element_with (skip_depth d) k r1)
      (\<lambda>(_, r). skip_element_with (skip_depth d) v r) \<noteq> None"
    if r1: "remaining r1 < remaining r" for k v r1
  proof -
    have "skip_element_with (skip_depth d) v r2 \<noteq> None"
      if "skip_element_with (skip_depth d) k r1 = Some (Inr (u, r2))" for u r2
      using forward_bodyD(3) [OF list that] r1 by (intro each) simp
    with each [OF r1, of k] show ?thesis
      by (auto simp: run_bind_eq_None simp del: not_None_eq)
  qed
  have lists: "repeat_read (\<lambda>_. skip_element_with (skip_depth d) e) n () r1 \<noteq> None"
    if "steps_forward r r1" for e n r1
    using that each repeat_read_returns [OF list, of "remaining r1"]
    by (auto simp: steps_forward_def)
  have maps: "repeat_read (\<lambda>_ r. run_bind (skip_element_with (skip_depth d) k r)
      (\<lambda>(_, r). skip_element_with (skip_depth d) v r)) n () r1 \<noteq> None"
    if "steps_forward r r1" for k v n r1
    using that each2 repeat_read_returns [OF pair, of "remaining r1"]
    by (auto simp: steps_forward_def)
  show ?case
  proof (cases t)
    case TList
    with lists show ?thesis by (auto simp: result_simps dest: read_list_header_progress)
  next
    case TSet
    with lists show ?thesis by (auto simp: result_simps dest: read_list_header_progress)
  next
    case TMap
    with maps show ?thesis by (auto simp: result_simps dest: read_map_header_progress)
  next
    case TStruct
    have "read_struct (\<lambda>fh _. skip_depth d (fh_ttype fh)) () r \<noteq> None"
      using Suc by (intro read_struct_returns fields) auto
    with TStruct show ?thesis by simp
  qed (auto simp: discard_def)
qed

lemma skip_value_returns: "skip_value t r \<noteq> None"
  unfolding skip_value_def by (rule skip_depth_returns) simp

lemma skip_value_progress:
  "skip_value t r = Some (Inr (u, r')) \<Longrightarrow> advances r r' \<and> same_frame r r'"
  unfolding skip_value_def by (rule skip_depth_progress)

text \<open>A run that moves forward, restores the frame and always comes to an answer.\<close>

definition good_run :: "'a thrift_run \<Rightarrow> bool" where
  "good_run m \<longleftrightarrow>
     (\<forall>r x r'. m r = Some (Inr (x, r')) \<longrightarrow> advances r r' \<and> same_frame r r') \<and> (\<forall>r. m r \<noteq> None)"

named_theorems run_intros

lemma good_run_body:
  assumes "\<And>acc. good_run (f acc)"
  shows "forward_body f" "f acc r \<noteq> None"
  using assms unfolding good_run_def forward_body_def by blast+

lemma good_runD: "good_run m \<Longrightarrow> m r = Some (Inr (x, r')) \<Longrightarrow> advances r r' \<and> same_frame r r'"
  by (simp add: good_run_def)

lemma good_run_returns: "good_run m \<Longrightarrow> m r \<noteq> None"
  by (simp add: good_run_def)

lemma good_run_if [run_intros]: "good_run m \<Longrightarrow> good_run m' \<Longrightarrow> good_run (if c then m else m')"
  by simp

lemma good_run_return [run_intros]: "good_run (\<lambda>r. Some (Inr (x, r)))"
  by (simp add: good_run_def)

lemma good_run_fail [run_intros]: "good_run (\<lambda>r. Some (Inl e))"
  by (simp add: good_run_def)

lemma good_run_lift:
  assumes "\<And>r x r'. m r = Inr (x, r') \<Longrightarrow> steps_forward r r' \<and> same_frame r r'"
  shows "good_run (\<lambda>r. Some (m r))"
  using assms by (auto simp: good_run_def dest: steps_forward_advances)

lemma good_run_bind [run_intros]:
  assumes m: "good_run m" and f: "\<And>x. good_run (f x)"
  shows "good_run (\<lambda>r. run_bind (m r) (\<lambda>(x, r). f x r))"
proof -
  have "advances r r' \<and> same_frame r r'"
    if "run_bind (m r) (\<lambda>(x, r). f x r) = Some (Inr (y, r'))" for r y r'
  proof -
    from that obtain x r1 where "m r = Some (Inr (x, r1))" "f x r1 = Some (Inr (y, r'))"
      by (auto simp: result_simps)
    with good_runD [OF m] good_runD [OF f] show ?thesis
      by (blast intro: advances_trans same_frame_trans)
  qed
  moreover have "run_bind (m r) (\<lambda>(x, r). f x r) \<noteq> None" for r
    using good_run_returns [OF m] good_run_returns [OF f]
    by (auto simp: run_bind_eq_None simp del: not_None_eq)
  ultimately show ?thesis by (auto simp: good_run_def simp del: not_None_eq)
qed

lemma good_run_repeat [run_intros]:
  assumes "\<And>acc. good_run (f acc)"
  shows "good_run (repeat_read f n acc)"
proof -
  have "repeat_read f n acc r \<noteq> None" for r
    by (rule repeat_read_returns [of f "remaining r"]) (use good_run_body [OF assms] in auto)
  then show ?thesis
    using repeat_read_progress [OF good_run_body(1) [OF assms]]
    by (auto simp: good_run_def simp del: not_None_eq)
qed

lemma good_run_struct [run_intros]:
  assumes "\<And>fh acc. good_run (f fh acc)"
  shows "good_run (read_struct f acc)"
proof -
  have body: "forward_body (f fh)" for fh
    by (rule good_run_body) (rule assms)
  have "read_struct f acc r \<noteq> None" for r
    by (rule read_struct_returns [OF body]) (rule good_run_returns [OF assms])
  then show ?thesis
    using read_struct_progress [where f = f, OF body]
    unfolding good_run_def by (blast intro: steps_forward_advances)
qed

lemma good_run_skip [run_intros]: "good_run (skip_value t)"
  using skip_value_progress skip_value_returns
  by (auto simp: good_run_def simp del: not_None_eq)

subsection \<open>Round trips\<close>

text \<open>The zigzag writer of the tests: \<open>((value << 1) ^ (value >> 63)) as u64\<close>.\<close>

definition zigzag_encode :: "int \<Rightarrow> u64" where
  "zigzag_encode value =
     (let w = word_of_int value :: u64 in push_bit 1 w XOR signed_drop_bit 63 w)"

definition write_zigzag :: "int \<Rightarrow> bytes" where
  "write_zigzag value = write_varint (zigzag_encode value)"

definition reader_at :: "bytes \<Rightarrow> bytes \<Rightarrow> thrift_reader \<Rightarrow> bool" where
  "reader_at done_bytes rest r \<longleftrightarrow> tr_bytes r = done_bytes @ rest \<and> tr_pos r = length done_bytes"

lemma reader_at_byte:
  "reader_at pre (b # rest) r \<Longrightarrow> \<exists>r'. read_byte r = Inr (b, r') \<and> reader_at (pre @ [b]) rest r'
     \<and> r' = r\<lparr>tr_pos := tr_pos r + 1\<rparr>"
  by (auto simp: reader_at_def read_byte_def get_at_def nth_append)

lemma read_varint_from_write:
  "unat v * 2 ^ shift < 2 ^ 64 \<Longrightarrow> shift < 64 \<Longrightarrow> length (write_varint v) \<le> n \<Longrightarrow>
   reader_at pre (write_varint v @ rest) r \<Longrightarrow>
     read_varint_from n res shift r
     = Inr (res OR push_bit shift v, r\<lparr>tr_pos := tr_pos r + length (write_varint v)\<rparr>)"
proof (induction v arbitrary: n res shift pre r rule: write_varint.induct)
  case (1 v)
  then obtain k where n: "n = Suc k"
    by (cases n) (auto simp: write_varint.simps [of v] Let_def split: if_splits)
  show ?case
  proof (cases "drop_bit 7 v = 0")
    case True
    then obtain b where b: "write_varint v = [b]" "b AND 0x80 = 0" "ucast (b AND 0x7F) = v"
      using write_varint_last [of v] by auto
    with 1(5) reader_at_byte [of pre b rest r] 1(3) show ?thesis
      by (auto simp: n checked_shl64_def)
  next
    case False
    then obtain b where b: "write_varint v = b # write_varint (drop_bit 7 v)" "b AND 0x80 \<noteq> 0"
      "ucast (b AND 0x7F) = v AND 0x7F" using write_varint_more [of v] by auto
    from 1(5) b(1) reader_at_byte [of pre b "write_varint (drop_bit 7 v) @ rest" r]
    obtain r' where r': "read_byte r = Inr (b, r')" "r' = r\<lparr>tr_pos := tr_pos r + 1\<rparr>"
      and at': "reader_at (pre @ [b]) (write_varint (drop_bit 7 v) @ rest) r'" by auto
    have "read_varint_from k (res OR push_bit shift (v AND 0x7F)) (shift + 7) r'
        = Inr ((res OR push_bit shift (v AND 0x7F)) OR push_bit (shift + 7) (drop_bit 7 v),
            r'\<lparr>tr_pos := tr_pos r' + length (write_varint (drop_bit 7 v))\<rparr>)"
      using varint_fits_step [OF 1(2) False] 1(4) b(1) n at' by (intro 1(1)) (auto simp: False)
    moreover have "(res OR push_bit shift (v AND 0x7F)) OR push_bit (shift + 7) (drop_bit 7 v)
        = res OR push_bit shift v"
      unfolding or.assoc varint_join ..
    ultimately show ?thesis using b 1(3) r' by (simp add: n checked_shl64_def)
  qed
qed

lemma read_write_varint:
  assumes "reader_at pre (write_varint v @ rest) r"
  shows "read_varint_u64 r = Inr (v, r\<lparr>tr_pos := tr_pos r + length (write_varint v)\<rparr>)"
proof -
  have "unat v * 2 ^ 0 < 2 ^ 64" using unat_u64_less [of v] by simp
  from read_varint_from_write [OF this _ length_write_varint assms, of 0] show ?thesis
    by (simp add: read_varint_u64_def)
qed

lemma zigzag_decode_word: "drop_bit 1 z XOR - (z AND 1) = w"
  if z: "z = push_bit 1 w XOR signed_drop_bit 63 w" for w z :: u64
proof -
  have low: "z AND 1 = (if bit w 63 then 1 else 0)"
    unfolding z
    by (rule bit_word_eqI) (auto simp: bit_simps not_less_eq_eq simp del: push_bit_Suc)
  then have neg: "- (z AND 1) = (if bit w 63 then - 1 else 0)" by simp
  show ?thesis
    unfolding neg unfolding z
  proof (rule bit_word_eqI)
    fix n assume n: "n < LENGTH(64)"
    have "\<not> bit w m" if "64 \<le> m" for m using that bit_imp_le_length [of w m] by auto
    with n show "bit (drop_bit 1 (push_bit 1 w XOR signed_drop_bit 63 w)
        XOR (if bit w 63 then - 1 else 0)) n = bit w n"
      by (cases "n = 63") (auto simp: bit_simps simp del: push_bit_Suc)
  qed
qed

lemma zigzag_decode_encode:
  assumes "- (2 ^ 63) \<le> x" "x < 2 ^ 63"
  shows "zigzag_decode (zigzag_encode x) = x"
proof -
  have "drop_bit 1 (zigzag_encode x) XOR - (zigzag_encode x AND 1) = word_of_int x"
    by (rule zigzag_decode_word) (simp add: zigzag_encode_def Let_def)
  with assms show ?thesis
    by (simp add: zigzag_decode_def sint_sbintrunc' signed_take_bit_int_eq_self)
qed

lemma read_write_zigzag:
  assumes "- (2 ^ 63) \<le> x" "x < 2 ^ 63" "reader_at pre (write_zigzag x @ rest) r"
  shows "read_i64 r = Inr (x, r\<lparr>tr_pos := tr_pos r + length (write_zigzag x)\<rparr>)"
  using assms read_write_varint [of pre "zigzag_encode x" rest r]
  by (simp add: read_i64_def read_zigzag_i64_def write_zigzag_def zigzag_decode_encode)

end
