(* ===== verification/History.thy ===== *)
theory History
  imports Thrift
begin

text \<open>
  \<open>src/src/format/history.rs\<close>: the decoder of the HISTORY section. The records start at the
  \<open>Default\<close> of the source and every recognised field overwrites its part; unknown fields are
  skipped.
\<close>

record history_version =
  hv_major :: nat
  hv_minor :: nat
  hv_patch :: nat
  hv_is_release :: bool
  hv_git_rev :: "bytes option"
  hv_git_branch :: "bytes option"
  hv_git_desc :: "bytes option"

record history_entry =
  he_version :: history_version
  he_system_id :: bytes
  he_compiler_id :: bytes
  he_arguments :: "bytes list option"
  he_timestamp :: "nat option"
  he_library_versions :: "bytes list"

definition history_version_default :: history_version where
  "history_version_default =
     \<lparr>hv_major = 0, hv_minor = 0, hv_patch = 0, hv_is_release = False, hv_git_rev = None,
      hv_git_branch = None, hv_git_desc = None\<rparr>"

definition history_entry_default :: history_entry where
  "history_entry_default =
     \<lparr>he_version = history_version_default, he_system_id = [], he_compiler_id = [],
      he_arguments = None, he_timestamp = None, he_library_versions = []\<rparr>"

definition history_error :: "string \<Rightarrow> error" where
  "history_error message = Decode ''history'' message"

definition read_utf8 :: "bytes thrift" where
  "read_utf8 r = read_string r"

definition read_string_list :: "bytes list thrift_run" where
  "read_string_list r =
     run_bind (Some (read_list_header r)) (\<lambda>((element, count), r).
     if element \<noteq> TBinary then Some (Inl (history_error ''expected a list of strings''))
     else repeat_read (\<lambda>out r. Some (and_then (read_utf8 r) (\<lambda>(s, r). Inr (out @ [s], r))))
            count [] r)"

text \<open>Store the value a reader returns with \<open>f\<close>.\<close>

definition store :: "'b thrift \<Rightarrow> ('b \<Rightarrow> 'a) \<Rightarrow> 'a thrift_run" where
  "store m f r = Some (and_then (m r) (\<lambda>(x, r). Inr (f x, r)))"

definition skip_field :: "field_header \<Rightarrow> 'a \<Rightarrow> 'a thrift_run" where
  "skip_field fh acc r = run_bind (skip_value (fh_ttype fh) r) (\<lambda>(_, r). Some (Inr (acc, r)))"

definition version_field :: "field_header \<Rightarrow> history_version \<Rightarrow> history_version thrift_run" where
  "version_field fh v =
     (let id = fh_id fh; t = fh_ttype fh in
      if id = 1 \<and> t = TI16 then store read_i16 (\<lambda>x. v\<lparr>hv_major := nat (max x 0)\<rparr>)
      else if id = 2 \<and> t = TI16 then store read_i16 (\<lambda>x. v\<lparr>hv_minor := nat (max x 0)\<rparr>)
      else if id = 3 \<and> t = TI16 then store read_i16 (\<lambda>x. v\<lparr>hv_patch := nat (max x 0)\<rparr>)
      else if id = 4 \<and> t = TBoolTrue then (\<lambda>r. Some (Inr (v\<lparr>hv_is_release := True\<rparr>, r)))
      else if id = 4 \<and> t = TBoolFalse then (\<lambda>r. Some (Inr (v\<lparr>hv_is_release := False\<rparr>, r)))
      else if id = 5 \<and> t = TBinary then store read_utf8 (\<lambda>s. v\<lparr>hv_git_rev := Some s\<rparr>)
      else if id = 6 \<and> t = TBinary then store read_utf8 (\<lambda>s. v\<lparr>hv_git_branch := Some s\<rparr>)
      else if id = 7 \<and> t = TBinary then store read_utf8 (\<lambda>s. v\<lparr>hv_git_desc := Some s\<rparr>)
      else skip_field fh v)"

definition read_version :: "history_version thrift_run" where
  "read_version = read_struct version_field history_version_default"

definition entry_field :: "field_header \<Rightarrow> history_entry \<Rightarrow> history_entry thrift_run" where
  "entry_field fh e =
     (let id = fh_id fh; t = fh_ttype fh in
      if id = 1 \<and> t = TStruct then
        (\<lambda>r. run_bind (read_version r) (\<lambda>(v, r). Some (Inr (e\<lparr>he_version := v\<rparr>, r))))
      else if id = 2 \<and> t = TBinary then store read_utf8 (\<lambda>s. e\<lparr>he_system_id := s\<rparr>)
      else if id = 3 \<and> t = TBinary then store read_utf8 (\<lambda>s. e\<lparr>he_compiler_id := s\<rparr>)
      else if id = 4 \<and> t = TList then
        (\<lambda>r. run_bind (read_string_list r) (\<lambda>(l, r). Some (Inr (e\<lparr>he_arguments := Some l\<rparr>, r))))
      else if id = 5 \<and> t = TI64 then store read_i64 (\<lambda>x. e\<lparr>he_timestamp := Some (nat (max x 0))\<rparr>)
      else if id = 6 \<and> t = TSet then
        (\<lambda>r. run_bind (Some (read_set_header r)) (\<lambda>((element, count), r).
          if element \<noteq> TBinary
          then Some (Inl (history_error ''library_versions is not a set of strings''))
          else repeat_read (\<lambda>e. store read_utf8 (\<lambda>s.
                 e\<lparr>he_library_versions := he_library_versions e @ [s]\<rparr>)) count e r))
      else skip_field fh e)"

definition read_entry :: "history_entry thrift_run" where
  "read_entry = read_struct entry_field history_entry_default"

definition history_field :: "field_header \<Rightarrow> history_entry list \<Rightarrow> history_entry list thrift_run" where
  "history_field fh entries =
     (if fh_id fh = 1 \<and> fh_ttype fh = TList then
        (\<lambda>r. run_bind (Some (read_list_header r)) (\<lambda>((element, count), r).
          if element \<noteq> TStruct
          then Some (Inl (history_error ''history entries are not structs''))
          else repeat_read (\<lambda>entries r.
                 run_bind (read_entry r) (\<lambda>(e, r). Some (Inr (entries @ [e], r)))) count entries r))
      else skip_field fh entries)"

definition history_parse :: "bytes \<Rightarrow> (error, history_entry list) run" where
  "history_parse payload =
     run_bind (read_struct history_field [] (thrift_new payload)) (\<lambda>(entries, r).
     Some (Inr entries))"

subsection \<open>Every payload is decoded to an answer\<close>

lemma good_run_store [run_intros]:
  assumes "\<And>r v r'. m r = Inr (v, r') \<Longrightarrow> steps_forward r r' \<and> same_frame r r'"
  shows "good_run (store m f)"
  using assms by (auto simp: good_run_def store_def result_simps dest!: steps_forward_advances)

lemma good_run_skip_field [run_intros]: "good_run (skip_field fh acc)"
  unfolding skip_field_def by (intro run_intros)

lemma read_utf8_progress:
  "read_utf8 r = Inr (v, r') \<Longrightarrow> steps_forward r r' \<and> same_frame r r'"
  by (simp add: read_utf8_def read_string_progress)

lemma good_run_list_header:
  "(\<And>e n. good_run (f e n)) \<Longrightarrow>
   good_run (\<lambda>r. run_bind (Some (read_list_header r)) (\<lambda>((e, n), r). f e n r))"
  using good_run_bind [of "\<lambda>r. Some (read_list_header r)" "\<lambda>(e, n). f e n"]
    good_run_lift [of read_list_header] read_list_header_progress
  by (simp add: case_prod_beta')

lemma good_run_version_field [run_intros]: "good_run (version_field fh v)"
  unfolding version_field_def Let_def
  by (intro run_intros; erule read_i16_progress read_utf8_progress)

lemma good_run_read_version [run_intros]: "good_run read_version"
  unfolding read_version_def by (intro run_intros)

lemma good_run_read_string_list [run_intros]: "good_run read_string_list"
proof -
  have item: "good_run (\<lambda>r. Some (and_then (read_utf8 r) (\<lambda>(s, r). Inr (out @ [s], r))))" for out
    by (rule good_run_store [where f = "\<lambda>s. out @ [s]", unfolded store_def])
      (erule read_utf8_progress)
  have "good_run (\<lambda>r. if e \<noteq> TBinary then Some (Inl (history_error ''expected a list of strings''))
      else repeat_read (\<lambda>out r. Some (and_then (read_utf8 r) (\<lambda>(s, r). Inr (out @ [s], r)))) n [] r)"
    for e n
    using good_run_repeat [OF item] good_run_fail by (cases "e = TBinary") auto
  from good_run_list_header [OF this] show ?thesis
    unfolding read_string_list_def by (simp add: fun_eq_iff)
qed

lemma good_run_entry_field [run_intros]: "good_run (entry_field fh e)"
proof -
  have add: "good_run (store read_utf8 (\<lambda>s. e\<lparr>he_library_versions := he_library_versions e @ [s]\<rparr>))"
    for e by (intro run_intros) (erule read_utf8_progress)
  have versions: "good_run (if el \<noteq> TBinary
      then (\<lambda>r. Some (Inl (history_error ''library_versions is not a set of strings'')))
      else repeat_read (\<lambda>e. store read_utf8 (\<lambda>s.
             e\<lparr>he_library_versions := he_library_versions e @ [s]\<rparr>)) n e)" for el n
    by (intro run_intros) (erule read_utf8_progress)
  have set_case: "good_run (\<lambda>r. run_bind (Some (read_set_header r)) (\<lambda>((el, n), r).
          if el \<noteq> TBinary
          then Some (Inl (history_error ''library_versions is not a set of strings''))
          else repeat_read (\<lambda>e. store read_utf8 (\<lambda>s.
                 e\<lparr>he_library_versions := he_library_versions e @ [s]\<rparr>)) n e r))"
    using good_run_list_header [OF versions] by (simp add: read_set_header_def if_distribR)
  show ?thesis
    unfolding entry_field_def Let_def
    by (intro run_intros set_case; erule read_i64_progress read_utf8_progress)
qed

lemma good_run_read_entry [run_intros]: "good_run read_entry"
  unfolding read_entry_def by (intro run_intros)

lemma good_run_history_field [run_intros]: "good_run (history_field fh es)"
proof -
  have "good_run (if el \<noteq> TStruct
      then (\<lambda>r. Some (Inl (history_error ''history entries are not structs'')))
      else repeat_read (\<lambda>es r. run_bind (read_entry r) (\<lambda>(e, r). Some (Inr (es @ [e], r)))) n es)"
    for el n by (intro run_intros)
  from good_run_list_header [OF this]
  have entries: "good_run (\<lambda>r. run_bind (Some (read_list_header r)) (\<lambda>((el, n), r).
          if el \<noteq> TStruct then Some (Inl (history_error ''history entries are not structs''))
          else repeat_read (\<lambda>es r. run_bind (read_entry r) (\<lambda>(e, r). Some (Inr (es @ [e], r)))) n es r))"
    by (simp add: if_distribR)
  show ?thesis
    unfolding history_field_def by (rule good_run_if [OF entries good_run_skip_field])
qed

lemma history_parse_returns: "history_parse payload \<noteq> None"
proof -
  have "good_run (read_struct history_field [])" by (intro run_intros)
  from good_run_returns [OF this] show ?thesis
    by (auto simp: history_parse_def run_bind_eq_None simp del: not_None_eq)
qed

end
