(* ===== verification/Schema.thy ===== *)
theory Schema
  imports History
begin

text \<open>
  \<open>src/src/metadata/schema.rs\<close>: the Frozen2 schema and its parser. A \<open>BTreeMap\<close> is an
  association list sorted by key, so iteration order is the map's.
\<close>

record field =
  fl_layout_id :: int
  fl_offset :: int

definition bit_offset :: "field \<Rightarrow> nat" where
  "bit_offset f = (if fl_offset f < 0 then nat (- fl_offset f) else nat (fl_offset f) * 8)"

definition byte_offset :: "field \<Rightarrow> nat" where
  "byte_offset f = (if fl_offset f < 0 then nat (- fl_offset f) div 8 else nat (fl_offset f))"

definition is_bit_offset :: "field \<Rightarrow> bool" where
  "is_bit_offset f \<longleftrightarrow> fl_offset f < 0"

fun btree_insert :: "int \<Rightarrow> 'v \<Rightarrow> (int \<times> 'v) list \<Rightarrow> (int \<times> 'v) list" where
  "btree_insert k v [] = [(k, v)]"
| "btree_insert k v ((k', v') # m) =
     (if k < k' then (k, v) # (k', v') # m
      else if k = k' then (k, v) # m
      else (k', v') # btree_insert k v m)"

lemma map_of_btree_insert: "map_of (btree_insert k v m) = (map_of m)(k \<mapsto> v)"
  by (induction k v m rule: btree_insert.induct) (auto simp: fun_eq_iff)

lemma set_btree_insert_keys: "fst ` set (btree_insert k v m) = insert k (fst ` set m)"
  by (induction k v m rule: btree_insert.induct) auto

lemma sorted_btree_insert:
  "sorted_wrt (<) (map fst m) \<Longrightarrow> sorted_wrt (<) (map fst (btree_insert k v m))"
proof (induction k v m rule: btree_insert.induct)
  case (2 k v k' v' m)
  have "\<forall>x \<in> set (map fst (btree_insert k v m)). k' < x" if "k' < k"
    using 2(2) that set_btree_insert_keys [of k v m] by auto
  with 2 show ?case by (auto simp del: set_map)
qed simp

record layout =
  ly_size :: nat
  ly_bits :: nat
  ly_fields :: "(int \<times> field) list"
  ly_type_name :: bytes

definition layout_default :: layout where
  "layout_default = \<lparr>ly_size = 0, ly_bits = 0, ly_fields = [], ly_type_name = []\<rparr>"

definition layout_field :: "layout \<Rightarrow> int \<Rightarrow> field option" where
  "layout_field l fid = map_of (ly_fields l) fid"

definition is_integral :: "layout \<Rightarrow> bool" where
  "is_integral l \<longleftrightarrow> 0 < ly_bits l \<and> ly_fields l = []"

record schema =
  sc_file_version :: int
  sc_relax_type_checks :: bool
  sc_layouts :: "(int \<times> layout) list"
  sc_root_layout :: int

definition schema_error :: "string \<Rightarrow> error" where
  "schema_error message = Decode ''frozen2-schema'' message"

definition field_field :: "field_header \<Rightarrow> field \<Rightarrow> field thrift_run" where
  "field_field fh f =
     (if fh_id fh = 1 \<and> fh_ttype fh = TI16 then store read_i16 (\<lambda>x. f\<lparr>fl_layout_id := x\<rparr>)
      else if fh_id fh = 2 \<and> fh_ttype fh = TI16 then store read_i16 (\<lambda>x. f\<lparr>fl_offset := x\<rparr>)
      else skip_field fh f)"

definition read_field :: "field thrift_run" where
  "read_field = read_struct field_field \<lparr>fl_layout_id = 0, fl_offset = 0\<rparr>"

text \<open>\<open>count\<close> entries with an \<open>i16\<close> key each, inserted into a map.\<close>

definition read_i16_run :: "int thrift_run" where
  "read_i16_run r = Some (read_i16 r)"

definition read_map_entries :: "'v thrift_run \<Rightarrow> nat \<Rightarrow> (int \<times> 'v) list thrift_run" where
  "read_map_entries value count =
     repeat_read (\<lambda>out r.
       run_bind (read_i16_run r) (\<lambda>(key, r).
       run_bind (value r) (\<lambda>(v, r). Some (Inr (btree_insert key v out, r))))) count []"

definition read_field_map :: "(int \<times> field) list thrift_run" where
  "read_field_map r =
     run_bind (Some (read_map_header r)) (\<lambda>((kt, vt, count), r).
     if 0 < count \<and> (kt \<noteq> TI16 \<or> vt \<noteq> TStruct)
     then Some (Inl (schema_error ''field map has unexpected key/value types {kt:?}/{vt:?}''))
     else read_map_entries read_field count r)"

definition layout_step :: "field_header \<Rightarrow> layout \<Rightarrow> layout thrift_run" where
  "layout_step fh l =
     (let id = fh_id fh; t = fh_ttype fh in
      if id = 1 \<and> t = TI32 then
        (\<lambda>r. Some (and_then (read_i32 r) (\<lambda>(v, r).
           if v < 0 then Inl (schema_error ''layout size {v} is negative'')
           else Inr (l\<lparr>ly_size := nat v\<rparr>, r))))
      else if id = 2 \<and> t = TI16 then
        (\<lambda>r. Some (and_then (read_i16 r) (\<lambda>(v, r).
           if v < 0 then Inl (schema_error ''layout bits {v} is negative'')
           else Inr (l\<lparr>ly_bits := nat v\<rparr>, r))))
      else if id = 3 \<and> t = TMap then
        (\<lambda>r. run_bind (read_field_map r) (\<lambda>(m, r). Some (Inr (l\<lparr>ly_fields := m\<rparr>, r))))
      else if id = 4 \<and> t = TBinary then store read_string (\<lambda>s. l\<lparr>ly_type_name := s\<rparr>)
      else skip_field fh l)"

definition read_layout :: "layout thrift_run" where
  "read_layout = read_struct layout_step layout_default"

definition read_layout_map :: "(int \<times> layout) list thrift_run" where
  "read_layout_map r =
     run_bind (Some (read_map_header r)) (\<lambda>((kt, vt, count), r).
     if 0 < count \<and> (kt \<noteq> TI16 \<or> vt \<noteq> TStruct)
     then Some (Inl (schema_error ''layout map has unexpected key/value types {kt:?}/{vt:?}''))
     else read_map_entries read_layout count r)"

definition schema_step :: "field_header \<Rightarrow> schema \<Rightarrow> schema thrift_run" where
  "schema_step fh s =
     (let id = fh_id fh; t = fh_ttype fh in
      if id = 1 \<and> t = TBoolTrue then (\<lambda>r. Some (Inr (s\<lparr>sc_relax_type_checks := True\<rparr>, r)))
      else if id = 1 \<and> t = TBoolFalse then (\<lambda>r. Some (Inr (s\<lparr>sc_relax_type_checks := False\<rparr>, r)))
      else if id = 2 \<and> t = TMap then
        (\<lambda>r. run_bind (read_layout_map r) (\<lambda>(m, r). Some (Inr (s\<lparr>sc_layouts := m\<rparr>, r))))
      else if id = 3 \<and> t = TI16 then store read_i16 (\<lambda>x. s\<lparr>sc_root_layout := x\<rparr>)
      else if id = 4 \<and> t = TI32 then store read_i32 (\<lambda>x. s\<lparr>sc_file_version := x\<rparr>)
      else skip_field fh s)"

definition schema_parse :: "bytes \<Rightarrow> (error, schema) run" where
  "schema_parse bs =
     run_bind
       (read_struct schema_step
          \<lparr>sc_file_version = 0, sc_relax_type_checks = False, sc_layouts = [],
           sc_root_layout = 0\<rparr> (thrift_new bs))
       (\<lambda>(s, r). Some (Inr s))"

definition schema_layout :: "schema \<Rightarrow> int \<Rightarrow> layout result" where
  "schema_layout s lid =
     ok_or (map_of (sc_layouts s) lid) (schema_error ''layout id {id} not present'')"

definition schema_root :: "schema \<Rightarrow> layout result" where
  "schema_root s =
     ok_or (map_of (sc_layouts s) (sc_root_layout s))
       (schema_error ''root layout id {} not present'')"

subsection \<open>Every schema blob is decoded to an answer\<close>

lemma good_run_read_i16 [run_intros]: "good_run read_i16_run"
  using good_run_lift [of read_i16] read_i16_progress
  by (auto simp: read_i16_run_def [abs_def])

lemma good_run_read_field [run_intros]: "good_run read_field"
  unfolding read_field_def field_field_def by (intro run_intros; erule read_i16_progress)

lemma good_run_map_entries [run_intros]: "good_run value \<Longrightarrow> good_run (read_map_entries value n)"
  unfolding read_map_entries_def by (intro run_intros)

lemma good_run_map_header:
  assumes "\<And>k v n. good_run (f k v n)"
  shows "good_run (\<lambda>r. run_bind (Some (read_map_header r)) (\<lambda>((k, v, n), r). f k v n r))"
  using good_run_bind [of "\<lambda>r. Some (read_map_header r)" "\<lambda>(k, v, n). f k v n"]
    good_run_lift [of read_map_header] read_map_header_progress assms
  by (simp add: case_prod_beta')

lemma good_run_checked_map:
  assumes "good_run (read_map_entries value n)"
  shows "good_run (if 0 < n \<and> (k \<noteq> TI16 \<or> v \<noteq> TStruct) then (\<lambda>r. Some (Inl (schema_error msg)))
                   else read_map_entries value n)"
  by (intro run_intros assms)

lemma good_run_read_field_map [run_intros]: "good_run read_field_map"
  using good_run_map_header [OF good_run_checked_map [of read_field]]
    good_run_map_entries [OF good_run_read_field]
  by (simp add: read_field_map_def [abs_def] if_distribR)

lemma good_run_checked:
  assumes "\<And>r v r'. m r = Inr (v, r') \<Longrightarrow> steps_forward r r' \<and> same_frame r r'"
  shows "good_run (\<lambda>r. Some (and_then (m r) (\<lambda>(v, r). if P v then Inl e else Inr (g v, r))))"
  using assms
  by (auto simp: good_run_def result_simps split: if_splits dest!: steps_forward_advances)

lemma good_run_layout_step [run_intros]: "good_run (layout_step fh l)"
  unfolding layout_step_def Let_def
  by (intro run_intros good_run_checked; erule read_i32_progress read_i16_progress read_string_progress)

lemma good_run_read_layout [run_intros]: "good_run read_layout"
  unfolding read_layout_def by (intro run_intros)

lemma good_run_read_layout_map [run_intros]: "good_run read_layout_map"
  using good_run_map_header [OF good_run_checked_map [of read_layout]]
    good_run_map_entries [OF good_run_read_layout]
  by (simp add: read_layout_map_def [abs_def] if_distribR)

lemma good_run_schema_step [run_intros]: "good_run (schema_step fh s)"
  unfolding schema_step_def Let_def
  by (intro run_intros; erule read_i32_progress read_i16_progress)

lemma schema_parse_returns: "schema_parse bs \<noteq> None"
proof -
  have "good_run (read_struct schema_step s0)" for s0 by (intro run_intros)
  from good_run_returns [OF this] show ?thesis
    by (auto simp: schema_parse_def run_bind_eq_None simp del: not_None_eq)
qed

end
