(* ===== verification/Bitbuf.thy ===== *)
theory Bitbuf
  imports Errors
begin

text \<open>
  \<open>src/src/metadata/bitbuf.rs\<close>: the LSB-first bit reader. The accumulator of the source is a
  \<open>u128\<close>; it never holds more than nine bytes, so it is a natural number here. The whole buffer
  read as one little-endian number is the reference the reader is compared with.
\<close>

definition bitbuf_error :: "string \<Rightarrow> error" where
  "bitbuf_error message = Decode ''frozen2-bitbuf'' message"

definition bit_len :: "bytes \<Rightarrow> nat" where
  "bit_len bs = length bs * 8"

definition bit_acc :: "bytes \<Rightarrow> nat \<Rightarrow> nat \<Rightarrow> nat" where
  "bit_acc bs byte_off span =
     fold (\<lambda>i acc. acc OR push_bit (i * 8) (unat (bs ! (byte_off + i)))) [0..<span] 0"

definition read_u64 :: "bytes \<Rightarrow> nat \<Rightarrow> nat \<Rightarrow> nat result" where
  "read_u64 bs bit_offset num_bits =
     (if num_bits = 0 then Inr 0
      else if 64 < num_bits then Inl (bitbuf_error ''requested {num_bits} bits, max is 64'')
      else and_then (ok_or (checked_add64 bit_offset num_bits)
                       (bitbuf_error ''bit offset overflow'')) (\<lambda>end_bit.
        if bit_len bs < end_bit
        then Inl (bitbuf_error ''read of {num_bits} bits at {bit_offset} runs past end ({} bits)'')
        else let byte_off = bit_offset div 8; shift = bit_offset mod 8;
                 span = (shift + num_bits + 7) div 8;
                 acc = bit_acc bs byte_off span
             in Inr (drop_bit shift acc AND mask num_bits)))"

definition read_bool :: "bytes \<Rightarrow> nat \<Rightarrow> bool result" where
  "read_bool bs bit_offset = and_then (read_u64 bs bit_offset 1) (\<lambda>x. Inr (x \<noteq> 0))"

definition read_i64 :: "bytes \<Rightarrow> nat \<Rightarrow> nat \<Rightarrow> int result" where
  "read_i64 bs bit_offset num_bits =
     (if num_bits = 0 then Inr 0
      else if 64 < num_bits then Inl (bitbuf_error ''requested {num_bits} signed bits, max 64'')
      else and_then (read_u64 bs bit_offset num_bits) (\<lambda>raw.
        let w = word_of_nat raw :: u64 in
        if num_bits = 64 then Inr (sint w)
        else if w AND push_bit (num_bits - 1) 1 \<noteq> 0
        then Inr (sint (w OR push_bit num_bits (NOT 0)))
        else Inr (sint w)))"

text \<open>The reference: the bits of the number whose little-endian bytes the buffer holds.\<close>

definition bits_at :: "bytes \<Rightarrow> nat \<Rightarrow> nat \<Rightarrow> nat" where
  "bits_at bs off n = le_nat bs div 2 ^ off mod 2 ^ n"

lemma or_push_bit_disjoint:
  assumes "a < 2 ^ k"
  shows "a OR push_bit k b = a + 2 ^ k * (b :: nat)"
proof -
  have "take_bit k a = a" using assms by (rule take_bit_nat_eq_self)
  then have "\<not> bit a n" if "k \<le> n" for n using that by (metis bit_take_bit_iff not_less)
  then have "a + push_bit k b = a OR push_bit k b"
    by (intro disjunctive_add) (auto simp: bit_simps not_le)
  then show ?thesis by (simp add: push_bit_eq_mult mult.commute)
qed

lemma bit_acc_eq: "byte_off + span \<le> length bs \<Longrightarrow>
    bit_acc bs byte_off span = le_nat (subslice bs byte_off (byte_off + span))"
proof (induction span)
  case 0
  then show ?case by (simp add: bit_acc_def)
next
  case (Suc span)
  let ?mid = "subslice bs byte_off (byte_off + span)"
  have "subslice bs byte_off (byte_off + Suc span) = ?mid @ [bs ! (byte_off + span)]"
    using Suc.prems by (simp add: subslice_def take_Suc_conv_app_nth)
  moreover have len: "length ?mid = span" using Suc.prems by simp
  ultimately have "le_nat (subslice bs byte_off (byte_off + Suc span))
      = le_nat ?mid + 2 ^ (span * 8) * unat (bs ! (byte_off + span))"
    by (simp add: le_nat_append pow256 mult.commute)
  moreover have "le_nat ?mid < 2 ^ (span * 8)"
    using le_nat_less [of ?mid] len by (simp add: pow256 mult.commute)
  moreover have "bit_acc bs byte_off (Suc span)
      = bit_acc bs byte_off span OR push_bit (span * 8) (unat (bs ! (byte_off + span)))"
    by (simp add: bit_acc_def)
  ultimately show ?case using Suc by (simp add: or_push_bit_disjoint)
qed

lemma le_nat_subslice_bits:
  assumes "a + n \<le> length bs" "shift + num \<le> 8 * n"
  shows "le_nat (subslice bs a (a + n)) div 2 ^ shift mod 2 ^ num = bits_at bs (8 * a + shift) num"
proof -
  let ?low = "take a bs" and ?mid = "subslice bs a (a + n)" and ?high = "drop (a + n) bs"
  have "bs = ?low @ ?mid @ ?high"
    using subslice_append_subslice [of a "a + n" "length bs" bs] assms(1)
    by (simp add: subslice_to_end)
  then have "le_nat bs = le_nat ?low + 256 ^ a * (le_nat ?mid + 256 ^ n * le_nat ?high)"
    using assms(1) le_nat_append [of ?low "?mid @ ?high"] le_nat_append [of ?mid ?high] by simp
  moreover have "le_nat ?low < 256 ^ a" using le_nat_less [of ?low] assms(1) by simp
  ultimately have "le_nat bs div 256 ^ a = le_nat ?mid + 256 ^ n * le_nat ?high" by simp
  then have "le_nat bs div 2 ^ (8 * a + shift)
      = (le_nat ?mid + 2 ^ (8 * n) * le_nat ?high) div 2 ^ shift"
    by (simp add: power_add div_mult2_eq pow256)
  also have "2 ^ (8 * n) * le_nat ?high = 2 ^ shift * (2 ^ num * (2 ^ (8 * n - shift - num) * le_nat ?high))"
    using assms(2) by (simp add: power_add [symmetric] mult.assoc [symmetric])
  finally have "le_nat bs div 2 ^ (8 * a + shift)
      = le_nat ?mid div 2 ^ shift + 2 ^ num * (2 ^ (8 * n - shift - num) * le_nat ?high)"
    by simp
  then show ?thesis by (simp add: bits_at_def)
qed

lemma read_u64_eq:
  assumes "num_bits \<le> 64" "bit_offset + num_bits \<le> bit_len bs" "bit_len bs < 2 ^ 64"
  shows "read_u64 bs bit_offset num_bits = Inr (bits_at bs bit_offset num_bits)"
proof (cases "num_bits = 0")
  case True
  then show ?thesis by (simp add: read_u64_def bits_at_def)
next
  case False
  define a s where "a = bit_offset div 8" and "s = bit_offset mod 8"
  define n where "n = (s + num_bits + 7) div 8"
  have off: "bit_offset = 8 * a + s" "s < 8" by (simp_all add: a_def s_def)
  have n: "s + num_bits \<le> 8 * n" "8 * n < s + num_bits + 8" unfolding n_def by presburger+
  have span: "a + n \<le> length bs"
    using assms(2) off n by (simp add: bit_len_def)
  from le_nat_subslice_bits [OF span n(1)]
  have "bit_acc bs a n div 2 ^ s mod 2 ^ num_bits = bits_at bs bit_offset num_bits"
    by (simp only: bit_acc_eq [OF span] off)
  then have "drop_bit s (bit_acc bs a n) AND mask num_bits = bits_at bs bit_offset num_bits"
    by (simp only: take_bit_eq_mask [symmetric] take_bit_eq_mod drop_bit_eq_div)
  moreover have "checked_add64 bit_offset num_bits = Some (bit_offset + num_bits)"
    using assms by (simp add: checked_add64_def)
  ultimately show ?thesis
    using False assms unfolding read_u64_def Let_def a_def [symmetric] s_def [symmetric]
      n_def [symmetric] by simp
qed

lemma bits_at_less: "bits_at bs off n < 2 ^ n"
  by (simp add: bits_at_def)

lemma read_u64_Inr_bound: "read_u64 bs off n = Inr x \<Longrightarrow> x < 2 ^ n"
  by (auto simp: read_u64_def Let_def result_simps take_bit_eq_mask [symmetric] split: if_splits)

lemma read_u64_Inr:
  assumes "read_u64 bs off n = Inr x" "bit_len bs < 2 ^ 64" "n \<noteq> 0"
  shows "n \<le> 64" "off + n \<le> bit_len bs" "x = bits_at bs off n"
proof -
  from assms show n: "n \<le> 64" and off: "off + n \<le> bit_len bs"
    by (auto simp: read_u64_def Let_def result_simps split: if_splits)
  from read_u64_eq [OF n off assms(2)] assms(1) show "x = bits_at bs off n" by simp
qed

text \<open>The signed reader interprets the top bit of the field as its sign.\<close>

lemma sint_word_of_nat_small: "x < 2 ^ 63 \<Longrightarrow> sint (word_of_nat x :: u64) = int x"
  using sint_sbintrunc' [where 'a = 64, of "int x"]
  by (simp add: signed_take_bit_int_eq_self)

lemma read_i64_eq:
  assumes "0 < num_bits" "num_bits \<le> 64" "bit_offset + num_bits \<le> bit_len bs" "bit_len bs < 2 ^ 64"
  shows "read_i64 bs bit_offset num_bits
    = Inr (signed_take_bit (num_bits - 1) (int (bits_at bs bit_offset num_bits)))"
proof -
  define raw where "raw = bits_at bs bit_offset num_bits"
  define w where "w = (word_of_nat raw :: u64)"
  have raw: "raw < 2 ^ num_bits" by (simp add: raw_def bits_at_less)
  have w_int: "w = word_of_int (int raw)" by (simp add: w_def)
  have hi: "\<not> bit (int raw) n" if "num_bits \<le> n" for n
  proof -
    have "take_bit num_bits (int raw) = int raw" using raw by (simp add: take_bit_int_eq_self)
    then show ?thesis using that by (metis bit_take_bit_iff not_less)
  qed
  have bits: "bit w n \<longleftrightarrow> n < 64 \<and> bit (int raw) n" for n
    unfolding w_int bit_word_of_int_iff by simp
  have read: "read_u64 bs bit_offset num_bits = Inr raw"
    using read_u64_eq [OF assms(2-4)] by (simp add: raw_def)
  have sign: "w AND push_bit (num_bits - 1) 1 \<noteq> 0 \<longleftrightarrow> bit (int raw) (num_bits - 1)"
  proof -
    have "num_bits - 1 < 64" using assms(2) by simp
    then have "bit w (num_bits - 1) \<longleftrightarrow> bit (int raw) (num_bits - 1)"
      using bits [of "num_bits - 1"] by (simp only: simp_thms)
    then show ?thesis by (simp only: bit_iff_and_push_bit_not_eq_0)
  qed
  have "sint (if num_bits = 64 then w
        else if bit (int raw) (num_bits - 1) then w OR push_bit num_bits (NOT 0) else w)
      = signed_take_bit (num_bits - 1) (int raw)" (is "sint ?v = ?r")
  proof -
    have "?v = word_of_int ?r"
    proof (rule bit_word_eqI)
      fix n assume "n < LENGTH(64)"
      consider "n < num_bits - 1" | "n = num_bits - 1" | "num_bits \<le> n" by linarith
      then show "bit ?v n = bit (word_of_int ?r :: u64) n"
        by cases (use assms(1,2) hi \<open>n < LENGTH(64)\<close> in
          \<open>auto simp: bits bit_simps min_def\<close>)
    qed
    moreover have "sint (word_of_int ?r :: u64) = ?r"
      using assms(2)
      by (cases "num_bits = 64") (auto simp: sint_sbintrunc' signed_take_bit_signed_take_bit min_def)
    ultimately show ?thesis by simp
  qed
  then show ?thesis
    using assms(1,2) read sign by (auto simp: read_i64_def Let_def w_def raw_def [symmetric])
qed

end
