(* ===== verification/Frozen.thy ===== *)
theory Frozen
  imports Schema Bitbuf
begin

text \<open>
  \<open>src/src/metadata/frozen.rs\<close>: positions, layout classification and the range, optional and
  element readers of the layout-driven decoder. \<open>Pos::child\<close> adds without a check, so its sums
  wrap at 64 bits as in a release build. A \<open>Frozen\<close> value is the pair of its schema and buffer.
\<close>

record pos =
  pos_byte :: nat
  pos_bit :: nat

definition pos_root :: pos where "pos_root = \<lparr>pos_byte = 0, pos_bit = 0\<rparr>"

definition absolute_bit :: "pos \<Rightarrow> nat" where
  "absolute_bit p = saturating_add64 (saturating_mul64 (pos_byte p) 8) (pos_bit p)"

definition child :: "pos \<Rightarrow> field \<Rightarrow> pos" where
  "child p f =
     (if fl_offset f < 0
      then p\<lparr>pos_bit := wrapping_add64 (pos_bit p) (nat (- fl_offset f))\<rparr>
      else p\<lparr>pos_byte := wrapping_add64 (pos_byte p) (nat (fl_offset f))\<rparr>)"

datatype layout_kind =
    Integral nat
  | KStruct
  | KString
  | KArray int
  | KOptional "int option"
  | KEmpty

definition layout_kind_of :: "layout \<Rightarrow> schema \<Rightarrow> layout_kind result" where
  "layout_kind_of l s =
     (let rest =
        (if layout_field l 3 \<noteq> None then Inr (KArray (fl_layout_id (the (layout_field l 3))))
         else if layout_field l 1 \<noteq> None \<or> layout_field l 2 \<noteq> None then Inr KString
         else Inr KStruct)
      in if ly_fields l = []
         then (if ly_bits l = 0 \<and> ly_size l = 0 then Inr KEmpty else Inr (Integral (ly_bits l)))
         else case layout_field l 1 of
           None \<Rightarrow> rest
         | Some f1 \<Rightarrow>
             and_then (schema_layout s (fl_layout_id f1)) (\<lambda>l1.
             if ly_fields l1 = [] \<and> ly_bits l1 = 1
             then Inr (KOptional (map_option fl_layout_id (layout_field l 2)))
             else rest))"

record range_view =
  rv_data_byte :: nat
  rv_count :: nat
  rv_item_layout_id :: "int option"

record optional_view =
  ov_present :: bool
  ov_value_pos :: pos
  ov_value_layout_id :: "int option"

record frozen =
  fz_schema :: schema
  fz_buf :: bytes

definition frozen_error :: "string \<Rightarrow> error" where
  "frozen_error message = Decode ''frozen2'' message"

definition read_integral :: "frozen \<Rightarrow> pos \<Rightarrow> nat \<Rightarrow> nat result" where
  "read_integral fz p bits = read_u64 (fz_buf fz) (absolute_bit p) bits"

record field_view =
  fv_field :: field
  fv_pos :: pos

definition frozen_field :: "frozen \<Rightarrow> pos \<Rightarrow> layout \<Rightarrow> int \<Rightarrow> field_view option" where
  "frozen_field fz parent l fid =
     map_option (\<lambda>f. \<lparr>fv_field = f, fv_pos = child parent f\<rparr>) (layout_field l fid)"

text \<open>An optional sub-field of a range, zero when the writer left it out.\<close>

definition range_part :: "frozen \<Rightarrow> pos \<Rightarrow> layout \<Rightarrow> int \<Rightarrow> nat result" where
  "range_part fz range_pos range_layout fid =
     (case layout_field range_layout fid of
        Some f \<Rightarrow>
          and_then (schema_layout (fz_schema fz) (fl_layout_id f)) (\<lambda>l.
          read_u64 (fz_buf fz) (absolute_bit (child range_pos f)) (ly_bits l))
      | None \<Rightarrow> Inr 0)"

definition frozen_read_range :: "frozen \<Rightarrow> pos \<Rightarrow> layout \<Rightarrow> range_view result" where
  "frozen_read_range fz range_pos range_layout =
     and_then (range_part fz range_pos range_layout 2) (\<lambda>count.
     and_then (if count = 0 then Inr 0 else range_part fz range_pos range_layout 1) (\<lambda>distance.
     and_then (ok_or (checked_add64 (pos_byte range_pos) distance)
                (frozen_error ''range distance overflow'')) (\<lambda>data_byte.
     Inr \<lparr>rv_data_byte = data_byte, rv_count = count,
          rv_item_layout_id = map_option fl_layout_id (layout_field range_layout 3)\<rparr>)))"

definition read_optional :: "frozen \<Rightarrow> pos \<Rightarrow> layout \<Rightarrow> optional_view result" where
  "read_optional fz opt_pos opt_layout =
     and_then (ok_or (layout_field opt_layout 1)
                (frozen_error ''expected sub-field with id {id}'')) (\<lambda>isset_field.
     and_then (read_bool (fz_buf fz) (absolute_bit (child opt_pos isset_field))) (\<lambda>present.
     case layout_field opt_layout 2 of
       Some value_field \<Rightarrow>
         Inr \<lparr>ov_present = present, ov_value_pos = child opt_pos value_field,
              ov_value_layout_id = Some (fl_layout_id value_field)\<rparr>
     | None \<Rightarrow>
         Inr \<lparr>ov_present = present, ov_value_pos = opt_pos, ov_value_layout_id = None\<rparr>))"

definition read_string_bytes :: "frozen \<Rightarrow> pos \<Rightarrow> layout \<Rightarrow> bytes result" where
  "read_string_bytes fz range_pos range_layout =
     and_then (frozen_read_range fz range_pos range_layout) (\<lambda>rng.
     let start = rv_data_byte rng in
     and_then (ok_or (checked_add64 start (rv_count rng))
                (frozen_error ''string slice overflow'')) (\<lambda>e.
     if length (fz_buf fz) < e
     then Inl (frozen_error ''string slice {start}..{end} runs past buffer of {} bytes'')
     else Inr (subslice (fz_buf fz) start e)))"

definition element_pos :: "frozen \<Rightarrow> range_view \<Rightarrow> nat \<Rightarrow> pos result" where
  "element_pos fz rng i =
     (case rv_item_layout_id rng of
        None \<Rightarrow>
          and_then (ok_or (checked_add64 (rv_data_byte rng) i)
                     (frozen_error ''string element offset overflow'')) (\<lambda>b.
          Inr \<lparr>pos_byte = b, pos_bit = 0\<rparr>)
      | Some item_id \<Rightarrow>
          and_then (schema_layout (fz_schema fz) item_id) (\<lambda>item_layout.
          if 0 < ly_size item_layout then
            and_then (ok_or (checked_mul64 i (ly_size item_layout))
                       (frozen_error ''array element byte offset overflow'')) (\<lambda>off.
            and_then (ok_or (checked_add64 (rv_data_byte rng) off)
                       (frozen_error ''array element byte offset overflow'')) (\<lambda>b.
            Inr \<lparr>pos_byte = b, pos_bit = 0\<rparr>))
          else
            and_then (ok_or (checked_mul64 i (ly_bits item_layout))
                       (frozen_error ''array element bit offset overflow'')) (\<lambda>bits.
            Inr \<lparr>pos_byte = rv_data_byte rng, pos_bit = bits\<rparr>)))"

subsection \<open>Bounds and anchoring\<close>

lemma absolute_bit_exact:
  "pos_byte p * 8 + pos_bit p < 2 ^ 64 - 1 \<Longrightarrow> absolute_bit p = pos_byte p * 8 + pos_bit p"
  by (auto simp: absolute_bit_def saturating_add64_def saturating_mul64_def min_def)

lemma absolute_bit_bound: "absolute_bit p < 2 ^ 64"
  by (auto simp: absolute_bit_def saturating_add64_def)

lemma read_string_bytes_in_buffer:
  assumes "read_string_bytes fz p l = Inr bs"
  shows "\<exists>rng. frozen_read_range fz p l = Inr rng
    \<and> rv_data_byte rng + rv_count rng \<le> length (fz_buf fz) \<and> length bs = rv_count rng
    \<and> bs = subslice (fz_buf fz) (rv_data_byte rng) (rv_data_byte rng + rv_count rng)"
  using assms by (auto simp: read_string_bytes_def Let_def result_simps split: if_splits)

text \<open>The data of a range lies at or after the byte the range itself is anchored at.\<close>

lemma frozen_read_range_anchor:
  assumes "frozen_read_range fz p l = Inr rng"
  shows "pos_byte p \<le> rv_data_byte rng" "rv_data_byte rng < 2 ^ 64"
    and "rv_count rng = 0 \<Longrightarrow> rv_data_byte rng = pos_byte p"
  using assms by (auto simp: frozen_read_range_def result_simps split: if_splits)

text \<open>
  Elements of a range never move the byte anchor off the data when they are bit packed, and
  stride by whole items otherwise.
\<close>

lemma element_pos_Inr:
  assumes "element_pos fz rng i = Inr p"
  shows "case rv_item_layout_id rng of
      None \<Rightarrow> p = \<lparr>pos_byte = rv_data_byte rng + i, pos_bit = 0\<rparr>
    | Some item \<Rightarrow> \<exists>l. schema_layout (fz_schema fz) item = Inr l \<and>
        p = (if 0 < ly_size l then \<lparr>pos_byte = rv_data_byte rng + i * ly_size l, pos_bit = 0\<rparr>
             else \<lparr>pos_byte = rv_data_byte rng, pos_bit = i * ly_bits l\<rparr>)"
  using assms by (auto simp: element_pos_def result_simps split: option.splits if_splits)

lemma layout_kind_of_empty:
  "layout_kind_of l s = Inr KEmpty \<longleftrightarrow> ly_fields l = [] \<and> ly_bits l = 0 \<and> ly_size l = 0"
  by (auto simp: layout_kind_of_def Let_def result_simps split: option.splits if_splits)

end
