(* ===== verification/Fsst.thy ===== *)
theory Fsst
  imports Errors
begin

text \<open>
  \<open>src/src/metadata/fsst.rs\<close>: the symbol table of compressed string tables and the decoder. A
  table maps each of 256 codes to an offset and a length in the concatenated symbol bytes.
\<close>

definition FSST_ESC :: byte where "FSST_ESC = 0xFF"

definition FSST_VERSION :: u32 where "FSST_VERSION = 20190218"

definition FSST_HEADER_LEN :: nat where "FSST_HEADER_LEN = 17"

definition NUM_CODES :: nat where "NUM_CODES = 256"

lemmas fsst_consts = FSST_ESC_def FSST_VERSION_def FSST_HEADER_LEN_def NUM_CODES_def

record sym_table =
  st_symbols :: bytes
  st_spans :: "(nat \<times> nat) list"
  st_zero_terminated :: bool

definition fsst_error :: "string \<Rightarrow> error" where
  "fsst_error message = Decode ''fsst'' message"

record fsst_parse_state =
  fp_symbols :: bytes
  fp_spans :: "(nat \<times> nat) list"
  fp_code :: nat
  fp_pos :: nat

text \<open>One symbol of length \<open>symbol_len\<close>.\<close>

definition fsst_take_symbol :: "bytes \<Rightarrow> nat \<Rightarrow> fsst_parse_state \<Rightarrow> fsst_parse_state result" where
  "fsst_take_symbol bs symbol_len st =
     (if NUM_CODES \<le> fp_code st then Inl (fsst_error ''too many FSST symbols'')
      else and_then (ok_or (checked_add64 (fp_pos st) symbol_len)
                      (fsst_error ''symbol overflow'')) (\<lambda>e.
        if length bs < e then Inl (fsst_error ''symbol bytes truncated'')
        else and_then (ok_or (u32_try_from (length (fp_symbols st)))
                        (fsst_error ''symbol table too large'')) (\<lambda>start.
        Inr \<lparr>fp_symbols = fp_symbols st @ subslice bs (fp_pos st) e,
             fp_spans = (fp_spans st)[fp_code st := (unat start, symbol_len)],
             fp_code = fp_code st + 1, fp_pos = e\<rparr>)))"

primrec fsst_take_symbols ::
    "bytes \<Rightarrow> nat \<Rightarrow> nat \<Rightarrow> fsst_parse_state \<Rightarrow> fsst_parse_state result" where
  "fsst_take_symbols bs symbol_len 0 st = Inr st"
| "fsst_take_symbols bs symbol_len (Suc n) st =
     and_then (fsst_take_symbol bs symbol_len st) (\<lambda>st. fsst_take_symbols bs symbol_len n st)"

text \<open>The lengths in the order they are serialized: 2 to 8, then 1.\<close>

fun fsst_take_slots ::
    "bytes \<Rightarrow> nat list \<Rightarrow> nat list \<Rightarrow> fsst_parse_state \<Rightarrow> fsst_parse_state result" where
  "fsst_take_slots bs histo [] st = Inr st"
| "fsst_take_slots bs histo (l # ls) st =
     (let slot = l mod 8 in
      and_then (fsst_take_symbols bs (slot + 1) (histo ! slot) st) (\<lambda>st.
      fsst_take_slots bs histo ls st))"

definition sym_table_parse :: "bytes \<Rightarrow> (sym_table \<times> nat) result" where
  "sym_table_parse bs =
     (if length bs < FSST_HEADER_LEN then Inl (fsst_error ''symbol table header too short'')
      else let version_word = from_le_bytes (subslice bs 0 8) :: u64;
               version_high = ucast (drop_bit 32 version_word) :: u32 in
        if version_high \<noteq> FSST_VERSION
        then Inl (fsst_error ''unexpected FSST version {version_high:#010x}'')
        else let zero_terminated = (bs ! 8 AND 1 \<noteq> 0);
                 len_histo = map unat (subslice bs 9 17);
                 histo = (if zero_terminated then len_histo[0 := len_histo ! 0 - 1] else len_histo);
                 st = \<lparr>fp_symbols = [], fp_spans = replicate NUM_CODES (0, 0),
                       fp_code = (if zero_terminated then 1 else 0), fp_pos = FSST_HEADER_LEN\<rparr>
             in and_then (fsst_take_slots bs histo [1..<9] st) (\<lambda>st.
                Inr (\<lparr>st_symbols = fp_symbols st, st_spans = fp_spans st,
                      st_zero_terminated = zero_terminated\<rparr>, fp_pos st)))"

definition symbol :: "sym_table \<Rightarrow> byte \<Rightarrow> bytes" where
  "symbol t code =
     (case st_spans t ! unat code of (start, len) \<Rightarrow> subslice (st_symbols t) start (start + len))"

fun fsst_decode :: "sym_table \<Rightarrow> bytes \<Rightarrow> bytes \<Rightarrow> bytes result" where
  "fsst_decode t [] out = Inr out"
| "fsst_decode t (b # rest) out =
     (if b = FSST_ESC then
        (case rest of
           [] \<Rightarrow> Inl (fsst_error ''FSST escape at end of input'')
         | lit # rest' \<Rightarrow> fsst_decode t rest' (out @ [lit]))
      else let sym = symbol t b in
        if sym = [] then Inl (fsst_error ''FSST code {byte:#04x} references unused symbol'')
        else fsst_decode t rest (out @ sym))"

definition decode_to_vec :: "sym_table \<Rightarrow> bytes \<Rightarrow> bytes result" where
  "decode_to_vec t compressed = fsst_decode t compressed []"

subsection \<open>The table is well formed\<close>

text \<open>
  What \<open>symbol\<close> relies on when it slices the symbol bytes: 256 spans, each inside the symbol
  bytes, none longer than eight.
\<close>

definition spans_ok :: "nat \<Rightarrow> (nat \<times> nat) list \<Rightarrow> bool" where
  "spans_ok n spans \<longleftrightarrow>
     length spans = 256 \<and> (\<forall>(start, len) \<in> set spans. start + len \<le> n \<and> len \<le> 8)"

definition wf_table :: "sym_table \<Rightarrow> bool" where
  "wf_table t \<longleftrightarrow> spans_ok (length (st_symbols t)) (st_spans t)"

lemma spans_ok_mono: "spans_ok n spans \<Longrightarrow> n \<le> m \<Longrightarrow> spans_ok m spans"
  by (fastforce simp: spans_ok_def)

lemma fsst_take_symbol_ok:
  assumes "fsst_take_symbol bs symbol_len st = Inr st'" "spans_ok (length (fp_symbols st)) (fp_spans st)"
    "symbol_len \<le> 8" "fp_pos st \<le> length bs"
  shows "spans_ok (length (fp_symbols st')) (fp_spans st') \<and> fp_pos st \<le> fp_pos st'
    \<and> fp_pos st' \<le> length bs"
proof -
  let ?e = "fp_pos st + symbol_len"
  from assms(1) have e: "?e \<le> length bs"
    and st': "st' = \<lparr>fp_symbols = fp_symbols st @ subslice bs (fp_pos st) ?e,
       fp_spans = (fp_spans st)[fp_code st := (length (fp_symbols st), symbol_len)],
       fp_code = fp_code st + 1, fp_pos = ?e\<rparr>"
    by (auto simp: fsst_take_symbol_def result_simps split: if_splits)
  have len: "length (fp_symbols st') = length (fp_symbols st) + symbol_len"
    using e by (simp add: st')
  have "spans_ok (length (fp_symbols st')) (fp_spans st)"
    using assms(2) len by (auto intro: spans_ok_mono)
  then have "spans_ok (length (fp_symbols st')) (fp_spans st')"
    using assms(3) len set_update_subset_insert [of "fp_spans st" "fp_code st"]
    by (fastforce simp: spans_ok_def st')
  with e show ?thesis by (simp add: st')
qed

lemma fsst_take_symbols_ok:
  "fsst_take_symbols bs symbol_len n st = Inr st' \<Longrightarrow>
   spans_ok (length (fp_symbols st)) (fp_spans st) \<Longrightarrow> symbol_len \<le> 8 \<Longrightarrow> fp_pos st \<le> length bs \<Longrightarrow>
   spans_ok (length (fp_symbols st')) (fp_spans st') \<and> fp_pos st \<le> fp_pos st'
     \<and> fp_pos st' \<le> length bs"
proof (induction n arbitrary: st)
  case (Suc n)
  then obtain st1 where s1: "fsst_take_symbol bs symbol_len st = Inr st1"
    and rest: "fsst_take_symbols bs symbol_len n st1 = Inr st'" by (auto simp: result_simps)
  from fsst_take_symbol_ok [OF s1] Suc.prems Suc.IH [OF rest] show ?case by auto
qed simp

lemma fsst_take_slots_ok:
  "fsst_take_slots bs histo ls st = Inr st' \<Longrightarrow>
   spans_ok (length (fp_symbols st)) (fp_spans st) \<Longrightarrow> fp_pos st \<le> length bs \<Longrightarrow>
   spans_ok (length (fp_symbols st')) (fp_spans st') \<and> fp_pos st \<le> fp_pos st'
     \<and> fp_pos st' \<le> length bs"
proof (induction ls arbitrary: st)
  case (Cons l ls)
  then obtain st1 where s1: "fsst_take_symbols bs (l mod 8 + 1) (histo ! (l mod 8)) st = Inr st1"
    and rest: "fsst_take_slots bs histo ls st1 = Inr st'" by (auto simp: result_simps Let_def)
  have "l mod 8 + 1 \<le> 8" by presburger
  from fsst_take_symbols_ok [OF s1 Cons.prems(2) this] Cons.prems Cons.IH [OF rest]
  show ?case by auto
qed simp

lemma sym_table_parse_wf:
  assumes "sym_table_parse bs = Inr (t, n)"
  shows "wf_table t \<and> FSST_HEADER_LEN \<le> n \<and> n \<le> length bs"
proof -
  have init: "spans_ok 0 (replicate NUM_CODES (0, 0))" by (auto simp: spans_ok_def NUM_CODES_def)
  from assms obtain histo st st' where run: "fsst_take_slots bs histo [1..<9] st = Inr st'"
    and st: "fp_symbols st = []" "fp_spans st = replicate NUM_CODES (0, 0)"
      "fp_pos st = FSST_HEADER_LEN"
    and t: "st_symbols t = fp_symbols st'" "st_spans t = fp_spans st'" "n = fp_pos st'"
    and len: "FSST_HEADER_LEN \<le> length bs"
    by (auto simp: sym_table_parse_def Let_def result_simps split: if_splits simp del: upt_Suc)
  from fsst_take_slots_ok [OF run] init st len show ?thesis by (simp add: wf_table_def t)
qed

subsection \<open>Decoding\<close>

text \<open>
  Compressed strings are sequences of tokens: a code of the table, or an escaped literal. This
  is the encoder's side of the format.
\<close>

datatype fsst_token = Code byte | Literal byte

fun token_bytes :: "fsst_token \<Rightarrow> bytes" where
  "token_bytes (Code c) = [c]"
| "token_bytes (Literal b) = [FSST_ESC, b]"

fun token_text :: "sym_table \<Rightarrow> fsst_token \<Rightarrow> bytes" where
  "token_text t (Code c) = symbol t c"
| "token_text t (Literal b) = [b]"

definition usable_token :: "sym_table \<Rightarrow> fsst_token \<Rightarrow> bool" where
  "usable_token t tok \<longleftrightarrow> (case tok of Code c \<Rightarrow> c \<noteq> FSST_ESC \<and> symbol t c \<noteq> [] | Literal b \<Rightarrow> True)"

lemma fsst_decode_tokens_out:
  "(\<forall>tok \<in> set toks. usable_token t tok) \<Longrightarrow>
   fsst_decode t (concat (map token_bytes toks)) out
     = Inr (out @ concat (map (token_text t) toks))"
proof (induction toks arbitrary: out)
  case (Cons tok toks)
  then show ?case by (cases tok) (auto simp: usable_token_def Let_def)
qed simp

lemma fsst_decode_tokens:
  "(\<forall>tok \<in> set toks. usable_token t tok) \<Longrightarrow>
   decode_to_vec t (concat (map token_bytes toks)) = Inr (concat (map (token_text t) toks))"
  by (simp add: decode_to_vec_def fsst_decode_tokens_out)

lemma fsst_decode_complete_out:
  "fsst_decode t bs out = Inr res \<Longrightarrow>
   \<exists>toks. (\<forall>tok \<in> set toks. usable_token t tok) \<and> bs = concat (map token_bytes toks)
     \<and> res = out @ concat (map (token_text t) toks)"
proof (induction t bs out rule: fsst_decode.induct)
  case (1 t out)
  then show ?case by (intro exI [of _ "[]"]) simp
next
  case (2 t b rest out)
  show ?case
  proof (cases "b = FSST_ESC")
    case True
    with 2(3) obtain lit rest' where r: "rest = lit # rest'"
      and d: "fsst_decode t rest' (out @ [lit]) = Inr res" by (cases rest) auto
    from 2(1) [OF True r d] obtain toks where "\<forall>tok \<in> set toks. usable_token t tok"
      "rest' = concat (map token_bytes toks)" "res = (out @ [lit]) @ concat (map (token_text t) toks)"
      by blast
    with True r show ?thesis
      by (intro exI [of _ "Literal lit # toks"]) (auto simp: usable_token_def)
  next
    case False
    with 2(3) have sym: "symbol t b \<noteq> []" and d: "fsst_decode t rest (out @ symbol t b) = Inr res"
      by (auto simp: Let_def split: if_splits)
    from 2(2) [OF False refl sym d] obtain toks where "\<forall>tok \<in> set toks. usable_token t tok"
      "rest = concat (map token_bytes toks)"
      "res = (out @ symbol t b) @ concat (map (token_text t) toks)"
      by blast
    with False sym show ?thesis
      by (intro exI [of _ "Code b # toks"]) (auto simp: usable_token_def)
  qed
qed

lemma fsst_decode_iff:
  "decode_to_vec t bs = Inr res \<longleftrightarrow>
     (\<exists>toks. (\<forall>tok \<in> set toks. usable_token t tok) \<and> bs = concat (map token_bytes toks)
        \<and> res = concat (map (token_text t) toks))"
  using fsst_decode_complete_out [of t bs "[]"] fsst_decode_tokens [of _ t]
  by (auto simp: decode_to_vec_def)

lemma symbol_length: "wf_table t \<Longrightarrow> length (symbol t c) \<le> 8"
proof -
  assume wf: "wf_table t"
  have "unat c < 256" by (rule unat_byte_less)
  with wf have "st_spans t ! unat c \<in> set (st_spans t)"
    by (simp add: wf_table_def spans_ok_def)
  with wf show ?thesis
    by (cases "st_spans t ! unat c") (fastforce simp: symbol_def wf_table_def spans_ok_def)
qed

lemma fsst_decode_length:
  "wf_table t \<Longrightarrow> fsst_decode t bs out = Inr res \<Longrightarrow> length res \<le> length out + 8 * length bs"
proof (induction t bs out rule: fsst_decode.induct)
  case (2 t b rest out)
  show ?case
  proof (cases "b = FSST_ESC")
    case True
    with 2 show ?thesis by (cases rest) fastforce+
  next
    case False
    with 2(4) have sym: "symbol t b \<noteq> []" and d: "fsst_decode t rest (out @ symbol t b) = Inr res"
      by (auto simp: Let_def split: if_splits)
    from 2(2) [OF False refl sym 2(3) d] symbol_length [OF 2(3), of b] show ?thesis by simp
  qed
qed simp

end
