(* ===== verification/String_Table.thy ===== *)
theory String_Table
  imports Fsst
begin

text \<open>
  The string tables of \<open>src/src/metadata/model.rs\<close>: the flat representation with an offset index,
  the prefix sum that unpacks a delta-packed index, and the decoder that slices, decompresses and
  concatenates the windows of a serialized table. A table represents a list of strings; the
  decoder is shown to represent exactly the decoded windows, and the packed and the plain index
  to decode to the same table.
\<close>

definition model_error :: "string \<Rightarrow> error" where
  "model_error message = Decode ''frozen2-model'' message"

record string_table =
  tb_data :: bytes
  tb_offsets :: "u32 list"

definition string_table_default :: string_table where
  "string_table_default = \<lparr>tb_data = [], tb_offsets = []\<rparr>"

definition table_len :: "string_table \<Rightarrow> nat" where
  "table_len t = length (tb_offsets t) - 1"

definition table_get :: "string_table \<Rightarrow> nat \<Rightarrow> bytes option" where
  "table_get t index =
     (case get_at (tb_offsets t) index of
        None \<Rightarrow> None
      | Some start \<Rightarrow>
          (case get_at (tb_offsets t) (index + 1) of
             None \<Rightarrow> None
           | Some e \<Rightarrow>
               if unat start \<le> unat e \<and> unat e \<le> length (tb_data t)
               then Some (subslice (tb_data t) (unat start) (unat e)) else None))"

definition table_iter :: "string_table \<Rightarrow> bytes list" where
  "table_iter t = List.map_filter (table_get t) [0..<table_len t]"

fun prefix_sum_from :: "u32 \<Rightarrow> u32 list \<Rightarrow> u32 list" where
  "prefix_sum_from acc [] = []"
| "prefix_sum_from acc (d # ds) = (acc + d) # prefix_sum_from (acc + d) ds"

definition inclusive_prefix_sum_u32 :: "u32 list \<Rightarrow> u32 list" where
  "inclusive_prefix_sum_u32 deltas = prefix_sum_from 0 deltas"

text \<open>Append one string and record where it ends.\<close>

definition table_push :: "string \<Rightarrow> string_table \<Rightarrow> bytes \<Rightarrow> string_table result" where
  "table_push too_long out bs =
     (let data = tb_data out @ bs in
      and_then (ok_or (u32_try_from (length data)) (model_error too_long)) (\<lambda>mark.
      Inr \<lparr>tb_data = data, tb_offsets = tb_offsets out @ [mark]\<rparr>))"

definition window_bytes :: "sym_table option \<Rightarrow> bytes \<Rightarrow> u32 \<times> u32 \<Rightarrow> bytes result" where
  "window_bytes table buffer w =
     (let start = unat (fst w); e = unat (snd w) in
      if e < start \<or> length buffer < e
      then Inl (model_error ''string_table slice {start}..{end} out of buffer ({} bytes)'')
      else (case table of
              Some t \<Rightarrow> decode_to_vec t (subslice buffer start e)
            | None \<Rightarrow> Inr (subslice buffer start e)))"

fun string_table_windows ::
    "sym_table option \<Rightarrow> bytes \<Rightarrow> (u32 \<times> u32) list \<Rightarrow> string_table \<Rightarrow> string_table result" where
  "string_table_windows table buffer [] out = Inr out"
| "string_table_windows table buffer (w # ws) out =
     and_then (window_bytes table buffer w) (\<lambda>bs.
     and_then (table_push ''string table exceeds 4 GiB'' out bs) (\<lambda>out.
     string_table_windows table buffer ws out))"

definition windows2 :: "'a list \<Rightarrow> ('a \<times> 'a) list" where
  "windows2 xs = zip xs (tl xs)"

definition decode_string_table ::
    "bytes \<Rightarrow> bytes option \<Rightarrow> u32 list \<Rightarrow> bool \<Rightarrow> string_table result" where
  "decode_string_table buffer symtab index packed =
     (let offsets = (if packed then 0 # inclusive_prefix_sum_u32 index else index) in
      if length offsets < 2 then Inr string_table_default
      else and_then
        (case symtab of
           Some bs \<Rightarrow> and_then (sym_table_parse bs) (\<lambda>(t, n). Inr (Some t))
         | None \<Rightarrow> Inr None) (\<lambda>table.
        string_table_windows table buffer (windows2 offsets) \<lparr>tb_data = [], tb_offsets = [0]\<rparr>))"

subsection \<open>The prefix sum\<close>

lemma length_prefix_sum_from [simp]: "length (prefix_sum_from acc ds) = length ds"
  by (induction acc ds rule: prefix_sum_from.induct) auto

lemma prefix_sum_from_nth:
  "i < length ds \<Longrightarrow> prefix_sum_from acc ds ! i = acc + sum_list (take (Suc i) ds)"
proof (induction acc ds arbitrary: i rule: prefix_sum_from.induct)
  case (2 acc d ds)
  then show ?case by (cases i) (auto simp: add.assoc)
qed simp

lemma inclusive_prefix_sum_nth:
  "i < length ds \<Longrightarrow> inclusive_prefix_sum_u32 ds ! i = sum_list (take (Suc i) ds)"
  by (simp add: inclusive_prefix_sum_u32_def prefix_sum_from_nth)

lemma length_inclusive_prefix_sum [simp]: "length (inclusive_prefix_sum_u32 ds) = length ds"
  by (simp add: inclusive_prefix_sum_u32_def)

text \<open>Packing is the difference of neighbours; unpacking restores any offsets, wrap-around included.\<close>

definition deltas :: "u32 list \<Rightarrow> u32 list" where
  "deltas offsets = map (\<lambda>(a, b). b - a) (windows2 offsets)"

lemma prefix_sum_from_deltas: "prefix_sum_from x (deltas (x # xs)) = xs"
  by (induction xs arbitrary: x) (auto simp: deltas_def windows2_def)

lemma inclusive_prefix_sum_deltas:
  "offsets \<noteq> [] \<Longrightarrow> hd offsets = 0 \<Longrightarrow> 0 # inclusive_prefix_sum_u32 (deltas offsets) = offsets"
  by (cases offsets) (auto simp: inclusive_prefix_sum_u32_def prefix_sum_from_deltas)

lemma decode_string_table_packed:
  "offsets \<noteq> [] \<Longrightarrow> hd offsets = 0 \<Longrightarrow>
   decode_string_table buffer symtab (deltas offsets) True
     = decode_string_table buffer symtab offsets False"
  by (simp add: decode_string_table_def inclusive_prefix_sum_deltas)

subsection \<open>What a table represents\<close>

definition offsets_of :: "bytes list \<Rightarrow> u32 list" where
  "offsets_of ss = map (\<lambda>i. word_of_nat (length (concat (take i ss)))) [0..<Suc (length ss)]"

definition represents :: "string_table \<Rightarrow> bytes list \<Rightarrow> bool" where
  "represents t ss \<longleftrightarrow>
     tb_data t = concat ss \<and> tb_offsets t = offsets_of ss \<and> length (concat ss) < 2 ^ 32"

lemma length_offsets_of [simp]: "length (offsets_of ss) = Suc (length ss)"
  by (simp add: offsets_of_def)

lemma length_concat_take_le: "length (concat (take i ss)) \<le> length (concat ss)"
  by (metis append_take_drop_id concat_append length_append le_add1)

lemma offsets_of_nth:
  "length (concat ss) < 2 ^ 32 \<Longrightarrow> i \<le> length ss \<Longrightarrow>
   unat (offsets_of ss ! i) = length (concat (take i ss))"
  using length_concat_take_le [of i ss]
  by (simp add: offsets_of_def unat_of_nat nth_append less_Suc_eq_le del: upt_Suc)

lemma represents_get:
  assumes "represents t ss"
  shows "table_get t i = (if i < length ss then Some (ss ! i) else None)"
proof (cases "i < length ss")
  case True
  let ?a = "length (concat (take i ss))"
  from assms have d: "tb_data t = concat ss" and o: "tb_offsets t = offsets_of ss"
    and l: "length (concat ss) < 2 ^ 32" by (auto simp: represents_def)
  have split: "concat ss = concat (take i ss) @ ss ! i @ concat (drop (Suc i) ss)"
    by (metis True concat.simps(2) concat_append id_take_nth_drop)
  have b: "length (concat (take (Suc i) ss)) = ?a + length (ss ! i)"
    using True by (simp add: take_Suc_conv_app_nth)
  have "subslice (concat ss) ?a (?a + length (ss ! i)) = ss ! i"
    unfolding split by (rule subslice_append_at) simp
  moreover have "?a + length (ss ! i) \<le> length (concat ss)"
    using length_concat_take_le [of "Suc i" ss] b by simp
  ultimately show ?thesis
    using True l b by (simp add: table_get_def d o offsets_of_nth)
next
  case False
  with assms show ?thesis
    by (auto simp: table_get_def represents_def get_at_def split: option.splits)
qed

lemma represents_len: "represents t ss \<Longrightarrow> table_len t = length ss"
  by (simp add: represents_def table_len_def)

lemma represents_iter: "represents t ss \<Longrightarrow> table_iter t = ss"
proof -
  assume r: "represents t ss"
  have "List.map_filter (table_get t) [0..<length ss] = map (\<lambda>i. ss ! i) [0..<length ss]"
    unfolding List.map_filter_def using represents_get [OF r] by (auto intro!: map_cong filter_True)
  with r show ?thesis by (simp add: table_iter_def represents_len map_nth)
qed

lemma represents_push:
  assumes "represents t ss"
  shows "table_push msg t s = Inr t' \<longleftrightarrow>
     length (concat (ss @ [s])) < 2 ^ 32 \<and> represents t' (ss @ [s])
     \<and> t' = \<lparr>tb_data = concat (ss @ [s]), tb_offsets = offsets_of (ss @ [s])\<rparr>"
proof -
  have "offsets_of (ss @ [s]) = offsets_of ss @ [word_of_nat (length (concat (ss @ [s])))]"
    by (simp add: offsets_of_def)
  with assms show ?thesis
    by (auto simp: table_push_def Let_def result_simps represents_def u32_try_from_def
        split: if_splits)
qed

lemma represents_empty: "represents \<lparr>tb_data = [], tb_offsets = [0]\<rparr> []"
  by (simp add: represents_def offsets_of_def)

lemma string_table_windows_represents:
  "represents out ss \<Longrightarrow> string_table_windows table buffer ws out = Inr t \<Longrightarrow>
   \<exists>ts. try_map (window_bytes table buffer) ws = Inr ts \<and> represents t (ss @ ts)"
proof (induction ws arbitrary: out ss)
  case Nil
  then show ?case by simp
next
  case (Cons w ws)
  from Cons.prems(2) obtain bs out' where b: "window_bytes table buffer w = Inr bs"
    and p: "table_push ''string table exceeds 4 GiB'' out bs = Inr out'"
    and rest: "string_table_windows table buffer ws out' = Inr t" by (auto simp: result_simps)
  from p represents_push [OF Cons.prems(1)] have "represents out' (ss @ [bs])" by blast
  from Cons.IH [OF this rest] b show ?case by auto
qed

lemma string_table_windows_returns:
  "represents out ss \<Longrightarrow> try_map (window_bytes table buffer) ws = Inr ts \<Longrightarrow>
   length (concat (ss @ ts)) < 2 ^ 32 \<Longrightarrow>
   \<exists>t. string_table_windows table buffer ws out = Inr t \<and> represents t (ss @ ts)"
proof (induction ws arbitrary: out ss ts)
  case Nil
  then show ?case by simp
next
  case (Cons w ws)
  from Cons.prems(2) obtain bs ts' where b: "window_bytes table buffer w = Inr bs"
    and r: "try_map (window_bytes table buffer) ws = Inr ts'" and ts: "ts = bs # ts'"
    by (auto simp: result_simps)
  let ?out = "\<lparr>tb_data = concat (ss @ [bs]), tb_offsets = offsets_of (ss @ [bs])\<rparr>"
  have rep: "represents ?out (ss @ [bs])"
    using Cons.prems(3) ts by (simp add: represents_def)
  moreover have "table_push ''string table exceeds 4 GiB'' out bs = Inr ?out"
    using represents_push [OF Cons.prems(1)] rep by (simp add: represents_def)
  ultimately show ?case
    using Cons.IH [OF rep r] Cons.prems(3) b ts by simp
qed

text \<open>The table decoded from a plain index holds the decoded windows, in order.\<close>

lemma decode_string_table_windows:
  assumes "decode_string_table buffer None index packed = Inr t"
    and "offsets = (if packed then 0 # inclusive_prefix_sum_u32 index else index)"
    and "2 \<le> length offsets" "i + 1 < length offsets"
  shows "table_get t i = Some (subslice buffer (unat (offsets ! i)) (unat (offsets ! (i + 1))))"
proof -
  from assms have w: "string_table_windows None buffer (windows2 offsets)
      \<lparr>tb_data = [], tb_offsets = [0]\<rparr> = Inr t"
    by (auto simp: decode_string_table_def Let_def split: if_splits)
  from string_table_windows_represents [OF represents_empty w]
  obtain ts where ts: "try_map (window_bytes None buffer) (windows2 offsets) = Inr ts"
    and rep: "represents t ts" by auto
  have len: "length (windows2 offsets) = length offsets - 1" by (simp add: windows2_def)
  with assms(4) have i: "i < length (windows2 offsets)" by simp
  have "windows2 offsets ! i = (offsets ! i, offsets ! (i + 1))"
    using i len assms(4) by (simp add: windows2_def nth_tl)
  with try_map_nth [OF ts i] have "ts ! i = subslice buffer (unat (offsets ! i)) (unat (offsets ! (i + 1)))"
    by (auto simp: window_bytes_def Let_def split: if_splits)
  moreover have "i < length ts" using try_map_length [OF ts] i by simp
  ultimately show ?thesis using represents_get [OF rep] by simp
qed

text \<open>Serializing a list of strings without compression and decoding it gives the list back.\<close>

lemma windows2_offsets_of:
  "i < length ss \<Longrightarrow> windows2 (offsets_of ss) ! i = (offsets_of ss ! i, offsets_of ss ! Suc i)"
  by (simp add: windows2_def nth_tl)

lemma decode_serialized_table:
  assumes "length (concat ss) < 2 ^ 32" "ss \<noteq> []"
  shows "\<exists>t. decode_string_table (concat ss) None (offsets_of ss) False = Inr t
    \<and> represents t ss"
proof -
  have "try_map (window_bytes None (concat ss)) (windows2 (offsets_of ss)) = Inr ss"
  proof (unfold try_map_Inr, intro conjI allI impI)
    show "length ss = length (windows2 (offsets_of ss))" by (simp add: windows2_def)
    fix i assume "i < length (windows2 (offsets_of ss))"
    then have i: "i < length ss" by (simp add: windows2_def)
    let ?a = "length (concat (take i ss))"
    have "concat ss = concat (take i ss) @ ss ! i @ concat (drop (Suc i) ss)"
      by (metis i concat.simps(2) concat_append id_take_nth_drop)
    then have s: "subslice (concat ss) ?a (?a + length (ss ! i)) = ss ! i"
      using subslice_append_at [of "length (ss ! i)" "ss ! i"] by metis
    have b: "length (concat (take (Suc i) ss)) = ?a + length (ss ! i)"
      using i by (simp add: take_Suc_conv_app_nth)
    with length_concat_take_le [of "Suc i" ss] have "?a + length (ss ! i) \<le> length (concat ss)"
      by simp
    with s b show "window_bytes None (concat ss) (windows2 (offsets_of ss) ! i) = Inr (ss ! i)"
      using assms(1) i
      by (simp add: window_bytes_def Let_def windows2_offsets_of offsets_of_nth not_less)
  qed
  from string_table_windows_returns [OF represents_empty this] assms
  show ?thesis
    by (cases ss) (auto simp: decode_string_table_def Let_def)
qed

end
