(* ===== verification/Model.thy ===== *)
theory Model
  imports Frozen String_Table
begin

text \<open>
  \<open>src/src/metadata/model.rs\<close>: the typed accessors over a frozen metadata blob. Each accessor
  resolves its root field through the schema and decodes only what it returns. \<open>u32\<close> columns are
  range checked into \<open>32 word\<close>, 64-bit columns stay natural numbers.
\<close>

definition DEFAULT_LIST_CAP :: nat where "DEFAULT_LIST_CAP = 64 * 1024 * 1024"

text \<open>Field ids of \<open>metadata.thrift\<close>.\<close>

definition ID_CHUNKS :: int where "ID_CHUNKS = 1"
definition ID_DIRECTORIES :: int where "ID_DIRECTORIES = 2"
definition ID_INODES :: int where "ID_INODES = 3"
definition ID_CHUNK_TABLE :: int where "ID_CHUNK_TABLE = 4"
definition ID_SYMLINK_TABLE :: int where "ID_SYMLINK_TABLE = 6"
definition ID_UIDS :: int where "ID_UIDS = 7"
definition ID_GIDS :: int where "ID_GIDS = 8"
definition ID_MODES :: int where "ID_MODES = 9"
definition ID_NAMES :: int where "ID_NAMES = 10"
definition ID_SYMLINKS :: int where "ID_SYMLINKS = 11"
definition ID_TIMESTAMP_BASE :: int where "ID_TIMESTAMP_BASE = 12"
definition ID_BLOCK_SIZE :: int where "ID_BLOCK_SIZE = 15"
definition ID_TOTAL_FS_SIZE :: int where "ID_TOTAL_FS_SIZE = 16"
definition ID_DEVICES :: int where "ID_DEVICES = 17"
definition ID_OPTIONS :: int where "ID_OPTIONS = 18"
definition ID_DIR_ENTRIES :: int where "ID_DIR_ENTRIES = 19"
definition ID_SHARED_FILES_TABLE :: int where "ID_SHARED_FILES_TABLE = 20"
definition ID_COMPACT_NAMES :: int where "ID_COMPACT_NAMES = 24"
definition ID_COMPACT_SYMLINKS :: int where "ID_COMPACT_SYMLINKS = 25"
definition ID_PREFERRED_PATH_SEPARATOR :: int where "ID_PREFERRED_PATH_SEPARATOR = 26"
definition ID_FEATURES :: int where "ID_FEATURES = 27"
definition ID_CATEGORY_NAMES :: int where "ID_CATEGORY_NAMES = 28"
definition ID_BLOCK_CATEGORIES :: int where "ID_BLOCK_CATEGORIES = 29"
definition ID_HOLE_BLOCK_INDEX :: int where "ID_HOLE_BLOCK_INDEX = 34"
definition ID_LARGE_HOLE_SIZE :: int where "ID_LARGE_HOLE_SIZE = 35"
definition ID_TOTAL_ALLOCATED_FS_SIZE :: int where "ID_TOTAL_ALLOCATED_FS_SIZE = 36"

record chunk =
  ck_block :: u32
  ck_offset :: u32
  ck_size :: u32

record dir_entry =
  de_name_index :: u32
  de_inode_num :: u32

record directory =
  dr_parent_entry :: u32
  dr_first_entry :: u32
  dr_self_entry :: u32

record fs_options =
  fo_mtime_only :: bool
  fo_time_resolution_sec :: "u32 option"
  fo_packed_chunk_table :: bool
  fo_packed_directories :: bool
  fo_packed_shared_files_table :: bool
  fo_subsecond_resolution_nsec_multiplier :: "u32 option"
  fo_has_btime :: bool
  fo_inodes_have_nlink :: bool

definition fs_options_default :: fs_options where
  "fs_options_default =
     \<lparr>fo_mtime_only = False, fo_time_resolution_sec = None, fo_packed_chunk_table = False,
      fo_packed_directories = False, fo_packed_shared_files_table = False,
      fo_subsecond_resolution_nsec_multiplier = None, fo_has_btime = False,
      fo_inodes_have_nlink = False\<rparr>"

record inode_data =
  in_mode_index :: u32
  in_owner_index :: u32
  in_group_index :: u32
  in_atime_offset :: nat
  in_mtime_offset :: nat
  in_ctime_offset :: nat
  in_btime_offset :: nat
  in_atime_subsec :: nat
  in_mtime_subsec :: nat
  in_ctime_subsec :: nat
  in_btime_subsec :: nat
  in_nlink_minus_one :: u32

record metadata =
  md_frozen :: frozen
  md_root_layout :: layout

record column =
  cl_field :: "field option"
  cl_bits :: nat

definition column_absent :: column where
  "column_absent = \<lparr>cl_field = None, cl_bits = 0\<rparr>"

definition out_of_range :: "string \<Rightarrow> error" where
  "out_of_range name = model_error (name @ '' value {value} out of range for target type'')"

definition md_schema :: "metadata \<Rightarrow> schema" where
  "md_schema m = fz_schema (md_frozen m)"

definition metadata_parse :: "schema \<Rightarrow> bytes \<Rightarrow> metadata result" where
  "metadata_parse s bs =
     and_then (schema_root s) (\<lambda>root_layout.
     Inr \<lparr>md_frozen = \<lparr>fz_schema = s, fz_buf = bs\<rparr>, md_root_layout = root_layout\<rparr>)"

definition md_layout :: "metadata \<Rightarrow> int \<Rightarrow> layout result" where
  "md_layout m lid = schema_layout (md_schema m) lid"

definition md_field :: "metadata \<Rightarrow> int \<Rightarrow> field_view option" where
  "md_field m fid = frozen_field (md_frozen m) pos_root (md_root_layout m) fid"

subsection \<open>Integers\<close>

definition read_int :: "metadata \<Rightarrow> int \<Rightarrow> nat result" where
  "read_int m fid =
     and_then (ok_or (md_field m fid) (model_error ''required metadata field {id} missing'')) (\<lambda>view.
     and_then (md_layout m (fl_layout_id (fv_field view))) (\<lambda>l.
     read_integral (md_frozen m) (fv_pos view) (ly_bits l)))"

definition read_optional_int :: "metadata \<Rightarrow> int \<Rightarrow> nat option result" where
  "read_optional_int m fid =
     (case md_field m fid of
        None \<Rightarrow> Inr None
      | Some view \<Rightarrow>
          and_then (md_layout m (fl_layout_id (fv_field view))) (\<lambda>l.
          and_then (read_optional (md_frozen m) (fv_pos view) l) (\<lambda>opt.
          if \<not> ov_present opt then Inr None
          else case ov_value_layout_id opt of
            None \<Rightarrow> Inr (Some 0)
          | Some value_layout_id \<Rightarrow>
              and_then (md_layout m value_layout_id) (\<lambda>value_layout.
              and_then (read_integral (md_frozen m) (ov_value_pos opt) (ly_bits value_layout)) (\<lambda>v.
              Inr (Some v))))))"

definition block_size :: "metadata \<Rightarrow> u32 result" where
  "block_size m =
     and_then (read_int m ID_BLOCK_SIZE) (\<lambda>v.
     ok_or (u32_try_from v) (out_of_range ''block_size''))"

definition total_fs_size :: "metadata \<Rightarrow> nat result" where
  "total_fs_size m = read_int m ID_TOTAL_FS_SIZE"

definition timestamp_base :: "metadata \<Rightarrow> nat result" where
  "timestamp_base m = read_int m ID_TIMESTAMP_BASE"

definition total_allocated_fs_size :: "metadata \<Rightarrow> nat option result" where
  "total_allocated_fs_size m = read_optional_int m ID_TOTAL_ALLOCATED_FS_SIZE"

definition hole_block_index :: "metadata \<Rightarrow> u32 option result" where
  "hole_block_index m =
     and_then (read_optional_int m ID_HOLE_BLOCK_INDEX) (\<lambda>v.
     case v of
       None \<Rightarrow> Inr None
     | Some v \<Rightarrow>
         and_then (ok_or (u32_try_from v) (out_of_range ''hole_block_index'')) (\<lambda>w. Inr (Some w)))"

definition preferred_path_separator :: "metadata \<Rightarrow> u32 option result" where
  "preferred_path_separator m =
     (case md_field m ID_PREFERRED_PATH_SEPARATOR of
        None \<Rightarrow> Inr None
      | Some view \<Rightarrow>
          and_then (md_layout m (fl_layout_id (fv_field view))) (\<lambda>l.
          and_then (read_optional (md_frozen m) (fv_pos view) l) (\<lambda>opt.
          if \<not> ov_present opt then Inr None
          else case ov_value_layout_id opt of
            None \<Rightarrow> Inr (Some 0)
          | Some value_layout_id \<Rightarrow>
              and_then (md_layout m value_layout_id) (\<lambda>value_layout.
              and_then (read_integral (md_frozen m) (ov_value_pos opt) (ly_bits value_layout)) (\<lambda>v.
              and_then (ok_or (u32_try_from v) (out_of_range ''preferred_path_separator''))
                (\<lambda>w. Inr (Some w)))))))"

subsection \<open>Lists\<close>

text \<open>
  A root field's outer layout, and the layout and position behind an \<open>Optional\<close> wrapper: absent
  when the optional is unset or its value was elided.
\<close>

definition unwrap_optional :: "metadata \<Rightarrow> field_view \<Rightarrow> (layout \<times> pos) option result" where
  "unwrap_optional m view =
     and_then (md_layout m (fl_layout_id (fv_field view))) (\<lambda>outer.
     and_then (layout_kind_of outer (md_schema m)) (\<lambda>kind.
     case kind of
       KOptional value_layout_id \<Rightarrow>
         and_then (read_optional (md_frozen m) (fv_pos view) outer) (\<lambda>opt.
         if \<not> ov_present opt then Inr None
         else case value_layout_id of
           None \<Rightarrow> Inr None
         | Some lid \<Rightarrow>
             and_then (md_layout m lid) (\<lambda>inner. Inr (Some (inner, ov_value_pos opt))))
     | _ \<Rightarrow> Inr (Some (outer, fv_pos view))))"

definition resolve_list :: "metadata \<Rightarrow> int \<Rightarrow> (layout \<times> pos) option result" where
  "resolve_list m fid =
     (case md_field m fid of None \<Rightarrow> Inr None | Some view \<Rightarrow> unwrap_optional m view)"

definition check_cap :: "string \<Rightarrow> nat \<Rightarrow> range_view \<Rightarrow> unit result" where
  "check_cap name cap rng =
     (if cap < rv_count rng then Inl (CapExceeded name cap (rv_count rng)) else Inr ())"

text \<open>The integers of a resolved range, in each of the encodings the writer may choose.\<close>

definition range_ints :: "metadata \<Rightarrow> range_view \<Rightarrow> nat \<Rightarrow> nat list result" where
  "range_ints m rng bits =
     (if bits = 0 then Inr (replicate (rv_count rng) 0)
      else try_map (\<lambda>i.
        and_then (element_pos (md_frozen m) rng i) (\<lambda>p. read_integral (md_frozen m) p bits))
        [0..<rv_count rng])"

definition read_int_list :: "metadata \<Rightarrow> int \<Rightarrow> nat \<Rightarrow> nat list result" where
  "read_int_list m fid cap =
     and_then (resolve_list m fid) (\<lambda>found.
     case found of
       None \<Rightarrow> Inr []
     | Some (list_layout, list_pos) \<Rightarrow>
         and_then (layout_kind_of list_layout (md_schema m)) (\<lambda>kind.
         and_then (frozen_read_range (md_frozen m) list_pos list_layout) (\<lambda>rng.
         and_then (check_cap ''list-count'' cap rng) (\<lambda>_.
         case kind of
           KArray item_layout_id \<Rightarrow>
             and_then (md_layout m item_layout_id) (\<lambda>item_layout.
             if ly_fields item_layout \<noteq> []
             then Inl (model_error ''field {id} elements are not integral'')
             else range_ints m rng (ly_bits item_layout))
         | KString \<Rightarrow> Inr (replicate (rv_count rng) 0)
         | _ \<Rightarrow> Inl (model_error ''field {id} is not a list (kind={kind:?})'')))))"

definition read_u32_list :: "metadata \<Rightarrow> int \<Rightarrow> u32 list result" where
  "read_u32_list m fid =
     and_then (read_int_list m fid DEFAULT_LIST_CAP) (\<lambda>values.
     try_map (\<lambda>v. ok_or (u32_try_from v)
       (model_error ''list element {v} does not fit in u32 (field {id})'')) values)"

definition uids :: "metadata \<Rightarrow> u32 list result" where "uids m = read_u32_list m ID_UIDS"

definition gids :: "metadata \<Rightarrow> u32 list result" where "gids m = read_u32_list m ID_GIDS"

definition modes :: "metadata \<Rightarrow> u32 list result" where "modes m = read_u32_list m ID_MODES"

definition chunk_table_raw :: "metadata \<Rightarrow> u32 list result" where
  "chunk_table_raw m = read_u32_list m ID_CHUNK_TABLE"

definition symlink_table :: "metadata \<Rightarrow> u32 list result" where
  "symlink_table m = read_u32_list m ID_SYMLINK_TABLE"

definition large_hole_size :: "metadata \<Rightarrow> nat list result" where
  "large_hole_size m = read_int_list m ID_LARGE_HOLE_SIZE DEFAULT_LIST_CAP"

definition devices :: "metadata \<Rightarrow> nat list result" where
  "devices m = read_int_list m ID_DEVICES DEFAULT_LIST_CAP"

definition block_categories :: "metadata \<Rightarrow> u32 list result" where
  "block_categories m =
     and_then (read_int_list m ID_BLOCK_CATEGORIES DEFAULT_LIST_CAP) (\<lambda>raw.
     try_map (\<lambda>v. ok_or (u32_try_from v) (out_of_range ''block_categories'')) raw)"

subsection \<open>Lists of structs\<close>

definition column_of :: "metadata \<Rightarrow> layout \<Rightarrow> int \<Rightarrow> column result" where
  "column_of m l fid =
     (case layout_field l fid of
        None \<Rightarrow> Inr column_absent
      | Some f \<Rightarrow>
          and_then (md_layout m (fl_layout_id f)) (\<lambda>fl.
          Inr \<lparr>cl_field = Some f, cl_bits = ly_bits fl\<rparr>))"

definition read_column :: "metadata \<Rightarrow> pos \<Rightarrow> column \<Rightarrow> nat result" where
  "read_column m p c =
     (case cl_field c of
        None \<Rightarrow> Inr 0
      | Some f \<Rightarrow> read_integral (md_frozen m) (child p f) (cl_bits c))"

definition read_column_u32 :: "metadata \<Rightarrow> pos \<Rightarrow> column \<Rightarrow> u32 result" where
  "read_column_u32 m p c =
     and_then (read_column m p c) (\<lambda>v.
     ok_or (u32_try_from v) (model_error ''struct field value {v} overflows u32''))"

definition decode_struct_list ::
    "metadata \<Rightarrow> int \<Rightarrow> (layout \<Rightarrow> 'c result) \<Rightarrow> ('c \<Rightarrow> pos \<Rightarrow> 'a result) \<Rightarrow> 'a list result" where
  "decode_struct_list m fid prepare dec =
     and_then (resolve_list m fid) (\<lambda>found.
     case found of
       None \<Rightarrow> Inr []
     | Some (list_layout, list_pos) \<Rightarrow>
         and_then (layout_kind_of list_layout (md_schema m)) (\<lambda>kind.
         case kind of
           KArray item_layout_id \<Rightarrow>
             and_then (frozen_read_range (md_frozen m) list_pos list_layout) (\<lambda>rng.
             and_then (check_cap ''list-count'' DEFAULT_LIST_CAP rng) (\<lambda>_.
             and_then (md_layout m item_layout_id) (\<lambda>item_layout.
             and_then (prepare item_layout) (\<lambda>columns.
             try_map (\<lambda>i. and_then (element_pos (md_frozen m) rng i) (\<lambda>p. dec columns p))
               [0..<rv_count rng]))))
         | _ \<Rightarrow> Inl (model_error ''field {id} is not an array (kind={kind:?})'')))"

definition md_chunks :: "metadata \<Rightarrow> chunk list result" where
  "md_chunks m =
     decode_struct_list m ID_CHUNKS
       (\<lambda>l. and_then (column_of m l 1) (\<lambda>block. and_then (column_of m l 2) (\<lambda>off.
            and_then (column_of m l 3) (\<lambda>len. Inr (block, off, len)))))
       (\<lambda>(block, off, len) p.
          and_then (read_column_u32 m p block) (\<lambda>b. and_then (read_column_u32 m p off) (\<lambda>f.
          and_then (read_column_u32 m p len) (\<lambda>s.
          Inr \<lparr>ck_block = b, ck_offset = f, ck_size = s\<rparr>))))"

definition md_dir_entries :: "metadata \<Rightarrow> dir_entry list result" where
  "md_dir_entries m =
     decode_struct_list m ID_DIR_ENTRIES
       (\<lambda>l. and_then (column_of m l 1) (\<lambda>name. and_then (column_of m l 2) (\<lambda>inode.
            Inr (name, inode))))
       (\<lambda>(name, inode) p.
          and_then (read_column_u32 m p name) (\<lambda>n. and_then (read_column_u32 m p inode) (\<lambda>i.
          Inr \<lparr>de_name_index = n, de_inode_num = i\<rparr>)))"

definition md_directories :: "metadata \<Rightarrow> directory list result" where
  "md_directories m =
     decode_struct_list m ID_DIRECTORIES
       (\<lambda>l. and_then (column_of m l 1) (\<lambda>parent. and_then (column_of m l 2) (\<lambda>first.
            and_then (column_of m l 3) (\<lambda>self. Inr (parent, first, self)))))
       (\<lambda>(parent, first, self) p.
          and_then (read_column_u32 m p parent) (\<lambda>a. and_then (read_column_u32 m p first) (\<lambda>b.
          and_then (read_column_u32 m p self) (\<lambda>c.
          Inr \<lparr>dr_parent_entry = a, dr_first_entry = b, dr_self_entry = c\<rparr>))))"

record inode_columns =
  ic_mode :: column
  ic_owner :: column
  ic_group :: column
  ic_atime :: column
  ic_mtime :: column
  ic_ctime :: column
  ic_btime :: column
  ic_atime_subsec :: column
  ic_mtime_subsec :: column
  ic_ctime_subsec :: column
  ic_btime_subsec :: column
  ic_nlink :: column

definition inode_columns_of :: "metadata \<Rightarrow> layout \<Rightarrow> inode_columns result" where
  "inode_columns_of m l =
     and_then (column_of m l 2) (\<lambda>mode. and_then (column_of m l 4) (\<lambda>owner.
     and_then (column_of m l 5) (\<lambda>group. and_then (column_of m l 6) (\<lambda>atime.
     and_then (column_of m l 7) (\<lambda>mtime. and_then (column_of m l 8) (\<lambda>ctime.
     and_then (column_of m l 9) (\<lambda>btime. and_then (column_of m l 10) (\<lambda>atime_subsec.
     and_then (column_of m l 11) (\<lambda>mtime_subsec. and_then (column_of m l 12) (\<lambda>ctime_subsec.
     and_then (column_of m l 13) (\<lambda>btime_subsec. and_then (column_of m l 14) (\<lambda>nlink.
     Inr \<lparr>ic_mode = mode, ic_owner = owner, ic_group = group, ic_atime = atime, ic_mtime = mtime,
          ic_ctime = ctime, ic_btime = btime, ic_atime_subsec = atime_subsec,
          ic_mtime_subsec = mtime_subsec, ic_ctime_subsec = ctime_subsec,
          ic_btime_subsec = btime_subsec, ic_nlink = nlink\<rparr>))))))))))))"

definition read_inode :: "metadata \<Rightarrow> inode_columns \<Rightarrow> pos \<Rightarrow> inode_data result" where
  "read_inode m c p =
     and_then (read_column_u32 m p (ic_mode c)) (\<lambda>mode.
     and_then (read_column_u32 m p (ic_owner c)) (\<lambda>owner.
     and_then (read_column_u32 m p (ic_group c)) (\<lambda>group.
     and_then (read_column m p (ic_atime c)) (\<lambda>atime.
     and_then (read_column m p (ic_mtime c)) (\<lambda>mtime.
     and_then (read_column m p (ic_ctime c)) (\<lambda>ctime.
     and_then (read_column m p (ic_btime c)) (\<lambda>btime.
     and_then (read_column m p (ic_atime_subsec c)) (\<lambda>atime_subsec.
     and_then (read_column m p (ic_mtime_subsec c)) (\<lambda>mtime_subsec.
     and_then (read_column m p (ic_ctime_subsec c)) (\<lambda>ctime_subsec.
     and_then (read_column m p (ic_btime_subsec c)) (\<lambda>btime_subsec.
     and_then (read_column_u32 m p (ic_nlink c)) (\<lambda>nlink.
     Inr \<lparr>in_mode_index = mode, in_owner_index = owner, in_group_index = group,
          in_atime_offset = atime, in_mtime_offset = mtime, in_ctime_offset = ctime,
          in_btime_offset = btime, in_atime_subsec = atime_subsec,
          in_mtime_subsec = mtime_subsec, in_ctime_subsec = ctime_subsec,
          in_btime_subsec = btime_subsec, in_nlink_minus_one = nlink\<rparr>))))))))))))"

definition md_inodes :: "metadata \<Rightarrow> inode_data list result" where
  "md_inodes m = decode_struct_list m ID_INODES (inode_columns_of m) (read_inode m)"

subsection \<open>Fields of a nested struct\<close>

definition read_struct_string :: "metadata \<Rightarrow> pos \<Rightarrow> layout \<Rightarrow> int \<Rightarrow> bytes result" where
  "read_struct_string m p l fid =
     (case layout_field l fid of
        None \<Rightarrow> Inr []
      | Some f \<Rightarrow>
          and_then (md_layout m (fl_layout_id f)) (\<lambda>fl.
          read_string_bytes (md_frozen m) (child p f) fl))"

definition read_struct_optional_string ::
    "metadata \<Rightarrow> pos \<Rightarrow> layout \<Rightarrow> int \<Rightarrow> bytes option result" where
  "read_struct_optional_string m p l fid =
     (case layout_field l fid of
        None \<Rightarrow> Inr None
      | Some f \<Rightarrow>
          and_then (md_layout m (fl_layout_id f)) (\<lambda>outer.
          and_then (layout_kind_of outer (md_schema m)) (\<lambda>kind.
          case kind of
            KOptional value_layout_id \<Rightarrow>
              and_then (read_optional (md_frozen m) (child p f) outer) (\<lambda>opt.
              if \<not> ov_present opt then Inr None
              else case value_layout_id of
                None \<Rightarrow> Inr (Some [])
              | Some lid \<Rightarrow>
                  and_then (md_layout m lid) (\<lambda>value_layout.
                  and_then (read_string_bytes (md_frozen m) (ov_value_pos opt) value_layout) (\<lambda>bs.
                  Inr (Some bs))))
          | _ \<Rightarrow>
              and_then (read_string_bytes (md_frozen m) (child p f) outer) (\<lambda>bs. Inr (Some bs)))))"

definition read_struct_int_list ::
    "metadata \<Rightarrow> pos \<Rightarrow> layout \<Rightarrow> int \<Rightarrow> nat \<Rightarrow> nat list result" where
  "read_struct_int_list m p l fid cap =
     (case layout_field l fid of
        None \<Rightarrow> Inr []
      | Some f \<Rightarrow>
          and_then (md_layout m (fl_layout_id f)) (\<lambda>list_layout.
          and_then (layout_kind_of list_layout (md_schema m)) (\<lambda>kind.
          and_then (frozen_read_range (md_frozen m) (child p f) list_layout) (\<lambda>rng.
          and_then (check_cap ''list-count'' cap rng) (\<lambda>_.
          case kind of
            KArray item_layout_id \<Rightarrow>
              and_then (md_layout m item_layout_id) (\<lambda>item_layout.
              range_ints m rng (ly_bits item_layout))
          | KString \<Rightarrow> Inr (replicate (rv_count rng) 0)
          | _ \<Rightarrow> Inl (model_error ''struct field {field_id} is not a list (kind={kind:?})''))))))"

definition read_struct_optional_u32 ::
    "metadata \<Rightarrow> pos \<Rightarrow> layout \<Rightarrow> int \<Rightarrow> u32 option result" where
  "read_struct_optional_u32 m p l fid =
     (case layout_field l fid of
        None \<Rightarrow> Inr None
      | Some f \<Rightarrow>
          and_then (md_layout m (fl_layout_id f)) (\<lambda>outer.
          and_then (layout_kind_of outer (md_schema m)) (\<lambda>kind.
          case kind of
            KOptional value_layout_id \<Rightarrow>
              and_then (read_optional (md_frozen m) (child p f) outer) (\<lambda>opt.
              if \<not> ov_present opt then Inr None
              else case value_layout_id of
                None \<Rightarrow> Inr (Some 0)
              | Some lid \<Rightarrow>
                  and_then (md_layout m lid) (\<lambda>value_layout.
                  and_then (read_integral (md_frozen m) (ov_value_pos opt) (ly_bits value_layout)) (\<lambda>v.
                  and_then (ok_or (u32_try_from v)
                    (model_error ''optional u32 field {field_id} value {v} overflows'')) (\<lambda>w.
                  Inr (Some w)))))
          | _ \<Rightarrow>
              and_then (read_integral (md_frozen m) (child p f) (ly_bits outer)) (\<lambda>v.
              and_then (ok_or (u32_try_from v)
                (model_error ''u32 field {field_id} value {v} overflows'')) (\<lambda>w. Inr (Some w))))))"

definition read_struct_bool :: "metadata \<Rightarrow> pos \<Rightarrow> layout \<Rightarrow> int \<Rightarrow> bool result" where
  "read_struct_bool m p l fid =
     (case layout_field l fid of
        None \<Rightarrow> Inr False
      | Some f \<Rightarrow>
          and_then (md_layout m (fl_layout_id f)) (\<lambda>fl.
          and_then (read_integral (md_frozen m) (child p f) (ly_bits fl)) (\<lambda>v. Inr (v \<noteq> 0))))"

definition md_fs_options :: "metadata \<Rightarrow> fs_options result" where
  "md_fs_options m =
     (case md_field m ID_OPTIONS of
        None \<Rightarrow> Inr fs_options_default
      | Some view \<Rightarrow>
          and_then (unwrap_optional m view) (\<lambda>found.
          case found of
            None \<Rightarrow> Inr fs_options_default
          | Some (l, p) \<Rightarrow>
              and_then (read_struct_bool m p l 1) (\<lambda>mtime_only.
              and_then (read_struct_optional_u32 m p l 2) (\<lambda>resolution.
              and_then (read_struct_bool m p l 3) (\<lambda>packed_chunk_table.
              and_then (read_struct_bool m p l 4) (\<lambda>packed_directories.
              and_then (read_struct_bool m p l 5) (\<lambda>packed_shared.
              and_then (read_struct_optional_u32 m p l 6) (\<lambda>multiplier.
              and_then (read_struct_bool m p l 7) (\<lambda>has_btime.
              and_then (read_struct_bool m p l 8) (\<lambda>have_nlink.
              Inr \<lparr>fo_mtime_only = mtime_only, fo_time_resolution_sec = resolution,
                   fo_packed_chunk_table = packed_chunk_table,
                   fo_packed_directories = packed_directories,
                   fo_packed_shared_files_table = packed_shared,
                   fo_subsecond_resolution_nsec_multiplier = multiplier,
                   fo_has_btime = has_btime, fo_inodes_have_nlink = have_nlink\<rparr>))))))))))"

text \<open>The run-length packed form: entry \<open>k\<close> at index \<open>i\<close> stands for \<open>k + 2\<close> copies of \<open>i\<close>.\<close>

fun unpack_shared_from :: "nat \<Rightarrow> u32 list \<Rightarrow> u32 list result" where
  "unpack_shared_from i [] = Inr []"
| "unpack_shared_from i (delta # ds) =
     and_then (ok_or (checked_add64 (unat delta) 2)
                (out_of_range ''shared_files_table run length'')) (\<lambda>count.
     and_then (ok_or (u32_try_from i) (out_of_range ''shared_files_table size'')) (\<lambda>index.
     and_then (unpack_shared_from (i + 1) ds) (\<lambda>out.
     Inr (replicate count index @ out))))"

definition shared_files_table :: "metadata \<Rightarrow> u32 list result" where
  "shared_files_table m =
     and_then (read_u32_list m ID_SHARED_FILES_TABLE) (\<lambda>raw.
     and_then (md_fs_options m) (\<lambda>opts.
     if \<not> fo_packed_shared_files_table opts then Inr raw else unpack_shared_from 0 raw))"

subsection \<open>Strings\<close>

definition read_optional_string_list :: "metadata \<Rightarrow> int \<Rightarrow> string \<Rightarrow> bytes list result" where
  "read_optional_string_list m fid name =
     (case md_field m fid of
        None \<Rightarrow> Inr []
      | Some view \<Rightarrow>
          and_then (unwrap_optional m view) (\<lambda>found.
          case found of
            None \<Rightarrow> Inr []
          | Some (list_layout, list_pos) \<Rightarrow>
              and_then (layout_kind_of list_layout (md_schema m)) (\<lambda>kind.
              case kind of
                KArray item_layout_id \<Rightarrow>
                  and_then (frozen_read_range (md_frozen m) list_pos list_layout) (\<lambda>rng.
                  and_then (check_cap name DEFAULT_LIST_CAP rng) (\<lambda>_.
                  and_then (md_layout m item_layout_id) (\<lambda>item_layout.
                  try_map (\<lambda>i.
                    and_then (element_pos (md_frozen m) rng i) (\<lambda>p.
                    and_then (read_string_bytes (md_frozen m) p item_layout) (\<lambda>bs.
                    if utf8_valid bs then Inr bs
                    else Inl (model_error ''non-utf8 string in {field}''))))
                    [0..<rv_count rng])))
              | _ \<Rightarrow> Inl (model_error ''{field} (id {id}) is not a range''))))"

definition md_features :: "metadata \<Rightarrow> bytes list result" where
  "md_features m = read_optional_string_list m ID_FEATURES ''features''"

definition category_names :: "metadata \<Rightarrow> bytes list result" where
  "category_names m = read_optional_string_list m ID_CATEGORY_NAMES ''category_names''"

definition read_string_table :: "metadata \<Rightarrow> int \<Rightarrow> string_table option result" where
  "read_string_table m fid =
     (case md_field m fid of
        None \<Rightarrow> Inr None
      | Some view \<Rightarrow>
          and_then (md_layout m (fl_layout_id (fv_field view))) (\<lambda>outer.
          and_then (layout_kind_of outer (md_schema m)) (\<lambda>kind.
          case kind of
            KOptional value_layout_id \<Rightarrow>
              and_then (read_optional (md_frozen m) (fv_pos view) outer) (\<lambda>opt.
              if \<not> ov_present opt then Inr None
              else case value_layout_id of
                None \<Rightarrow> Inr (Some string_table_default)
              | Some lid \<Rightarrow>
                  and_then (md_layout m lid) (\<lambda>st_layout.
                  let st_pos = ov_value_pos opt in
                  and_then (read_struct_string m st_pos st_layout 1) (\<lambda>buffer.
                  and_then (read_struct_optional_string m st_pos st_layout 2) (\<lambda>symtab.
                  and_then (read_struct_int_list m st_pos st_layout 3 DEFAULT_LIST_CAP) (\<lambda>raw.
                  and_then (read_struct_bool m st_pos st_layout 4) (\<lambda>packed.
                  and_then (try_map (\<lambda>v. ok_or (u32_try_from v)
                    (model_error ''string_table index value {v} overflows u32'')) raw) (\<lambda>index.
                  and_then (decode_string_table buffer symtab index packed) (\<lambda>table.
                  Inr (Some table)))))))))
          | _ \<Rightarrow> Inl (model_error ''field {id} is not Optional<string_table>''))))"

fun push_strings :: "metadata \<Rightarrow> layout \<Rightarrow> range_view \<Rightarrow> nat list \<Rightarrow> string_table \<Rightarrow> string_table result" where
  "push_strings m item_layout rng [] out = Inr out"
| "push_strings m item_layout rng (i # is) out =
     and_then (element_pos (md_frozen m) rng i) (\<lambda>p.
     and_then (read_string_bytes (md_frozen m) p item_layout) (\<lambda>bs.
     and_then (table_push ''string list exceeds 4 GiB'' out bs) (\<lambda>out.
     push_strings m item_layout rng is out)))"

definition read_plain_string_list :: "metadata \<Rightarrow> int \<Rightarrow> string_table result" where
  "read_plain_string_list m fid =
     and_then (resolve_list m fid) (\<lambda>found.
     case found of
       None \<Rightarrow> Inr string_table_default
     | Some (list_layout, list_pos) \<Rightarrow>
         and_then (layout_kind_of list_layout (md_schema m)) (\<lambda>kind.
         case kind of
           KArray item_layout_id \<Rightarrow>
             and_then (frozen_read_range (md_frozen m) list_pos list_layout) (\<lambda>rng.
             and_then (check_cap ''list-count'' DEFAULT_LIST_CAP rng) (\<lambda>_.
             and_then (md_layout m item_layout_id) (\<lambda>item_layout.
             push_strings m item_layout rng [0..<rv_count rng] \<lparr>tb_data = [], tb_offsets = [0]\<rparr>)))
         | _ \<Rightarrow> Inl (model_error ''field {id} is not an array of strings'')))"

definition md_names :: "metadata \<Rightarrow> string_table result" where
  "md_names m =
     and_then (read_string_table m ID_COMPACT_NAMES) (\<lambda>t.
     case t of Some table \<Rightarrow> Inr table | None \<Rightarrow> read_plain_string_list m ID_NAMES)"

definition md_symlinks :: "metadata \<Rightarrow> string_table result" where
  "md_symlinks m =
     and_then (read_string_table m ID_COMPACT_SYMLINKS) (\<lambda>t.
     case t of Some table \<Rightarrow> Inr table | None \<Rightarrow> read_plain_string_list m ID_SYMLINKS)"

subsection \<open>Every list is bounded\<close>

lemma check_cap_Inr [result_simps]: "check_cap name cap rng = Inr u \<longleftrightarrow> rv_count rng \<le> cap"
  by (auto simp: check_cap_def)

lemma kind_case_array [result_simps]:
  "(case k of KArray x \<Rightarrow> f x | _ \<Rightarrow> Inl e) = Inr y \<longleftrightarrow> (\<exists>x. k = KArray x \<and> f x = Inr y)"
  by (cases k) auto

lemma kind_case_list [result_simps]:
  "(case k of KArray x \<Rightarrow> f x | KString \<Rightarrow> g | _ \<Rightarrow> Inl e) = Inr y \<longleftrightarrow>
     (\<exists>x. k = KArray x \<and> f x = Inr y) \<or> k = KString \<and> g = Inr y"
  by (cases k) auto

lemma range_ints_length: "range_ints m rng bits = Inr xs \<Longrightarrow> length xs = rv_count rng"
  by (auto simp: range_ints_def dest: try_map_length split: if_splits)

lemma read_int_list_cap: "read_int_list m fid cap = Inr xs \<Longrightarrow> length xs \<le> cap"
  by (auto simp: read_int_list_def result_simps split: option.splits
      dest!: range_ints_length)

lemma read_u32_list_cap: "read_u32_list m fid = Inr xs \<Longrightarrow> length xs \<le> DEFAULT_LIST_CAP"
  by (auto simp: read_u32_list_def result_simps dest!: read_int_list_cap try_map_length)

lemma decode_struct_list_cap:
  "decode_struct_list m fid prepare dec = Inr xs \<Longrightarrow> length xs \<le> DEFAULT_LIST_CAP"
  by (auto simp: decode_struct_list_def result_simps split: option.splits
      dest!: try_map_length)

lemma read_optional_string_list_cap:
  "read_optional_string_list m fid name = Inr xs \<Longrightarrow> length xs \<le> DEFAULT_LIST_CAP"
  by (auto simp: read_optional_string_list_def result_simps split: option.splits
      dest!: try_map_length)

text \<open>Elements of a bit-packed list are the corresponding bits of the blob.\<close>

lemma range_ints_bits:
  assumes "range_ints m rng bits = Inr xs" "rv_item_layout_id rng = Some item"
    and "schema_layout (md_schema m) item = Inr l" "ly_size l = 0" "ly_bits l = bits" "bits \<noteq> 0"
    and "bit_len (fz_buf (md_frozen m)) < 2 ^ 64 - 1" "i < length xs"
  shows "xs ! i = bits_at (fz_buf (md_frozen m)) (8 * rv_data_byte rng + i * bits) bits"
    and "8 * rv_data_byte rng + i * bits + bits \<le> bit_len (fz_buf (md_frozen m))"
proof -
  let ?buf = "fz_buf (md_frozen m)"
  from range_ints_length [OF assms(1)] assms(8) have i: "i < rv_count rng" by simp
  from assms(1,6) have "try_map (\<lambda>i. and_then (element_pos (md_frozen m) rng i)
      (\<lambda>p. read_integral (md_frozen m) p bits)) [0..<rv_count rng] = Inr xs"
    by (simp add: range_ints_def)
  from try_map_nth [OF this, of i] i
  obtain p where p: "element_pos (md_frozen m) rng i = Inr p"
    and read: "read_u64 ?buf (absolute_bit p) bits = Inr (xs ! i)"
    by (auto simp: result_simps read_integral_def)
  from element_pos_Inr [OF p] assms(2-5)
  have p': "p = \<lparr>pos_byte = rv_data_byte rng, pos_bit = i * bits\<rparr>" by (simp add: md_schema_def)
  from assms(7) have len: "bit_len ?buf < 2 ^ 64" by simp
  from read_u64_Inr [OF read len assms(6)]
  have fits: "absolute_bit p + bits \<le> bit_len ?buf"
    and x: "xs ! i = bits_at ?buf (absolute_bit p) bits" by auto
  have "absolute_bit p < 2 ^ 64 - 1" using fits assms(7) by simp
  then have "absolute_bit p = 8 * rv_data_byte rng + i * bits"
    by (auto simp: p' absolute_bit_def saturating_add64_def saturating_mul64_def min_def
        split: if_splits)
  with x fits show "xs ! i = bits_at ?buf (8 * rv_data_byte rng + i * bits) bits"
    and "8 * rv_data_byte rng + i * bits + bits \<le> bit_len ?buf" by simp_all
qed

subsection \<open>The shared-files table\<close>

fun runs_from :: "nat \<Rightarrow> nat list \<Rightarrow> u32 list" where
  "runs_from i [] = []"
| "runs_from i (c # cs) = replicate c (word_of_nat i) @ runs_from (i + 1) cs"

lemma unpack_shared_runs:
  "i + length ds \<le> 2 ^ 32 \<Longrightarrow> unpack_shared_from i ds = Inr (runs_from i (map (\<lambda>d. unat d + 2) ds))"
proof (induction ds arbitrary: i)
  case (Cons d ds)
  have "unat d + 2 < 2 ^ 64" using unat_u32_less [of d] by simp
  with Cons show ?case
    by (simp add: checked_add64_def u32_try_from_def)
qed simp

lemma length_runs_from: "length (runs_from i cs) = sum_list cs"
  by (induction cs arbitrary: i) auto

text \<open>Packing runs of at least two and unpacking gives the table back.\<close>

lemma unpack_shared_pack:
  assumes "\<forall>c \<in> set counts. 2 \<le> c \<and> c < 2 ^ 32" "length counts \<le> 2 ^ 32"
  shows "unpack_shared_from 0 (map (\<lambda>c. word_of_nat (c - 2)) counts) = Inr (runs_from 0 counts)"
proof -
  have "map (\<lambda>d. unat d + 2) (map (\<lambda>c. word_of_nat (c - 2) :: u32) counts) = counts"
    using assms(1) by (auto simp: unat_of_nat simp del: of_nat_diff intro!: map_idI)
  with unpack_shared_runs [of 0 "map (\<lambda>c. word_of_nat (c - 2)) counts"] assms(2) show ?thesis
    by simp
qed

lemma sum_runs: "sum_list (map (\<lambda>d. unat d + 2) ds) = sum_list (map unat ds) + 2 * length ds"
  by (induction ds) auto

lemma unpack_shared_length:
  "i + length ds \<le> 2 ^ 32 \<Longrightarrow> unpack_shared_from i ds = Inr out \<Longrightarrow>
   length out = sum_list (map unat ds) + 2 * length ds"
proof -
  assume "i + length ds \<le> 2 ^ 32" "unpack_shared_from i ds = Inr out"
  then have "out = runs_from i (map (\<lambda>d. unat d + 2) ds)"
    by (simp add: unpack_shared_runs)
  then show ?thesis by (simp only: length_runs_from sum_runs)
qed

end
