(* ===== verification/Bit_Writer.thy ===== *)
theory Bit_Writer
  imports Bitbuf
begin

text \<open>
  The writing side of the bit-packed blob that \<open>src/src/metadata/bitbuf.rs\<close> and
  \<open>src/src/metadata/frozen.rs\<close> read: fields are pairs of a width and a value, packed from the lowest
  bit up without padding. \<open>holds buf b fs\<close> says that the reader finds the fields \<open>fs\<close> one after the
  other from bit \<open>b\<close> on, and \<open>packed_fields_held\<close> that it does so wherever the packed bytes are placed.
\<close>

type_synonym bit_field = "nat \<times> nat"

definition bits_of :: "bit_field list \<Rightarrow> nat" where
  "bits_of fs = sum_list (map fst fs)"

definition fields_fit :: "bit_field list \<Rightarrow> bool" where
  "fields_fit fs \<longleftrightarrow> (\<forall>(w, v) \<in> set fs. w \<le> 64 \<and> v < 2 ^ w)"

fun pack_bits :: "bit_field list \<Rightarrow> nat" where
  "pack_bits [] = 0"
| "pack_bits ((w, v) # fs) = v + 2 ^ w * pack_bits fs"

definition bytes_for :: "nat \<Rightarrow> nat" where
  "bytes_for bits = (bits + 7) div 8"

definition pack_bytes :: "bit_field list \<Rightarrow> bytes" where
  "pack_bytes fs = le_bytes (bytes_for (bits_of fs)) (pack_bits fs)"

fun holds :: "bytes \<Rightarrow> nat \<Rightarrow> bit_field list \<Rightarrow> bool" where
  "holds buf b [] = True"
| "holds buf b ((w, v) # fs) = (read_u64 buf b w = Inr v \<and> holds buf (b + w) fs)"

lemma bits_of_simps [simp]:
  "bits_of [] = 0" "bits_of (f # fs) = fst f + bits_of fs" "bits_of (fs @ gs) = bits_of fs + bits_of gs"
  by (simp_all add: bits_of_def)

lemma fields_fit_simps [simp]:
  "fields_fit []" "fields_fit ((w, v) # fs) \<longleftrightarrow> w \<le> 64 \<and> v < 2 ^ w \<and> fields_fit fs"
  "fields_fit (fs @ gs) \<longleftrightarrow> fields_fit fs \<and> fields_fit gs"
  by (auto simp: fields_fit_def)

lemma fields_fit_concat: "fields_fit (concat fss) \<longleftrightarrow> (\<forall>fs \<in> set fss. fields_fit fs)"
  by (auto simp: fields_fit_def)

lemma length_pack_bytes [simp]: "length (pack_bytes fs) = bytes_for (bits_of fs)"
  by (simp add: pack_bytes_def)

lemma bytes_for_bound: "bits \<le> 8 * bytes_for bits" "8 * bytes_for bits < bits + 8"
  unfolding bytes_for_def by presburger+

lemma holds_append [simp]: "holds buf b (fs @ gs) \<longleftrightarrow> holds buf b fs \<and> holds buf (b + bits_of fs) gs"
  by (induction buf b fs rule: holds.induct) (auto simp: add.assoc)

lemma bits_of_concat_equal:
  "(\<And>fs. fs \<in> set fss \<Longrightarrow> bits_of fs = n) \<Longrightarrow> bits_of (concat fss) = length fss * n"
  by (induction fss) auto

lemma holds_nth:
  assumes "holds buf b (concat fss)" "\<And>fs. fs \<in> set fss \<Longrightarrow> bits_of fs = n" "i < length fss"
  shows "holds buf (b + i * n) (fss ! i)"
proof -
  have "fss = take i fss @ fss ! i # drop (Suc i) fss" using assms(3) by (rule id_take_nth_drop)
  then have "concat fss = concat (take i fss) @ fss ! i @ concat (drop (Suc i) fss)"
    by (metis concat_append concat.simps(2))
  moreover have "bits_of (concat (take i fss)) = i * n"
    using bits_of_concat_equal [of "take i fss" n] assms(2,3) in_set_takeD by force
  ultimately show ?thesis using assms(1) by simp
qed

text \<open>The bits of the packed number, and of any buffer that contains its bytes.\<close>

lemma pack_bits_less: "fields_fit fs \<Longrightarrow> pack_bits fs < 2 ^ bits_of fs"
proof (induction fs rule: pack_bits.induct)
  case (2 w v fs)
  then have "pack_bits fs + 1 \<le> 2 ^ bits_of fs" "v < 2 ^ w" by auto
  then have "2 ^ w * (pack_bits fs + 1) \<le> 2 ^ w * 2 ^ bits_of fs" by (intro mult_le_mono2)
  with \<open>v < 2 ^ w\<close> show ?case by (simp add: power_add)
qed simp

lemma packed_bits_at:
  assumes "fields_fit fs" "bits_of fs \<le> 8 * n"
    and "buf = pre @ le_bytes n (pack_bits fs) @ post"
  shows "bits_at buf (8 * length pre) (bits_of fs) = pack_bits fs"
proof -
  have "pack_bits fs < 2 ^ bits_of fs" by (rule pack_bits_less [OF assms(1)])
  also have "(2 :: nat) ^ bits_of fs \<le> 2 ^ (8 * n)" using assms(2) by (rule power_increasing) simp
  finally have "pack_bits fs < 256 ^ n" by (simp only: pow256)
  then have "le_nat (subslice buf (length pre) (length pre + n)) = pack_bits fs"
    by (simp add: assms(3) subslice_append_at le_nat_le_bytes)
  with le_nat_subslice_bits [of "length pre" n buf 0 "bits_of fs"] assms(2,3) pack_bits_less [OF assms(1)]
  show ?thesis by simp
qed

lemma bits_at_split:
  "bits_at buf b (m + n) mod 2 ^ m = bits_at buf b m"
  "bits_at buf b (m + n) div 2 ^ m = bits_at buf (b + m) n"
  by (simp_all add: bits_at_def mod_mod_cancel power_add div_mult2_eq mod_mult2_eq)

lemma holds_of_bits_at:
  assumes "fields_fit fs" "b + bits_of fs \<le> bit_len buf" "bit_len buf < 2 ^ 64"
    and "bits_at buf b (bits_of fs) = pack_bits fs"
  shows "holds buf b fs"
  using assms
proof (induction fs arbitrary: b)
  case (Cons f fs)
  obtain w v where f: "f = (w, v)" by (cases f)
  have fit: "w \<le> 64" "v < 2 ^ w" "fields_fit fs" using Cons.prems(1) f by auto
  have bits: "bits_at buf b (w + bits_of fs) = v + 2 ^ w * pack_bits fs"
    using Cons.prems(4) f by simp
  have "bits_at buf b w = v" "bits_at buf (b + w) (bits_of fs) = pack_bits fs"
    using bits_at_split [of buf b w "bits_of fs"] fit by (simp_all add: bits)
  with Cons.IH [OF fit(3)] Cons.prems(2,3) f fit read_u64_eq [of w b buf] show ?case
    by (simp add: add.assoc)
qed simp

lemma packed_fields_held:
  assumes "fields_fit fs" "length (pre @ pack_bytes fs @ post) < 2 ^ 61"
  shows "holds (pre @ pack_bytes fs @ post) (8 * length pre) fs"
proof (rule holds_of_bits_at [OF assms(1)])
  show "bit_len (pre @ pack_bytes fs @ post) < 2 ^ 64"
    using assms(2) by (simp add: bit_len_def)
  show "8 * length pre + bits_of fs \<le> bit_len (pre @ pack_bytes fs @ post)"
    using bytes_for_bound(1) [of "bits_of fs"] by (simp add: bit_len_def)
  show "bits_at (pre @ pack_bytes fs @ post) (8 * length pre) (bits_of fs) = pack_bits fs"
    by (rule packed_bits_at [OF assms(1) bytes_for_bound(1)]) (simp add: pack_bytes_def)
qed

subsection \<open>The narrowest width\<close>

fun bit_length :: "nat \<Rightarrow> nat" where
  "bit_length n = (if n = 0 then 0 else Suc (bit_length (n div 2)))"

declare bit_length.simps [simp del]

definition column_width :: "nat list \<Rightarrow> nat" where
  "column_width vs = foldr (\<lambda>v. max (bit_length v)) vs 0"

lemma bit_length_less: "n < 2 ^ bit_length n"
proof (induction n rule: bit_length.induct)
  case (1 n)
  then show ?case by (cases "n = 0") (auto simp: bit_length.simps [of n])
qed

lemma bit_length_le: "n < 2 ^ k \<Longrightarrow> bit_length n \<le> k"
proof (induction n arbitrary: k rule: bit_length.induct)
  case (1 n)
  show ?case
  proof (cases "n = 0")
    case False
    with "1.prems" obtain j where "k = Suc j" by (cases k) auto
    with 1 False show ?thesis by (simp add: bit_length.simps [of n])
  qed (simp add: bit_length.simps)
qed

lemma column_width_fits: "v \<in> set vs \<Longrightarrow> v < 2 ^ column_width vs"
proof (induction vs)
  case (Cons x vs)
  have "bit_length x \<le> column_width (x # vs)" "column_width vs \<le> column_width (x # vs)"
    by (simp_all add: column_width_def)
  then have "(2 :: nat) ^ bit_length x \<le> 2 ^ column_width (x # vs)"
    "(2 :: nat) ^ column_width vs \<le> 2 ^ column_width (x # vs)"
    by (simp_all add: power_increasing)
  with Cons bit_length_less [of x] show ?case by (auto intro: less_le_trans)
qed simp

lemma column_width_le: "(\<And>v. v \<in> set vs \<Longrightarrow> v < 2 ^ k) \<Longrightarrow> column_width vs \<le> k"
  by (induction vs) (auto simp: column_width_def bit_length_le)

end
