(* ===== verification/Thrift_Encoding.thy ===== *)
theory Thrift_Encoding
  imports History
begin

text \<open>
  The Thrift compact encoding as the unit tests of \<open>src/src/metadata/schema.rs\<close> write it: the
  variable-length and zigzag integers of \<open>Leb128\<close> and \<open>Thrift\<close>, field headers, string and
  integer fields, and maps of structs. A writer is the pair of the previous field id and the bytes
  written so far, the two things the source passes to its writers by mutable reference.

  \<open>reads_back m enc x\<close> says that the reader \<open>m\<close>, standing at \<open>enc\<close> with any bytes before and
  after it, returns \<open>x\<close> and moves past exactly \<open>enc\<close>. The relation composes: over binds,
  repetitions, field headers and whole structs. \<open>written f start w acc\<close> is its form for a struct
  that is still being written.
\<close>

subsection \<open>The writers\<close>

type_synonym writer = "int \<times> bytes"

definition write_field_header :: "byte \<Rightarrow> int \<Rightarrow> writer \<Rightarrow> writer" where
  "write_field_header ttype fid = (\<lambda>(prev, out).
     let delta = fid - prev in
     (fid, out @ (if 1 \<le> delta \<and> delta \<le> 15 then [push_bit 4 (word_of_int delta) OR ttype]
                 else ttype # write_zigzag fid)))"

definition write_string_field :: "int \<Rightarrow> bytes \<Rightarrow> writer \<Rightarrow> writer" where
  "write_string_field fid value w =
     (let (prev, out) = write_field_header 8 fid w in
      (prev, out @ write_varint (word_of_nat (length value)) @ value))"

definition write_i16_field :: "int \<Rightarrow> int \<Rightarrow> writer \<Rightarrow> writer" where
  "write_i16_field fid value w =
     (let (prev, out) = write_field_header 4 fid w in (prev, out @ write_zigzag value))"

definition write_i32_field :: "int \<Rightarrow> int \<Rightarrow> writer \<Rightarrow> writer" where
  "write_i32_field fid value w =
     (let (prev, out) = write_field_header 5 fid w in (prev, out @ write_zigzag value))"

text \<open>A map of \<open>i16\<close> keys to struct bodies: count, type byte, entries.\<close>

definition write_struct_map :: "(int \<times> bytes) list \<Rightarrow> bytes" where
  "write_struct_map entries =
     write_varint (word_of_nat (length entries)) @ (push_bit 4 4 OR 12)
       # concat (map (\<lambda>(k, body). write_zigzag k @ body) entries)"

subsection \<open>Bytes that are read back\<close>

definition reads_back :: "'a thrift_run \<Rightarrow> bytes \<Rightarrow> 'a \<Rightarrow> bool" where
  "reads_back m enc x \<longleftrightarrow>
     (\<forall>pre rest r. reader_at pre (enc @ rest) r \<longrightarrow> length (pre @ enc) < 2 ^ 64 \<longrightarrow>
        m r = Some (Inr (x, r\<lparr>tr_pos := length (pre @ enc)\<rparr>)))"

lemma reads_backI:
  assumes "\<And>pre rest r. reader_at pre (enc @ rest) r \<Longrightarrow> length (pre @ enc) < 2 ^ 64 \<Longrightarrow>
    m r = Some (Inr (x, r\<lparr>tr_pos := length (pre @ enc)\<rparr>))"
  shows "reads_back m enc x"
  using assms unfolding reads_back_def by blast

lemma reads_backD:
  "reads_back m enc x \<Longrightarrow> reader_at pre (enc @ rest) r \<Longrightarrow> length (pre @ enc) < 2 ^ 64 \<Longrightarrow>
    m r = Some (Inr (x, r\<lparr>tr_pos := length (pre @ enc)\<rparr>))"
  unfolding reads_back_def by blast

lemma reader_at_moved:
  "reader_at pre (enc @ rest) r \<Longrightarrow> reader_at (pre @ enc) rest (r\<lparr>tr_pos := length (pre @ enc)\<rparr>)"
  by (simp add: reader_at_def)

lemma reads_back_return: "reads_back (\<lambda>r. Some (Inr (x, r))) [] x"
  by (auto simp: reads_back_def reader_at_def)

lemma reads_back_bind:
  assumes m: "reads_back m e1 x" and f: "reads_back (f x) e2 y"
  shows "reads_back (\<lambda>r. run_bind (m r) (\<lambda>(x, r). f x r)) (e1 @ e2) y"
proof (rule reads_backI)
  fix pre rest r
  assume r: "reader_at pre ((e1 @ e2) @ rest) r" and len: "length (pre @ e1 @ e2) < 2 ^ 64"
  have "m r = Some (Inr (x, r\<lparr>tr_pos := length (pre @ e1)\<rparr>))"
    using reads_backD [OF m, of pre "e2 @ rest" r] r len by simp
  moreover have "f x (r\<lparr>tr_pos := length (pre @ e1)\<rparr>)
      = Some (Inr (y, r\<lparr>tr_pos := length (pre @ e1)\<rparr>\<lparr>tr_pos := length ((pre @ e1) @ e2)\<rparr>))"
    using reads_backD [OF f, of "pre @ e1" rest] reader_at_moved [of pre e1 "e2 @ rest" r] r len by simp
  ultimately show "run_bind (m r) (\<lambda>(x, r). f x r)
      = Some (Inr (y, r\<lparr>tr_pos := length (pre @ e1 @ e2)\<rparr>))" by simp
qed

lemma reads_back_byte: "reads_back (\<lambda>r. Some (read_byte r)) [b] b"
  by (rule reads_backI) (auto simp: reader_at_def read_byte_def get_at_def nth_append)

lemma reads_back_varint: "reads_back (\<lambda>r. Some (read_varint_u64 r)) (write_varint v) v"
  by (rule reads_backI) (simp add: read_write_varint reader_at_def)

lemma reads_back_slice: "reads_back (\<lambda>r. Some (read_slice (length s) r)) s s"
  by (rule reads_backI) (auto simp: reader_at_def read_slice_def checked_add64_def subslice_def)

lemma reads_back_zigzag:
  "- (2 ^ 63) \<le> x \<Longrightarrow> x < 2 ^ 63 \<Longrightarrow> reads_back (\<lambda>r. Some (read_i64 r)) (write_zigzag x) x"
  by (rule reads_backI) (simp add: read_write_zigzag reader_at_def)

text \<open>The values of Rust's \<open>i16\<close> and \<open>i32\<close>.\<close>

definition i16 :: "int \<Rightarrow> bool" where
  "i16 x \<longleftrightarrow> - (2 ^ 15) \<le> x \<and> x < 2 ^ 15"

definition i32 :: "int \<Rightarrow> bool" where
  "i32 x \<longleftrightarrow> - (2 ^ 31) \<le> x \<and> x < 2 ^ 31"

lemma reads_back_i16: "i16 x \<Longrightarrow> reads_back (\<lambda>r. Some (read_i16 r)) (write_zigzag x) x"
  using reads_back_zigzag [of x]
  by (auto simp: reads_back_def read_i64_def read_i16_def i16_def)

lemma reads_back_i32: "i32 x \<Longrightarrow> reads_back (\<lambda>r. Some (read_i32 r)) (write_zigzag x) x"
  using reads_back_zigzag [of x]
  by (auto simp: reads_back_def read_i64_def read_i32_def i32_def)

lemma reads_back_eq:
  assumes "reads_back m e x" "\<And>r. m' r = m r" "e = e'"
  shows "reads_back m' e' x"
  using assms unfolding reads_back_def by simp

lemma reads_back_store:
  assumes "reads_back (\<lambda>r. Some (m r)) e x"
  shows "reads_back (store m f) e (f x)"
proof (rule reads_backI)
  fix pre rest r assume "reader_at pre (e @ rest) r" "length (pre @ e) < 2 ^ 64"
  with reads_backD [OF assms this] show "store m f r = Some (Inr (f x, r\<lparr>tr_pos := length (pre @ e)\<rparr>))"
    by (simp add: store_def)
qed

lemma reads_back_string:
  assumes "utf8_valid s" "length s < 2 ^ 64"
  shows "reads_back (\<lambda>r. Some (read_string r)) (write_varint (word_of_nat (length s)) @ s) s"
proof -
  have n: "unat (word_of_nat (length s) :: u64) = length s"
    using assms(2) by (simp add: unat_of_nat)
  have "reads_back (\<lambda>r. run_bind (Some (read_varint_u64 r)) (\<lambda>(len, r).
      Some (and_then (read_slice (unat len) r) (\<lambda>(bs, r).
        if utf8_valid bs then Inr (bs, r) else Inl (thrift_error ''non-utf8 thrift string'')))))
      (write_varint (word_of_nat (length s)) @ s) s"
  proof (rule reads_back_bind [OF reads_back_varint], rule reads_backI)
    fix pre rest r assume r: "reader_at pre (s @ rest) r" "length (pre @ s) < 2 ^ 64"
    from reads_backD [OF reads_back_slice r] show "Some (and_then (read_slice (unat (word_of_nat (length s) :: u64)) r) (\<lambda>(bs, r).
        if utf8_valid bs then Inr (bs, r) else Inl (thrift_error ''non-utf8 thrift string'')))
      = Some (Inr (s, r\<lparr>tr_pos := length (pre @ s)\<rparr>))" by (simp add: n assms(1))
  qed
  then show ?thesis
    by (rule reads_back_eq)
      (auto simp: read_string_def read_binary_def run_bind_def and_then_def split: sum.splits)
qed

subsection \<open>Field headers\<close>

definition header_bytes :: "byte \<Rightarrow> int \<Rightarrow> int \<Rightarrow> bytes" where
  "header_bytes ttype prev fid = snd (write_field_header ttype fid (prev, []))"

lemma write_field_header_bytes:
  "write_field_header ttype fid (prev, out) = (fid, out @ header_bytes ttype prev fid)"
  by (simp add: write_field_header_def header_bytes_def Let_def)

lemma header_nibbles:
  fixes d c :: byte
  assumes "d AND mask 4 = d" "c AND mask 4 = c"
  shows "(push_bit 4 d OR c) AND mask 4 = c" "drop_bit 4 (push_bit 4 d OR c) AND mask 4 = d"
proof -
  have low: "n < 4" if "x AND mask 4 = x" "bit x n" for x :: byte and n
    using that by (metis bit_and_iff bit_mask_iff)
  note d = low [OF assms(1)] and c = low [OF assms(2)]
  show "(push_bit 4 d OR c) AND mask 4 = c"
    by (rule bit_word_eqI) (use c in \<open>auto simp: bit_simps\<close>)
  show "drop_bit 4 (push_bit 4 d OR c) AND mask 4 = d"
  proof (rule bit_word_eqI)
    fix n assume "n < LENGTH(8)"
    then show "bit (drop_bit 4 (push_bit 4 d OR c) AND mask 4) n = bit d n"
      using d [of n] c [of "4 + n"] bit_imp_le_length [of d n] by (auto simp: bit_simps)
  qed
qed

definition type_code :: "byte \<Rightarrow> ttype \<Rightarrow> bool" where
  "type_code c t \<longleftrightarrow> c \<noteq> 0 \<and> c AND mask 4 = c \<and> ttype_from_code c = Inr t"

lemma type_code_masked: "type_code c t \<Longrightarrow> ttype_from_code (c AND 0xF) = Inr t \<and> c AND 0xF = c"
  by (auto simp: type_code_def mask_eq_exp_minus_1)

lemma small_delta:
  assumes "1 \<le> d" "d \<le> (15 :: int)"
  shows "(word_of_int d :: byte) AND mask 4 = word_of_int d" "uint (word_of_int d :: byte) = d"
    "(word_of_int d :: byte) \<noteq> 0"
proof -
  show u: "uint (word_of_int d :: byte) = d" using assms by (simp add: uint_word_of_int)
  show "(word_of_int d :: byte) AND mask 4 = word_of_int d"
    using assms by (simp only: take_bit_eq_mask [symmetric] word_uint_eq_iff unsigned_take_bit_eq u)
      (simp add: take_bit_eq_mod)
  show "(word_of_int d :: byte) \<noteq> 0" using u assms by auto
qed

lemma reads_back_header:
  assumes c: "type_code c t" and fid: "i16 fid" and prev: "tr_last_field_id r = prev"
    and r: "reader_at pre (header_bytes c prev fid @ rest) r"
    and len: "length (pre @ header_bytes c prev fid) < 2 ^ 64"
  shows "read_field_header r = Inr (Some \<lparr>fh_ttype = t, fh_id = fid\<rparr>,
    r\<lparr>tr_pos := length (pre @ header_bytes c prev fid), tr_last_field_id := fid\<rparr>)"
proof (cases "1 \<le> fid - prev \<and> fid - prev \<le> 15")
  case True
  let ?d = "word_of_int (fid - prev) :: byte"
  let ?b = "push_bit 4 ?d OR c"
  have d: "?d AND mask 4 = ?d" "uint ?d = fid - prev" "?d \<noteq> 0"
    using small_delta True by blast+
  have nib: "?b AND 0xF = c" "drop_bit 4 ?b AND 0xF = ?d"
    using header_nibbles [of ?d c] c d by (auto simp: type_code_def mask_eq_exp_minus_1)
  then have "?b \<noteq> 0" using d(3) by auto
  moreover have h: "header_bytes c prev fid = [?b]"
    using True by (simp add: header_bytes_def write_field_header_def)
  moreover have "read_byte r = Inr (?b, r\<lparr>tr_pos := length (pre @ [?b])\<rparr>)"
    using reads_backD [OF reads_back_byte, of pre ?b rest r] r len h by simp
  ultimately show ?thesis
    using fid type_code_masked [OF c] d nib prev c
    by (simp add: read_field_header_def Let_def checked_add_i16_def i16_def type_code_def)
next
  case False
  then have h: "header_bytes c prev fid = c # write_zigzag fid"
    by (auto simp: header_bytes_def write_field_header_def)
  have b: "read_byte r = Inr (c, r\<lparr>tr_pos := length (pre @ [c])\<rparr>)"
    using reads_backD [OF reads_back_byte, of pre c "write_zigzag fid @ rest" r] r len h by simp
  have i: "read_i16 (r\<lparr>tr_pos := length (pre @ [c])\<rparr>)
      = Inr (fid, r\<lparr>tr_pos := length (pre @ c # write_zigzag fid)\<rparr>)"
    using reads_backD [OF reads_back_i16 [OF fid], of "pre @ [c]" rest] reader_at_moved [of pre "[c]" "write_zigzag fid @ rest" r]
      r len h by simp
  have "drop_bit 4 c AND 0xF = 0"
    using header_nibbles(2) [of 0 c] c by (simp add: type_code_def mask_eq_exp_minus_1)
  with b i type_code_masked [OF c] c show ?thesis
    by (simp add: read_field_header_def Let_def type_code_def h)
qed

subsection \<open>Structs\<close>

definition fields_back ::
  "(field_header \<Rightarrow> 'a \<Rightarrow> 'a thrift_run) \<Rightarrow> int \<Rightarrow> 'a \<Rightarrow> bytes \<Rightarrow> 'a \<Rightarrow> bool" where
  "fields_back f prev acc enc x \<longleftrightarrow>
     (\<forall>pre rest r n. reader_at pre (enc @ rest) r \<longrightarrow> length (pre @ enc) < 2 ^ 64 \<longrightarrow>
        tr_last_field_id r = prev \<longrightarrow> length enc \<le> n \<longrightarrow>
        (\<exists>prev'. while_fields f n acc r
           = Some (Inr (x, r\<lparr>tr_pos := length (pre @ enc), tr_last_field_id := prev'\<rparr>))))"

lemma fields_backD:
  assumes "fields_back f prev acc enc x" "reader_at pre (enc @ rest) r" "length (pre @ enc) < 2 ^ 64"
    "tr_last_field_id r = prev" "length enc \<le> n"
  obtains prev' where "while_fields f n acc r
    = Some (Inr (x, r\<lparr>tr_pos := length (pre @ enc), tr_last_field_id := prev'\<rparr>))"
  using assms unfolding fields_back_def by blast

lemma fields_back_stop: "fields_back f prev acc [0] acc"
  unfolding fields_back_def
proof (intro allI impI)
  fix pre rest :: bytes and r n
  assume r: "reader_at pre ([0] @ rest) r" "length (pre @ [0 :: byte]) < 2 ^ 64" "length [0 :: byte] \<le> n"
    "tr_last_field_id r = prev"
  then obtain m where n: "n = Suc m" by (cases n) auto
  from reads_backD [OF reads_back_byte r(1,2)]
  have "read_field_header r = Inr (None, r\<lparr>tr_pos := length (pre @ [0 :: byte])\<rparr>)"
    by (simp add: read_field_header_def)
  then show "\<exists>prev'. while_fields f n acc r
      = Some (Inr (acc, r\<lparr>tr_pos := length (pre @ [0 :: byte]), tr_last_field_id := prev'\<rparr>))"
    by (intro exI [of _ prev]) (simp add: n r(4))
qed

lemma fields_back_field:
  assumes c: "type_code c t" "i16 fid"
    and body: "reads_back (f \<lparr>fh_ttype = t, fh_id = fid\<rparr> acc) e x"
    and rest: "fields_back f fid x es y"
  shows "fields_back f prev acc (header_bytes c prev fid @ e @ es) y"
  unfolding fields_back_def
proof (intro allI impI)
  fix pre rest0 :: bytes and r n
  let ?h = "header_bytes c prev fid"
  assume r: "reader_at pre ((?h @ e @ es) @ rest0) r" "length (pre @ ?h @ e @ es) < 2 ^ 64"
    "tr_last_field_id r = prev" "length (?h @ e @ es) \<le> n"
  have "?h \<noteq> []" by (simp add: header_bytes_def write_field_header_def Let_def)
  with r(4) obtain m where n: "n = Suc m" "length es \<le> m" by (cases n; cases ?h) auto
  let ?r1 = "r\<lparr>tr_pos := length (pre @ ?h), tr_last_field_id := fid\<rparr>"
  have 1: "read_field_header r = Inr (Some \<lparr>fh_ttype = t, fh_id = fid\<rparr>, ?r1)"
    using reads_back_header [OF c r(3), of pre "e @ es @ rest0"] r(1,2) by simp
  have "reader_at (pre @ ?h) (e @ es @ rest0) ?r1" using r(1) by (simp add: reader_at_def)
  from reads_backD [OF body this] r(2)
  have 2: "f \<lparr>fh_ttype = t, fh_id = fid\<rparr> acc ?r1 = Some (Inr (x, ?r1\<lparr>tr_pos := length (pre @ ?h @ e)\<rparr>))"
    by simp
  have "reader_at (pre @ ?h @ e) (es @ rest0) (?r1\<lparr>tr_pos := length (pre @ ?h @ e)\<rparr>)"
    using r(1) by (simp add: reader_at_def)
  from fields_backD [OF rest this _ _ n(2)] r(2) obtain prev' where
    "while_fields f m x (?r1\<lparr>tr_pos := length (pre @ ?h @ e)\<rparr>) = Some (Inr (y,
       ?r1\<lparr>tr_pos := length (pre @ ?h @ e)\<rparr>\<lparr>tr_pos := length ((pre @ ?h @ e) @ es), tr_last_field_id := prev'\<rparr>))"
    by auto
  with 1 2 show "\<exists>prev'. while_fields f n acc r
      = Some (Inr (y, r\<lparr>tr_pos := length (pre @ ?h @ e @ es), tr_last_field_id := prev'\<rparr>))"
    by (auto simp: n)
qed

lemma reads_back_struct:
  assumes "fields_back f 0 acc enc x"
  shows "reads_back (read_struct f acc) enc x"
proof (rule reads_backI)
  fix pre rest r
  assume r: "reader_at pre (enc @ rest) r" "length (pre @ enc) < 2 ^ 64"
  then have "reader_at pre (enc @ rest) (read_struct_begin r)" "length enc \<le> Suc (remaining r)"
    "tr_last_field_id (read_struct_begin r) = 0"
    by (auto simp: reader_at_def read_struct_begin_def remaining_def)
  with assms r(2) obtain prev' where "while_fields f (Suc (remaining r)) acc (read_struct_begin r)
      = Some (Inr (x, (read_struct_begin r)\<lparr>tr_pos := length (pre @ enc), tr_last_field_id := prev'\<rparr>))"
    unfolding fields_back_def by blast
  then show "read_struct f acc r = Some (Inr (x, r\<lparr>tr_pos := length (pre @ enc)\<rparr>))"
    unfolding read_struct_def
    by (simp del: while_fields.simps add: read_struct_end_def read_struct_begin_def)
qed

lemma reads_back_repeat:
  assumes "reads_back (f acc) e1 x" "reads_back (repeat_read f n x) e2 y"
  shows "reads_back (repeat_read f (Suc n) acc) (e1 @ e2) y"
  using reads_back_bind [of "f acc" e1 x "repeat_read f n", OF assms]
  by (rule reads_back_eq) simp_all

lemma reads_back_checked:
  assumes "reads_back (\<lambda>r. Some (m r)) e x" "\<not> P x"
  shows "reads_back (\<lambda>r. Some (and_then (m r) (\<lambda>(v, r). if P v then Inl err else Inr (g v, r)))) e (g x)"
proof (rule reads_backI)
  fix pre rest r assume "reader_at pre (e @ rest) r" "length (pre @ e) < 2 ^ 64"
  from reads_backD [OF assms(1) this] assms(2)
  show "Some (and_then (m r) (\<lambda>(v, r). if P v then Inl err else Inr (g v, r)))
      = Some (Inr (g x, r\<lparr>tr_pos := length (pre @ e)\<rparr>))" by simp
qed

lemma reads_back_run_map:
  assumes "reads_back m e x"
  shows "reads_back (\<lambda>r. run_bind (m r) (\<lambda>(x, r). Some (Inr (g x, r)))) e (g x)"
  using reads_back_bind [of m e x "\<lambda>x r. Some (Inr (g x, r))", OF assms reads_back_return] by simp

subsection \<open>Structs as they are written\<close>

lemma i16_0 [simp]: "i16 (numeral n) \<longleftrightarrow> numeral n < (2 ^ 15 :: int)" "i16 1"
  by (auto simp: i16_def)

lemma type_codes: "type_code 1 TBoolTrue" "type_code 4 TI16" "type_code 5 TI32" "type_code 8 TBinary"
  "type_code 11 TMap"
  by (simp_all add: type_code_def ttype_from_code_def mask_eq_exp_minus_1)


definition written ::
  "(field_header \<Rightarrow> 'a \<Rightarrow> 'a thrift_run) \<Rightarrow> 'a \<Rightarrow> writer \<Rightarrow> 'a \<Rightarrow> bool" where
  "written f start w acc \<longleftrightarrow>
     (\<forall>es y. fields_back f (fst w) acc es y \<longrightarrow> fields_back f 0 start (snd w @ es) y)"

lemma written_start: "written f start (0, []) start"
  by (simp add: written_def)

lemma written_field:
  assumes "written f start w acc" "type_code c t" "i16 fid"
    "reads_back (f \<lparr>fh_ttype = t, fh_id = fid\<rparr> acc) e x"
  shows "written f start (let (prev, out) = write_field_header c fid w in (prev, out @ e)) x"
  unfolding written_def
proof (intro allI impI)
  fix es y
  obtain prev out where w: "w = (prev, out)" by (cases w)
  assume "fields_back f (fst (let (prev, out) = write_field_header c fid w in (prev, out @ e))) x es y"
  then have "fields_back f fid x es y" by (simp add: w write_field_header_bytes)
  from fields_back_field [OF assms(2-4) this, of prev] assms(1)
  show "fields_back f 0 start
      (snd (let (prev, out) = write_field_header c fid w in (prev, out @ e)) @ es) y"
    by (simp add: w written_def write_field_header_bytes)
qed

lemma written_end: "written f start w acc \<Longrightarrow> reads_back (read_struct f start) (snd w @ [0]) acc"
  using fields_back_stop [of f "fst w" acc] by (intro reads_back_struct) (simp add: written_def)

lemma written_i16:
  assumes "written f start w acc" "i16 fid" "i16 x" "f \<lparr>fh_ttype = TI16, fh_id = fid\<rparr> acc = store read_i16 g"
  shows "written f start (write_i16_field fid x w) (g x)"
  unfolding write_i16_field_def
  by (rule written_field [OF assms(1) type_codes(2) assms(2)])
    (simp only: assms(4), rule reads_back_store [OF reads_back_i16 [OF assms(3)]])

lemma written_i32:
  assumes "written f start w acc" "i16 fid" "reads_back (f \<lparr>fh_ttype = TI32, fh_id = fid\<rparr> acc) (write_zigzag x) y"
  shows "written f start (write_i32_field fid x w) y"
  unfolding write_i32_field_def
  by (rule written_field [OF assms(1) type_codes(3) assms(2,3)])

end
