(* ===== verification/Schema_Encoding.thy ===== *)
theory Schema_Encoding
  imports Schema Thrift_Encoding
begin

text \<open>
  The encoder of the Frozen2 schema that the unit tests of \<open>src/src/metadata/schema.rs\<close> use
  (\<open>build_field\<close>, \<open>build_layout\<close>, \<open>build_schema\<close>), applied to whole schemas, and the proof
  that the parser of \<open>Schema\<close> reads every encoded schema back. The encoder leaves out a size or
  bit width of zero and an empty field map, which the parser's defaults restore; it always writes
  the key and value type byte of the layout map, which the reader does not expect of an empty map,
  so a schema without layouts is outside the round trip.
\<close>

subsection \<open>The encoder\<close>

definition build_field :: "int \<Rightarrow> int \<Rightarrow> bytes" where
  "build_field layout_id offset =
     snd (write_i16_field 2 offset (write_i16_field 1 layout_id (0, []))) @ [0]"

definition build_layout :: "u32 \<Rightarrow> u16 \<Rightarrow> (int \<times> bytes) list \<Rightarrow> bytes \<Rightarrow> bytes" where
  "build_layout byte_size bits entries type_name =
     (let w = (0, []);
          w = (if byte_size \<noteq> 0 then write_i32_field 1 (sint byte_size) w else w);
          w = (if bits \<noteq> 0 then write_i16_field 2 (sint bits) w else w);
          w = (if entries \<noteq> []
               then (let (prev, out) = write_field_header 11 3 w in
                     (prev, out @ write_struct_map entries))
               else w)
      in snd (write_string_field 4 type_name w) @ [0])"

definition build_schema :: "int \<Rightarrow> int \<Rightarrow> (int \<times> bytes) list \<Rightarrow> bool \<Rightarrow> bytes" where
  "build_schema file_version root layouts relax =
     (let w = (0, []);
          w = (if relax then write_field_header 1 1 w else w);
          (prev, out) = write_field_header 11 2 w;
          w = (prev, out @ write_struct_map layouts)
      in snd (write_i32_field 4 file_version (write_i16_field 3 root w)) @ [0])"

definition encode_field :: "field \<Rightarrow> bytes" where
  "encode_field f = build_field (fl_layout_id f) (fl_offset f)"

definition encode_layout :: "layout \<Rightarrow> bytes" where
  "encode_layout l =
     build_layout (word_of_nat (ly_size l)) (word_of_nat (ly_bits l))
       (map (\<lambda>(k, f). (k, encode_field f)) (ly_fields l)) (ly_type_name l)"

definition encode_schema :: "schema \<Rightarrow> bytes" where
  "encode_schema s =
     build_schema (sc_file_version s) (sc_root_layout s)
       (map (\<lambda>(k, l). (k, encode_layout l)) (sc_layouts s)) (sc_relax_type_checks s)"

text \<open>The schemas whose every value has a place in the encoding.\<close>

definition i16_map :: "(int \<times> 'v) list \<Rightarrow> bool" where
  "i16_map m \<longleftrightarrow> sorted_wrt (<) (map fst m) \<and> (\<forall>k \<in> set (map fst m). i16 k)"

definition field_fits :: "field \<Rightarrow> bool" where
  "field_fits f \<longleftrightarrow> i16 (fl_layout_id f) \<and> i16 (fl_offset f)"

definition layout_fits :: "layout \<Rightarrow> bool" where
  "layout_fits l \<longleftrightarrow> ly_size l < 2 ^ 31 \<and> ly_bits l < 2 ^ 15 \<and> i16_map (ly_fields l)
     \<and> list_all field_fits (map snd (ly_fields l)) \<and> utf8_valid (ly_type_name l)
     \<and> length (ly_type_name l) < 2 ^ 64"

definition schema_fits :: "schema \<Rightarrow> bool" where
  "schema_fits s \<longleftrightarrow> i32 (sc_file_version s) \<and> i16 (sc_root_layout s) \<and> sc_layouts s \<noteq> []
     \<and> i16_map (sc_layouts s) \<and> list_all layout_fits (map snd (sc_layouts s))"

subsection \<open>Every encoded schema is read back\<close>

lemma btree_insert_last:
  "(\<And>k'. k' \<in> fst ` set m \<Longrightarrow> k' < k) \<Longrightarrow> btree_insert k v m = m @ [(k, v)]"
  by (induction k v m rule: btree_insert.induct) force+

lemma map_entries_read_back:
  assumes "\<And>k v. (k, v) \<in> set es \<Longrightarrow> i16 k \<and> reads_back body (enc v) v"
    "sorted_wrt (<) (map fst (acc @ es))"
  shows "reads_back (repeat_read (\<lambda>out r.
       run_bind (read_i16_run r) (\<lambda>(key, r).
       run_bind (body r) (\<lambda>(v, r). Some (Inr (btree_insert key v out, r))))) (length es) acc)
     (concat (map (\<lambda>(k, v). write_zigzag k @ enc v) es)) (acc @ es)"
  using assms
proof (induction es arbitrary: acc)
  case Nil
  show ?case by (simp add: reads_back_return)
next
  case (Cons e es)
  obtain k v where e: "e = (k, v)" by (cases e)
  have k: "i16 k" and v: "reads_back body (enc v) v" using Cons.prems(1) e by auto
  have "btree_insert k v acc = acc @ [(k, v)]"
    using Cons.prems(2) e by (intro btree_insert_last) (auto simp: sorted_wrt_append)
  then have ins: "reads_back (\<lambda>r. Some (Inr (btree_insert k v acc, r))) [] (acc @ [(k, v)])"
    using reads_back_return by simp
  have entry: "reads_back (\<lambda>r. run_bind (read_i16_run r) (\<lambda>(key, r).
       run_bind (body r) (\<lambda>(v, r). Some (Inr (btree_insert key v acc, r)))))
     (write_zigzag k @ enc v @ []) (acc @ [(k, v)])"
    by (rule reads_back_bind [OF reads_back_i16 [OF k], folded read_i16_run_def])
      (rule reads_back_bind [OF v, where f = "\<lambda>v r. Some (Inr (btree_insert k v acc, r))", OF ins])
  have more: "\<And>k v. (k, v) \<in> set es \<Longrightarrow> i16 k \<and> reads_back body (enc v) v"
    "sorted_wrt (<) (map fst ((acc @ [(k, v)]) @ es))"
    using Cons.prems(1) list.set_intros(2) Cons.prems(2) e by (metis, simp)
  from reads_back_repeat [where n = "length es", OF entry Cons.IH [OF more]]
  show ?case by (simp add: e del: repeat_read.simps)
qed

lemma struct_map_read_back:
  assumes es: "es \<noteq> []" "length es < 2 ^ 32" "sorted_wrt (<) (map fst es)"
    and entry: "\<And>k v. (k, v) \<in> set es \<Longrightarrow> i16 k \<and> reads_back body (enc v) v"
  shows "reads_back (\<lambda>r. run_bind (Some (read_map_header r)) (\<lambda>((kt, vt, count), r).
      if 0 < count \<and> (kt \<noteq> TI16 \<or> vt \<noteq> TStruct) then Some (Inl e)
      else read_map_entries body count r))
    (write_struct_map (map (\<lambda>(k, v). (k, enc v)) es)) es"
proof -
  let ?n = "length es"
  have n: "unat (word_of_nat ?n :: u64) = ?n" "unat (word_of_nat ?n :: u32) = ?n"
    "(word_of_nat ?n :: u32) \<noteq> 0"
    using es by (auto simp: unat_of_nat unat_eq_0 [symmetric])
  have kv: "ttype_from_code (drop_bit 4 (push_bit 4 4 OR 12)) = Inr TI16"
    "ttype_from_code ((push_bit 4 4 OR 12) AND 0xF) = Inr TStruct"
    by (simp_all add: ttype_from_code_def)
  have header: "reads_back (\<lambda>r. Some (read_map_header r))
      (write_varint (word_of_nat ?n) @ [push_bit 4 4 OR 12]) (TI16, TStruct, ?n)"
  proof (rule reads_backI)
    fix pre rest r
    let ?v = "write_varint (word_of_nat ?n)"
    assume r: "reader_at pre ((?v @ [push_bit 4 4 OR 12]) @ rest) r"
      "length (pre @ ?v @ [push_bit 4 4 OR 12 :: byte]) < 2 ^ 64"
    have 1: "read_varint_u64 r = Inr (word_of_nat ?n, r\<lparr>tr_pos := length (pre @ ?v)\<rparr>)"
      using reads_backD [OF reads_back_varint, of pre _ "(push_bit 4 4 OR 12) # rest" r] r by simp
    have 2: "read_byte (r\<lparr>tr_pos := length (pre @ ?v)\<rparr>) = Inr (push_bit 4 4 OR 12,
        r\<lparr>tr_pos := length (pre @ ?v @ [push_bit 4 4 OR 12 :: byte])\<rparr>)"
      using reads_backD [OF reads_back_byte, of "pre @ ?v" "push_bit 4 4 OR 12" rest]
        reader_at_moved [of pre ?v "(push_bit 4 4 OR 12) # rest" r] r by simp
    show "Some (read_map_header r) = Some (Inr ((TI16, TStruct, ?n),
        r\<lparr>tr_pos := length (pre @ ?v @ [push_bit 4 4 OR 12 :: byte])\<rparr>))"
      using es(2) kv unfolding read_map_header_def 1 by (simp only: and_then_Inr prod.case n u32_try_from_def if_True ok_or_Some if_False 2)
  qed
  have entries: "reads_back (read_map_entries body ?n)
      (concat (map (\<lambda>(k, v). write_zigzag k @ enc v) es)) es"
    using map_entries_read_back [of es body enc "[]"] entry es(3)
    by (simp add: read_map_entries_def)
  have "reads_back (\<lambda>r. run_bind (Some (read_map_header r)) (\<lambda>(x, r). (case x of (kt, vt, count) \<Rightarrow>
      \<lambda>r. if 0 < count \<and> (kt \<noteq> TI16 \<or> vt \<noteq> TStruct) then Some (Inl e)
      else read_map_entries body count r) r))
    ((write_varint (word_of_nat ?n) @ [push_bit 4 4 OR 12])
      @ concat (map (\<lambda>(k, v). write_zigzag k @ enc v) es)) es"
    by (rule reads_back_bind [OF header]) (simp add: entries)
  then show ?thesis
    by (rule reads_back_eq)
      (simp_all add: write_struct_map_def comp_def case_prod_beta')
qed

lemma i16_map_length:
  assumes "i16_map m"
  shows "length m < 2 ^ 32"
proof -
  have d: "distinct (map fst m)"
    using assms by (auto simp: i16_map_def strict_sorted_iff)
  have "set (map fst m) \<subseteq> {- (2 ^ 15)..<2 ^ 15}"
    using assms by (auto simp: i16_map_def i16_def)
  from card_mono [OF _ this] have "card (set (map fst m)) \<le> 2 ^ 16" by simp
  with distinct_card [OF d] show ?thesis by simp
qed

lemma field_read_back:
  assumes "field_fits f"
  shows "reads_back read_field (encode_field f) f"
proof -
  let ?f0 = "\<lparr>fl_layout_id = 0, fl_offset = 0\<rparr>"
  have "written field_field ?f0 (write_i16_field 1 (fl_layout_id f) (0, []))
      (?f0\<lparr>fl_layout_id := fl_layout_id f\<rparr>)"
    by (rule written_i16 [OF written_start])
      (use assms in \<open>simp_all add: field_fits_def field_field_def\<close>)
  then have "written field_field ?f0 (write_i16_field 2 (fl_offset f) (write_i16_field 1 (fl_layout_id f) (0, [])))
      (?f0\<lparr>fl_layout_id := fl_layout_id f\<rparr>\<lparr>fl_offset := fl_offset f\<rparr>)"
    by (rule written_i16) (use assms in \<open>simp_all add: field_fits_def field_field_def\<close>)
  from written_end [OF this] show ?thesis
    by (cases f) (simp add: read_field_def encode_field_def build_field_def)
qed

lemma layout_size_read_back:
  assumes "n < 2 ^ 31"
  shows "reads_back (layout_step \<lparr>fh_ttype = TI32, fh_id = 1\<rparr> l)
    (write_zigzag (sint (word_of_nat n :: u32))) (l\<lparr>ly_size := n\<rparr>)"
proof -
  have s: "sint (word_of_nat n :: u32) = int n"
    using assms by (simp add: signed_of_nat signed_take_bit_int_eq_self)
  have "i32 (int n)" using assms by (simp add: i32_def)
  from reads_back_checked [OF reads_back_i32 [OF this], of "\<lambda>v. v < 0" _ "\<lambda>v. l\<lparr>ly_size := nat v\<rparr>"]
  show ?thesis by (simp add: layout_step_def s)
qed

lemma layout_bits_read_back:
  assumes "n < 2 ^ 15"
  shows "reads_back (layout_step \<lparr>fh_ttype = TI16, fh_id = 2\<rparr> l)
    (write_zigzag (sint (word_of_nat n :: u16))) (l\<lparr>ly_bits := n\<rparr>)"
proof -
  have s: "sint (word_of_nat n :: u16) = int n"
    using assms by (simp add: signed_of_nat signed_take_bit_int_eq_self)
  have "i16 (int n)" using assms by (simp add: i16_def)
  from reads_back_checked [OF reads_back_i16 [OF this], of "\<lambda>v. v < 0" _ "\<lambda>v. l\<lparr>ly_bits := nat v\<rparr>"]
  show ?thesis by (simp add: layout_step_def s)
qed

lemma layout_fields_read_back:
  assumes "m \<noteq> []" "i16_map m" "list_all field_fits (map snd m)"
  shows "reads_back (layout_step \<lparr>fh_ttype = TMap, fh_id = 3\<rparr> l)
    (write_struct_map (map (\<lambda>(k, f). (k, encode_field f)) m)) (l\<lparr>ly_fields := m\<rparr>)"
proof -
  have "i16 k \<and> reads_back read_field (encode_field f) f" if "(k, f) \<in> set m" for k f
    using that assms(2,3) field_read_back [of f] by (force simp: i16_map_def list_all_iff)
  then have "reads_back read_field_map (write_struct_map (map (\<lambda>(k, f). (k, encode_field f)) m)) m"
    unfolding read_field_map_def [abs_def] using assms(1,2) i16_map_length [OF assms(2)]
    by (intro struct_map_read_back) (auto simp: i16_map_def)
  from reads_back_run_map [OF this, of "\<lambda>m. l\<lparr>ly_fields := m\<rparr>"] show ?thesis
    by (simp add: layout_step_def)
qed

lemma layout_read_back:
  assumes "layout_fits l"
  shows "reads_back read_layout (encode_layout l) l"
proof -
  let ?w1 = "if word_of_nat (ly_size l) \<noteq> (0 :: u32)
    then write_i32_field 1 (sint (word_of_nat (ly_size l) :: u32)) (0, []) else (0, [])"
  let ?l1 = "layout_default\<lparr>ly_size := ly_size l\<rparr>"
  let ?w2 = "if word_of_nat (ly_bits l) \<noteq> (0 :: u16)
    then write_i16_field 2 (sint (word_of_nat (ly_bits l) :: u16)) ?w1 else ?w1"
  let ?l2 = "?l1\<lparr>ly_bits := ly_bits l\<rparr>"
  let ?m = "map (\<lambda>(k, f). (k, encode_field f)) (ly_fields l)"
  let ?w3 = "if ?m \<noteq> [] then (let (prev, out) = write_field_header 11 3 ?w2 in
     (prev, out @ write_struct_map ?m)) else ?w2"
  let ?l3 = "?l2\<lparr>ly_fields := ly_fields l\<rparr>"
  have l: "ly_size l < 2 ^ 31" "ly_bits l < 2 ^ 15" "i16_map (ly_fields l)"
    "list_all field_fits (map snd (ly_fields l))" "utf8_valid (ly_type_name l)"
    "length (ly_type_name l) < 2 ^ 64"
    using assms by (simp_all only: layout_fits_def)
  have zero: "word_of_nat (ly_size l) = (0 :: u32) \<longleftrightarrow> ly_size l = 0"
    "word_of_nat (ly_bits l) = (0 :: u16) \<longleftrightarrow> ly_bits l = 0"
    using l(1,2) by (auto simp: unat_eq_0 [symmetric] unat_of_nat)
  have 1: "written layout_step layout_default ?w1 ?l1"
  proof (cases "ly_size l = 0")
    case True
    then show ?thesis using written_start [of layout_step layout_default] by (simp add: layout_default_def)
  next
    case False
    with written_i32 [where f = layout_step, OF written_start _ layout_size_read_back [OF l(1)]] zero show ?thesis by simp
  qed
  have 2: "written layout_step layout_default ?w2 ?l2"
  proof (cases "ly_bits l = 0")
    case True
    with 1 zero show ?thesis by (simp add: layout_default_def)
  next
    case False
    with written_field [where f = layout_step, OF 1 type_codes(2) _ layout_bits_read_back [OF l(2)]] zero show ?thesis
      by (simp add: write_i16_field_def)
  qed
  have 3: "written layout_step layout_default ?w3 ?l3"
  proof (cases "ly_fields l = []")
    case True
    with 2 show ?thesis by (simp add: layout_default_def)
  next
    case False
    with written_field [where f = layout_step, OF 2 type_codes(5) _ layout_fields_read_back [OF False l(3,4)]] show ?thesis
      by simp
  qed
  have "layout_step \<lparr>fh_ttype = TBinary, fh_id = 4\<rparr> ?l3 = store read_string (\<lambda>s. ?l3\<lparr>ly_type_name := s\<rparr>)"
    by (simp add: layout_step_def)
  then have "reads_back (layout_step \<lparr>fh_ttype = TBinary, fh_id = 4\<rparr> ?l3)
      (write_varint (word_of_nat (length (ly_type_name l))) @ ly_type_name l) (?l3\<lparr>ly_type_name := ly_type_name l\<rparr>)"
    using reads_back_store [OF reads_back_string [OF l(5,6)]] by (simp only:)
  from written_field [where f = layout_step, OF 3 type_codes(4) _ this]
  have "written layout_step layout_default (write_string_field 4 (ly_type_name l) ?w3)
      (?l3\<lparr>ly_type_name := ly_type_name l\<rparr>)"
    by (simp add: write_string_field_def)
  moreover have "?l3\<lparr>ly_type_name := ly_type_name l\<rparr> = l"
    by (cases l) (simp add: layout_default_def)
  ultimately have "reads_back (read_struct layout_step layout_default)
      (snd (write_string_field 4 (ly_type_name l) ?w3) @ [0]) l"
    using written_end by metis
  then show ?thesis
    by (simp only: read_layout_def encode_layout_def build_layout_def Let_def)
qed


lemma schema_layouts_read_back:
  assumes "m \<noteq> []" "i16_map m" "list_all layout_fits (map snd m)"
  shows "reads_back (schema_step \<lparr>fh_ttype = TMap, fh_id = 2\<rparr> s)
    (write_struct_map (map (\<lambda>(k, l). (k, encode_layout l)) m)) (s\<lparr>sc_layouts := m\<rparr>)"
proof -
  have "i16 k \<and> reads_back read_layout (encode_layout l) l" if "(k, l) \<in> set m" for k l
    using that assms(2,3) layout_read_back [of l] by (force simp: i16_map_def list_all_iff)
  then have "reads_back read_layout_map (write_struct_map (map (\<lambda>(k, l). (k, encode_layout l)) m)) m"
    unfolding read_layout_map_def [abs_def] using assms(1,2) i16_map_length [OF assms(2)]
    by (intro struct_map_read_back) (auto simp: i16_map_def)
  from reads_back_run_map [OF this, of "\<lambda>m. s\<lparr>sc_layouts := m\<rparr>"] show ?thesis
    by (simp add: schema_step_def)
qed

definition schema_start :: schema where
  "schema_start = \<lparr>sc_file_version = 0, sc_relax_type_checks = False, sc_layouts = [],
     sc_root_layout = 0\<rparr>"

lemma schema_read_back:
  assumes "schema_fits s"
  shows "reads_back (read_struct schema_step schema_start) (encode_schema s) s"
proof -
  let ?w1 = "if sc_relax_type_checks s then write_field_header 1 1 (0, []) else (0, [])"
  let ?s1 = "schema_start\<lparr>sc_relax_type_checks := sc_relax_type_checks s\<rparr>"
  let ?m = "map (\<lambda>(k, l). (k, encode_layout l)) (sc_layouts s)"
  let ?w2 = "let (prev, out) = write_field_header 11 2 ?w1 in (prev, out @ write_struct_map ?m)"
  let ?s2 = "?s1\<lparr>sc_layouts := sc_layouts s\<rparr>"
  let ?s3 = "?s2\<lparr>sc_root_layout := sc_root_layout s\<rparr>"
  have s: "i32 (sc_file_version s)" "i16 (sc_root_layout s)" "sc_layouts s \<noteq> []"
    "i16_map (sc_layouts s)" "list_all layout_fits (map snd (sc_layouts s))"
    using assms unfolding schema_fits_def by blast+
  have flag: "reads_back (schema_step \<lparr>fh_ttype = TBoolTrue, fh_id = 1\<rparr> schema_start) []
      (schema_start\<lparr>sc_relax_type_checks := True\<rparr>)"
    by (simp add: schema_step_def reads_back_return)
  have 1: "written schema_step schema_start ?w1 ?s1"
  proof (cases "sc_relax_type_checks s")
    case True
    with written_field [where f = schema_step, OF written_start type_codes(1) _ flag] show ?thesis
      by (simp add: case_prod_beta')
  next
    case False
    then show ?thesis using written_start [of schema_step schema_start] by (simp add: schema_start_def)
  qed
  have 2: "written schema_step schema_start ?w2 ?s2"
    by (rule written_field [where f = schema_step, OF 1 type_codes(5) _ schema_layouts_read_back [OF s(3-5)]]) simp
  have 3: "written schema_step schema_start (write_i16_field 3 (sc_root_layout s) ?w2) ?s3"
    by (rule written_i16 [OF 2 _ s(2)]) (simp_all add: schema_step_def)
  have "reads_back (schema_step \<lparr>fh_ttype = TI32, fh_id = 4\<rparr> ?s3) (write_zigzag (sc_file_version s))
      (?s3\<lparr>sc_file_version := sc_file_version s\<rparr>)"
    using reads_back_store [OF reads_back_i32 [OF s(1)], of "\<lambda>x. ?s3\<lparr>sc_file_version := x\<rparr>"]
    by (simp add: schema_step_def)
  from written_end [OF written_i32 [where f = schema_step, OF 3 _ this]]
  have "reads_back (read_struct schema_step schema_start)
      (snd (write_i32_field 4 (sc_file_version s) (write_i16_field 3 (sc_root_layout s) ?w2)) @ [0])
      (?s3\<lparr>sc_file_version := sc_file_version s\<rparr>)" by simp
  moreover have "?s3\<lparr>sc_file_version := sc_file_version s\<rparr> = s"
    by (cases s) (simp add: schema_start_def)
  ultimately show ?thesis
    by (simp only: encode_schema_def build_schema_def Let_def case_prod_beta')
qed

lemma schema_encoding_parses:
  assumes "schema_fits s" "length (encode_schema s) < 2 ^ 64"
  shows "schema_parse (encode_schema s @ rest) = Some (Inr s)"
proof -
  have "reader_at [] (encode_schema s @ rest) (thrift_new (encode_schema s @ rest))"
    by (simp add: reader_at_def thrift_new_def)
  from reads_backD [OF schema_read_back [OF assms(1)] this] assms(2) show ?thesis
    by (simp add: schema_parse_def schema_start_def)
qed

end
