(* ===== verification/Frozen_Writer.thy ===== *)
theory Frozen_Writer
  imports Model Bit_Writer Schema_Encoding
begin

text \<open>
  A reference writer of the Frozen2 format that \<open>src/src/metadata/frozen.rs\<close> documents and reads. The
  root struct is a list of slots, pairs of a field id and what is stored there: an integer, an optional
  integer, an array of integers, structs or strings, possibly behind an optional, the options
  struct, or a compact string table. The head of a slot is packed into the root struct at the front of the blob; the data of an
  array follows it. A range stores its distance from the byte its own struct starts at.

  \<open>stored m fid s b p\<close> says that the slot \<open>s\<close> is stored under \<open>fid\<close>, its head from bit \<open>b\<close> on and
  its data from byte \<open>p\<close> on; \<open>written_slots_stored\<close> is the correctness of the writer, and one lemma
  per kind of slot says what the accessors of \<open>Model\<close> then return.
\<close>

subsection \<open>Layouts\<close>

definition int_layout :: "nat \<Rightarrow> layout" where
  "int_layout w = \<lparr>ly_size = 0, ly_bits = w, ly_fields = [], ly_type_name = []\<rparr>"

definition field_at :: "int \<Rightarrow> nat \<Rightarrow> field" where
  "field_at lid b = \<lparr>fl_layout_id = lid, fl_offset = - int b\<rparr>"

fun place_fields :: "nat \<Rightarrow> (int \<times> int \<times> nat) list \<Rightarrow> (int \<times> field) list" where
  "place_fields b [] = []"
| "place_fields b ((fid, lid, w) # cs) = (fid, field_at lid b) # place_fields (b + w) cs"

definition struct_layout :: "nat \<Rightarrow> (int \<times> int \<times> nat) list \<Rightarrow> layout" where
  "struct_layout sz cs =
     \<lparr>ly_size = sz, ly_bits = sum_list (map (snd \<circ> snd) cs), ly_fields = place_fields 0 cs,
      ly_type_name = []\<rparr>"

definition optional_layout :: "int \<Rightarrow> nat \<Rightarrow> layout" where
  "optional_layout lid w = struct_layout 0 [(1, 1, 1), (2, lid, w)]"

definition range_layout :: "int \<Rightarrow> layout" where
  "range_layout item = struct_layout 0 [(1, 32, 32), (2, 32, 32), (3, item, 0)]"

definition string_layout :: layout where
  "string_layout = struct_layout 8 [(1, 32, 32), (2, 32, 32)]"

definition row_layout :: "(int \<times> nat) list \<Rightarrow> layout" where
  "row_layout cols = struct_layout 0 (map (\<lambda>(fid, w). (fid, int w, w)) cols)"

definition options_layout :: "int \<Rightarrow> int \<Rightarrow> layout" where
  "options_layout o2 o6 = struct_layout 0
     [(1, 1, 1), (2, o2, 33), (3, 1, 1), (4, 1, 1), (5, 1, 1), (6, o6, 33), (7, 1, 1), (8, 1, 1)]"

definition table_layout :: "int \<Rightarrow> int \<Rightarrow> int \<Rightarrow> layout" where
  "table_layout buffer symtab index =
     struct_layout 0 [(1, buffer, 64), (2, symtab, 65), (3, index, 64), (4, 1, 1)]"

subsection \<open>Slots\<close>

datatype array =
    Ints nat "nat list"
  | Rows "(int \<times> nat) list" "nat list list"
  | Strs "bytes list"

record compact_strings =
  cp_buffer :: bytes
  cp_symtab :: "bytes option"
  cp_index :: "u32 list"
  cp_packed :: bool

definition no_strings :: compact_strings where
  "no_strings = \<lparr>cp_buffer = [], cp_symtab = None, cp_index = [], cp_packed = False\<rparr>"

definition index_width :: "compact_strings \<Rightarrow> nat" where
  "index_width c = column_width (map unat (cp_index c))"

datatype slot =
    SInt nat nat
  | SOptInt nat "nat option"
  | SList bool array
  | SOptions fs_options
  | STable bool compact_strings

definition lay_id :: "int \<Rightarrow> int \<Rightarrow> int" where
  "lay_id fid j = 100 * fid + j"

definition root_id :: int where "root_id = 10000"

fun array_item :: "int \<Rightarrow> array \<Rightarrow> int" where
  "array_item fid (Ints w vs) = int w"
| "array_item fid (Rows cols rows) = lay_id fid 2"
| "array_item fid (Strs ss) = lay_id fid 2"

fun array_layouts :: "int \<Rightarrow> array \<Rightarrow> (int \<times> layout) list" where
  "array_layouts fid (Ints w vs) = []"
| "array_layouts fid (Rows cols rows) = [(lay_id fid 2, row_layout cols)]"
| "array_layouts fid (Strs ss) = [(lay_id fid 2, string_layout)]"

fun array_count :: "array \<Rightarrow> nat" where
  "array_count (Ints w vs) = length vs"
| "array_count (Rows cols rows) = length rows"
| "array_count (Strs ss) = length ss"

definition row_fields :: "(int \<times> nat) list \<Rightarrow> nat list \<Rightarrow> bit_field list" where
  "row_fields cols row = zip (map snd cols) row"

text \<open>The range struct of the string \<open>i\<close> is at byte \<open>8 * i\<close> of the data, its bytes behind all structs.\<close>

definition string_range :: "bytes list \<Rightarrow> nat \<Rightarrow> bit_field list" where
  "string_range ss i =
     [(32, 8 * length ss + length (concat (take i ss)) - 8 * i), (32, length (ss ! i))]"

fun array_data :: "array \<Rightarrow> bytes" where
  "array_data (Ints w vs) = pack_bytes (map (Pair w) vs)"
| "array_data (Rows cols rows) = pack_bytes (concat (map (row_fields cols) rows))"
| "array_data (Strs ss) = pack_bytes (concat (map (string_range ss) [0..<length ss])) @ concat ss"

fun slot_id :: "int \<Rightarrow> slot \<Rightarrow> int" where
  "slot_id fid (SInt w v) = int w"
| "slot_id fid (SOptInt w v) = lay_id fid 0"
| "slot_id fid (SList opt a) = (if opt then lay_id fid 0 else lay_id fid 1)"
| "slot_id fid (SOptions opts) = lay_id fid 0"
| "slot_id fid (STable present c) = lay_id fid 0"

fun slot_layouts :: "int \<Rightarrow> slot \<Rightarrow> (int \<times> layout) list" where
  "slot_layouts fid (SInt w v) = []"
| "slot_layouts fid (SOptInt w v) = [(lay_id fid 0, optional_layout (int w) w)]"
| "slot_layouts fid (SList opt a) =
     (if opt then [(lay_id fid 0, optional_layout (lay_id fid 1) 64)] else [])
     @ [(lay_id fid 1, range_layout (array_item fid a))] @ array_layouts fid a"
| "slot_layouts fid (SOptions opts) =
     [(lay_id fid 0, optional_layout (lay_id fid 1) 72),
      (lay_id fid 1, options_layout (lay_id fid 2) (lay_id fid 3)),
      (lay_id fid 2, optional_layout 32 32), (lay_id fid 3, optional_layout 32 32)]"
| "slot_layouts fid (STable present c) =
     [(lay_id fid 0, optional_layout (lay_id fid 1) 194),
      (lay_id fid 1, table_layout (lay_id fid 2) (lay_id fid 3) (lay_id fid 4)),
      (lay_id fid 2, string_layout), (lay_id fid 3, optional_layout (lay_id fid 2) 64),
      (lay_id fid 4, range_layout (int (index_width c)))]"

definition opt_fields :: "nat \<Rightarrow> nat option \<Rightarrow> bit_field list" where
  "opt_fields w v = (case v of None \<Rightarrow> [(1, 0), (w, 0)] | Some x \<Rightarrow> [(1, 1), (w, x)])"

text \<open>The bytes of a compact string table come first, then its symbol table, then the index.\<close>

definition symtab_bytes :: "compact_strings \<Rightarrow> bytes" where
  "symtab_bytes c = (case cp_symtab c of None \<Rightarrow> [] | Some bs \<Rightarrow> bs)"

definition index_data :: "compact_strings \<Rightarrow> bytes" where
  "index_data c = pack_bytes (map (Pair (index_width c)) (map unat (cp_index c)))"

fun slot_head :: "nat \<Rightarrow> slot \<Rightarrow> bit_field list" where
  "slot_head p (SInt w v) = [(w, v)]"
| "slot_head p (SOptInt w v) = opt_fields w v"
| "slot_head p (SList opt a) = (if opt then [(1, 1)] else []) @ [(32, p), (32, array_count a)]"
| "slot_head p (SOptions opts) =
     [(1, 1), (1, of_bool (fo_mtime_only opts))]
     @ opt_fields 32 (map_option unat (fo_time_resolution_sec opts))
     @ [(1, of_bool (fo_packed_chunk_table opts)), (1, of_bool (fo_packed_directories opts)),
        (1, of_bool (fo_packed_shared_files_table opts))]
     @ opt_fields 32 (map_option unat (fo_subsecond_resolution_nsec_multiplier opts))
     @ [(1, of_bool (fo_has_btime opts)), (1, of_bool (fo_inodes_have_nlink opts))]"
| "slot_head p (STable present c) =
     [(1, of_bool present), (32, p), (32, length (cp_buffer c)), (1, of_bool (cp_symtab c \<noteq> None)),
      (32, p + length (cp_buffer c)), (32, length (symtab_bytes c)),
      (32, p + length (cp_buffer c) + length (symtab_bytes c)), (32, length (cp_index c)),
      (1, of_bool (cp_packed c))]"

fun slot_width :: "slot \<Rightarrow> nat" where
  "slot_width (SInt w v) = w"
| "slot_width (SOptInt w v) = 1 + w"
| "slot_width (SList opt a) = (if opt then 65 else 64)"
| "slot_width (SOptions opts) = 73"
| "slot_width (STable present c) = 195"

fun slot_data :: "slot \<Rightarrow> bytes" where
  "slot_data (SList opt a) = array_data a"
| "slot_data (STable present c) = cp_buffer c @ symtab_bytes c @ index_data c"
| "slot_data s = []"

lemma bits_of_opt_fields [simp]: "bits_of (opt_fields w v) = Suc w"
  by (simp add: opt_fields_def split: option.split)

lemma bits_of_slot_head [simp]: "bits_of (slot_head p s) = slot_width s"
  by (cases s) auto

subsection \<open>The blob and its schema\<close>

type_synonym slots = "(int \<times> slot) list"

fun slot_heads :: "nat \<Rightarrow> slots \<Rightarrow> bit_field list" where
  "slot_heads p [] = []"
| "slot_heads p ((fid, s) # ss) = slot_head p s @ slot_heads (p + length (slot_data s)) ss"

definition root_bits :: "slots \<Rightarrow> nat" where
  "root_bits ss = sum_list (map (slot_width \<circ> snd) ss)"

definition slots_data :: "slots \<Rightarrow> bytes" where
  "slots_data ss = concat (map (slot_data \<circ> snd) ss)"

definition write_blob :: "slots \<Rightarrow> bytes" where
  "write_blob ss = pack_bytes (slot_heads (bytes_for (root_bits ss)) ss) @ slots_data ss"

definition root_layout_of :: "slots \<Rightarrow> layout" where
  "root_layout_of ss = struct_layout 0 (map (\<lambda>(fid, s). (fid, slot_id fid s, slot_width s)) ss)"

definition write_schema :: "slots \<Rightarrow> schema" where
  "write_schema ss =
     \<lparr>sc_file_version = 1, sc_relax_type_checks = True,
      sc_layouts = map (\<lambda>w. (int w, int_layout w)) [0..<65]
        @ concat (map (\<lambda>(fid, s). slot_layouts fid s) ss) @ [(root_id, root_layout_of ss)],
      sc_root_layout = root_id\<rparr>"

text \<open>What can be written.\<close>

fun array_fits :: "array \<Rightarrow> bool" where
  "array_fits (Ints w vs) = (w \<le> 64 \<and> (\<forall>v \<in> set vs. v < 2 ^ w) \<and> length vs \<le> DEFAULT_LIST_CAP)"
| "array_fits (Rows cols rows) =
     (i16_map cols \<and> length cols \<le> 20 \<and> list_all (\<lambda>w. w \<le> 64) (map snd cols)
      \<and> list_all (\<lambda>row. list_all2 (\<lambda>(fid, w) v. v < 2 ^ w) cols row) rows
      \<and> length rows \<le> DEFAULT_LIST_CAP)"
| "array_fits (Strs ss) = (length ss \<le> DEFAULT_LIST_CAP)"

fun slot_fits :: "slot \<Rightarrow> bool" where
  "slot_fits (SInt w v) = (w \<le> 64 \<and> v < 2 ^ w)"
| "slot_fits (SOptInt w v) = (w \<le> 64 \<and> (\<forall>x. v = Some x \<longrightarrow> x < 2 ^ w))"
| "slot_fits (SList opt a) = array_fits a"
| "slot_fits (SOptions opts) = True"
| "slot_fits (STable present c) = (length (cp_index c) \<le> DEFAULT_LIST_CAP)"

definition slots_fit :: "slots \<Rightarrow> bool" where
  "slots_fit ss \<longleftrightarrow> sorted_wrt (<) (map fst ss) \<and> (\<forall>(fid, s) \<in> set ss. 0 < fid \<and> fid < 100 \<and> slot_fits s)
     \<and> length (write_blob ss) < 2 ^ 32"

subsection \<open>What is stored where\<close>

definition stored :: "metadata \<Rightarrow> int \<Rightarrow> slot \<Rightarrow> nat \<Rightarrow> nat \<Rightarrow> bool" where
  "stored m fid s b p \<longleftrightarrow>
     md_field m fid = Some \<lparr>fv_field = field_at (slot_id fid s) b, fv_pos = \<lparr>pos_byte = 0, pos_bit = b\<rparr>\<rparr>
     \<and> b < 2 ^ 15 \<and> p < 2 ^ 32 \<and> slot_fits s
     \<and> holds (fz_buf (md_frozen m)) b (slot_head p s)
     \<and> (\<exists>pre post. fz_buf (md_frozen m) = pre @ slot_data s @ post \<and> length pre = p)
     \<and> length (fz_buf (md_frozen m)) < 2 ^ 32
     \<and> (\<forall>(lid, l) \<in> set (slot_layouts fid s). md_layout m lid = Inr l)
     \<and> (\<forall>w \<le> 64. md_layout m (int w) = Inr (int_layout w))"

lemma md_schema_layout: "md_layout m lid = Inr l \<Longrightarrow> schema_layout (md_schema m) lid = Inr l"
  by (simp add: md_layout_def)

text \<open>Positions stay far below 64 bits, so nothing wraps or saturates.\<close>

definition near :: "pos \<Rightarrow> bool" where
  "near p \<longleftrightarrow> pos_byte p < 2 ^ 33 \<and> pos_bit p < 2 ^ 50"

lemma child_near:
  "near p \<Longrightarrow> b < 2 ^ 20 \<Longrightarrow> child p (field_at lid b) = \<lparr>pos_byte = pos_byte p, pos_bit = pos_bit p + b\<rparr>"
  by (cases p) (auto simp: child_def field_at_def near_def wrapping_add64_def)

lemma absolute_near: "near p \<Longrightarrow> absolute_bit p = 8 * pos_byte p + pos_bit p"
  by (subst absolute_bit_exact) (auto simp: near_def)

subsection \<open>The writer is right\<close>

lemma place_fields_append:
  "place_fields b (xs @ ys) = place_fields b xs @ place_fields (b + sum_list (map (snd \<circ> snd) xs)) ys"
  by (induction b xs rule: place_fields.induct) (auto simp: add.assoc)

lemma map_fst_place_fields [simp]: "map fst (place_fields b cs) = map fst cs"
  by (induction b cs rule: place_fields.induct) auto

lemma bits_of_slot_heads [simp]: "bits_of (slot_heads p ss) = root_bits ss"
  by (induction p ss rule: slot_heads.induct) (auto simp: root_bits_def)

lemma slot_heads_append:
  "slot_heads p (xs @ ys) = slot_heads p xs @ slot_heads (p + length (slots_data xs)) ys"
  by (induction p xs rule: slot_heads.induct) (auto simp: slots_data_def add.assoc)

lemma fields_fit_bool [simp]: "fields_fit ((Suc 0, of_bool c) # fs) \<longleftrightarrow> fields_fit fs"
  by simp

lemma fields_fit_opt: "w \<le> 64 \<Longrightarrow> (\<forall>x. v = Some x \<longrightarrow> x < 2 ^ w) \<Longrightarrow> fields_fit (opt_fields w v)"
  by (auto simp: opt_fields_def split: option.split)

lemma index_width_le: "index_width c \<le> 64"
proof -
  have "index_width c \<le> 32"
    unfolding index_width_def by (rule column_width_le) (use unat_u32_less in auto)
  then show ?thesis by simp
qed

lemma slot_head_fits:
  assumes "slot_fits s" "p + length (slot_data s) < 2 ^ 32"
  shows "fields_fit (slot_head p s)"
proof (cases s)
  case (SOptInt w v)
  with assms show ?thesis by (simp add: fields_fit_opt)
next
  case (SList opt a)
  have "array_count a < 2 ^ 32"
    using assms(1) SList by (cases a) (auto simp: DEFAULT_LIST_CAP_def)
  with SList assms(2) show ?thesis by simp
next
  case (SOptions opts)
  have "fields_fit (opt_fields 32 (map_option unat (x :: u32 option)))" for x
    using unat_u32_less by (intro fields_fit_opt) auto
  with SOptions show ?thesis by (auto simp: of_bool_def)
next
  case (STable present c)
  with assms show ?thesis by (simp add: DEFAULT_LIST_CAP_def)
qed (use assms in auto)

lemma slot_heads_fit:
  "(\<And>fid s. (fid, s) \<in> set ss \<Longrightarrow> slot_fits s) \<Longrightarrow> p + length (slots_data ss) < 2 ^ 32 \<Longrightarrow>
     fields_fit (slot_heads p ss)"
proof (induction p ss rule: slot_heads.induct)
  case (2 p fid s ss)
  then have "fields_fit (slot_head p s)" by (intro slot_head_fits) (auto simp: slots_data_def)
  moreover have "fields_fit (slot_heads (p + length (slot_data s)) ss)"
    using 2 by (auto simp: slots_data_def add.assoc)
  ultimately show ?case by simp
qed simp

lemma slot_width_le: "slot_fits s \<Longrightarrow> slot_width s \<le> 195"
  by (cases s) auto

lemma slots_count:
  assumes "slots_fit ss"
  shows "length ss \<le> 100"
proof -
  have "distinct (map fst ss)" using assms by (simp add: slots_fit_def strict_sorted_iff)
  moreover have "set (map fst ss) \<subseteq> {0..<100}" using assms by (auto simp: slots_fit_def)
  then have "card (set (map fst ss)) \<le> 100" using card_mono [of "{0..<100 :: int}"] by fastforce
  ultimately show ?thesis using distinct_card [of "map fst ss"] by simp
qed

lemma root_bits_less:
  assumes "slots_fit ss"
  shows "root_bits ss < 2 ^ 15"
proof -
  have "slot_width (snd x) \<le> 195" if "x \<in> set ss" for x
    using assms that by (intro slot_width_le) (auto simp: slots_fit_def)
  then have "root_bits ss \<le> length ss * 195"
    using sum_list_mono [of ss "slot_width \<circ> snd" "\<lambda>_. 195"] by (simp add: root_bits_def sum_list_triv comp_def)
  with slots_count [OF assms] show ?thesis by simp
qed

lemma slot_layout_ids:
  assumes "lid \<in> fst ` set (slot_layouts fid s)"
  shows "100 * fid \<le> lid" "lid < 100 * fid + 100"
  using assms by (cases s; cases "case s of SList opt a \<Rightarrow> a"; auto simp: lay_id_def split: if_splits)+

lemma slot_layouts_sorted: "sorted_wrt (<) (map fst (slot_layouts fid s))"
  by (cases s; cases "case s of SList opt a \<Rightarrow> a"; auto simp: lay_id_def)

lemma all_layouts_sorted:
  assumes "sorted_wrt (<) (map fst ss)"
  shows "sorted_wrt (<) (map fst (concat (map (\<lambda>(fid, s). slot_layouts fid s) ss)))"
  using assms
proof (induction ss)
  case (Cons x ss)
  obtain fid s where x: "x = (fid, s)" by (cases x)
  have "lid < lid'" if "lid \<in> fst ` set (slot_layouts fid s)" "(fid', s') \<in> set ss"
    "lid' \<in> fst ` set (slot_layouts fid' s')" for lid lid' fid' s'
  proof -
    have "fid < fid'" using Cons.prems that(2) x by force
    then have "100 * fid + 100 \<le> 100 * fid'" by simp
    with slot_layout_ids(2) [OF that(1)] slot_layout_ids(1) [OF that(3)] show ?thesis by linarith
  qed
  with Cons slot_layouts_sorted [of fid s] x show ?case
    by (force simp: sorted_wrt_append)
qed simp

lemma write_schema_sorted:
  assumes "sorted_wrt (<) (map fst ss)" "\<And>fid s. (fid, s) \<in> set ss \<Longrightarrow> 0 < fid \<and> fid < 100"
  shows "sorted_wrt (<) (map fst (sc_layouts (write_schema ss)))"
proof -
  let ?mid = "map fst (concat (map (\<lambda>(fid, s). slot_layouts fid s) ss))"
  have mid: "100 \<le> lid \<and> lid < root_id" if lid: "lid \<in> set ?mid" for lid
  proof -
    from lid obtain fid s where f: "(fid, s) \<in> set ss" "lid \<in> fst ` set (slot_layouts fid s)" by force
    with assms(2) [OF f(1)] slot_layout_ids [OF f(2)] show ?thesis by (simp add: root_id_def)
  qed
  have "sorted_wrt (<) (map int [0..<65])" by (simp add: sorted_wrt_map)
  with all_layouts_sorted [OF assms(1)] mid show ?thesis
    by (fastforce simp: write_schema_def sorted_wrt_append root_id_def comp_def)
qed

lemma write_schema_map_of:
  assumes "slots_fit ss" "(lid, l) \<in> set (sc_layouts (write_schema ss))"
  shows "map_of (sc_layouts (write_schema ss)) lid = Some l"
proof -
  have "sorted_wrt (<) (map fst (sc_layouts (write_schema ss)))"
    using assms(1) by (intro write_schema_sorted) (auto simp: slots_fit_def)
  then have "distinct (map fst (sc_layouts (write_schema ss)))" by (simp add: strict_sorted_iff)
  with assms(2) show ?thesis by simp
qed

lemma write_schema_lookup:
  "slots_fit ss \<Longrightarrow> (lid, l) \<in> set (sc_layouts (write_schema ss)) \<Longrightarrow>
     schema_layout (write_schema ss) lid = Inr l"
  by (simp only: schema_layout_def write_schema_map_of ok_or_Some)

lemma write_schema_layouts:
  "w \<le> 64 \<Longrightarrow> (int w, int_layout w) \<in> set (sc_layouts (write_schema ss))"
  "(fid, s) \<in> set ss \<Longrightarrow> set (slot_layouts fid s) \<subseteq> set (sc_layouts (write_schema ss))"
  "(root_id, root_layout_of ss) \<in> set (sc_layouts (write_schema ss))"
  by (auto simp: write_schema_def)

lemma root_field_ids [simp]:
  "map fst (map (\<lambda>(fid, s). (fid, slot_id fid s, slot_width s)) ss) = map fst ss"
  by (induction ss) auto

lemma root_fields_none:
  "fid \<notin> set (map fst ss) \<Longrightarrow>
     map_of (place_fields b (map (\<lambda>(fid, s). (fid, slot_id fid s, slot_width s)) ss)) fid = None"
  unfolding map_of_eq_None_iff set_map [symmetric] map_fst_place_fields root_field_ids .

definition written_metadata :: "slots \<Rightarrow> metadata" where
  "written_metadata ss =
     \<lparr>md_frozen = \<lparr>fz_schema = write_schema ss, fz_buf = write_blob ss\<rparr>,
      md_root_layout = root_layout_of ss\<rparr>"

lemma written_metadata_parse:
  "slots_fit ss \<Longrightarrow> metadata_parse (write_schema ss) (write_blob ss) = Inr (written_metadata ss)"
  using write_schema_map_of [OF _ write_schema_layouts(3)]
  by (simp add: metadata_parse_def schema_root_def written_metadata_def)
    (simp add: write_schema_def)

lemma root_field_written:
  assumes "slots_fit ss" "ss = xs @ (fid, s) # ys"
  shows "layout_field (root_layout_of ss) fid = Some (field_at (slot_id fid s) (root_bits xs))"
proof -
  have "distinct (map fst ss)" using assms(1) by (simp add: slots_fit_def strict_sorted_iff)
  then have "map_of (place_fields 0 (map (\<lambda>(fid, s). (fid, slot_id fid s, slot_width s)) xs)) fid = None"
    by (intro root_fields_none) (simp add: assms(2))
  then show ?thesis
    by (simp add: layout_field_def root_layout_of_def struct_layout_def assms(2) place_fields_append
      root_bits_def comp_def case_prod_beta' map_add_def)
qed

lemma root_field_absent:
  "fid \<notin> fst ` set ss \<Longrightarrow> md_field (written_metadata ss) fid = None"
  using root_fields_none [of fid ss]
  by (simp add: md_field_def frozen_field_def layout_field_def root_layout_of_def struct_layout_def
    written_metadata_def)

lemma written_slots_stored:
  assumes "slots_fit ss" "(fid, s) \<in> set ss"
  shows "\<exists>b p. stored (written_metadata ss) fid s b p"
proof -
  from assms(2) obtain xs ys where ss: "ss = xs @ (fid, s) # ys" by (auto dest: split_list)
  let ?n = "bytes_for (root_bits ss)"
  let ?p = "?n + length (slots_data xs)"
  have fits: "\<And>fid s. (fid, s) \<in> set ss \<Longrightarrow> slot_fits s" using assms(1) by (auto simp: slots_fit_def)
  have len: "length (write_blob ss) < 2 ^ 32" using assms(1) by (simp add: slots_fit_def)
  then have data: "?n + length (slots_data ss) < 2 ^ 32" by (simp add: write_blob_def)
  have split: "slots_data ss = slots_data xs @ slot_data s @ slots_data ys"
    by (simp add: ss slots_data_def)
  have "holds ([] @ pack_bytes (slot_heads ?n ss) @ slots_data ss) (8 * length ([] :: bytes)) (slot_heads ?n ss)"
    using slot_heads_fit [OF fits data] data by (intro packed_fields_held) simp_all
  then have "holds (write_blob ss) 0 (slot_heads ?n ss)" by (simp add: write_blob_def)
  then have head: "holds (write_blob ss) (root_bits xs) (slot_head ?p s)"
    by (simp add: ss slot_heads_append)
  have b: "root_bits xs < 2 ^ 15"
    using root_bits_less [OF assms(1)] by (simp add: ss root_bits_def)
  have "md_field (written_metadata ss) fid = Some \<lparr>fv_field = field_at (slot_id fid s) (root_bits xs),
      fv_pos = \<lparr>pos_byte = 0, pos_bit = root_bits xs\<rparr>\<rparr>"
    using b child_near [of pos_root "root_bits xs" "slot_id fid s"]
    by (simp add: md_field_def frozen_field_def written_metadata_def root_field_written [OF assms(1) ss]
      near_def pos_root_def)
  moreover have "\<exists>pre post. write_blob ss = pre @ slot_data s @ post \<and> length pre = ?p"
    by (intro exI [of _ "pack_bytes (slot_heads ?n ss) @ slots_data xs"] exI [of _ "slots_data ys"])
      (simp add: write_blob_def split)
  moreover have "md_layout (written_metadata ss) lid = Inr l"
    if "(lid, l) \<in> set (slot_layouts fid s)" for lid l
    using write_schema_lookup [OF assms(1)] write_schema_layouts(2) [OF assms(2)] that
    by (auto simp: md_layout_def md_schema_def written_metadata_def)
  moreover have "md_layout (written_metadata ss) (int w) = Inr (int_layout w)" if "w \<le> 64" for w
    using write_schema_lookup [OF assms(1) write_schema_layouts(1) [OF that]]
    by (simp add: md_layout_def md_schema_def written_metadata_def)
  ultimately show ?thesis
    using head b data len fits [OF assms(2)] split unfolding stored_def
    by (intro exI [of _ "root_bits xs"] exI [of _ ?p]) (auto simp: written_metadata_def)
qed

end
