(* ===== verification/Frozen_Reader.thy ===== *)
theory Frozen_Reader
  imports Frozen_Writer
begin

text \<open>
  What the accessors of \<open>Model\<close> return on a blob of the writer: one lemma per kind of slot, for any
  field id, any bit the head starts at and any byte the data starts at.
\<close>

lemmas layout_lookup = layout_field_def struct_layout_def place_fields.simps

lemma layout_field_optional [simp]:
  "layout_field (optional_layout lid w) 1 = Some (field_at 1 0)"
  "layout_field (optional_layout lid w) 2 = Some (field_at lid 1)"
  "layout_field (optional_layout lid w) 3 = None"
  "ly_fields (optional_layout lid w) \<noteq> []"
  by (simp_all add: optional_layout_def layout_lookup)

lemma layout_field_range [simp]:
  "layout_field (range_layout item) 1 = Some (field_at 32 0)"
  "layout_field (range_layout item) 2 = Some (field_at 32 32)"
  "layout_field (range_layout item) 3 = Some (field_at item 64)"
  "ly_fields (range_layout item) \<noteq> []"
  by (simp_all add: range_layout_def layout_lookup)

lemma layout_field_string [simp]:
  "layout_field string_layout 1 = Some (field_at 32 0)"
  "layout_field string_layout 2 = Some (field_at 32 32)"
  "layout_field string_layout 3 = None"
  "ly_size string_layout = 8"
  by (simp_all add: string_layout_def layout_lookup)

lemma field_at_id [simp]: "fl_layout_id (field_at lid b) = lid"
  by (simp add: field_at_def)

lemma int_layout_simps [simp]: "ly_bits (int_layout w) = w" "ly_fields (int_layout w) = []"
  by (simp_all add: int_layout_def)

definition has_ints :: "metadata \<Rightarrow> bool" where
  "has_ints m \<longleftrightarrow> (\<forall>w \<le> 64. md_layout m (int w) = Inr (int_layout w))"

lemma has_ints_layout:
  assumes "has_ints m" "w \<le> 64"
  shows "md_layout m (int w) = Inr (int_layout w)" "schema_layout (md_schema m) (int w) = Inr (int_layout w)"
    "schema_layout (fz_schema (md_frozen m)) (int w) = Inr (int_layout w)"
  using assms by (simp_all add: has_ints_def md_layout_def md_schema_def)

lemma has_ints_1_32:
  assumes "has_ints m"
  shows "md_layout m 1 = Inr (int_layout 1)" "schema_layout (md_schema m) 1 = Inr (int_layout 1)"
    "md_layout m 32 = Inr (int_layout 32)" "schema_layout (md_schema m) 32 = Inr (int_layout 32)"
    "schema_layout (fz_schema (md_frozen m)) 32 = Inr (int_layout 32)"
  using has_ints_layout [OF assms, of 1] has_ints_layout [OF assms, of 32] by simp_all

lemma kind_of_optional:
  "has_ints m \<Longrightarrow> layout_kind_of (optional_layout lid w) (md_schema m) = Inr (KOptional (Some lid))"
  by (simp add: layout_kind_of_def has_ints_1_32)

lemma kind_of_range:
  "has_ints m \<Longrightarrow> layout_kind_of (range_layout item) (md_schema m) = Inr (KArray item)"
  by (simp add: layout_kind_of_def has_ints_1_32 Let_def)

lemma optional_read:
  assumes "near p" "holds (fz_buf fz) (8 * pos_byte p + pos_bit p) ((1, x) # fs)"
  shows "read_optional fz p (optional_layout lid w)
    = Inr \<lparr>ov_present = (x \<noteq> 0), ov_value_pos = \<lparr>pos_byte = pos_byte p, pos_bit = pos_bit p + 1\<rparr>,
           ov_value_layout_id = Some lid\<rparr>"
  using assms by (cases p) (simp add: read_optional_def child_near absolute_near read_bool_def)

lemma range_part_read:
  assumes "schema_layout (fz_schema fz) 32 = Inr (int_layout 32)" "near p" "b < 2 ^ 20"
    "layout_field l fid = Some (field_at 32 b)"
    "read_u64 (fz_buf fz) (8 * pos_byte p + pos_bit p + b) 32 = Inr v" "pos_bit p < 2 ^ 49"
  shows "range_part fz p l fid = Inr v"
proof -
  have "near \<lparr>pos_byte = pos_byte p, pos_bit = pos_bit p + b\<rparr>" using assms(2,3,6) by (simp add: near_def)
  with assms show ?thesis by (simp add: range_part_def child_near absolute_near add.assoc)
qed

lemma range_read:
  assumes "schema_layout (fz_schema fz) 32 = Inr (int_layout 32)" "near p" "pos_bit p < 2 ^ 49"
    "layout_field l 1 = Some (field_at 32 0)" "layout_field l 2 = Some (field_at 32 32)"
    "holds (fz_buf fz) (8 * pos_byte p + pos_bit p) [(32, d), (32, n)]" "d < 2 ^ 33"
  shows "frozen_read_range fz p l
    = Inr \<lparr>rv_data_byte = pos_byte p + (if n = 0 then 0 else d), rv_count = n,
           rv_item_layout_id = map_option fl_layout_id (layout_field l 3)\<rparr>"
proof -
  have "range_part fz p l 2 = Inr n" "range_part fz p l 1 = Inr d"
    using assms range_part_read [where b = 32 and l = l and fid = 2 and v = n, OF assms(1,2)]
      range_part_read [where b = 0 and l = l and fid = 1 and v = d, OF assms(1,2)] by simp_all
  with assms(2,7) show ?thesis
    by (simp add: frozen_read_range_def checked_add64_def near_def)
qed

subsection \<open>Integers\<close>

lemma storedD:
  assumes "stored m fid s b p"
  shows "md_field m fid = Some \<lparr>fv_field = field_at (slot_id fid s) b, fv_pos = \<lparr>pos_byte = 0, pos_bit = b\<rparr>\<rparr>"
    and "has_ints m" "near \<lparr>pos_byte = 0, pos_bit = b\<rparr>" "near \<lparr>pos_byte = 0, pos_bit = Suc b\<rparr>"
    and "holds (fz_buf (md_frozen m)) b (slot_head p s)" "slot_fits s" "b < 2 ^ 15" "p < 2 ^ 32"
    and "\<And>lid l. (lid, l) \<in> set (slot_layouts fid s) \<Longrightarrow> md_layout m lid = Inr l"
  using assms by (auto simp: stored_def has_ints_def near_def)

lemma stored_data:
  assumes "stored m fid s b p"
  obtains pre post where "fz_buf (md_frozen m) = pre @ slot_data s @ post" "length pre = p"
    "length (fz_buf (md_frozen m)) < 2 ^ 32"
  using assms unfolding stored_def by blast

lemma stored_int:
  assumes "stored m fid (SInt w v) b p"
  shows "read_int m fid = Inr v"
  using storedD [OF assms] has_ints_layout(1) [OF storedD(2) [OF assms], of w]
  by (simp add: read_int_def read_integral_def absolute_near)

lemma stored_optional:
  assumes "stored m fid (SOptInt w v) b p"
  shows "md_layout m (lay_id fid 0) = Inr (optional_layout (int w) w)"
    and "read_optional (md_frozen m) \<lparr>pos_byte = 0, pos_bit = b\<rparr> (optional_layout (int w) w)
      = Inr \<lparr>ov_present = (v \<noteq> None), ov_value_pos = \<lparr>pos_byte = 0, pos_bit = b + 1\<rparr>,
             ov_value_layout_id = Some (int w)\<rparr>"
    and "md_layout m (int w) = Inr (int_layout w)"
    and "v = Some x \<Longrightarrow> read_integral (md_frozen m) \<lparr>pos_byte = 0, pos_bit = b + 1\<rparr> w = Inr x"
proof -
  note s = storedD [OF assms]
  show "md_layout m (lay_id fid 0) = Inr (optional_layout (int w) w)" using s(9) by simp
  show "read_optional (md_frozen m) \<lparr>pos_byte = 0, pos_bit = b\<rparr> (optional_layout (int w) w)
      = Inr \<lparr>ov_present = (v \<noteq> None), ov_value_pos = \<lparr>pos_byte = 0, pos_bit = b + 1\<rparr>,
             ov_value_layout_id = Some (int w)\<rparr>"
    using optional_read [OF s(3), of "md_frozen m" 0 "[(w, 0)]" "int w" w]
      optional_read [OF s(3), of "md_frozen m" 1 "[(w, the v)]" "int w" w] s(5)
    by (cases v) (simp_all add: opt_fields_def)
  show "md_layout m (int w) = Inr (int_layout w)" using has_ints_layout [OF s(2)] s(6) by simp
  show "read_integral (md_frozen m) \<lparr>pos_byte = 0, pos_bit = b + 1\<rparr> w = Inr x" if "v = Some x"
    using s(4,5) that by (simp add: opt_fields_def read_integral_def absolute_near)
qed

lemma stored_optional_int:
  assumes "stored m fid (SOptInt w v) b p"
  shows "read_optional_int m fid = Inr v"
  using stored_optional [OF assms] storedD(1) [OF assms]
  by (cases v) (simp_all add: read_optional_int_def)

lemma stored_separator:
  assumes "stored m ID_PREFERRED_PATH_SEPARATOR (SOptInt w (map_option unat v)) b p"
  shows "preferred_path_separator m = Inr v"
  using stored_optional [OF assms] storedD(1) [OF assms]
  by (cases v) (simp_all add: preferred_path_separator_def)

lemma stored_hole_block:
  assumes "stored m ID_HOLE_BLOCK_INDEX (SOptInt w (map_option unat v)) b p"
  shows "hole_block_index m = Inr v"
  using stored_optional_int [OF assms] by (cases v) (simp_all add: hole_block_index_def)

subsection \<open>Arrays\<close>

lemma stored_unwrap:
  assumes "stored m fid (SList opt a) b p"
  shows "unwrap_optional m \<lparr>fv_field = field_at (slot_id fid (SList opt a)) b, fv_pos = \<lparr>pos_byte = 0, pos_bit = b\<rparr>\<rparr>
      = Inr (Some (range_layout (array_item fid a), \<lparr>pos_byte = 0, pos_bit = (if opt then b + 1 else b)\<rparr>))"
    and "resolve_list m fid
      = Inr (Some (range_layout (array_item fid a), \<lparr>pos_byte = 0, pos_bit = (if opt then b + 1 else b)\<rparr>))"
proof -
  note s = storedD [OF assms]
  have l: "md_layout m (lay_id fid 1) = Inr (range_layout (array_item fid a))"
    "opt \<Longrightarrow> md_layout m (lay_id fid 0) = Inr (optional_layout (lay_id fid 1) 64)" using s(9) by auto
  show "unwrap_optional m \<lparr>fv_field = field_at (slot_id fid (SList opt a)) b, fv_pos = \<lparr>pos_byte = 0, pos_bit = b\<rparr>\<rparr>
      = Inr (Some (range_layout (array_item fid a), \<lparr>pos_byte = 0, pos_bit = (if opt then b + 1 else b)\<rparr>))"
  proof (cases opt)
    case True
    then have "read_optional (md_frozen m) \<lparr>pos_byte = 0, pos_bit = b\<rparr> (optional_layout (lay_id fid 1) 64)
      = Inr \<lparr>ov_present = True, ov_value_pos = \<lparr>pos_byte = 0, pos_bit = b + 1\<rparr>,
             ov_value_layout_id = Some (lay_id fid 1)\<rparr>"
      using optional_read [OF s(3), of "md_frozen m" 1 "[(32, p), (32, array_count a)]"] s(5) by simp
    with True l s(2) show ?thesis by (simp add: unwrap_optional_def kind_of_optional)
  next
    case False
    with l s(2) show ?thesis by (simp add: unwrap_optional_def kind_of_range)
  qed
  then show "resolve_list m fid
      = Inr (Some (range_layout (array_item fid a), \<lparr>pos_byte = 0, pos_bit = (if opt then b + 1 else b)\<rparr>))"
    using s(1) by (simp add: resolve_list_def)
qed

definition array_range :: "int \<Rightarrow> array \<Rightarrow> nat \<Rightarrow> range_view" where
  "array_range fid a p =
     \<lparr>rv_data_byte = (if array_count a = 0 then 0 else p), rv_count = array_count a,
      rv_item_layout_id = Some (array_item fid a)\<rparr>"

lemma array_range_simps [simp]:
  "rv_count (array_range fid a p) = array_count a"
  "rv_item_layout_id (array_range fid a p) = Some (array_item fid a)"
  by (simp_all add: array_range_def)

lemma stored_range:
  assumes "stored m fid (SList opt a) b p"
  shows "frozen_read_range (md_frozen m) \<lparr>pos_byte = 0, pos_bit = (if opt then b + 1 else b)\<rparr>
      (range_layout (array_item fid a)) = Inr (array_range fid a p)"
    and "layout_kind_of (range_layout (array_item fid a)) (md_schema m) = Inr (KArray (array_item fid a))"
    and "array_count a \<le> DEFAULT_LIST_CAP"
proof -
  note s = storedD [OF assms]
  have "holds (fz_buf (md_frozen m)) (if opt then b + 1 else b) [(32, p), (32, array_count a)]"
    using s(5) by (cases opt) simp_all
  with s(3,4,7,8) range_read [OF has_ints_1_32(5) [OF s(2)], of "\<lparr>pos_byte = 0, pos_bit = (if opt then b + 1 else b)\<rparr>"
      "range_layout (array_item fid a)" p "array_count a"]
  show "frozen_read_range (md_frozen m) \<lparr>pos_byte = 0, pos_bit = (if opt then b + 1 else b)\<rparr>
      (range_layout (array_item fid a)) = Inr (array_range fid a p)"
    by (simp add: array_range_def)
  show "layout_kind_of (range_layout (array_item fid a)) (md_schema m) = Inr (KArray (array_item fid a))"
    by (rule kind_of_range [OF s(2)])
  show "array_count a \<le> DEFAULT_LIST_CAP" using s(6) by (cases a) auto
qed

text \<open>The packed elements of an array, at the place the reader looks for them.\<close>

lemma stored_packed:
  assumes "stored m fid (SList opt a) b p" "array_data a = pack_bytes (concat fss) @ rest"
    "fields_fit (concat fss)" "\<And>fs. fs \<in> set fss \<Longrightarrow> bits_of fs = n" "i < length fss"
  shows "holds (fz_buf (md_frozen m)) (8 * p + i * n) (fss ! i)"
proof -
  obtain pre post where buf: "fz_buf (md_frozen m) = pre @ array_data a @ post" "length pre = p"
    "length (fz_buf (md_frozen m)) < 2 ^ 32"
    by (rule stored_data [OF assms(1)]) simp
  then have "holds (fz_buf (md_frozen m)) (8 * p) (concat fss)"
    using packed_fields_held [OF assms(3), of pre "rest @ post"] assms(2) by simp
  from holds_nth [OF this assms(4,5)] show ?thesis .
qed

lemma element_bits:
  assumes "schema_layout (fz_schema fz) (array_item fid a) = Inr l" "ly_size l = 0"
    "i < array_count a" "i * ly_bits l < 2 ^ 49"
  shows "element_pos fz (array_range fid a p) i = Inr \<lparr>pos_byte = p, pos_bit = i * ly_bits l\<rparr>"
  using assms by (simp add: element_pos_def array_range_def checked_mul64_def)

lemma element_bits_bound:
  assumes "i < n" "n \<le> DEFAULT_LIST_CAP" "w \<le> 2 ^ 20"
  shows "i * w < 2 ^ 49"
proof -
  have "i \<le> 2 ^ 26" using assms(1,2) by (simp add: DEFAULT_LIST_CAP_def)
  then have "i * w \<le> 2 ^ 26 * 2 ^ 20" using assms(3) by (rule mult_le_mono)
  then show ?thesis by simp
qed

lemma packed_ints_read:
  assumes "has_ints m" "w \<le> 64" "\<forall>v \<in> set vs. v < 2 ^ w" "length vs \<le> DEFAULT_LIST_CAP"
    and "fz_buf (md_frozen m) = pre @ pack_bytes (map (Pair w) vs) @ post" "length pre = d"
    and "length (fz_buf (md_frozen m)) < 2 ^ 32"
    and "rv_item_layout_id rng = Some (int w)" "rv_count rng = length vs" "vs \<noteq> [] \<longrightarrow> rv_data_byte rng = d"
  shows "range_ints m rng w = Inr vs"
proof -
  have d: "d < 2 ^ 32" using assms(5-7) by simp
  have fit: "fields_fit (map (Pair w) vs)" using assms(2,3) by (auto simp: fields_fit_def)
  have "length (pre @ pack_bytes (map (Pair w) vs) @ post) < 2 ^ 61" using assms(5,7) by simp
  from packed_fields_held [OF fit this] assms(5,6)
  have held: "holds (fz_buf (md_frozen m)) (8 * d) (concat (map (\<lambda>v. [(w, v)]) vs))" by simp
  have cell: "and_then (element_pos (md_frozen m) rng i) (\<lambda>p. read_integral (md_frozen m) p w) = Inr (vs ! i)"
    if i: "i < length vs" for i
  proof -
    note bound = element_bits_bound [OF i assms(4), of w]
    have "holds (fz_buf (md_frozen m)) (8 * d + i * w) (map (\<lambda>v. [(w, v)]) vs ! i)"
      using i by (intro holds_nth [OF held]) auto
    moreover have "element_pos (md_frozen m) rng i = Inr \<lparr>pos_byte = d, pos_bit = i * w\<rparr>"
      using assms(8-10) has_ints_layout(3) [OF assms(1,2)] i bound assms(2)
      by (auto simp: element_pos_def checked_mul64_def int_layout_def)
    moreover have "near \<lparr>pos_byte = d, pos_bit = i * w\<rparr>" using bound assms(2) d by (simp add: near_def)
    ultimately show ?thesis using i by (simp add: read_integral_def absolute_near)
  qed
  have "try_map (\<lambda>i. and_then (element_pos (md_frozen m) rng i) (\<lambda>p. read_integral (md_frozen m) p w))
      [0..<length vs] = Inr vs"
    by (simp add: try_map_Inr cell)
  moreover have "replicate (length vs) 0 = vs" if "w = 0"
    using assms(3) that by (intro replicate_eqI [symmetric]) auto
  ultimately show ?thesis using assms(9) by (simp add: range_ints_def)
qed

lemma stored_int_list:
  assumes "stored m fid (SList opt (Ints w vs)) b p"
  shows "read_int_list m fid DEFAULT_LIST_CAP = Inr vs"
proof -
  note s = storedD [OF assms]
  have w: "w \<le> 64" "\<forall>v \<in> set vs. v < 2 ^ w" "length vs \<le> DEFAULT_LIST_CAP" using s(6) by auto
  obtain pre post where "fz_buf (md_frozen m) = pre @ pack_bytes (map (Pair w) vs) @ post" "length pre = p"
    "length (fz_buf (md_frozen m)) < 2 ^ 32"
    by (rule stored_data [OF assms]) simp
  from packed_ints_read [OF s(2) w this, of "array_range fid (Ints w vs) p"]
  have "range_ints m (array_range fid (Ints w vs) p) w = Inr vs" by (simp add: array_range_def)
  then show ?thesis
    using stored_range [OF assms] stored_unwrap(2) [OF assms] has_ints_layout(1) [OF s(2) w(1)]
    by (simp add: read_int_list_def check_cap_def)
qed

lemma stored_u32_list:
  assumes "stored m fid (SList opt (Ints w (map unat vs))) b p"
  shows "read_u32_list m fid = Inr vs"
  using stored_int_list [OF assms] by (simp add: read_u32_list_def try_map_Inr)

subsection \<open>Structs\<close>

definition packed_column :: "nat \<Rightarrow> nat \<Rightarrow> column" where
  "packed_column w b = \<lparr>cl_field = Some (field_at (int w) b), cl_bits = w\<rparr>"

lemma column_of_packed:
  "has_ints m \<Longrightarrow> layout_field l fid = Some (field_at (int w) b) \<Longrightarrow> w \<le> 64 \<Longrightarrow>
     column_of m l fid = Inr (packed_column w b)"
  by (simp add: column_of_def packed_column_def has_ints_layout)

lemma read_column_packed:
  assumes "pos_byte p < 2 ^ 33" "pos_bit p < 2 ^ 49" "b < 2 ^ 20"
    "read_u64 (fz_buf (md_frozen m)) (8 * pos_byte p + pos_bit p + b) w = Inr v"
  shows "read_column m p (packed_column w b) = Inr v"
proof -
  have "near p" "near \<lparr>pos_byte = pos_byte p, pos_bit = pos_bit p + b\<rparr>" using assms(1-3) by (simp_all add: near_def)
  with assms(3,4) show ?thesis
    by (simp add: read_column_def packed_column_def child_near absolute_near read_integral_def add.assoc)
qed

lemma read_column_u32_packed:
  assumes "pos_byte p < 2 ^ 33" "pos_bit p < 2 ^ 49" "b < 2 ^ 20"
    "read_u64 (fz_buf (md_frozen m)) (8 * pos_byte p + pos_bit p + b) w = Inr (unat x)"
  shows "read_column_u32 m p (packed_column w b) = Inr x"
  using read_column_packed [OF assms] by (simp add: read_column_u32_def)

lemma bits_of_row_fields: "length row = length cols \<Longrightarrow> bits_of (row_fields cols row) = sum_list (map snd cols)"
  by (simp add: bits_of_def row_fields_def)

lemma ly_bits_row_layout [simp]:
  "ly_bits (row_layout cols) = sum_list (map snd cols)" "ly_size (row_layout cols) = 0"
  by (simp_all add: row_layout_def struct_layout_def comp_def case_prod_beta')

lemma row_fields_fit:
  "list_all2 (\<lambda>(fid, w) v. v < 2 ^ w) cols row \<Longrightarrow> list_all (\<lambda>w. w \<le> 64) (map snd cols) \<Longrightarrow>
     fields_fit (row_fields cols row)"
  by (induction rule: list_all2_induct) (auto simp: row_fields_def)

lemma row_bits_bound:
  fixes cols :: "(int \<times> nat) list"
  assumes "list_all (\<lambda>w. w \<le> 64) (map snd cols)" "length cols \<le> 20"
  shows "sum_list (map snd cols) < 2 ^ 15"
proof -
  have "sum_list (map snd cols) \<le> length cols * 64"
    using sum_list_mono [of cols snd "\<lambda>_. 64"] assms(1) by (simp add: sum_list_triv list_all_iff)
  with assms(2) show ?thesis by simp
qed

lemma stored_row:
  assumes "stored m fid (SList opt (Rows cols rows)) b p" "i < length rows"
  defines "n \<equiv> sum_list (map snd cols)"
  shows "holds (fz_buf (md_frozen m)) (8 * p + i * n) (row_fields cols (rows ! i))"
    and "element_pos (md_frozen m) (array_range fid (Rows cols rows) p) i
      = Inr \<lparr>pos_byte = p, pos_bit = i * n\<rparr>"
    and "p < 2 ^ 33" "i * n < 2 ^ 49"
proof -
  note s = storedD [OF assms(1)]
  have fit: "list_all (\<lambda>w. w \<le> 64) (map snd cols)" "length cols \<le> 20"
    "list_all (\<lambda>row. list_all2 (\<lambda>(fid, w) v. v < 2 ^ w) cols row) rows" "length rows \<le> DEFAULT_LIST_CAP"
    using s(6) by auto
  have rows: "bits_of (row_fields cols row) = n" "fields_fit (row_fields cols row)" if "row \<in> set rows" for row
  proof -
    have row: "list_all2 (\<lambda>(fid, w) v. v < 2 ^ w) cols row" using that fit(3) by (auto simp: list_all_iff)
    from list_all2_lengthD [OF this] show "bits_of (row_fields cols row) = n"
      by (simp add: n_def bits_of_row_fields)
    show "fields_fit (row_fields cols row)" by (rule row_fields_fit [OF row fit(1)])
  qed
  show "holds (fz_buf (md_frozen m)) (8 * p + i * n) (row_fields cols (rows ! i))"
    using stored_packed [OF assms(1), of "map (row_fields cols) rows" "[]" n i] rows assms(2)
    by (auto simp: fields_fit_concat)
  show bound: "i * n < 2 ^ 49"
    using element_bits_bound [OF assms(2) fit(4), of n] row_bits_bound [OF fit(1,2)] by (simp add: n_def)
  have "md_layout m (lay_id fid 2) = Inr (row_layout cols)" using s(9) by simp
  then have l: "schema_layout (fz_schema (md_frozen m)) (lay_id fid 2) = Inr (row_layout cols)"
    by (simp add: md_layout_def md_schema_def)
  show "element_pos (md_frozen m) (array_range fid (Rows cols rows) p) i
      = Inr \<lparr>pos_byte = p, pos_bit = i * n\<rparr>"
    using element_bits [of "md_frozen m" fid "Rows cols rows" "row_layout cols" i p] l bound assms(2)
    by (simp add: n_def)
  show "p < 2 ^ 33" using s(8) by simp
qed

lemma stored_struct_list:
  assumes "stored m fid (SList opt (Rows cols rows)) b p" "prepare (row_layout cols) = Inr cs"
    "length xs = length rows"
    "\<And>i. i < length rows \<Longrightarrow> dec cs \<lparr>pos_byte = p, pos_bit = i * sum_list (map snd cols)\<rparr> = Inr (xs ! i)"
  shows "decode_struct_list m fid prepare dec = Inr xs"
proof -
  have "md_layout m (lay_id fid 2) = Inr (row_layout cols)" using storedD(9) [OF assms(1)] by simp
  then show ?thesis
    using stored_range [OF assms(1)] stored_unwrap(2) [OF assms(1)] stored_row(2) [OF assms(1)] assms(2-4)
    by (simp add: decode_struct_list_def check_cap_def try_map_Inr)
qed

definition chunk_row :: "chunk \<Rightarrow> nat list" where
  "chunk_row c = [unat (ck_block c), unat (ck_offset c), unat (ck_size c)]"

definition dir_entry_row :: "dir_entry \<Rightarrow> nat list" where
  "dir_entry_row e = [unat (de_name_index e), unat (de_inode_num e)]"

definition directory_row :: "directory \<Rightarrow> nat list" where
  "directory_row d = [unat (dr_parent_entry d), unat (dr_first_entry d), unat (dr_self_entry d)]"

definition inode_row :: "inode_data \<Rightarrow> nat list" where
  "inode_row i =
     [unat (in_mode_index i), unat (in_owner_index i), unat (in_group_index i), in_atime_offset i,
      in_mtime_offset i, in_ctime_offset i, in_btime_offset i, in_atime_subsec i, in_mtime_subsec i,
      in_ctime_subsec i, in_btime_subsec i, unat (in_nlink_minus_one i)]"

definition CHUNK_COLUMNS :: "int list" where "CHUNK_COLUMNS = [1, 2, 3]"
definition DIR_ENTRY_COLUMNS :: "int list" where "DIR_ENTRY_COLUMNS = [1, 2]"
definition DIRECTORY_COLUMNS :: "int list" where "DIRECTORY_COLUMNS = [1, 2, 3]"
definition INODE_COLUMNS :: "int list" where
  "INODE_COLUMNS = [2, 4, 5, 6, 7, 8, 9, 10, 11, 12, 13, 14]"

lemmas column_defs = CHUNK_COLUMNS_def DIR_ENTRY_COLUMNS_def DIRECTORY_COLUMNS_def INODE_COLUMNS_def

text \<open>The column \<open>k\<close> of a table, and the cell of row \<open>i\<close> in it.\<close>

definition column_at :: "nat list \<Rightarrow> nat \<Rightarrow> column" where
  "column_at ws k = packed_column (ws ! k) (sum_list (take k ws))"

lemma place_fields_lookup:
  "distinct ids \<Longrightarrow> length ws = length ids \<Longrightarrow> k < length ids \<Longrightarrow>
     map_of (place_fields b (map (\<lambda>(fid, w). (fid, int w, w)) (zip ids ws))) (ids ! k)
     = Some (field_at (int (ws ! k)) (b + sum_list (take k ws)))"
proof (induction ids arbitrary: ws b k)
  case (Cons fid ids)
  then obtain w ws' where ws: "ws = w # ws'" by (cases ws) auto
  show ?case
  proof (cases k)
    case (Suc j)
    with Cons.prems have "ids ! j \<noteq> fid" by auto
    with Cons.IH [of ws' j "b + w"] Cons.prems Suc ws show ?thesis by (simp add: add.assoc)
  qed (simp add: ws)
qed simp

lemma table_fits:
  assumes "stored m fid (SList opt (Rows (zip ids ws) rows)) b p" "length ws = length ids"
  shows "distinct ids" "length ids \<le> 20" "list_all (\<lambda>w. w \<le> 64) ws"
    and "row \<in> set rows \<Longrightarrow> length row = length ids"
proof -
  have fit: "i16_map (zip ids ws)" "length (zip ids ws) \<le> 20" "list_all (\<lambda>w. w \<le> 64) (map snd (zip ids ws))"
    "list_all (\<lambda>row. list_all2 (\<lambda>(fid, w) v. v < 2 ^ w) (zip ids ws) row) rows"
    using storedD(6) [OF assms(1)] by (simp_all only: slot_fits.simps array_fits.simps)
  show "distinct ids" using fit(1) assms(2) by (simp add: i16_map_def strict_sorted_iff)
  show "length ids \<le> 20" using fit(2) assms(2) by simp
  show "list_all (\<lambda>w. w \<le> 64) ws" using fit(3) assms(2) by simp
  show "length row = length ids" if row: "row \<in> set rows"
  proof -
    have "list_all2 (\<lambda>(fid, w) v. v < 2 ^ w) (zip ids ws) row" using fit(4) row by (auto simp: list_all_iff)
    from list_all2_lengthD [OF this] assms(2) show ?thesis by simp
  qed
qed

lemma stored_column:
  assumes "stored m fid (SList opt (Rows (zip ids ws) rows)) b p" "length ws = length ids" "k < length ids"
  shows "column_of m (row_layout (zip ids ws)) (ids ! k) = Inr (column_at ws k)"
proof -
  note t = table_fits [OF assms(1,2)]
  have "ws ! k \<le> 64" using t(3) assms(2,3) by (simp add: list_all_length)
  moreover have "layout_field (row_layout (zip ids ws)) (ids ! k)
      = Some (field_at (int (ws ! k)) (sum_list (take k ws)))"
    using place_fields_lookup [OF t(1) assms(2,3), of 0]
    by (simp add: layout_field_def row_layout_def struct_layout_def)
  ultimately show ?thesis
    unfolding column_at_def by (intro column_of_packed [OF storedD(2) [OF assms(1)]])
qed

lemma holds_field:
  "holds buf b (zip ws row) \<Longrightarrow> k < length ws \<Longrightarrow> length row = length ws \<Longrightarrow>
     read_u64 buf (b + sum_list (take k ws)) (ws ! k) = Inr (row ! k)"
proof (induction ws arbitrary: row b k)
  case (Cons w ws)
  then obtain v row' where "row = v # row'" by (cases row) auto
  with Cons show ?case by (cases k) (auto simp flip: add.assoc)
qed simp

lemma stored_cell:
  assumes "stored m fid (SList opt (Rows (zip ids ws) rows)) b p" "length ws = length ids"
    "i < length rows" "k < length ids"
  defines "at \<equiv> \<lparr>pos_byte = p, pos_bit = i * sum_list ws\<rparr>"
  shows "read_column m at (column_at ws k) = Inr (rows ! i ! k)"
    and "rows ! i ! k = unat x \<Longrightarrow> read_column_u32 m at (column_at ws k) = Inr x"
proof -
  note t = table_fits [OF assms(1,2)] and row = stored_row [OF assms(1,3)]
  have ids: "map snd (zip ids ws) = ws" using assms(2) by simp
  have "sum_list (take k ws) \<le> sum_list ws"
    using sum_list_append [of "take k ws" "drop k ws"] by simp
  also have "sum_list ws < 2 ^ 15"
    using row_bits_bound [of "zip ids ws"] t(2,3) assms(2) by simp
  finally have b: "sum_list (take k ws) < 2 ^ 20" by simp
  have "read_u64 (fz_buf (md_frozen m)) (8 * p + i * sum_list ws + sum_list (take k ws)) (ws ! k) = Inr (rows ! i ! k)"
    using row(1) t(4) assms(2-4) by (intro holds_field) (simp_all add: row_fields_def)
  with b row(3,4) assms(2) show "read_column m at (column_at ws k) = Inr (rows ! i ! k)"
    unfolding column_at_def at_def by (intro read_column_packed) simp_all
  then show "rows ! i ! k = unat x \<Longrightarrow> read_column_u32 m at (column_at ws k) = Inr x"
    by (simp add: read_column_u32_def)
qed

lemma stored_table:
  assumes "stored m fid (SList opt (Rows (zip ids ws) (map row_of_item xs))) b p" "length ws = length ids"
    and "prepare (row_layout (zip ids ws)) = Inr cs"
    and "\<And>i. i < length xs \<Longrightarrow> dec cs \<lparr>pos_byte = p, pos_bit = i * sum_list ws\<rparr> = Inr (xs ! i)"
  shows "decode_struct_list m fid prepare dec = Inr xs"
  using assms by (intro stored_struct_list [OF assms(1), where prepare = prepare and cs = cs]) simp_all

lemma stored_chunks:
  assumes "stored m ID_CHUNKS (SList opt (Rows (zip CHUNK_COLUMNS ws) (map chunk_row xs))) b p" "length ws = 3"
  shows "md_chunks m = Inr xs"
  unfolding md_chunks_def
proof (rule stored_table [OF assms(1)])
  note c = stored_column [OF assms(1)] assms(2)
  show "and_then (column_of m (row_layout (zip CHUNK_COLUMNS ws)) 1) (\<lambda>block.
      and_then (column_of m (row_layout (zip CHUNK_COLUMNS ws)) 2) (\<lambda>off.
      and_then (column_of m (row_layout (zip CHUNK_COLUMNS ws)) 3) (\<lambda>len. Inr (block, off, len))))
    = Inr (column_at ws 0, column_at ws 1, column_at ws 2)"
    using c(1) [of 0] c(1) [of 1] c(1) [of 2] c(2) by (simp add: column_defs)
qed (use assms(2) stored_cell(2) [OF assms(1)] in \<open>simp_all add: column_defs chunk_row_def\<close>)

lemma stored_dir_entries:
  assumes "stored m ID_DIR_ENTRIES (SList opt (Rows (zip DIR_ENTRY_COLUMNS ws) (map dir_entry_row xs))) b p"
    "length ws = 2"
  shows "md_dir_entries m = Inr xs"
  unfolding md_dir_entries_def
proof (rule stored_table [OF assms(1)])
  note c = stored_column [OF assms(1)] assms(2)
  show "and_then (column_of m (row_layout (zip DIR_ENTRY_COLUMNS ws)) 1) (\<lambda>name.
      and_then (column_of m (row_layout (zip DIR_ENTRY_COLUMNS ws)) 2) (\<lambda>inode. Inr (name, inode)))
    = Inr (column_at ws 0, column_at ws 1)"
    using c(1) [of 0] c(1) [of 1] c(2) by (simp add: column_defs)
qed (use assms(2) stored_cell(2) [OF assms(1)] in \<open>simp_all add: column_defs dir_entry_row_def\<close>)

lemma stored_directories:
  assumes "stored m ID_DIRECTORIES (SList opt (Rows (zip DIRECTORY_COLUMNS ws) (map directory_row xs))) b p"
    "length ws = 3"
  shows "md_directories m = Inr xs"
  unfolding md_directories_def
proof (rule stored_table [OF assms(1)])
  note c = stored_column [OF assms(1)] assms(2)
  show "and_then (column_of m (row_layout (zip DIRECTORY_COLUMNS ws)) 1) (\<lambda>parent.
      and_then (column_of m (row_layout (zip DIRECTORY_COLUMNS ws)) 2) (\<lambda>first.
      and_then (column_of m (row_layout (zip DIRECTORY_COLUMNS ws)) 3) (\<lambda>self. Inr (parent, first, self))))
    = Inr (column_at ws 0, column_at ws 1, column_at ws 2)"
    using c(1) [of 0] c(1) [of 1] c(1) [of 2] c(2) by (simp add: column_defs)
qed (use assms(2) stored_cell(2) [OF assms(1)] in \<open>simp_all add: column_defs directory_row_def\<close>)

lemma stored_inodes:
  assumes "stored m ID_INODES (SList opt (Rows (zip INODE_COLUMNS ws) (map inode_row xs))) b p" "length ws = 12"
  shows "md_inodes m = Inr xs"
  unfolding md_inodes_def
proof (rule stored_table [OF assms(1)])
  note c = stored_column [OF assms(1)]
  show "inode_columns_of m (row_layout (zip INODE_COLUMNS ws))
    = Inr \<lparr>ic_mode = column_at ws 0, ic_owner = column_at ws 1, ic_group = column_at ws 2,
        ic_atime = column_at ws 3, ic_mtime = column_at ws 4, ic_ctime = column_at ws 5,
        ic_btime = column_at ws 6, ic_atime_subsec = column_at ws 7, ic_mtime_subsec = column_at ws 8,
        ic_ctime_subsec = column_at ws 9, ic_btime_subsec = column_at ws 10, ic_nlink = column_at ws 11\<rparr>"
    unfolding inode_columns_of_def
    using c [of 0] c [of 1] c [of 2] c [of 3] c [of 4] c [of 5] c [of 6] c [of 7] c [of 8] c [of 9]
      c [of 10] c [of 11] assms(2) by (simp add: INODE_COLUMNS_def)
next
  fix i assume "i < length xs"
  then show "read_inode m \<lparr>ic_mode = column_at ws 0, ic_owner = column_at ws 1, ic_group = column_at ws 2,
        ic_atime = column_at ws 3, ic_mtime = column_at ws 4, ic_ctime = column_at ws 5,
        ic_btime = column_at ws 6, ic_atime_subsec = column_at ws 7, ic_mtime_subsec = column_at ws 8,
        ic_ctime_subsec = column_at ws 9, ic_btime_subsec = column_at ws 10, ic_nlink = column_at ws 11\<rparr>
      \<lparr>pos_byte = p, pos_bit = i * sum_list ws\<rparr> = Inr (xs ! i)"
    using stored_cell [OF assms(1)] assms(2)
    by (simp add: read_inode_def INODE_COLUMNS_def inode_row_def)
qed (simp add: assms(2) INODE_COLUMNS_def)

subsection \<open>Strings\<close>

lemma stored_string:
  assumes "stored m fid (SList opt (Strs ss)) b p" "i < length ss"
  shows "and_then (element_pos (md_frozen m) (array_range fid (Strs ss) p) i)
      (\<lambda>p. read_string_bytes (md_frozen m) p string_layout) = Inr (ss ! i)"
proof -
  note s = storedD [OF assms(1)]
  let ?start = "8 * length ss + length (concat (take i ss))"
  obtain pre post where buf: "fz_buf (md_frozen m) = pre @ array_data (Strs ss) @ post"
    "length pre = p" "length (fz_buf (md_frozen m)) < 2 ^ 32"
    by (rule stored_data [OF assms(1)]) (simp del: array_data.simps)
  have 64: "bits_of fs = 64" if "fs \<in> set (map (string_range ss) [0..<length ss])" for fs
    using that by (auto simp: string_range_def)
  have data: "array_data (Strs ss) = pack_bytes (concat (map (string_range ss) [0..<length ss])) @ concat ss"
    "bytes_for (bits_of (concat (map (string_range ss) [0..<length ss]))) = 8 * length ss"
    using bits_of_concat_equal [of "map (string_range ss) [0..<length ss]", OF 64]
    by (simp_all add: bytes_for_def)
  have split: "concat ss = concat (take i ss) @ ss ! i @ concat (drop (Suc i) ss)"
    using id_take_nth_drop [OF assms(2)] by (metis concat_append concat.simps(2))
  let ?front = "pre @ pack_bytes (concat (map (string_range ss) [0..<length ss])) @ concat (take i ss)"
  have whole: "fz_buf (md_frozen m) = ?front @ ss ! i @ concat (drop (Suc i) ss) @ post"
    by (simp add: buf(1) data(1) split)
  have front: "length ?front = p + ?start" by (simp add: buf(2) data(2))
  have upper: "p + ?start + length (ss ! i) < 2 ^ 32"
    using buf(3) front unfolding whole by simp
  have here: "subslice (fz_buf (md_frozen m)) (p + ?start) (p + ?start + length (ss ! i)) = ss ! i"
    unfolding whole front [symmetric] by (rule subslice_append_at) simp
  have inside: "p + ?start + length (ss ! i) \<le> length (fz_buf (md_frozen m))"
    unfolding whole front [symmetric] by simp
  have i8: "8 * i \<le> ?start" using assms(2) by simp
  have fits: "fields_fit (concat (map (string_range ss) [0..<length ss]))"
  proof -
    have "length (ss ! j) < 2 ^ 32 \<and> 8 * length ss + length (concat (take j ss)) - 8 * j < 2 ^ 32" if "j < length ss" for j
    proof -
      have "concat ss = concat (take j ss) @ ss ! j @ concat (drop (Suc j) ss)"
        using id_take_nth_drop [OF that] by (metis concat_append concat.simps(2))
      then have "length (concat (take j ss)) + length (ss ! j) \<le> length (concat ss)" by simp
      moreover have "8 * length ss + length (concat ss) < 2 ^ 32" using buf(1,3) data by simp
      ultimately show ?thesis by simp
    qed
    then show ?thesis by (auto simp: fields_fit_concat string_range_def)
  qed
  have held: "holds (fz_buf (md_frozen m)) (8 * p + i * 64) (string_range ss i)"
    using stored_packed [OF assms(1) data(1) fits 64, of i] assms(2) by simp
  have "near \<lparr>pos_byte = p + 8 * i, pos_bit = 0\<rparr>" using upper i8 by (simp add: near_def)
  from range_read [OF has_ints_1_32(5) [OF s(2)] this, of string_layout "?start - 8 * i" "length (ss ! i)"] held upper
  have "frozen_read_range (md_frozen m) \<lparr>pos_byte = p + 8 * i, pos_bit = 0\<rparr> string_layout
    = Inr \<lparr>rv_data_byte = p + 8 * i + (if ss ! i = [] then 0 else ?start - 8 * i), rv_count = length (ss ! i),
        rv_item_layout_id = None\<rparr>"
    by (simp add: string_range_def algebra_simps)
  then have "read_string_bytes (md_frozen m) \<lparr>pos_byte = p + 8 * i, pos_bit = 0\<rparr> string_layout = Inr (ss ! i)"
    using upper here inside i8 assms(2)
    by (cases "ss ! i = []") (simp_all add: read_string_bytes_def checked_add64_def)
  moreover have "schema_layout (fz_schema (md_frozen m)) (lay_id fid 2) = Inr string_layout"
    using s(9) [of "lay_id fid 2" string_layout] by (simp add: md_layout_def md_schema_def)
  then have "element_pos (md_frozen m) (array_range fid (Strs ss) p) i = Inr \<lparr>pos_byte = p + 8 * i, pos_bit = 0\<rparr>"
    using upper assms(2)
    by (auto simp: element_pos_def array_range_def checked_mul64_def checked_add64_def mult.commute)
  ultimately show ?thesis by simp
qed

lemma stored_string_then:
  "stored m fid (SList opt (Strs ss)) b p \<Longrightarrow> i < length ss \<Longrightarrow>
     and_then (element_pos (md_frozen m) (array_range fid (Strs ss) p) i)
       (\<lambda>p. and_then (read_string_bytes (md_frozen m) p string_layout) f) = f (ss ! i)"
  using stored_string [of m fid opt ss b p i] by (auto simp: result_simps)

lemma stored_names:
  assumes "stored m fid (SList opt (Strs ss)) b p" "length (concat ss) < 2 ^ 32"
  shows "read_plain_string_list m fid = Inr \<lparr>tb_data = concat ss, tb_offsets = String_Table.offsets_of ss\<rparr>"
proof -
  have push: "push_strings m string_layout (array_range fid (Strs ss) p) [n..<length ss]
      \<lparr>tb_data = concat (take n ss), tb_offsets = String_Table.offsets_of (take n ss)\<rparr>
    = Inr \<lparr>tb_data = concat ss, tb_offsets = String_Table.offsets_of ss\<rparr>" if "n \<le> length ss" for n
    using that
  proof (induction "length ss - n" arbitrary: n)
    case 0
    then show ?case by simp
  next
    case (Suc k)
    then have n: "n < length ss" by simp
    let ?t = "\<lambda>n. \<lparr>tb_data = concat (take n ss), tb_offsets = String_Table.offsets_of (take n ss)\<rparr>"
    have "length (concat (take j ss)) < 2 ^ 32" for j
    proof -
      have "concat ss = concat (take j ss) @ concat (drop j ss)" by (simp flip: concat_append)
      with assms(2) show ?thesis by simp
    qed
    note short = this [of n] this [of "Suc n", unfolded take_Suc_conv_app_nth [OF n]]
    have "table_push ''string list exceeds 4 GiB'' (?t n) (ss ! n) = Inr (?t (Suc n))"
      using represents_push [of "?t n" "take n ss"] short
      by (simp add: represents_def take_Suc_conv_app_nth [OF n] del: concat_append)
    moreover have "push_strings m string_layout (array_range fid (Strs ss) p) [Suc n..<length ss] (?t (Suc n))
        = Inr (?t (length ss))"
      using Suc.hyps(1) [of "Suc n"] Suc.hyps(2) n by simp
    ultimately show ?case using n by (simp add: upt_conv_Cons stored_string_then [OF assms(1) n])
  qed
  have "md_layout m (lay_id fid 2) = Inr string_layout" using storedD(9) [OF assms(1)] by simp
  with push [of 0] show ?thesis
    using stored_range [OF assms(1)] stored_unwrap(2) [OF assms(1)]
    by (simp add: read_plain_string_list_def check_cap_def String_Table.offsets_of_def)
qed

lemma stored_optional_strings:
  assumes "stored m fid (SList opt (Strs ss)) b p" "list_all utf8_valid ss"
  shows "read_optional_string_list m fid name = Inr ss"
proof -
  have "md_layout m (lay_id fid 2) = Inr string_layout" using storedD(9) [OF assms(1)] by simp
  moreover have "utf8_valid (ss ! i)" if "i < length ss" for i
    using assms(2) that by (simp add: list_all_length)
  ultimately show ?thesis
    using stored_range [OF assms(1)] stored_unwrap(1) [OF assms(1)] storedD(1) [OF assms(1)]
    by (simp add: read_optional_string_list_def check_cap_def try_map_Inr
      stored_string_then [OF assms(1)])
qed

subsection \<open>The options\<close>

lemma layout_field_options [simp]:
  "layout_field (options_layout o2 o6) 1 = Some (field_at 1 0)"
  "layout_field (options_layout o2 o6) 2 = Some (field_at o2 1)"
  "layout_field (options_layout o2 o6) 3 = Some (field_at 1 34)"
  "layout_field (options_layout o2 o6) 4 = Some (field_at 1 35)"
  "layout_field (options_layout o2 o6) 5 = Some (field_at 1 36)"
  "layout_field (options_layout o2 o6) 6 = Some (field_at o6 37)"
  "layout_field (options_layout o2 o6) 7 = Some (field_at 1 70)"
  "layout_field (options_layout o2 o6) 8 = Some (field_at 1 71)"
  by (simp_all add: options_layout_def layout_lookup)

lemma struct_bool_read:
  assumes "has_ints m" "layout_field l fid = Some (field_at 1 c)" "b < 2 ^ 16" "c < 2 ^ 16"
    "read_u64 (fz_buf (md_frozen m)) (b + c) 1 = Inr (of_bool v)"
  shows "read_struct_bool m \<lparr>pos_byte = 0, pos_bit = b\<rparr> l fid = Inr v"
proof -
  have "near \<lparr>pos_byte = 0, pos_bit = b\<rparr>" "near \<lparr>pos_byte = 0, pos_bit = b + c\<rparr>"
    using assms(3,4) by (simp_all add: near_def)
  with assms show ?thesis
    by (simp add: read_struct_bool_def has_ints_1_32 child_near absolute_near read_integral_def)
qed

lemma struct_optional_u32_read:
  assumes "has_ints m" "layout_field l fid = Some (field_at lid c)" "b < 2 ^ 16" "c < 2 ^ 16"
    "md_layout m lid = Inr (optional_layout 32 32)"
    "holds (fz_buf (md_frozen m)) (b + c) (opt_fields 32 (map_option unat v))"
  shows "read_struct_optional_u32 m \<lparr>pos_byte = 0, pos_bit = b\<rparr> l fid = Inr v"
proof -
  have near: "near \<lparr>pos_byte = 0, pos_bit = b\<rparr>" "near \<lparr>pos_byte = 0, pos_bit = b + c\<rparr>"
    "near \<lparr>pos_byte = 0, pos_bit = Suc (b + c)\<rparr>"
    using assms(3,4) by (simp_all add: near_def)
  note opt = optional_read [OF near(2), of "md_frozen m"]
  have "read_optional (md_frozen m) \<lparr>pos_byte = 0, pos_bit = b + c\<rparr> (optional_layout 32 32)
      = Inr \<lparr>ov_present = (v \<noteq> None), ov_value_pos = \<lparr>pos_byte = 0, pos_bit = b + c + 1\<rparr>,
             ov_value_layout_id = Some 32\<rparr>"
    using opt [of 0 "[(32, 0)]"] opt [of 1 "[(32, unat (the v))]"] assms(6)
    by (cases v) (simp_all add: opt_fields_def)
  with assms near show ?thesis
    by (cases v) (simp_all add: read_struct_optional_u32_def kind_of_optional child_near absolute_near
      has_ints_1_32 read_integral_def opt_fields_def)
qed

lemma stored_options:
  assumes "stored m ID_OPTIONS (SOptions opts) b p"
  shows "md_fs_options m = Inr opts"
proof -
  note s = storedD [OF assms]
  let ?l = "options_layout (lay_id ID_OPTIONS 2) (lay_id ID_OPTIONS 3)"
  have l: "md_layout m (lay_id ID_OPTIONS 0) = Inr (optional_layout (lay_id ID_OPTIONS 1) 72)"
    "md_layout m (lay_id ID_OPTIONS 1) = Inr ?l"
    "md_layout m (lay_id ID_OPTIONS 2) = Inr (optional_layout 32 32)"
    "md_layout m (lay_id ID_OPTIONS 3) = Inr (optional_layout 32 32)"
    by (rule s(9), simp)+
  have held: "holds (fz_buf (md_frozen m)) b (slot_head p (SOptions opts))" by (rule s(5))
  have "read_optional (md_frozen m) \<lparr>pos_byte = 0, pos_bit = b\<rparr> (optional_layout (lay_id ID_OPTIONS 1) 72)
      = Inr \<lparr>ov_present = True, ov_value_pos = \<lparr>pos_byte = 0, pos_bit = b + 1\<rparr>,
             ov_value_layout_id = Some (lay_id ID_OPTIONS 1)\<rparr>"
    using optional_read [OF s(3), of "md_frozen m" 1 "tl (slot_head p (SOptions opts))"] held by simp
  then have found: "unwrap_optional m \<lparr>fv_field = field_at (lay_id ID_OPTIONS 0) b,
      fv_pos = \<lparr>pos_byte = 0, pos_bit = b\<rparr>\<rparr> = Inr (Some (?l, \<lparr>pos_byte = 0, pos_bit = b + 1\<rparr>))"
    using l s(2) by (simp add: unwrap_optional_def kind_of_optional)
  note b = s(2) layout_field_options
  let ?at = "\<lparr>pos_byte = 0, pos_bit = b + 1\<rparr>"
  have small: "b + 1 < 2 ^ 16" using s(7) by simp
  have "read_struct_bool m ?at ?l 1 = Inr (fo_mtime_only opts)"
    "read_struct_optional_u32 m ?at ?l 2 = Inr (fo_time_resolution_sec opts)"
    "read_struct_bool m ?at ?l 3 = Inr (fo_packed_chunk_table opts)"
    "read_struct_bool m ?at ?l 4 = Inr (fo_packed_directories opts)"
    "read_struct_bool m ?at ?l 5 = Inr (fo_packed_shared_files_table opts)"
    "read_struct_optional_u32 m ?at ?l 6 = Inr (fo_subsecond_resolution_nsec_multiplier opts)"
    "read_struct_bool m ?at ?l 7 = Inr (fo_has_btime opts)"
    "read_struct_bool m ?at ?l 8 = Inr (fo_inodes_have_nlink opts)"
    using held by - (rule struct_bool_read [OF s(2) layout_field_options(1) small]
      struct_bool_read [OF s(2) layout_field_options(3) small] struct_bool_read [OF s(2) layout_field_options(4) small]
      struct_bool_read [OF s(2) layout_field_options(5) small] struct_bool_read [OF s(2) layout_field_options(7) small]
      struct_bool_read [OF s(2) layout_field_options(8) small]
      struct_optional_u32_read [OF s(2) layout_field_options(2) small _ l(3)]
      struct_optional_u32_read [OF s(2) layout_field_options(6) small _ l(4)],
      simp, simp add: add.commute)+
  with found s(1) show ?thesis
    by (simp add: md_fs_options_def del: One_nat_def)
qed

subsection \<open>Compact string tables\<close>

lemma layout_field_table [simp]:
  "layout_field (table_layout a b c) 1 = Some (field_at a 0)"
  "layout_field (table_layout a b c) 2 = Some (field_at b 64)"
  "layout_field (table_layout a b c) 3 = Some (field_at c 129)"
  "layout_field (table_layout a b c) 4 = Some (field_at 1 193)"
  by (simp_all add: table_layout_def layout_lookup)

lemma bytes_read:
  assumes "has_ints m" "pos_byte at = 0" "pos_bit at < 2 ^ 20"
    and "holds (fz_buf (md_frozen m)) (pos_bit at) [(32, d), (32, length bs)]" "d < 2 ^ 32"
    and "fz_buf (md_frozen m) = pre @ bs @ post" "length pre = d" "length (fz_buf (md_frozen m)) < 2 ^ 32"
  shows "read_string_bytes (md_frozen m) at string_layout = Inr bs"
proof -
  have "near at" using assms(2,3) by (simp add: near_def)
  from range_read [OF has_ints_1_32(5) [OF assms(1)] this, of string_layout d "length bs"]
  have "frozen_read_range (md_frozen m) at string_layout
      = Inr \<lparr>rv_data_byte = (if bs = [] then 0 else d), rv_count = length bs, rv_item_layout_id = None\<rparr>"
    using assms(2-5) by simp
  moreover have "subslice (fz_buf (md_frozen m)) d (d + length bs) = bs"
    using subslice_append_at [of "length bs" bs pre post] assms(6,7) by simp
  ultimately show ?thesis
    using assms(6-8) by (cases "bs = []") (auto simp: read_string_bytes_def checked_add64_def)
qed

lemma stored_string_table:
  assumes "stored m fid (STable present c) b p"
  shows "read_string_table m fid = (if present
     then and_then (decode_string_table (cp_buffer c) (cp_symtab c) (cp_index c) (cp_packed c)) (\<lambda>t. Inr (Some t))
     else Inr None)"
proof -
  note s = storedD [OF assms]
  let ?fz = "md_frozen m" and ?w = "index_width c"
  let ?l = "table_layout (lay_id fid 2) (lay_id fid 3) (lay_id fid 4)"
  let ?at = "\<lparr>pos_byte = 0, pos_bit = b + 1\<rparr>"
  have l: "md_layout m (lay_id fid 0) = Inr (optional_layout (lay_id fid 1) 194)" "md_layout m (lay_id fid 1) = Inr ?l"
    "md_layout m (lay_id fid 2) = Inr string_layout" "md_layout m (lay_id fid 3) = Inr (optional_layout (lay_id fid 2) 64)"
    "md_layout m (lay_id fid 4) = Inr (range_layout (int ?w))"
    by (rule s(9), simp)+
  obtain pre post where buf: "length (fz_buf ?fz) < 2 ^ 32" "length pre = p"
    "fz_buf ?fz = pre @ cp_buffer c @ symtab_bytes c @ index_data c @ post"
    by (rule stored_data [OF assms]) simp
  have held: "holds (fz_buf ?fz) b [(1, of_bool present), (32, p), (32, length (cp_buffer c)),
      (1, of_bool (cp_symtab c \<noteq> None)), (32, p + length (cp_buffer c)), (32, length (symtab_bytes c)),
      (32, p + length (cp_buffer c) + length (symtab_bytes c)), (32, length (cp_index c)), (1, of_bool (cp_packed c))]"
    using s(5) by simp
  have reads: "holds (fz_buf ?fz) (65 + b) [(1, of_bool (cp_symtab c \<noteq> None))]"
    "holds (fz_buf ?fz) (66 + b) [(32, p + length (cp_buffer c)), (32, length (symtab_bytes c))]"
    "holds (fz_buf ?fz) (130 + b) [(32, p + length (cp_buffer c) + length (symtab_bytes c)), (32, length (cp_index c))]"
    "read_u64 (fz_buf ?fz) (b + 1 + 193) 1 = Inr (of_bool (cp_packed c))"
    using held by (simp_all add: add.commute [of b])
  have buf2: "fz_buf ?fz = (pre @ cp_buffer c) @ symtab_bytes c @ index_data c @ post"
    and buf3: "fz_buf ?fz = (pre @ cp_buffer c @ symtab_bytes c) @ index_data c @ post"
    by (simp_all add: buf(3))
  have short: "p + length (cp_buffer c) + length (symtab_bytes c) < 2 ^ 32"
    using buf(1,2) unfolding buf(3) by simp
  have near: "near \<lparr>pos_byte = 0, pos_bit = k + b\<rparr>" if "k < 2 ^ 16" for k using that s(7) by (simp add: near_def)
  have small: "b + 1 < 2 ^ 16" using s(7) by simp
  have opt: "read_optional ?fz \<lparr>pos_byte = 0, pos_bit = b\<rparr> (optional_layout (lay_id fid 1) 194)
      = Inr \<lparr>ov_present = present, ov_value_pos = ?at, ov_value_layout_id = Some (lay_id fid 1)\<rparr>"
    using optional_read [OF s(3), of ?fz "of_bool present" "tl (slot_head p (STable present c))"] s(5) by simp
  have buffer: "read_struct_string m ?at ?l 1 = Inr (cp_buffer c)"
  proof -
    have "read_string_bytes ?fz ?at string_layout = Inr (cp_buffer c)"
      by (rule bytes_read [OF s(2) _ _ _ _ buf(3) buf(2) buf(1)]) (use held s(7,8) in simp_all)
    with near [of 1] show ?thesis by (simp add: read_struct_string_def l(3) child_near)
  qed
  have symtab: "read_struct_optional_string m ?at ?l 2 = Inr (cp_symtab c)"
  proof -
    have "read_optional ?fz \<lparr>pos_byte = 0, pos_bit = 65 + b\<rparr> (optional_layout (lay_id fid 2) 64)
      = Inr \<lparr>ov_present = (cp_symtab c \<noteq> None), ov_value_pos = \<lparr>pos_byte = 0, pos_bit = 66 + b\<rparr>,
             ov_value_layout_id = Some (lay_id fid 2)\<rparr>"
      using optional_read [OF near [of 65], of ?fz "of_bool (cp_symtab c \<noteq> None)" "[]"] reads(1) by simp
    moreover have "read_string_bytes ?fz \<lparr>pos_byte = 0, pos_bit = 66 + b\<rparr> string_layout = Inr (symtab_bytes c)"
      by (rule bytes_read [OF s(2) _ _ _ _ buf2 _ buf(1)]) (use reads(2) s(7) short buf(2) in simp_all)
    ultimately show ?thesis
      using near [of 1] by (cases "cp_symtab c") (simp_all add: read_struct_optional_string_def l(3,4) child_near
        kind_of_optional [OF s(2)] symtab_bytes_def)
  qed
  have index: "read_struct_int_list m ?at ?l 3 DEFAULT_LIST_CAP = Inr (map unat (cp_index c))"
  proof -
    let ?d = "p + length (cp_buffer c) + length (symtab_bytes c)" and ?n = "length (cp_index c)"
    let ?rng = "\<lparr>rv_data_byte = (if ?n = 0 then 0 else ?d), rv_count = ?n, rv_item_layout_id = Some (int ?w)\<rparr>"
    have "?d < 2 ^ 33" using short by simp
    then have "frozen_read_range ?fz \<lparr>pos_byte = 0, pos_bit = 130 + b\<rparr> (range_layout (int ?w)) = Inr ?rng"
      using range_read [OF has_ints_1_32(5) [OF s(2)] near [of 130], of "range_layout (int ?w)" ?d ?n] reads(3) s(7) by simp
    moreover have "range_ints m ?rng ?w = Inr (map unat (cp_index c))"
      by (rule packed_ints_read [OF s(2) index_width_le _ _ buf3 [unfolded index_data_def] _ buf(1)])
        (use s(6) buf(2) in \<open>auto simp: index_width_def column_width_fits\<close>)
    ultimately show ?thesis
      using near [of 1] s(6) has_ints_layout(1) [OF s(2) index_width_le]
      by (simp add: read_struct_int_list_def l(5) child_near kind_of_range [OF s(2)] check_cap_def)
  qed
  have packed: "read_struct_bool m ?at ?l 4 = Inr (cp_packed c)"
    by (rule struct_bool_read [OF s(2) layout_field_table(4) small _ reads(4)]) simp
  have "try_map (\<lambda>v. ok_or (u32_try_from v) e) (map unat (cp_index c)) = Inr (cp_index c)" for e :: error
    by (simp add: try_map_Inr)
  then show ?thesis
    using s(1) opt buffer symtab index packed
    by (simp add: read_string_table_def l(1,2) kind_of_optional [OF s(2)] Let_def del: One_nat_def)
qed

end
