(* ===== verification/Schema_Size.thy ===== *)
theory Schema_Size
  imports Frozen_Writer
begin

text \<open>
  The schemas of the reference writer can be encoded: every number fits its place, so the schema
  parser reads the encoding back (\<open>written_schema_parses\<close>), and the encoding is shorter than the
  reader's cap on schema sections (\<open>written_schema_length\<close>).
\<close>

subsection \<open>Every number fits\<close>

lemma place_fields_fit:
  "b + sum_list (map (snd \<circ> snd) cs) < 2 ^ 15 \<Longrightarrow> list_all i16 (map (fst \<circ> snd) cs) \<Longrightarrow>
     list_all field_fits (map snd (place_fields b cs))"
proof (induction b cs rule: place_fields.induct)
  case (2 b fid lid w cs)
  then show ?case by (auto simp: field_fits_def field_at_def i16_def add.assoc)
qed simp

lemma struct_layout_fits:
  assumes "sz < 2 ^ 31" "sum_list (map (snd \<circ> snd) cs) < 2 ^ 15" "list_all i16 (map (fst \<circ> snd) cs)"
    "sorted_wrt (<) (map fst cs)" "list_all i16 (map fst cs)"
  shows "layout_fits (struct_layout sz cs)"
proof -
  have "i16_map (place_fields 0 cs)"
    using assms(4,5) unfolding i16_map_def by (simp only: map_fst_place_fields list_all_iff)
  moreover have "list_all field_fits (map snd (place_fields 0 cs))"
    using assms(2,3) by (intro place_fields_fit) simp_all
  ultimately show ?thesis
    using assms(1,2) by (simp add: layout_fits_def struct_layout_def utf8_valid.simps)
qed

lemma slot_id_fits:
  assumes "slot_fits s" "0 < fid" "fid < 100"
  shows "i16 (slot_id fid s)"
  using assms by (cases s) (auto simp: i16_def lay_id_def)

lemma array_item_fits: "array_fits a \<Longrightarrow> 0 < fid \<Longrightarrow> fid < 100 \<Longrightarrow> i16 (array_item fid a)"
  by (cases a) (auto simp: i16_def lay_id_def)

lemma row_layout_fits:
  assumes "array_fits (Rows cols rows)"
  shows "layout_fits (row_layout cols)"
  unfolding row_layout_def
proof (rule struct_layout_fits)
  have fit: "i16_map cols" "length cols \<le> 20" "\<forall>c \<in> set cols. snd c \<le> 64"
    using assms by (auto simp: list_all_iff)
  have "sum_list (map snd cols) \<le> length cols * 64"
    using sum_list_mono [of cols snd "\<lambda>_. 64"] fit(3) by (simp add: sum_list_triv)
  with fit(2) show "sum_list (map (snd \<circ> snd) (map (\<lambda>(fid, w). (fid, int w, w)) cols)) < 2 ^ 15"
    by (simp add: comp_def case_prod_beta')
  show "list_all i16 (map (fst \<circ> snd) (map (\<lambda>(fid, w). (fid, int w, w)) cols))"
    using fit(3) by (force simp: list_all_iff i16_def)
  show "sorted_wrt (<) (map fst (map (\<lambda>(fid, w). (fid, int w, w)) cols))"
    "list_all i16 (map fst (map (\<lambda>(fid, w). (fid, int w, w)) cols))"
    using fit(1) by (simp_all add: i16_map_def comp_def case_prod_beta' list_all_iff)
qed simp

lemma small_layouts_fit:
  "w \<le> 64 \<Longrightarrow> layout_fits (int_layout w)"
  "w \<le> 200 \<Longrightarrow> i16 lid \<Longrightarrow> layout_fits (optional_layout lid w)"
  "i16 lid \<Longrightarrow> layout_fits (range_layout lid)"
  "layout_fits string_layout"
  "i16 lid \<Longrightarrow> i16 lid' \<Longrightarrow> layout_fits (options_layout lid lid')"
  "i16 lid \<Longrightarrow> i16 lid' \<Longrightarrow> i16 lid'' \<Longrightarrow> layout_fits (table_layout lid lid' lid'')"
  by (simp add: int_layout_def layout_fits_def i16_map_def utf8_valid.simps)
    (simp_all add: optional_layout_def range_layout_def string_layout_def options_layout_def table_layout_def,
      (rule struct_layout_fits; simp add: i16_def)+)

lemma array_layouts_fit:
  "array_fits a \<Longrightarrow> (lid, l) \<in> set (array_layouts fid a) \<Longrightarrow> layout_fits l"
  by (cases a) (auto simp: row_layout_fits small_layouts_fit simp del: array_fits.simps)

lemma slot_layouts_fit:
  assumes "slot_fits s" "0 < fid" "fid < 100" "(lid, l) \<in> set (slot_layouts fid s)"
  shows "layout_fits l"
proof -
  have ids: "i16 (lay_id fid j)" if "0 \<le> j" "j < 100" for j
    using assms(2,3) that by (simp add: i16_def lay_id_def)
  have ints: "i16 (int w)" if "w \<le> 64" for w using that by (simp add: i16_def)
  show ?thesis
  proof (cases s)
    case (SOptInt w v)
    with assms ints show ?thesis by (auto intro: small_layouts_fit)
  next
    case (SList opt a)
    with assms ids array_item_fits [of a fid] array_layouts_fit [of a lid l fid] show ?thesis
      by (auto simp: small_layouts_fit split: if_splits)
  next
    case (SOptions opts)
    with assms(4) ids ints [of 32] show ?thesis by (auto simp: small_layouts_fit)
  next
    case (STable present c)
    have "i16 (int (index_width c))" by (rule ints) (rule index_width_le)
    with STable assms(4) ids show ?thesis by (auto simp: small_layouts_fit)
  qed (use assms(4) in simp)
qed

lemma root_layout_fits:
  assumes "slots_fit ss"
  shows "layout_fits (root_layout_of ss)"
  unfolding root_layout_of_def
proof (rule struct_layout_fits)
  have ss: "sorted_wrt (<) (map fst ss)" "\<And>fid s. (fid, s) \<in> set ss \<Longrightarrow> 0 < fid \<and> fid < 100 \<and> slot_fits s"
    using assms by (auto simp: slots_fit_def)
  show "sum_list (map (snd \<circ> snd) (map (\<lambda>(fid, s). (fid, slot_id fid s, slot_width s)) ss)) < 2 ^ 15"
    using root_bits_less [OF assms] by (simp add: root_bits_def comp_def case_prod_beta')
  show "list_all i16 (map (fst \<circ> snd) (map (\<lambda>(fid, s). (fid, slot_id fid s, slot_width s)) ss))"
    using ss(2) slot_id_fits by (force simp: list_all_iff)
  show "sorted_wrt (<) (map fst (map (\<lambda>(fid, s). (fid, slot_id fid s, slot_width s)) ss))"
    using ss(1) by (simp only: root_field_ids)
  show "list_all i16 (map fst (map (\<lambda>(fid, s). (fid, slot_id fid s, slot_width s)) ss))"
    unfolding root_field_ids using ss(2) by (force simp: list_all_iff i16_def)
qed simp

lemma written_schema_fits:
  assumes "slots_fit ss"
  shows "schema_fits (write_schema ss)"
proof -
  have ss: "sorted_wrt (<) (map fst ss)" "\<And>fid s. (fid, s) \<in> set ss \<Longrightarrow> 0 < fid \<and> fid < 100 \<and> slot_fits s"
    using assms by (auto simp: slots_fit_def)
  have cases: "(\<exists>w \<le> 64. lid = int w \<and> l = int_layout w)
      \<or> (\<exists>fid s. (fid, s) \<in> set ss \<and> (lid, l) \<in> set (slot_layouts fid s))
      \<or> (lid = root_id \<and> l = root_layout_of ss)" if "(lid, l) \<in> set (sc_layouts (write_schema ss))" for lid l
    using that by (auto simp: write_schema_def)
  have "i16 lid \<and> layout_fits l" if l: "(lid, l) \<in> set (sc_layouts (write_schema ss))" for lid l
    using cases [OF l]
  proof (elim disjE exE conjE)
    fix fid s assume f: "(fid, s) \<in> set ss" "(lid, l) \<in> set (slot_layouts fid s)"
    then have "lid \<in> fst ` set (slot_layouts fid s)" by force
    from slot_layout_ids [OF this] ss(2) [OF f(1)] slot_layouts_fit [OF _ _ _ f(2)] show ?thesis
      by (auto simp: i16_def)
  qed (use root_layout_fits [OF assms] small_layouts_fit(1) in \<open>auto simp: i16_def root_id_def\<close>)
  moreover have "sorted_wrt (<) (map fst (sc_layouts (write_schema ss)))"
    using ss by (intro write_schema_sorted) auto
  moreover have "sc_layouts (write_schema ss) \<noteq> []" "sc_root_layout (write_schema ss) = 10000"
    "sc_file_version (write_schema ss) = 1"
    by (simp_all add: write_schema_def root_id_def)
  ultimately show ?thesis
    unfolding schema_fits_def i16_map_def by (auto simp: i16_def i32_def list_all_iff)
qed

subsection \<open>The encoding is short\<close>

lemma write_varint_length: "unat v < 128 ^ Suc k \<Longrightarrow> length (write_varint v) \<le> Suc k"
proof (induction v arbitrary: k rule: write_varint.induct)
  case (1 v)
  show ?case
  proof (cases "drop_bit 7 v = 0")
    case True
    then show ?thesis using write_varint_last [OF True] by auto
  next
    case False
    then have "unat v div 128 \<noteq> 0" by (simp add: unat_drop7 [symmetric] unat_eq_0)
    with "1.prems" obtain j where k: "k = Suc j" by (cases k) auto
    have "unat (drop_bit 7 v) < 128 ^ Suc j"
      using "1.prems" unfolding unat_drop7 k by (intro less_mult_imp_div_less) (simp add: mult.commute)
    from "1.IH" [OF refl refl False this] show ?thesis
      using False by (simp add: write_varint.simps [of v] Let_def k)
  qed
qed

lemma write_varint_length_10: "length (write_varint v) \<le> 10"
proof -
  have "unat v < 2 ^ 64" using unsigned_less [of v] by simp
  also have "(2 :: nat) ^ 64 \<le> 128 ^ Suc 9" by simp
  finally show ?thesis using write_varint_length [of v 9] by simp
qed

lemma header_length: "length (header_bytes c prev fid) \<le> 11"
  using write_varint_length_10 [of "zigzag_encode fid"]
  by (simp add: header_bytes_def write_field_header_def write_zigzag_def Let_def)

lemma writers_length:
  "length (snd (write_field_header c fid w)) \<le> length (snd w) + 11"
  "length (snd (write_i16_field fid x w)) \<le> length (snd w) + 21"
  "length (snd (write_i32_field fid x w)) \<le> length (snd w) + 21"
  "length (snd (write_string_field fid str w)) \<le> length (snd w) + 21 + length str"
  using header_length [of c "fst w" fid] header_length [of 4 "fst w" fid] header_length [of 5 "fst w" fid]
    header_length [of 8 "fst w" fid] write_varint_length_10 [of "zigzag_encode x"]
    write_varint_length_10 [of "word_of_nat (length str)"]
  by (cases w; simp add: write_field_header_bytes write_i16_field_def write_i32_field_def
      write_string_field_def write_zigzag_def)+

lemma appended_length:
  "length (snd (let (prev, out) = write_field_header c fid w in (prev, out @ e))) \<le> length (snd w) + 11 + length e"
  using writers_length(1) [of c fid w] by (simp add: Let_def case_prod_beta')

lemma struct_map_length:
  assumes "\<And>k body. (k, body) \<in> set es \<Longrightarrow> length body \<le> n"
  shows "length (write_struct_map es) \<le> 11 + length es * (n + 10)"
proof -
  have "length (concat (map (\<lambda>(k, body). write_zigzag k @ body) es)) \<le> length es * (n + 10)"
    using assms
  proof (induction es)
    case (Cons e es)
    obtain k body where e: "e = (k, body)" by (cases e)
    have "length body \<le> n" using Cons.prems e by auto
    moreover have "length (concat (map (\<lambda>(k, body). write_zigzag k @ body) es)) \<le> length es * (n + 10)"
      using Cons by auto
    ultimately show ?case
      using write_varint_length_10 [of "zigzag_encode k"] e by (simp add: write_zigzag_def)
  qed simp
  with write_varint_length_10 [of "word_of_nat (length es)"] show ?thesis
    by (simp add: write_struct_map_def)
qed

lemma encode_field_length: "length (encode_field f) \<le> 43"
  using writers_length(2) [of 1 "fl_layout_id f" "(0, [])"]
    writers_length(2) [of 2 "fl_offset f" "write_i16_field 1 (fl_layout_id f) (0, [])"]
  by (simp add: encode_field_def build_field_def)

lemma build_layout_length:
  assumes "\<And>k body. (k, body) \<in> set es \<Longrightarrow> length body \<le> 43"
  shows "length (build_layout sz bits es name) \<le> 90 + length es * 53 + length name"
proof -
  let ?w1 = "if sz \<noteq> 0 then write_i32_field 1 (sint sz) (0, []) else (0, [])"
  let ?w2 = "if bits \<noteq> 0 then write_i16_field 2 (sint bits) ?w1 else ?w1"
  let ?w3 = "if es \<noteq> [] then (let (prev, out) = write_field_header 11 3 ?w2 in
     (prev, out @ write_struct_map es)) else ?w2"
  have 1: "length (snd ?w1) \<le> 21" using writers_length(3) [of 1 "sint sz" "(0, [])"] by simp
  have 2: "length (snd ?w2) \<le> 42" using writers_length(2) [of 2 "sint bits" ?w1] 1 by simp
  have map: "length (write_struct_map es) \<le> 11 + length es * 53"
    using struct_map_length [of es 43] assms by simp
  have "length (snd (let (prev, out) = write_field_header 11 3 ?w2 in (prev, out @ write_struct_map es)))
      \<le> length (snd ?w2) + 11 + length (write_struct_map es)" by (rule appended_length)
  note filled = this
  have 3: "length (snd ?w3) \<le> 64 + length es * 53"
  proof (cases "es = []")
    case True
    then have w3: "?w3 = ?w2" by simp
    show ?thesis unfolding w3 using 2 by linarith
  next
    case False
    then have w3: "?w3 = (let (prev, out) = write_field_header 11 3 ?w2 in (prev, out @ write_struct_map es))"
      by simp
    show ?thesis unfolding w3 using 2 map filled by linarith
  qed
  have "length (snd (write_string_field 4 name ?w3)) \<le> length (snd ?w3) + 21 + length name"
    by (rule writers_length(4))
  with 3 show ?thesis by (simp add: build_layout_def Let_def)
qed

lemma encode_layout_length:
  "length (encode_layout l) \<le> 90 + length (ly_fields l) * 53 + length (ly_type_name l)"
  unfolding encode_layout_def
  by (rule order_trans [OF build_layout_length]) (auto simp: encode_field_length)

definition layouts_length :: "(int \<times> layout) list \<Rightarrow> nat" where
  "layouts_length ls = length (concat (map (\<lambda>(k, l). write_zigzag k @ encode_layout l) ls))"

lemma layouts_length_append [simp]: "layouts_length (xs @ ys) = layouts_length xs + layouts_length ys"
  by (simp add: layouts_length_def)

lemma layouts_length_bound:
  assumes "\<And>k l. (k, l) \<in> set ls \<Longrightarrow> length (ly_fields l) \<le> n \<and> ly_type_name l = []"
  shows "layouts_length ls \<le> length ls * (100 + n * 53)"
  using assms
proof (induction ls)
  case (Cons e ls)
  obtain k l where e: "e = (k, l)" by (cases e)
  have "length (ly_fields l) \<le> n" "ly_type_name l = []" using Cons.prems e by auto
  then have "length (encode_layout l) \<le> 90 + n * 53"
    using encode_layout_length [of l] by (simp add: order_trans)
  moreover have "layouts_length ls \<le> length ls * (100 + n * 53)" using Cons by auto
  ultimately show ?case
    using write_varint_length_10 [of "zigzag_encode k"] e by (simp add: layouts_length_def write_zigzag_def)
qed (simp add: layouts_length_def)

lemma encode_schema_length: "length (encode_schema s) \<le> 100 + layouts_length (sc_layouts s)"
proof -
  let ?es = "map (\<lambda>(k, l). (k, encode_layout l)) (sc_layouts s)"
  let ?w1 = "if sc_relax_type_checks s then write_field_header 1 1 (0, []) else (0, [])"
  let ?w2 = "let (prev, out) = write_field_header 11 2 ?w1 in (prev, out @ write_struct_map ?es)"
  let ?w3 = "write_i16_field 3 (sc_root_layout s) ?w2"
  have 1: "length (snd ?w1) \<le> 11" using writers_length(1) [of 1 1 "(0, [])"] by simp
  have "length (write_struct_map ?es) \<le> 11 + layouts_length (sc_layouts s)"
    using write_varint_length_10 [of "word_of_nat (length (sc_layouts s))"]
    by (simp add: write_struct_map_def layouts_length_def comp_def case_prod_beta')
  with 1 appended_length [of 11 2 ?w1 "write_struct_map ?es"]
  have 2: "length (snd ?w2) \<le> 33 + layouts_length (sc_layouts s)" by linarith
  have "length (snd ?w3) \<le> length (snd ?w2) + 21" by (rule writers_length(2))
  moreover have "length (snd (write_i32_field 4 (sc_file_version s) ?w3)) \<le> length (snd ?w3) + 21"
    by (rule writers_length(3))
  ultimately have "length (snd (write_i32_field 4 (sc_file_version s) ?w3)) \<le> 75 + layouts_length (sc_layouts s)"
    using 2 by linarith
  then show ?thesis
    by (simp add: encode_schema_def build_schema_def Let_def case_prod_beta')
qed

lemma place_fields_count [simp]: "length (place_fields b cs) = length cs"
  by (induction b cs rule: place_fields.induct) auto

lemma struct_layout_count [simp]:
  "length (ly_fields (struct_layout sz cs)) = length cs" "ly_type_name (struct_layout sz cs) = []"
  by (simp_all add: struct_layout_def)

lemma slot_layouts_small:
  assumes "slot_fits s" "(lid, l) \<in> set (slot_layouts fid s)"
  shows "length (ly_fields l) \<le> 20 \<and> ly_type_name l = []"
  using assms
  by (cases s; cases "case s of SList opt a \<Rightarrow> a";
      auto simp: optional_layout_def range_layout_def string_layout_def row_layout_def options_layout_def table_layout_def
        split: if_splits)

lemma slot_layouts_count: "length (slot_layouts fid s) \<le> 5"
  by (cases s; cases "case s of SList opt a \<Rightarrow> a"; auto)

lemma written_schema_length:
  assumes "slots_fit ss"
  shows "length (encode_schema (write_schema ss)) \<le> 2 ^ 20"
proof -
  have fits: "\<And>fid s. (fid, s) \<in> set ss \<Longrightarrow> slot_fits s" using assms by (auto simp: slots_fit_def)
  have "layouts_length (map (\<lambda>w. (int w, int_layout w)) [0..<65]) \<le> 65 * 100"
    by (rule order_trans [OF layouts_length_bound [where n = 0]]) (auto simp: int_layout_def)
  moreover have "layouts_length (concat (map (\<lambda>(fid, s). slot_layouts fid s) ss)) \<le> length ss * (5 * 1160)"
    using fits
  proof (induction ss)
    case (Cons e ss)
    obtain fid s where e: "e = (fid, s)" by (cases e)
    have "layouts_length (slot_layouts fid s) \<le> length (slot_layouts fid s) * (100 + 20 * 53)"
      using slot_layouts_small [of s _ _ fid] Cons.prems [of fid s] e by (intro layouts_length_bound) simp
    also have "\<dots> \<le> 5 * 1160" using slot_layouts_count [of fid s] by simp
    finally have "layouts_length (slot_layouts fid s) \<le> 5 * 1160" .
    moreover have "layouts_length (concat (map (\<lambda>(fid, s). slot_layouts fid s) ss)) \<le> length ss * (5 * 1160)"
      using Cons by auto
    ultimately show ?case by (simp add: e)
  qed (simp add: layouts_length_def)
  moreover have "layouts_length [(root_id, root_layout_of ss)] \<le> 100 + 100 * 53"
    using layouts_length_bound [of "[(root_id, root_layout_of ss)]" 100] slots_count [OF assms]
    by (simp add: root_layout_of_def)
  ultimately have "layouts_length (sc_layouts (write_schema ss)) \<le> 65 * 100 + length ss * (5 * 1160) + (100 + 100 * 53)"
    by (simp add: write_schema_def)
  with slots_count [OF assms] encode_schema_length [of "write_schema ss"] show ?thesis by simp
qed

lemma written_schema_parses:
  assumes "slots_fit ss"
  shows "schema_parse (encode_schema (write_schema ss)) = Some (Inr (write_schema ss))"
  using schema_encoding_parses [OF written_schema_fits [OF assms], of "[]"] written_schema_length [OF assms]
  by simp

end
