(* ===== verification/Fs_Tables.thy ===== *)
theory Fs_Tables
  imports Model
begin

text \<open>
  The tables \<open>Filesystem::open\<close> derives from the metadata (\<open>src/src/fs/inode.rs\<close> and the free
  functions of \<open>src/src/fs/read.rs\<close>): inode kinds, the partition of the inode numbers by kind, the
  unpacked directory columns, hole lengths and the cumulative chunk ends.
\<close>

definition fs_error :: "string \<Rightarrow> error" where
  "fs_error message = Decode ''fs'' message"

subsection \<open>Inode kinds\<close>

datatype inode_kind =
    KDirectory | KSymlink | KRegular | KCharDevice | KBlockDevice | KFifo | KSocket | KUnknown

definition S_IFMT :: u32 where "S_IFMT = 0xF000"
definition S_IFDIR :: u32 where "S_IFDIR = 0x4000"
definition S_IFCHR :: u32 where "S_IFCHR = 0x2000"
definition S_IFBLK :: u32 where "S_IFBLK = 0x6000"
definition S_IFREG :: u32 where "S_IFREG = 0x8000"
definition S_IFIFO :: u32 where "S_IFIFO = 0x1000"
definition S_IFLNK :: u32 where "S_IFLNK = 0xA000"
definition S_IFSOCK :: u32 where "S_IFSOCK = 0xC000"

lemmas mode_consts =
  S_IFMT_def S_IFDIR_def S_IFCHR_def S_IFBLK_def S_IFREG_def S_IFIFO_def S_IFLNK_def S_IFSOCK_def

definition mode_kind :: "u32 \<Rightarrow> inode_kind" where
  "mode_kind mode =
     (let t = mode AND S_IFMT in
      if t = S_IFDIR then KDirectory
      else if t = S_IFLNK then KSymlink
      else if t = S_IFREG then KRegular
      else if t = S_IFCHR then KCharDevice
      else if t = S_IFBLK then KBlockDevice
      else if t = S_IFIFO then KFifo
      else if t = S_IFSOCK then KSocket
      else KUnknown)"

text \<open>The permission bits never change the kind.\<close>

lemma mode_kind_perm: "p AND S_IFMT = 0 \<Longrightarrow> mode_kind ((m AND S_IFMT) OR p) = mode_kind m"
  by (simp add: mode_kind_def bit.conj_disj_distrib2 and.assoc)

subsection \<open>Supported features\<close>

definition SUPPORTED_FEATURES :: "bytes list" where
  "SUPPORTED_FEATURES = [[0x73, 0x70, 0x61, 0x72, 0x73, 0x65, 0x66, 0x69, 0x6C, 0x65, 0x73]]"

definition check_features :: "bytes list \<Rightarrow> unit result" where
  "check_features features =
     (case find (\<lambda>name. name \<notin> set SUPPORTED_FEATURES) features of
        Some name \<Rightarrow> Inl (UnsupportedFeature (map (\<lambda>b. char_of (unat b)) name))
      | None \<Rightarrow> Inr ())"

lemma check_features_Inr: "check_features fs = Inr () \<longleftrightarrow> set fs \<subseteq> set SUPPORTED_FEATURES"
proof (cases "find (\<lambda>name. name \<notin> set SUPPORTED_FEATURES) fs")
  case None
  then have "check_features fs = Inr ()" by (simp add: check_features_def)
  moreover from None have "set fs \<subseteq> set SUPPORTED_FEATURES" by (auto simp: find_None_iff)
  ultimately show ?thesis by simp
next
  case (Some name)
  then have "name \<in> set fs" "name \<notin> set SUPPORTED_FEATURES"
    by (auto simp: find_Some_iff)
  with Some show ?thesis by (auto simp: check_features_def)
qed

subsection \<open>The inode partition\<close>

record inode_offsets =
  io_dir_offset :: u32
  io_symlink_offset :: u32
  io_file_offset :: u32
  io_shared_file_offset :: u32
  io_device_offset :: u32
  io_special_offset :: u32
  io_total :: u32

record first_of_kind =
  fk_dir :: u32
  fk_symlink :: u32
  fk_file :: u32
  fk_device :: u32
  fk_special :: u32

definition U32_MAX :: u32 where "U32_MAX = 0xFFFFFFFF"

definition note_kind :: "inode_kind \<Rightarrow> u32 \<Rightarrow> first_of_kind \<Rightarrow> first_of_kind" where
  "note_kind kind idx f =
     (case kind of
        KDirectory \<Rightarrow> if fk_dir f = U32_MAX then f\<lparr>fk_dir := idx\<rparr> else f
      | KSymlink \<Rightarrow> if fk_symlink f = U32_MAX then f\<lparr>fk_symlink := idx\<rparr> else f
      | KRegular \<Rightarrow> if fk_file f = U32_MAX then f\<lparr>fk_file := idx\<rparr> else f
      | KCharDevice \<Rightarrow> if fk_device f = U32_MAX then f\<lparr>fk_device := idx\<rparr> else f
      | KBlockDevice \<Rightarrow> if fk_device f = U32_MAX then f\<lparr>fk_device := idx\<rparr> else f
      | KFifo \<Rightarrow> if fk_special f = U32_MAX then f\<lparr>fk_special := idx\<rparr> else f
      | KSocket \<Rightarrow> if fk_special f = U32_MAX then f\<lparr>fk_special := idx\<rparr> else f
      | KUnknown \<Rightarrow> f)"

fun scan_kinds :: "u32 list \<Rightarrow> nat \<Rightarrow> inode_data list \<Rightarrow> first_of_kind \<Rightarrow> first_of_kind result" where
  "scan_kinds ms i [] f = Inr f"
| "scan_kinds ms i (inode # rest) f =
     and_then (ok_or (get_at ms (unat (in_mode_index inode)))
                (fs_error ''mode index {} out of range'')) (\<lambda>mode.
     scan_kinds ms (i + 1) rest (note_kind (mode_kind mode) (word_of_nat i) f))"

definition compute_offsets :: "inode_data list \<Rightarrow> u32 list \<Rightarrow> nat \<Rightarrow> inode_offsets result" where
  "compute_offsets inodes mode_col shared_files_count =
     and_then (scan_kinds mode_col 0 inodes
        \<lparr>fk_dir = U32_MAX, fk_symlink = U32_MAX, fk_file = U32_MAX, fk_device = U32_MAX,
         fk_special = U32_MAX\<rparr>) (\<lambda>f.
     let total = word_of_nat (length inodes);
         default_to_total = (\<lambda>v. if v = U32_MAX then total else v);
         file_offset = min (default_to_total (fk_file f)) total;
         device_offset = min (default_to_total (fk_device f)) total;
         special_offset = min (default_to_total (fk_special f)) total;
         end_of_files = min device_offset special_offset
     in and_then (ok_or (u32_try_from shared_files_count)
                   (fs_error ''shared_files_count {shared_files_count} exceeds u32'')) (\<lambda>shared_count.
        if unat file_offset + unat shared_count > unat end_of_files
        then Inl (fs_error ''shared_files_count {shared_count} larger than the regular-file range'')
        else Inr
          \<lparr>io_dir_offset = min (default_to_total (fk_dir f)) total,
           io_symlink_offset = min (default_to_total (fk_symlink f)) total,
           io_file_offset = file_offset,
           io_shared_file_offset = end_of_files - shared_count,
           io_device_offset = device_offset,
           io_special_offset = special_offset,
           io_total = total\<rparr>))"

text \<open>The successful outcome, by the first inode of each kind.\<close>

definition offset_or_total :: "inode_data list \<Rightarrow> u32 \<Rightarrow> u32" where
  "offset_or_total inodes v =
     min (if v = U32_MAX then word_of_nat (length inodes) else v) (word_of_nat (length inodes))"

definition file_offset_of :: "inode_data list \<Rightarrow> first_of_kind \<Rightarrow> u32" where
  "file_offset_of inodes f = offset_or_total inodes (fk_file f)"

definition end_of_files_of :: "inode_data list \<Rightarrow> first_of_kind \<Rightarrow> u32" where
  "end_of_files_of inodes f =
     min (offset_or_total inodes (fk_device f)) (offset_or_total inodes (fk_special f))"

definition offsets_of :: "inode_data list \<Rightarrow> first_of_kind \<Rightarrow> u32 \<Rightarrow> inode_offsets" where
  "offsets_of inodes f shared =
     \<lparr>io_dir_offset = offset_or_total inodes (fk_dir f),
      io_symlink_offset = offset_or_total inodes (fk_symlink f),
      io_file_offset = file_offset_of inodes f,
      io_shared_file_offset = end_of_files_of inodes f - shared,
      io_device_offset = offset_or_total inodes (fk_device f),
      io_special_offset = offset_or_total inodes (fk_special f),
      io_total = word_of_nat (length inodes)\<rparr>"

text \<open>The regular files are split into unique ones and, at their end, the shared ones.\<close>

lemma compute_offsets_partition:
  assumes "compute_offsets inodes mode_col n = Inr off"
  shows "io_file_offset off \<le> io_shared_file_offset off"
    and "unat (io_shared_file_offset off) + n = unat (min (io_device_offset off) (io_special_offset off))"
    and "io_device_offset off \<le> io_total off" "io_special_offset off \<le> io_total off"
    and "io_dir_offset off \<le> io_total off" "io_symlink_offset off \<le> io_total off"
    and "io_total off = word_of_nat (length inodes)"
proof -
  from assms obtain f w where wn: "u32_try_from n = Some w"
    and cond: "\<not> unat (end_of_files_of inodes f) < unat (file_offset_of inodes f) + unat w"
    and off: "off = offsets_of inodes f w"
    unfolding compute_offsets_def and_then_eq_Inr Let_def ok_or_eq_Inr if_eq_Inr sum.inject
      offsets_of_def end_of_files_of_def file_offset_of_def offset_or_total_def by metis
  have sel: "io_file_offset off = file_offset_of inodes f"
    "min (io_device_offset off) (io_special_offset off) = end_of_files_of inodes f"
    by (simp_all only: off offsets_of_def inode_offsets.select_convs end_of_files_of_def file_offset_of_def)
  from cond have le': "\<not> unat (min (io_device_offset off) (io_special_offset off))
      < unat (io_file_offset off) + unat w" by (simp only: sel not_False_eq_True)
  from wn have w: "unat w = n" by (simp only: u32_try_from_Some)
  from le' have le: "unat (io_file_offset off) + unat w
      \<le> unat (min (io_device_offset off) (io_special_offset off))" by linarith
  let ?e = "min (io_device_offset off) (io_special_offset off)"
  have sh: "io_shared_file_offset off = ?e - w"
    by (simp only: sel) (simp only: off offsets_of_def inode_offsets.select_convs)
  have "w \<le> ?e" using le by (simp add: word_le_nat_alt)
  then have sub: "unat (io_shared_file_offset off) = unat ?e - unat w"
    unfolding sh by (rule unat_sub)
  with le w show "unat (io_shared_file_offset off) + n = unat ?e" by simp
  from sub le show "io_file_offset off \<le> io_shared_file_offset off"
    by (simp add: word_le_nat_alt)
  show "io_device_offset off \<le> io_total off" "io_special_offset off \<le> io_total off"
    "io_dir_offset off \<le> io_total off" "io_symlink_offset off \<le> io_total off"
    "io_total off = word_of_nat (length inodes)"
    by (simp_all add: off offsets_of_def offset_or_total_def)
qed

subsection \<open>Packed directories\<close>

fun unpack_first_entries_from :: "u32 \<Rightarrow> directory list \<Rightarrow> directory list" where
  "unpack_first_entries_from acc [] = []"
| "unpack_first_entries_from acc (d # ds) =
     (let acc = acc + dr_first_entry d in
      d\<lparr>dr_first_entry := acc\<rparr> # unpack_first_entries_from acc ds)"

definition unpack_directory_first_entries :: "directory list \<Rightarrow> directory list" where
  "unpack_directory_first_entries dirs = unpack_first_entries_from 0 dirs"

lemma unpack_directory_first_entries_prefix_sum:
  "map dr_first_entry (unpack_directory_first_entries dirs)
     = inclusive_prefix_sum_u32 (map dr_first_entry dirs)"
proof -
  have "map dr_first_entry (unpack_first_entries_from acc dirs)
      = prefix_sum_from acc (map dr_first_entry dirs)" for acc
    by (induction acc dirs rule: unpack_first_entries_from.induct) (auto simp: Let_def)
  then show ?thesis
    by (simp add: unpack_directory_first_entries_def inclusive_prefix_sum_u32_def)
qed

definition link_entry_range :: "directory list \<Rightarrow> dir_entry list \<Rightarrow> nat \<Rightarrow> nat list" where
  "link_entry_range dirs dir_entries d =
     (let b = unat (dr_first_entry (dirs ! d)); e = unat (dr_first_entry (dirs ! (d + 1))) in
      if b \<le> e \<and> e \<le> length dir_entries then [b..<e] else [])"

text \<open>First pass: the first entry naming a directory is its \<open>self_entry\<close>.\<close>

definition name_child :: "dir_entry list \<Rightarrow> nat \<Rightarrow> nat \<Rightarrow> u32 list \<Rightarrow> u32 list" where
  "name_child dir_entries dir_count e self_entry =
     (let child = unat (de_inode_num (dir_entries ! e)) in
      if child < dir_count \<and> child \<noteq> 0 \<and> self_entry ! child = 0
      then self_entry[child := word_of_nat e] else self_entry)"

text \<open>Second pass: a directory named in \<open>d\<close> has the \<open>self_entry\<close> of \<open>d\<close> as its parent entry.\<close>

definition link_child :: "dir_entry list \<Rightarrow> nat \<Rightarrow> u32 \<Rightarrow> nat \<Rightarrow> directory list \<Rightarrow> directory list" where
  "link_child dir_entries dir_count parent_self e dirs =
     (let child = unat (de_inode_num (dir_entries ! e)) in
      if child < dir_count \<and> child \<noteq> 0
      then dirs[child := (dirs ! child)\<lparr>dr_parent_entry := parent_self\<rparr>] else dirs)"

definition rebuild_directory_links :: "directory list \<Rightarrow> dir_entry list \<Rightarrow> directory list" where
  "rebuild_directory_links dirs dir_entries =
     (if dirs = [] then []
      else let dir_count = length dirs - 1;
               ranges = (\<lambda>d. link_entry_range dirs dir_entries d);
               self_entry = fold (\<lambda>d. fold (name_child dir_entries dir_count) (ranges d))
                              [0..<dir_count] (replicate dir_count 0);
               dirs = fold (\<lambda>d. fold (link_child dir_entries dir_count (self_entry ! d)) (ranges d))
                        [0..<dir_count] dirs
           in fold (\<lambda>d dirs. dirs[d := (dirs ! d)\<lparr>dr_self_entry := self_entry ! d\<rparr>])
                [0..<dir_count] dirs)"

text \<open>The two nested loops visit the pairs of a directory and one of its entries.\<close>

definition link_pairs :: "directory list \<Rightarrow> dir_entry list \<Rightarrow> (nat \<times> nat) list" where
  "link_pairs dirs dir_entries =
     concat (map (\<lambda>d. map (Pair d) (link_entry_range dirs dir_entries d)) [0..<length dirs - 1])"

lemma fold_nested:
  "fold (\<lambda>d. fold (g d) (r d)) ds s = fold (\<lambda>(d, e). g d e) (concat (map (\<lambda>d. map (Pair d) (r d)) ds)) s"
  by (induction ds arbitrary: s) (auto simp: fold_map comp_def)

definition names_dir :: "dir_entry list \<Rightarrow> nat \<Rightarrow> nat \<Rightarrow> bool" where
  "names_dir dir_entries c e \<longleftrightarrow> unat (de_inode_num (dir_entries ! e)) = c"

definition first_naming :: "dir_entry list \<Rightarrow> (nat \<times> nat) list \<Rightarrow> nat \<Rightarrow> u32" where
  "first_naming dir_entries pairs c =
     (case find (\<lambda>(d, e). names_dir dir_entries c e \<and> (word_of_nat e :: u32) \<noteq> 0) pairs of
        None \<Rightarrow> 0 | Some (d, e) \<Rightarrow> word_of_nat e)"

lemma length_name_child [simp]: "length (name_child es n e s) = length s"
  by (simp add: name_child_def Let_def)

lemma fold_name_child:
  "c < n \<Longrightarrow> c \<noteq> 0 \<Longrightarrow> length s = n \<Longrightarrow>
   fold (\<lambda>(d, e). name_child es n e) pairs s ! c
     = (if s ! c \<noteq> 0 then s ! c else first_naming es pairs c)"
proof (induction pairs arbitrary: s)
  case Nil
  then show ?case by (simp add: first_naming_def)
next
  case (Cons p pairs)
  obtain d e where p: "p = (d, e)" by (cases p)
  have step: "name_child es n e s ! c
      = (if names_dir es c e \<and> s ! c = 0 then word_of_nat e else s ! c)"
    using Cons.prems by (auto simp: name_child_def Let_def names_dir_def nth_list_update)
  with Cons.IH [of "name_child es n e s"] Cons.prems show ?case
    by (auto simp: p first_naming_def)
qed

definition last_naming :: "dir_entry list \<Rightarrow> (nat \<times> nat) list \<Rightarrow> nat \<Rightarrow> nat option" where
  "last_naming dir_entries pairs c =
     map_option fst (find (\<lambda>(d, e). names_dir dir_entries c e) (rev pairs))"

lemma find_append: "find P (xs @ ys) = (case find P xs of None \<Rightarrow> find P ys | Some x \<Rightarrow> Some x)"
  by (induction xs) auto

lemma length_link_child [simp]: "length (link_child es n x e ds) = length ds"
  by (simp add: link_child_def Let_def)

lemma length_fold_link [simp]:
  "length (fold (\<lambda>(d, e). link_child es n (self ! d) e) pairs ds) = length ds"
  by (induction pairs arbitrary: ds) auto

lemma fold_link_child:
  "c < n \<Longrightarrow> c \<noteq> 0 \<Longrightarrow> n \<le> length ds \<Longrightarrow>
   fold (\<lambda>(d, e). link_child es n (self ! d) e) pairs ds ! c
     = (case last_naming es pairs c of
          None \<Rightarrow> ds ! c | Some d \<Rightarrow> (ds ! c)\<lparr>dr_parent_entry := self ! d\<rparr>)"
proof (induction pairs arbitrary: ds)
  case Nil
  then show ?case by (simp add: last_naming_def)
next
  case (Cons p pairs)
  obtain d e where p: "p = (d, e)" by (cases p)
  have step: "link_child es n (self ! d) e ds ! c
      = (if names_dir es c e then (ds ! c)\<lparr>dr_parent_entry := self ! d\<rparr> else ds ! c)"
    using Cons.prems by (auto simp: link_child_def Let_def names_dir_def nth_list_update)
  from Cons.IH [of "link_child es n (self ! d) e ds"] Cons.prems step show ?case
    by (auto simp: p last_naming_def find_append split: option.splits)
qed

lemma fold_set_self:
  "n \<le> length ds \<Longrightarrow>
   fold (\<lambda>d dirs. dirs[d := (dirs ! d)\<lparr>dr_self_entry := f d\<rparr>]) [0..<n] ds
     = map (\<lambda>d. if d < n then (ds ! d)\<lparr>dr_self_entry := f d\<rparr> else ds ! d) [0..<length ds]"
proof (induction n)
  case 0
  then show ?case by (simp add: map_nth)
next
  case (Suc n)
  then show ?case by (auto simp: nth_list_update intro!: nth_equalityI)
qed

text \<open>The root is named by no entry, so neither pass touches it.\<close>

lemma fold_name_child_root: "fold (\<lambda>(d, e). name_child es n e) pairs s ! 0 = s ! 0"
proof (induction pairs arbitrary: s)
  case Nil
  show ?case by simp
next
  case (Cons p pairs)
  have "name_child es n (snd p) s ! 0 = s ! 0" by (simp add: name_child_def Let_def)
  with Cons show ?case by (simp add: case_prod_beta)
qed

lemma fold_link_child_root: "fold (\<lambda>(d, e). link_child es n (self d) e) pairs ds ! 0 = ds ! 0"
proof (induction pairs arbitrary: ds)
  case Nil
  show ?case by simp
next
  case (Cons p pairs)
  have "link_child es n (self (fst p)) (snd p) ds ! 0 = ds ! 0" by (simp add: link_child_def Let_def)
  with Cons show ?case by (simp add: case_prod_beta)
qed

text \<open>The two passes, by their results.\<close>

definition self_entries :: "directory list \<Rightarrow> dir_entry list \<Rightarrow> u32 list" where
  "self_entries dirs es =
     fold (\<lambda>(d, e). name_child es (length dirs - 1) e) (link_pairs dirs es) (replicate (length dirs - 1) 0)"

definition linked_dirs :: "directory list \<Rightarrow> dir_entry list \<Rightarrow> directory list" where
  "linked_dirs dirs es =
     fold (\<lambda>(d, e). link_child es (length dirs - 1) (self_entries dirs es ! d) e) (link_pairs dirs es) dirs"

lemma length_linked_dirs [simp]: "length (linked_dirs dirs es) = length dirs"
  by (simp add: linked_dirs_def)

lemma rebuild_directory_links_at:
  assumes "c < length dirs - 1"
  shows "rebuild_directory_links dirs es ! c
    = (linked_dirs dirs es ! c)\<lparr>dr_self_entry := self_entries dirs es ! c\<rparr>"
proof -
  let ?n = "length dirs - 1"
  have ne: "(dirs = []) = False" using assms by auto
  have "rebuild_directory_links dirs es
      = fold (\<lambda>d ds. ds[d := (ds ! d)\<lparr>dr_self_entry := self_entries dirs es ! d\<rparr>]) [0..<?n]
          (linked_dirs dirs es)"
    by (simp only: rebuild_directory_links_def Let_def fold_nested link_pairs_def [symmetric]
        self_entries_def [symmetric] linked_dirs_def [symmetric] ne if_False)
  also have "\<dots> = map (\<lambda>d. if d < ?n then (linked_dirs dirs es ! d)\<lparr>dr_self_entry := self_entries dirs es ! d\<rparr>
      else linked_dirs dirs es ! d) [0..<length (linked_dirs dirs es)]"
    by (rule fold_set_self) simp
  finally show ?thesis using assms by simp
qed

text \<open>
  After rebuilding, a directory's \<open>self_entry\<close> is the first entry that names it and its
  \<open>parent_entry\<close> is the \<open>self_entry\<close> of the directory holding an entry that names it.
\<close>

lemma rebuild_directory_links_self:
  "c < length dirs - 1 \<Longrightarrow> dr_self_entry (rebuild_directory_links dirs es ! c) = self_entries dirs es ! c"
  by (simp add: rebuild_directory_links_at)

lemma self_entries_naming:
  assumes "0 < c" "c < length dirs - 1"
  shows "self_entries dirs es ! c = first_naming es (link_pairs dirs es) c"
  using fold_name_child [of c "length dirs - 1" "replicate (length dirs - 1) 0" es] assms
  by (simp add: self_entries_def)

lemma rebuild_directory_links_parent:
  assumes "0 < c" "c < length dirs - 1"
  shows "dr_parent_entry (rebuild_directory_links dirs es ! c)
      = (case last_naming es (link_pairs dirs es) c of
           None \<Rightarrow> dr_parent_entry (dirs ! c)
         | Some d \<Rightarrow> self_entries dirs es ! d)"
  using fold_link_child [of c "length dirs - 1" dirs es] assms
  by (simp add: rebuild_directory_links_at linked_dirs_def split: option.split)

lemma self_entries_root: "1 < length dirs \<Longrightarrow> self_entries dirs es ! 0 = 0"
  unfolding self_entries_def fold_name_child_root by simp

lemma linked_dirs_root: "linked_dirs dirs es ! 0 = dirs ! 0"
  unfolding linked_dirs_def by (rule fold_link_child_root)

lemma rebuild_directory_links_root:
  assumes "1 < length dirs"
  shows "dr_self_entry (rebuild_directory_links dirs es ! 0) = 0"
    and "dr_parent_entry (rebuild_directory_links dirs es ! 0) = dr_parent_entry (dirs ! 0)"
  using assms self_entries_root [of dirs es] by (simp_all add: rebuild_directory_links_at linked_dirs_root)

text \<open>In a tree, where one directory names another at most once, the links are mutual.\<close>

lemma find_unique:
  assumes "x \<in> set xs" "P x" "\<And>y. y \<in> set xs \<Longrightarrow> P y \<Longrightarrow> y = x"
  shows "find P xs = Some x"
proof (cases "find P xs")
  case None
  with assms(1,2) show ?thesis by (simp add: find_None_iff)
next
  case (Some y)
  then have "y \<in> set xs" "P y" by (auto simp: find_Some_iff)
  then have "y = x" by (rule assms(3))
  with Some show ?thesis by simp
qed

lemma first_naming_unique:
  assumes "(p, e) \<in> set pairs" "names_dir es c e"
    and "\<And>d e'. (d, e') \<in> set pairs \<Longrightarrow> names_dir es c e' \<Longrightarrow> (d, e') = (p, e)"
  shows "first_naming es pairs c = word_of_nat e"
proof (cases "(word_of_nat e :: u32) = 0")
  case True
  then have "find (\<lambda>(d, e). names_dir es c e \<and> (word_of_nat e :: u32) \<noteq> 0) pairs = None"
    using assms(3) by (force simp: find_None_iff)
  with True show ?thesis by (simp add: first_naming_def)
next
  case False
  have "find (\<lambda>(d, e). names_dir es c e \<and> (word_of_nat e :: u32) \<noteq> 0) pairs = Some (p, e)"
  proof (rule find_unique)
    show "y = (p, e)" if "y \<in> set pairs"
      and "case y of (d, e) \<Rightarrow> names_dir es c e \<and> (word_of_nat e :: u32) \<noteq> 0" for y
      using that assms(3) [of "fst y" "snd y"] by (simp add: case_prod_beta)
  qed (use assms(1,2) False in simp_all)
  then show ?thesis by (simp add: first_naming_def)
qed

lemma rebuild_directory_links_tree:
  assumes "0 < c" "c < length dirs - 1"
    and "(p, e) \<in> set (link_pairs dirs es)" "names_dir es c e"
    and "\<And>d e'. (d, e') \<in> set (link_pairs dirs es) \<Longrightarrow> names_dir es c e' \<Longrightarrow> (d, e') = (p, e)"
  shows "dr_self_entry (rebuild_directory_links dirs es ! c) = word_of_nat e"
    and "dr_parent_entry (rebuild_directory_links dirs es ! c)
      = dr_self_entry (rebuild_directory_links dirs es ! p)"
proof -
  let ?pairs = "link_pairs dirs es"
  show "dr_self_entry (rebuild_directory_links dirs es ! c) = word_of_nat e"
    using first_naming_unique [OF assms(3,4), OF assms(5)]
    by (simp add: rebuild_directory_links_self [OF assms(2)] self_entries_naming [OF assms(1,2)])
  have "find (\<lambda>(d, e). names_dir es c e) (rev ?pairs) = Some (p, e)"
  proof (rule find_unique)
    show "y = (p, e)" if "y \<in> set (rev ?pairs)" "case y of (d, e) \<Rightarrow> names_dir es c e" for y
      using that assms(5) [of "fst y" "snd y"] by (simp add: case_prod_beta)
  qed (use assms(3,4) in simp_all)
  moreover have "p < length dirs - 1" using assms(3) by (auto simp: link_pairs_def)
  ultimately show "dr_parent_entry (rebuild_directory_links dirs es ! c)
      = dr_self_entry (rebuild_directory_links dirs es ! p)"
    by (simp add: last_naming_def rebuild_directory_links_parent [OF assms(1,2)] rebuild_directory_links_self)
qed

end
