(* ===== verification/Chunks.thy ===== *)
theory Chunks
  imports Fs_Tables
begin

text \<open>
  Chunk lengths and the table of cumulative chunk ends (\<open>hole_length\<close>, \<open>build_chunk_ends\<close> and
  \<open>resolve_block_categories\<close> of \<open>src/src/fs/read.rs\<close>). The table is shown to hold, for every chunk
  of every file, the sum of the logical lengths up to and including that chunk; the ends are
  therefore monotonic within a file and can be searched by bisection.
\<close>

definition LARGE_HOLE_SENTINEL :: u32 where "LARGE_HOLE_SENTINEL = U32_MAX"

definition hole_length :: "chunk \<Rightarrow> u32 \<Rightarrow> nat list \<Rightarrow> nat result" where
  "hole_length chunk block_sz large_holes =
     (if ck_offset chunk = LARGE_HOLE_SENTINEL
      then ok_or (get_at large_holes (unat (ck_size chunk)))
             (fs_error ''large_hole_size index {idx} out of range'')
      else ok_or
             (case checked_mul64 (unat (ck_size chunk)) (unat block_sz) of
                None \<Rightarrow> None
              | Some by_blocks \<Rightarrow> checked_add64 by_blocks (unat (ck_offset chunk)))
             (fs_error ''hole length overflow''))"

text \<open>Below the sentinel the product and sum of two 32-bit values never overflow.\<close>

lemma hole_length_inline:
  assumes "ck_offset chunk \<noteq> LARGE_HOLE_SENTINEL"
  shows "hole_length chunk block_sz large_holes
    = Inr (unat (ck_size chunk) * unat block_sz + unat (ck_offset chunk))"
proof -
  have "unat (ck_size chunk) \<le> 2 ^ 32 - 1" "unat block_sz \<le> 2 ^ 32 - 1"
    "unat (ck_offset chunk) \<le> 2 ^ 32 - 1"
    using unat_u32_less [of "ck_size chunk"] unat_u32_less [of block_sz]
      unat_u32_less [of "ck_offset chunk"] by simp_all
  then have "unat (ck_size chunk) * unat block_sz \<le> (2 ^ 32 - 1) * (2 ^ 32 - 1)"
    by (intro mult_le_mono) simp_all
  with \<open>unat (ck_offset chunk) \<le> 2 ^ 32 - 1\<close> assms show ?thesis
    by (simp add: hole_length_def checked_mul64_def checked_add64_def)
qed

definition chunk_len :: "u32 option \<Rightarrow> u32 \<Rightarrow> nat list \<Rightarrow> chunk \<Rightarrow> nat result" where
  "chunk_len hole_block block_sz large_holes chunk =
     (if hole_block = Some (ck_block chunk) then hole_length chunk block_sz large_holes
      else Inr (unat (ck_size chunk)))"

text \<open>The inner loop of \<open>build_chunk_ends\<close>, over the chunk indices of one file.\<close>

fun fill_ends ::
    "(chunk \<Rightarrow> nat result) \<Rightarrow> chunk list \<Rightarrow> nat list \<Rightarrow> nat \<Rightarrow> nat list \<Rightarrow> nat list result" where
  "fill_ends len chunks [] cursor ends = Inr ends"
| "fill_ends len chunks (i # is) cursor ends =
     and_then (len (chunks ! i)) (\<lambda>l.
     and_then (ok_or (checked_add64 cursor l) (fs_error ''file size overflows u64'')) (\<lambda>cursor.
     fill_ends len chunks is cursor (ends[i := cursor])))"

fun fill_files ::
    "(chunk \<Rightarrow> nat result) \<Rightarrow> chunk list \<Rightarrow> (u32 \<times> u32) list \<Rightarrow> nat list \<Rightarrow> nat list result" where
  "fill_files len chunks [] ends = Inr ends"
| "fill_files len chunks (slot # slots) ends =
     (let start = unat (fst slot); e = unat (snd slot) in
      if e < start \<or> length chunks < e
      then Inl (fs_error ''chunk range [{start}, {end}) out of {} chunks'')
      else and_then (fill_ends len chunks [start..<e] 0 ends) (\<lambda>ends.
        fill_files len chunks slots ends))"

definition build_chunk_ends ::
    "chunk list \<Rightarrow> u32 list \<Rightarrow> u32 option \<Rightarrow> u32 \<Rightarrow> nat list \<Rightarrow> nat list result" where
  "build_chunk_ends chunks table hole_block block_sz large_holes =
     fill_files (chunk_len hole_block block_sz large_holes) chunks (windows2 table)
       (replicate (length chunks) 0)"

definition resolve_block_categories :: "metadata \<Rightarrow> bytes list result" where
  "resolve_block_categories m =
     and_then (category_names m) (\<lambda>names.
     if names = [] then Inr []
     else and_then (block_categories m) (\<lambda>indices.
       try_map (\<lambda>index. ok_or (get_at names (unat index))
         (fs_error ''category index {index} out of range'')) indices))"

subsection \<open>The ends are running sums\<close>

definition logical_of :: "(chunk \<Rightarrow> nat result) \<Rightarrow> chunk \<Rightarrow> nat" where
  "logical_of len c = (case len c of Inl e \<Rightarrow> 0 | Inr n \<Rightarrow> n)"

text \<open>\<open>ends\<close> holds the running sums of the chunks \<open>[a, b)\<close>.\<close>

definition logical_at :: "(chunk \<Rightarrow> nat result) \<Rightarrow> chunk list \<Rightarrow> nat list \<Rightarrow> nat \<Rightarrow> nat \<Rightarrow> bool" where
  "logical_at len chunks ends a i \<longleftrightarrow>
     len (chunks ! i) = Inr (logical_of len (chunks ! i))
     \<and> ends ! i = (\<Sum>j = a..<Suc i. logical_of len (chunks ! j)) \<and> ends ! i < 2 ^ 64"

definition summed :: "(chunk \<Rightarrow> nat result) \<Rightarrow> chunk list \<Rightarrow> nat list \<Rightarrow> nat \<Rightarrow> nat \<Rightarrow> bool" where
  "summed len chunks ends a b \<longleftrightarrow>
     (\<forall>i. a \<le> i \<and> i < b \<longrightarrow> logical_at len chunks ends a i)"

lemma fill_ends_Inr:
  assumes "fill_ends len chunks [i..<e] cursor ends = Inr ends'" "e \<le> length ends"
    and "cursor = (\<Sum>j = a..<i. logical_of len (chunks ! j))" "a \<le> i"
  shows "length ends' = length ends \<and> (\<forall>k. k < i \<or> e \<le> k \<longrightarrow> ends' ! k = ends ! k)
    \<and> (\<forall>k. i \<le> k \<and> k < e \<longrightarrow> len (chunks ! k) = Inr (logical_of len (chunks ! k))
        \<and> ends' ! k = (\<Sum>j = a..<Suc k. logical_of len (chunks ! j)) \<and> ends' ! k < 2 ^ 64)"
  using assms
proof (induction "e - i" arbitrary: i cursor ends)
  case 0
  then show ?case by auto
next
  case (Suc n)
  then have "[i..<e] = i # [Suc i..<e]" by (simp add: upt_rec)
  with Suc.prems(1) obtain l where l: "len (chunks ! i) = Inr l" and fits: "cursor + l < 2 ^ 64"
    and rest: "fill_ends len chunks [Suc i..<e] (cursor + l) (ends[i := cursor + l]) = Inr ends'"
    by (auto simp: result_simps)
  have sum: "cursor + l = (\<Sum>j = a..<Suc i. logical_of len (chunks ! j))"
    using Suc.prems(3,4) l by (simp add: logical_of_def)
  have IH: "length ends' = length (ends[i := cursor + l])
    \<and> (\<forall>k. k < Suc i \<or> e \<le> k \<longrightarrow> ends' ! k = ends[i := cursor + l] ! k)
    \<and> (\<forall>k. Suc i \<le> k \<and> k < e \<longrightarrow> len (chunks ! k) = Inr (logical_of len (chunks ! k))
        \<and> ends' ! k = (\<Sum>j = a..<Suc k. logical_of len (chunks ! j)) \<and> ends' ! k < 2 ^ 64)"
    using Suc.hyps(2) Suc.prems(2,4) by (intro Suc.hyps(1) [OF _ rest _ sum]) simp_all
  have "ends' ! i = cursor + l" using IH Suc.hyps(2) Suc.prems(2) by simp
  moreover have "len (chunks ! i) = Inr (logical_of len (chunks ! i))" by (simp add: l logical_of_def)
  ultimately have at_i: "len (chunks ! k) = Inr (logical_of len (chunks ! k))
      \<and> ends' ! k = (\<Sum>j = a..<Suc k. logical_of len (chunks ! j)) \<and> ends' ! k < 2 ^ 64"
    if "k = i" for k
    using that sum fits by simp
  have "len (chunks ! k) = Inr (logical_of len (chunks ! k))
      \<and> ends' ! k = (\<Sum>j = a..<Suc k. logical_of len (chunks ! j)) \<and> ends' ! k < 2 ^ 64"
    if "i \<le> k \<and> k < e" for k
  proof (cases "k = i")
    case True
    then show ?thesis by (rule at_i)
  next
    case False
    with that have "Suc i \<le> k \<and> k < e" by simp
    with IH show ?thesis by blast
  qed
  moreover have "ends' ! k = ends ! k" if "k < i \<or> e \<le> k" for k
    using that IH Suc.hyps(2) by auto
  moreover have "length ends' = length ends" using IH by simp
  ultimately show ?case by blast
qed

lemma fill_ends_summed:
  assumes "fill_ends len chunks [a..<b] 0 ends = Inr ends'" "b \<le> length ends"
  shows "summed len chunks ends' a b" "length ends' = length ends"
    "k < a \<or> b \<le> k \<Longrightarrow> ends' ! k = ends ! k"
  using fill_ends_Inr [OF assms, of a] by (auto simp: summed_def logical_at_def)

lemma summed_cong:
  assumes "summed len chunks ends a b" "\<And>k. a \<le> k \<Longrightarrow> k < b \<Longrightarrow> ends' ! k = ends ! k"
  shows "summed len chunks ends' a b"
  unfolding summed_def
proof (intro allI impI)
  fix i assume i: "a \<le> i \<and> i < b"
  then have "logical_at len chunks ends a i" "ends' ! i = ends ! i"
    using assms by (auto simp: summed_def)
  then show "logical_at len chunks ends' a i" unfolding logical_at_def by metis
qed

text \<open>The slots of a table chain, so a later file never touches the ends of an earlier one.\<close>

lemma windows2_Cons: "windows2 (x # y # xs) = (x, y) # windows2 (y # xs)"
  by (simp add: windows2_def)

lemma windows2_short [simp]: "windows2 [] = []" "windows2 [x] = []"
  by (simp_all add: windows2_def)

lemma length_windows2: "length (windows2 xs) = length xs - 1"
  by (simp add: windows2_def)

lemma windows2_nth: "i + 1 < length xs \<Longrightarrow> windows2 xs ! i = (xs ! i, xs ! (i + 1))"
  by (simp add: windows2_def nth_tl)

lemma fill_files_summed:
  assumes "fill_files len chunks (windows2 table) ends = Inr ends'" "length ends = length chunks"
  shows "length ends' = length chunks
    \<and> (\<forall>k. table \<noteq> [] \<and> k < unat (hd table) \<longrightarrow> ends' ! k = ends ! k)
    \<and> (\<forall>s. s + 1 < length table \<longrightarrow>
         unat (table ! s) \<le> unat (table ! (s + 1)) \<and> unat (table ! (s + 1)) \<le> length chunks
         \<and> summed len chunks ends' (unat (table ! s)) (unat (table ! (s + 1))))"
  using assms
proof (induction table arbitrary: ends)
  case Nil
  then show ?case by simp
next
  case (Cons t0 table)
  show ?case
  proof (cases table)
    case Nil
    with Cons.prems show ?thesis by simp
  next
    case (Cons t1 rest)
    let ?a = "unat t0" and ?b = "unat t1"
    from Cons.prems(1) obtain mid where ab: "?a \<le> ?b" "?b \<le> length chunks"
      and fill: "fill_ends len chunks [?a..<?b] 0 ends = Inr mid"
      and files: "fill_files len chunks (windows2 table) mid = Inr ends'"
      by (auto simp: Cons windows2_Cons Let_def result_simps)
    have le: "?b \<le> length ends" using ab Cons.prems(2) by simp
    note first = fill_ends_summed [OF fill le]
    have len: "length mid = length chunks" using first(2) Cons.prems(2) by simp
    note IH = Cons.IH [OF files len]
    have keep: "ends' ! k = mid ! k" if "k < ?b" for k using IH that by (simp add: Cons)
    have "summed len chunks ends' ?a ?b"
      by (rule summed_cong [OF first(1)]) (rule keep)
    moreover have "ends' ! k = ends ! k" if "k < ?a" for k
      using keep [of k] first(3) [of k] ab that by simp
    moreover have "unat (table ! s) \<le> unat (table ! (s + 1))"
      "unat (table ! (s + 1)) \<le> length chunks"
      "summed len chunks ends' (unat (table ! s)) (unat (table ! (s + 1)))"
      if "s + 1 < length table" for s using IH that by auto
    ultimately have "unat ((t0 # table) ! s) \<le> unat ((t0 # table) ! (s + 1))
        \<and> unat ((t0 # table) ! (s + 1)) \<le> length chunks
        \<and> summed len chunks ends' (unat ((t0 # table) ! s)) (unat ((t0 # table) ! (s + 1)))"
      if "s + 1 < length (t0 # table)" for s
      using that ab by (cases s) (simp_all add: Cons)
    with \<open>\<And>k. k < ?a \<Longrightarrow> ends' ! k = ends ! k\<close> IH show ?thesis by simp
  qed
qed

lemma build_chunk_ends_Inr:
  assumes "build_chunk_ends chunks table hole_block block_sz large_holes = Inr ends"
  shows "length ends = length chunks"
    and "s + 1 < length table \<Longrightarrow>
      unat (table ! s) \<le> unat (table ! (s + 1)) \<and> unat (table ! (s + 1)) \<le> length chunks"
    and "s + 1 < length table \<Longrightarrow>
      summed (chunk_len hole_block block_sz large_holes) chunks ends
        (unat (table ! s)) (unat (table ! (s + 1)))"
  using fill_files_summed [OF assms [unfolded build_chunk_ends_def]] by simp_all

lemma summed_mono:
  assumes "summed len chunks ends a b" "a \<le> i" "i \<le> j" "j < b"
  shows "ends ! i \<le> ends ! j"
proof -
  from assms have "ends ! i = (\<Sum>k = a..<Suc i. logical_of len (chunks ! k))"
    "ends ! j = (\<Sum>k = a..<Suc j. logical_of len (chunks ! k))" by (auto simp: summed_def logical_at_def)
  moreover have "{a..<Suc i} \<subseteq> {a..<Suc j}" using assms by auto
  ultimately show ?thesis by (metis finite_atLeastLessThan sum_mono2 zero_le)
qed

text \<open>A chunk starts where the chunk before it ends.\<close>

lemma summed_start:
  assumes "summed len chunks ends a b" "a \<le> i" "i < b"
  shows "len (chunks ! i) = Inr (logical_of len (chunks ! i))"
    and "ends ! i = (\<Sum>j = a..<i. logical_of len (chunks ! j)) + logical_of len (chunks ! i)"
    and "ends ! i < 2 ^ 64"
  using assms by (auto simp: summed_def logical_at_def)

end
