(* ===== verification/Metadata_Writer.thy ===== *)
theory Metadata_Writer
  imports Frozen_Reader Schema_Size Chunks
begin

text \<open>
  The metadata tables of a file system as slots of the reference writer: each column is stored at the
  narrowest width that holds its values. \<open>tables_fit\<close> lists what the format has room for;
  \<open>written_tables\<close> says that the accessors of \<open>Model\<close> return exactly the tables written.
\<close>

record metadata_tables =
  mt_chunks :: "chunk list"
  mt_directories :: "directory list"
  mt_inodes :: "inode_data list"
  mt_chunk_table :: "u32 list"
  mt_symlink_table :: "u32 list"
  mt_uids :: "u32 list"
  mt_gids :: "u32 list"
  mt_modes :: "u32 list"
  mt_names :: "bytes list"
  mt_symlinks :: "bytes list"
  mt_timestamp_base :: nat
  mt_block_size :: u32
  mt_total_fs_size :: nat
  mt_devices :: "nat list"
  mt_options :: fs_options
  mt_dir_entries :: "dir_entry list"
  mt_shared_files :: "u32 list"
  mt_compact_names :: "compact_strings option"
  mt_compact_symlinks :: "compact_strings option"
  mt_separator :: "u32 option"
  mt_features :: "bytes list"
  mt_category_names :: "bytes list"
  mt_block_categories :: "u32 list"
  mt_hole_block :: "u32 option"
  mt_large_holes :: "nat list"
  mt_allocated :: "nat option"

definition column_cells :: "nat list list \<Rightarrow> nat \<Rightarrow> nat list" where
  "column_cells rows k = map (\<lambda>row. row ! k) rows"

definition table_widths :: "nat \<Rightarrow> nat list list \<Rightarrow> nat list" where
  "table_widths n rows = map (\<lambda>k. column_width (column_cells rows k)) [0..<n]"

definition table_array :: "int list \<Rightarrow> nat list list \<Rightarrow> array" where
  "table_array ids rows = Rows (zip ids (table_widths (length ids) rows)) rows"

definition int_array :: "nat list \<Rightarrow> array" where
  "int_array vs = Ints (column_width vs) vs"

definition one_int :: "nat \<Rightarrow> slot" where
  "one_int v = SInt (bit_length v) v"

definition opt_int :: "nat option \<Rightarrow> slot" where
  "opt_int v = SOptInt (case v of None \<Rightarrow> 0 | Some x \<Rightarrow> bit_length x) v"

definition opt_table :: "compact_strings option \<Rightarrow> slot" where
  "opt_table c = (case c of None \<Rightarrow> STable False no_strings | Some c \<Rightarrow> STable True c)"

definition metadata_slots :: "metadata_tables \<Rightarrow> slots" where
  "metadata_slots t =
     [(ID_CHUNKS, SList False (table_array CHUNK_COLUMNS (map chunk_row (mt_chunks t)))),
      (ID_DIRECTORIES, SList False (table_array DIRECTORY_COLUMNS (map directory_row (mt_directories t)))),
      (ID_INODES, SList False (table_array INODE_COLUMNS (map inode_row (mt_inodes t)))),
      (ID_CHUNK_TABLE, SList False (int_array (map unat (mt_chunk_table t)))),
      (ID_SYMLINK_TABLE, SList False (int_array (map unat (mt_symlink_table t)))),
      (ID_UIDS, SList False (int_array (map unat (mt_uids t)))),
      (ID_GIDS, SList False (int_array (map unat (mt_gids t)))),
      (ID_MODES, SList False (int_array (map unat (mt_modes t)))),
      (ID_NAMES, SList False (Strs (mt_names t))),
      (ID_SYMLINKS, SList False (Strs (mt_symlinks t))),
      (ID_TIMESTAMP_BASE, one_int (mt_timestamp_base t)),
      (ID_BLOCK_SIZE, one_int (unat (mt_block_size t))),
      (ID_TOTAL_FS_SIZE, one_int (mt_total_fs_size t)),
      (ID_DEVICES, SList True (int_array (mt_devices t))),
      (ID_OPTIONS, SOptions (mt_options t)),
      (ID_DIR_ENTRIES, SList True (table_array DIR_ENTRY_COLUMNS (map dir_entry_row (mt_dir_entries t)))),
      (ID_SHARED_FILES_TABLE, SList True (int_array (map unat (mt_shared_files t)))),
      (ID_COMPACT_NAMES, opt_table (mt_compact_names t)),
      (ID_COMPACT_SYMLINKS, opt_table (mt_compact_symlinks t)),
      (ID_PREFERRED_PATH_SEPARATOR, opt_int (map_option unat (mt_separator t))),
      (ID_FEATURES, SList True (Strs (mt_features t))),
      (ID_CATEGORY_NAMES, SList True (Strs (mt_category_names t))),
      (ID_BLOCK_CATEGORIES, SList True (int_array (map unat (mt_block_categories t)))),
      (ID_HOLE_BLOCK_INDEX, opt_int (map_option unat (mt_hole_block t))),
      (ID_LARGE_HOLE_SIZE, SList True (int_array (mt_large_holes t))),
      (ID_TOTAL_ALLOCATED_FS_SIZE, opt_int (mt_allocated t))]"

definition metadata_schema :: "metadata_tables \<Rightarrow> schema" where
  "metadata_schema t = write_schema (metadata_slots t)"

definition metadata_blob :: "metadata_tables \<Rightarrow> bytes" where
  "metadata_blob t = write_blob (metadata_slots t)"

text \<open>64-bit values in range, lists within the reader's cap, names of features and categories in UTF-8.\<close>

definition inode_fits :: "inode_data \<Rightarrow> bool" where
  "inode_fits i \<longleftrightarrow> list_all (\<lambda>v. v < 2 ^ 64) (inode_row i)"

definition lengths_fit :: "metadata_tables \<Rightarrow> bool" where
  "lengths_fit t \<longleftrightarrow> list_all (\<lambda>n. n \<le> DEFAULT_LIST_CAP)
     [length (mt_chunks t), length (mt_directories t), length (mt_inodes t), length (mt_chunk_table t),
      length (mt_symlink_table t), length (mt_uids t), length (mt_gids t), length (mt_modes t),
      length (mt_names t), length (mt_symlinks t), length (mt_devices t), length (mt_dir_entries t),
      length (mt_shared_files t), length (mt_features t), length (mt_category_names t),
      length (mt_block_categories t), length (mt_large_holes t)]
     \<and> (\<forall>c. mt_compact_names t = Some c \<or> mt_compact_symlinks t = Some c \<longrightarrow>
          length (cp_index c) \<le> DEFAULT_LIST_CAP)"

definition tables_fit :: "metadata_tables \<Rightarrow> bool" where
  "tables_fit t \<longleftrightarrow> lengths_fit t \<and> list_all inode_fits (mt_inodes t)
     \<and> list_all (\<lambda>v. v < 2 ^ 64) (mt_timestamp_base t # mt_total_fs_size t # mt_devices t @ mt_large_holes t)
     \<and> (\<forall>v. mt_allocated t = Some v \<longrightarrow> v < 2 ^ 64)
     \<and> list_all utf8_valid (mt_features t @ mt_category_names t)
     \<and> length (metadata_blob t) < 2 ^ 32"

subsection \<open>Every slot fits\<close>

lemma length_table_widths [simp]: "length (table_widths n rows) = n"
  by (simp add: table_widths_def)

lemma table_fits_array:
  assumes "sorted_wrt (<) ids" "list_all i16 ids" "length ids \<le> 20" "length rows \<le> DEFAULT_LIST_CAP"
    "list_all (\<lambda>row. length row = length ids \<and> list_all (\<lambda>v. v < 2 ^ 64) row) rows"
  shows "array_fits (table_array ids rows)"
proof -
  let ?ws = "table_widths (length ids) rows"
  have cell: "row ! k < 2 ^ (?ws ! k)" if "row \<in> set rows" "k < length ids" for row k
    using that column_width_fits [of "row ! k" "column_cells rows k"] by (simp add: table_widths_def column_cells_def)
  have "column_width (column_cells rows k) \<le> 64" if "k < length ids" for k
    using assms(5) that by (intro column_width_le) (auto simp: column_cells_def list_all_iff)
  then have "list_all (\<lambda>w. w \<le> 64) ?ws" by (simp add: table_widths_def list_all_iff)
  moreover have "list_all (\<lambda>row. list_all2 (\<lambda>(fid, w) v. v < 2 ^ w) (zip ids ?ws) row) rows"
    using assms(5) cell by (auto simp: list_all_iff list_all2_conv_all_nth)
  ultimately show ?thesis using assms(1-4) by (simp add: table_array_def i16_map_def list_all_iff)
qed

lemma ints_fit: "(\<And>v. v \<in> set vs \<Longrightarrow> v < 2 ^ 64) \<Longrightarrow> length vs \<le> DEFAULT_LIST_CAP \<Longrightarrow> array_fits (int_array vs)"
  by (simp add: int_array_def column_width_fits column_width_le)

lemma one_int_fits: "v < 2 ^ 64 \<Longrightarrow> slot_fits (one_int v)"
  by (simp add: one_int_def bit_length_less bit_length_le)

lemma opt_int_fits: "(\<And>x. v = Some x \<Longrightarrow> x < 2 ^ 64) \<Longrightarrow> slot_fits (opt_int v)"
  by (cases v) (simp_all add: opt_int_def bit_length_less bit_length_le)

lemma opt_table_fits:
  "(\<And>x. c = Some x \<Longrightarrow> length (cp_index x) \<le> DEFAULT_LIST_CAP) \<Longrightarrow> slot_fits (opt_table c)"
  by (cases c) (simp_all add: opt_table_def no_strings_def)

lemma u32_fits64: "unat (x :: u32) < 2 ^ 64"
  using unat_u32_less [of x] by simp

lemma u32_ints_fit: "length vs \<le> DEFAULT_LIST_CAP \<Longrightarrow> array_fits (int_array (map unat (vs :: u32 list)))"
  by (rule ints_fit) (use u32_fits64 in auto)

lemma rows_fit:
  "list_all (\<lambda>row. length row = length CHUNK_COLUMNS \<and> list_all (\<lambda>v. v < 2 ^ 64) row) (map chunk_row cs)"
  "list_all (\<lambda>row. length row = length DIRECTORY_COLUMNS \<and> list_all (\<lambda>v. v < 2 ^ 64) row) (map directory_row ds)"
  "list_all (\<lambda>row. length row = length DIR_ENTRY_COLUMNS \<and> list_all (\<lambda>v. v < 2 ^ 64) row) (map dir_entry_row es)"
  "list_all inode_fits is \<Longrightarrow>
     list_all (\<lambda>row. length row = length INODE_COLUMNS \<and> list_all (\<lambda>v. v < 2 ^ 64) row) (map inode_row is)"
  unfolding list_all_iff by (auto simp: chunk_row_def directory_row_def dir_entry_row_def inode_row_def
    inode_fits_def column_defs intro: u32_fits64 [simplified])

lemma column_ids:
  "sorted_wrt (<) CHUNK_COLUMNS" "list_all i16 CHUNK_COLUMNS" "length CHUNK_COLUMNS \<le> 20"
  "sorted_wrt (<) DIRECTORY_COLUMNS" "list_all i16 DIRECTORY_COLUMNS" "length DIRECTORY_COLUMNS \<le> 20"
  "sorted_wrt (<) DIR_ENTRY_COLUMNS" "list_all i16 DIR_ENTRY_COLUMNS" "length DIR_ENTRY_COLUMNS \<le> 20"
  "sorted_wrt (<) INODE_COLUMNS" "list_all i16 INODE_COLUMNS" "length INODE_COLUMNS \<le> 20"
  by (simp_all add: column_defs i16_def)

lemmas root_ids =
  ID_CHUNKS_def ID_DIRECTORIES_def ID_INODES_def ID_CHUNK_TABLE_def ID_SYMLINK_TABLE_def ID_UIDS_def
  ID_GIDS_def ID_MODES_def ID_NAMES_def ID_SYMLINKS_def ID_TIMESTAMP_BASE_def ID_BLOCK_SIZE_def
  ID_TOTAL_FS_SIZE_def ID_DEVICES_def ID_OPTIONS_def ID_DIR_ENTRIES_def ID_SHARED_FILES_TABLE_def
  ID_COMPACT_NAMES_def ID_COMPACT_SYMLINKS_def ID_PREFERRED_PATH_SEPARATOR_def ID_FEATURES_def ID_CATEGORY_NAMES_def ID_BLOCK_CATEGORIES_def
  ID_HOLE_BLOCK_INDEX_def ID_LARGE_HOLE_SIZE_def ID_TOTAL_ALLOCATED_FS_SIZE_def

lemma metadata_ids: "map fst (metadata_slots t)
  = [1, 2, 3, 4, 6, 7, 8, 9, 10, 11, 12, 15, 16, 17, 18, 19, 20, 24, 25, 26, 27, 28, 29, 34, 35, 36]"
  by (simp add: metadata_slots_def root_ids)

lemma metadata_slots_fit:
  assumes "tables_fit t"
  shows "slots_fit (metadata_slots t)"
proof -
  have len: "lengths_fit t" and rest: "list_all inode_fits (mt_inodes t)"
    "\<And>v. v \<in> set (mt_timestamp_base t # mt_total_fs_size t # mt_devices t @ mt_large_holes t) \<Longrightarrow> v < 2 ^ 64"
    "\<And>v. mt_allocated t = Some v \<Longrightarrow> v < 2 ^ 64" "length (metadata_blob t) < 2 ^ 32"
    using assms unfolding tables_fit_def list_all_iff by blast+
  note n = len [unfolded lengths_fit_def, simplified]
  have "slot_fits (opt_table (mt_compact_names t))" "slot_fits (opt_table (mt_compact_symlinks t))"
    by (rule opt_table_fits, use n in simp)+
  moreover have "array_fits (table_array CHUNK_COLUMNS (map chunk_row (mt_chunks t)))"
    "array_fits (table_array DIRECTORY_COLUMNS (map directory_row (mt_directories t)))"
    "array_fits (table_array INODE_COLUMNS (map inode_row (mt_inodes t)))"
    "array_fits (table_array DIR_ENTRY_COLUMNS (map dir_entry_row (mt_dir_entries t)))"
    by (rule table_fits_array [OF column_ids(1-3) _ rows_fit(1)] table_fits_array [OF column_ids(4-6) _ rows_fit(2)]
        table_fits_array [OF column_ids(10-12) _ rows_fit(4) [OF rest(1)]]
        table_fits_array [OF column_ids(7-9) _ rows_fit(3)], simp add: n)+
  moreover have "array_fits (int_array (mt_devices t))" "array_fits (int_array (mt_large_holes t))"
    by (rule ints_fit; use rest(2) n in simp)+
  moreover have "slot_fits (one_int (mt_timestamp_base t))" "slot_fits (one_int (unat (mt_block_size t)))"
    "slot_fits (one_int (mt_total_fs_size t))"
    by (rule one_int_fits, use rest(2) u32_fits64 in simp)+
  moreover have "slot_fits (opt_int (map_option unat (mt_separator t)))"
    "slot_fits (opt_int (map_option unat (mt_hole_block t)))" "slot_fits (opt_int (mt_allocated t))"
    by (rule opt_int_fits, use rest(3) u32_fits64 in auto)+
  ultimately have "list_all slot_fits (map snd (metadata_slots t))"
    by (simp add: metadata_slots_def u32_ints_fit n)
  moreover have "\<forall>fid \<in> set (map fst (metadata_slots t)). 0 < fid \<and> fid < 100"
    "sorted_wrt (<) (map fst (metadata_slots t))" unfolding metadata_ids by simp_all
  ultimately show ?thesis
    using rest(4) by (fastforce simp: slots_fit_def list_all_iff metadata_blob_def)
qed

subsection \<open>What was written is read\<close>

definition string_table_of :: "bytes list \<Rightarrow> string_table" where
  "string_table_of ss = \<lparr>tb_data = concat ss, tb_offsets = String_Table.offsets_of ss\<rparr>"

lemma metadata_slot_stored:
  assumes "tables_fit t" "(fid, s) \<in> set (metadata_slots t)"
  obtains b p where "stored (written_metadata (metadata_slots t)) fid s b p"
  using written_slots_stored [OF metadata_slots_fit [OF assms(1)] assms(2)] by blast

lemma slot_data_in_blob:
  assumes "(fid, s) \<in> set ss"
  shows "length (slot_data s) \<le> length (write_blob ss)"
proof -
  from assms obtain xs ys where "ss = xs @ (fid, s) # ys" by (auto dest: split_list)
  then show ?thesis by (simp add: write_blob_def slots_data_def)
qed

lemma strings_in_blob:
  assumes "tables_fit t" "(fid, SList opt (Strs ss)) \<in> set (metadata_slots t)"
  shows "length (concat ss) < 2 ^ 32"
proof -
  have "length (concat ss) \<le> length (metadata_blob t)"
    using slot_data_in_blob [OF assms(2)] by (simp add: metadata_blob_def)
  moreover have "length (metadata_blob t) < 2 ^ 32"
    using assms(1) unfolding tables_fit_def by (elim conjE)
  ultimately show ?thesis by (rule le_less_trans)
qed

lemma metadata_members:
  shows "(ID_CHUNKS, SList False (table_array CHUNK_COLUMNS (map chunk_row (mt_chunks t)))) \<in> set (metadata_slots t)"
    "(ID_DIRECTORIES, SList False (table_array DIRECTORY_COLUMNS (map directory_row (mt_directories t)))) \<in> set (metadata_slots t)"
    "(ID_INODES, SList False (table_array INODE_COLUMNS (map inode_row (mt_inodes t)))) \<in> set (metadata_slots t)"
    "(ID_CHUNK_TABLE, SList False (int_array (map unat (mt_chunk_table t)))) \<in> set (metadata_slots t)"
    "(ID_SYMLINK_TABLE, SList False (int_array (map unat (mt_symlink_table t)))) \<in> set (metadata_slots t)"
    "(ID_UIDS, SList False (int_array (map unat (mt_uids t)))) \<in> set (metadata_slots t)"
    "(ID_GIDS, SList False (int_array (map unat (mt_gids t)))) \<in> set (metadata_slots t)"
    "(ID_MODES, SList False (int_array (map unat (mt_modes t)))) \<in> set (metadata_slots t)"
    "(ID_NAMES, SList False (Strs (mt_names t))) \<in> set (metadata_slots t)"
    "(ID_SYMLINKS, SList False (Strs (mt_symlinks t))) \<in> set (metadata_slots t)"
    "(ID_TIMESTAMP_BASE, one_int (mt_timestamp_base t)) \<in> set (metadata_slots t)"
    "(ID_BLOCK_SIZE, one_int (unat (mt_block_size t))) \<in> set (metadata_slots t)"
    "(ID_TOTAL_FS_SIZE, one_int (mt_total_fs_size t)) \<in> set (metadata_slots t)"
    "(ID_DEVICES, SList True (int_array (mt_devices t))) \<in> set (metadata_slots t)"
    "(ID_OPTIONS, SOptions (mt_options t)) \<in> set (metadata_slots t)"
    "(ID_DIR_ENTRIES, SList True (table_array DIR_ENTRY_COLUMNS (map dir_entry_row (mt_dir_entries t)))) \<in> set (metadata_slots t)"
    "(ID_SHARED_FILES_TABLE, SList True (int_array (map unat (mt_shared_files t)))) \<in> set (metadata_slots t)"
    "(ID_COMPACT_NAMES, opt_table (mt_compact_names t)) \<in> set (metadata_slots t)"
    "(ID_COMPACT_SYMLINKS, opt_table (mt_compact_symlinks t)) \<in> set (metadata_slots t)"
    "(ID_PREFERRED_PATH_SEPARATOR, opt_int (map_option unat (mt_separator t))) \<in> set (metadata_slots t)"
    "(ID_FEATURES, SList True (Strs (mt_features t))) \<in> set (metadata_slots t)"
    "(ID_CATEGORY_NAMES, SList True (Strs (mt_category_names t))) \<in> set (metadata_slots t)"
    "(ID_BLOCK_CATEGORIES, SList True (int_array (map unat (mt_block_categories t)))) \<in> set (metadata_slots t)"
    "(ID_HOLE_BLOCK_INDEX, opt_int (map_option unat (mt_hole_block t))) \<in> set (metadata_slots t)"
    "(ID_LARGE_HOLE_SIZE, SList True (int_array (mt_large_holes t))) \<in> set (metadata_slots t)"
    "(ID_TOTAL_ALLOCATED_FS_SIZE, opt_int (mt_allocated t)) \<in> set (metadata_slots t)"
  by (simp_all add: metadata_slots_def)

lemma written_ints:
  assumes "tables_fit t" "m = written_metadata (metadata_slots t)"
  shows "timestamp_base m = Inr (mt_timestamp_base t)" "block_size m = Inr (mt_block_size t)"
    "total_fs_size m = Inr (mt_total_fs_size t)" "total_allocated_fs_size m = Inr (mt_allocated t)"
    "preferred_path_separator m = Inr (mt_separator t)" "hole_block_index m = Inr (mt_hole_block t)"
proof -
  note slot = metadata_slot_stored [OF assms(1), folded assms(2)]
  show "timestamp_base m = Inr (mt_timestamp_base t)"
    by (rule slot [OF metadata_members(11)]) (auto simp: one_int_def timestamp_base_def dest: stored_int)
  show "block_size m = Inr (mt_block_size t)"
    by (rule slot [OF metadata_members(12)]) (auto simp: one_int_def block_size_def dest: stored_int)
  show "total_fs_size m = Inr (mt_total_fs_size t)"
    by (rule slot [OF metadata_members(13)]) (auto simp: one_int_def total_fs_size_def dest: stored_int)
  show "total_allocated_fs_size m = Inr (mt_allocated t)"
    by (rule slot [OF metadata_members(26)]) (auto simp: opt_int_def total_allocated_fs_size_def dest: stored_optional_int)
  show "preferred_path_separator m = Inr (mt_separator t)"
    by (rule slot [OF metadata_members(20)]) (auto simp: opt_int_def dest: stored_separator)
  show "hole_block_index m = Inr (mt_hole_block t)"
    by (rule slot [OF metadata_members(24)]) (auto simp: opt_int_def dest: stored_hole_block)
qed

lemma written_list:
  assumes "tables_fit t" "m = written_metadata (metadata_slots t)"
    and "(fid, SList opt (int_array vs)) \<in> set (metadata_slots t)"
  shows "read_int_list m fid DEFAULT_LIST_CAP = Inr vs"
    and "vs = map unat (ws :: u32 list) \<Longrightarrow> read_u32_list m fid = Inr ws"
proof -
  obtain b p where "stored m fid (SList opt (int_array vs)) b p"
    using metadata_slot_stored [OF assms(1,3)] assms(2) by blast
  from stored_int_list [OF this [unfolded int_array_def]]
  show r: "read_int_list m fid DEFAULT_LIST_CAP = Inr vs" .
  show "read_u32_list m fid = Inr ws" if "vs = map unat (ws :: u32 list)"
    using r that by (simp add: read_u32_list_def try_map_Inr)
qed

lemma written_lists:
  assumes "tables_fit t" "m = written_metadata (metadata_slots t)"
  shows "modes m = Inr (mt_modes t)" "uids m = Inr (mt_uids t)" "gids m = Inr (mt_gids t)"
    "chunk_table_raw m = Inr (mt_chunk_table t)" "symlink_table m = Inr (mt_symlink_table t)"
    "read_u32_list m ID_SHARED_FILES_TABLE = Inr (mt_shared_files t)"
    "large_hole_size m = Inr (mt_large_holes t)" "devices m = Inr (mt_devices t)"
    "block_categories m = Inr (mt_block_categories t)"
proof -
  note u32s = written_list(2) [OF assms _ refl] and lists = written_list(1) [OF assms]
  show "modes m = Inr (mt_modes t)" "uids m = Inr (mt_uids t)" "gids m = Inr (mt_gids t)"
    "chunk_table_raw m = Inr (mt_chunk_table t)" "symlink_table m = Inr (mt_symlink_table t)"
    "read_u32_list m ID_SHARED_FILES_TABLE = Inr (mt_shared_files t)"
    unfolding modes_def uids_def gids_def chunk_table_raw_def symlink_table_def
    by (rule u32s, rule metadata_members)+
  show "large_hole_size m = Inr (mt_large_holes t)" "devices m = Inr (mt_devices t)"
    unfolding large_hole_size_def devices_def by (rule lists, rule metadata_members)+
  show "block_categories m = Inr (mt_block_categories t)"
    using lists [OF metadata_members(23)] by (simp add: block_categories_def try_map_Inr)
qed

lemma written_structs:
  assumes "tables_fit t" "m = written_metadata (metadata_slots t)"
  shows "md_chunks m = Inr (mt_chunks t)" "md_directories m = Inr (mt_directories t)"
    "md_inodes m = Inr (mt_inodes t)" "md_dir_entries m = Inr (mt_dir_entries t)"
    "md_fs_options m = Inr (mt_options t)"
proof -
  note slot = metadata_slot_stored [OF assms(1), folded assms(2)]
  show "md_chunks m = Inr (mt_chunks t)"
    by (rule slot [OF metadata_members(1)])
      (simp only: table_array_def, erule stored_chunks, simp add: column_defs)
  show "md_directories m = Inr (mt_directories t)"
    by (rule slot [OF metadata_members(2)])
      (simp only: table_array_def, erule stored_directories, simp add: column_defs)
  show "md_inodes m = Inr (mt_inodes t)"
    by (rule slot [OF metadata_members(3)])
      (simp only: table_array_def, erule stored_inodes, simp add: column_defs)
  show "md_dir_entries m = Inr (mt_dir_entries t)"
    by (rule slot [OF metadata_members(16)])
      (simp only: table_array_def, erule stored_dir_entries, simp add: column_defs)
  show "md_fs_options m = Inr (mt_options t)"
    by (rule slot [OF metadata_members(15)]) (erule stored_options)
qed

definition names_of :: "bytes list \<Rightarrow> compact_strings option \<Rightarrow> string_table result" where
  "names_of ss c =
     (case c of
        None \<Rightarrow> Inr (string_table_of ss)
      | Some c \<Rightarrow> decode_string_table (cp_buffer c) (cp_symtab c) (cp_index c) (cp_packed c))"

lemma written_table:
  assumes "tables_fit t" "(fid, opt_table c) \<in> set (metadata_slots t)"
  shows "read_string_table (written_metadata (metadata_slots t)) fid
    = (case c of
         None \<Rightarrow> Inr None
       | Some c \<Rightarrow> and_then (decode_string_table (cp_buffer c) (cp_symtab c) (cp_index c) (cp_packed c))
                     (\<lambda>t. Inr (Some t)))"
  by (rule metadata_slot_stored [OF assms])
    (cases c; auto simp: opt_table_def no_strings_def dest!: stored_string_table)

lemma some_or_else: "and_then (and_then x (\<lambda>t. Inr (Some t))) (case_option y Inr) = x"
  by (cases x) simp_all

lemma written_strings:
  assumes "tables_fit t" "m = written_metadata (metadata_slots t)"
  shows "md_names m = names_of (mt_names t) (mt_compact_names t)"
    "md_symlinks m = names_of (mt_symlinks t) (mt_compact_symlinks t)"
    "md_features m = Inr (mt_features t)" "category_names m = Inr (mt_category_names t)"
proof -
  note slot = metadata_slot_stored [OF assms(1), folded assms(2)]
  have "read_plain_string_list m ID_NAMES = Inr (string_table_of (mt_names t))"
    by (rule slot [OF metadata_members(9)])
      (simp only: string_table_of_def, erule stored_names, rule strings_in_blob [OF assms(1)], rule metadata_members)
  then show "md_names m = names_of (mt_names t) (mt_compact_names t)"
    using written_table [OF assms(1) metadata_members(18)] assms(2)
    by (auto simp: md_names_def names_of_def some_or_else split: option.split)
  have "read_plain_string_list m ID_SYMLINKS = Inr (string_table_of (mt_symlinks t))"
    by (rule slot [OF metadata_members(10)])
      (simp only: string_table_of_def, erule stored_names, rule strings_in_blob [OF assms(1)], rule metadata_members)
  then show "md_symlinks m = names_of (mt_symlinks t) (mt_compact_symlinks t)"
    using written_table [OF assms(1) metadata_members(19)] assms(2)
    by (auto simp: md_symlinks_def names_of_def some_or_else split: option.split)
  have utf8: "list_all utf8_valid (mt_features t)" "list_all utf8_valid (mt_category_names t)"
    using assms(1) unfolding tables_fit_def by auto
  show "md_features m = Inr (mt_features t)"
    by (rule slot [OF metadata_members(21)]) (simp only: md_features_def, erule stored_optional_strings [OF _ utf8(1)])
  show "category_names m = Inr (mt_category_names t)"
    by (rule slot [OF metadata_members(22)]) (simp only: category_names_def, erule stored_optional_strings [OF _ utf8(2)])
qed

lemmas written_tables = written_ints written_lists written_structs written_strings

end
