(* ===== verification/Section_Types.thy ===== *)
theory Section_Types
  imports Errors
begin

text \<open>
  \<open>src/src/format/types.rs\<close>: the section-type and compression enums and their numeric codes.
  Unrecognised codes are kept verbatim, so an image carrying one still opens. The source's two
  \<open>Unknown\<close> constructors and \<open>Compression::None\<close> are renamed apart.
\<close>

datatype section_type =
    Block
  | MetadataV2Schema
  | MetadataV2
  | SectionIndex
  | History
  | UnknownSection u16

datatype compression =
    NoCompression
  | Lzma
  | Zstd
  | Lz4
  | Lz4Hc
  | Brotli
  | Flac
  | Ricepp
  | UnknownCodec u16

definition section_type_from_u16 :: "u16 \<Rightarrow> section_type" where
  "section_type_from_u16 value =
     (if value = 0 then Block
      else if value = 7 then MetadataV2Schema
      else if value = 8 then MetadataV2
      else if value = 9 then SectionIndex
      else if value = 10 then History
      else UnknownSection value)"

fun section_type_as_u16 :: "section_type \<Rightarrow> u16" where
  "section_type_as_u16 Block = 0"
| "section_type_as_u16 MetadataV2Schema = 7"
| "section_type_as_u16 MetadataV2 = 8"
| "section_type_as_u16 SectionIndex = 9"
| "section_type_as_u16 History = 10"
| "section_type_as_u16 (UnknownSection value) = value"

definition compression_from_u16 :: "u16 \<Rightarrow> compression" where
  "compression_from_u16 value =
     (if value = 0 then NoCompression
      else if value = 1 then Lzma
      else if value = 2 then Zstd
      else if value = 3 then Lz4
      else if value = 4 then Lz4Hc
      else if value = 5 then Brotli
      else if value = 6 then Flac
      else if value = 7 then Ricepp
      else UnknownCodec value)"

fun compression_as_u16 :: "compression \<Rightarrow> u16" where
  "compression_as_u16 NoCompression = 0"
| "compression_as_u16 Lzma = 1"
| "compression_as_u16 Zstd = 2"
| "compression_as_u16 Lz4 = 3"
| "compression_as_u16 Lz4Hc = 4"
| "compression_as_u16 Brotli = 5"
| "compression_as_u16 Flac = 6"
| "compression_as_u16 Ricepp = 7"
| "compression_as_u16 (UnknownCodec value) = value"

text \<open>
  A value is canonical when its \<open>Unknown\<close> case is not used for a code that has a name of its
  own; every value the parser produces is canonical.
\<close>

definition canonical_section_type :: "section_type \<Rightarrow> bool" where
  "canonical_section_type t = (section_type_from_u16 (section_type_as_u16 t) = t)"

definition canonical_compression :: "compression \<Rightarrow> bool" where
  "canonical_compression c = (compression_from_u16 (compression_as_u16 c) = c)"

lemma section_type_as_from [simp]: "section_type_as_u16 (section_type_from_u16 v) = v"
  by (simp add: section_type_from_u16_def)

lemma compression_as_from [simp]: "compression_as_u16 (compression_from_u16 v) = v"
  by (simp add: compression_from_u16_def)

lemma canonical_section_type_from [simp]: "canonical_section_type (section_type_from_u16 v)"
  by (simp add: canonical_section_type_def)

lemma canonical_compression_from [simp]: "canonical_compression (compression_from_u16 v)"
  by (simp add: canonical_compression_def)

lemma canonical_section_type_iff:
  "canonical_section_type t \<longleftrightarrow> (\<forall>v. t = UnknownSection v \<longrightarrow> v \<notin> {0, 7, 8, 9, 10})"
  by (cases t) (auto simp: canonical_section_type_def section_type_from_u16_def)

lemma canonical_compression_iff:
  "canonical_compression c \<longleftrightarrow> (\<forall>v. c = UnknownCodec v \<longrightarrow> v \<notin> {0, 1, 2, 3, 4, 5, 6, 7})"
  by (cases c) (auto simp: canonical_compression_def compression_from_u16_def)

lemma section_type_from_u16_inj: "section_type_from_u16 v = section_type_from_u16 w \<Longrightarrow> v = w"
  by (metis section_type_as_from)

end
