(* ===== verification/Section_Header.thy ===== *)
theory Section_Header
  imports Section_Types
begin

text \<open>
  \<open>src/src/format/header.rs\<close>: the 64-byte section header, its parser, its writer and the
  on-disk length of a section. Offsets given to the parser only enrich errors.
\<close>

definition MAGIC :: bytes where
  "MAGIC = [0x44, 0x57, 0x41, 0x52, 0x46, 0x53]"

definition SUPPORTED_MAJOR :: byte where "SUPPORTED_MAJOR = 2"

definition SUPPORTED_MINOR :: byte where "SUPPORTED_MINOR = 6"

definition HEADER_LEN :: nat where "HEADER_LEN = 64"

definition SHA_COVER_START :: nat where "SHA_COVER_START = 0x28"

definition XXH_COVER_START :: nat where "XXH_COVER_START = 0x30"

lemmas header_consts [simp] =
  HEADER_LEN_def SHA_COVER_START_def XXH_COVER_START_def SUPPORTED_MAJOR_def SUPPORTED_MINOR_def

lemma length_MAGIC [simp]: "length MAGIC = 6"
  by (simp add: MAGIC_def)

record section_header =
  sh_major :: byte
  sh_minor :: byte
  sh_sha512_256 :: bytes
  sh_xxh3_64 :: u64
  sh_number :: u32
  sh_section_type :: section_type
  sh_compression :: compression
  sh_payload_len :: u64

definition parse_header :: "bytes \<Rightarrow> nat \<Rightarrow> section_header result" where
  "parse_header bytes offset =
     (if length bytes < HEADER_LEN then Inl (TruncatedHeader offset)
      else if subslice bytes 0 6 \<noteq> MAGIC then Inl (BadMagic offset)
      else let major = bytes ! 6; minor = bytes ! 7 in
        if major \<noteq> SUPPORTED_MAJOR \<or> SUPPORTED_MINOR < minor
        then Inl (UnsupportedVersion major minor)
        else Inr
          \<lparr>sh_major = major,
           sh_minor = minor,
           sh_sha512_256 = subslice bytes 0x08 0x28,
           sh_xxh3_64 = from_le_bytes (subslice bytes 0x28 0x30),
           sh_number = from_le_bytes (subslice bytes 0x30 0x34),
           sh_section_type = section_type_from_u16 (from_le_bytes (subslice bytes 0x34 0x36)),
           sh_compression = compression_from_u16 (from_le_bytes (subslice bytes 0x36 0x38)),
           sh_payload_len = from_le_bytes (subslice bytes 0x38 0x40)\<rparr>)"

definition section_len :: "section_header \<Rightarrow> nat" where
  "section_len h = saturating_add64 HEADER_LEN (unat (sh_payload_len h))"

definition write_header :: "section_header \<Rightarrow> bytes" where
  "write_header h =
     MAGIC @ [sh_major h, sh_minor h] @ sh_sha512_256 h @ to_le_bytes (sh_xxh3_64 h)
     @ to_le_bytes (sh_number h) @ to_le_bytes (section_type_as_u16 (sh_section_type h))
     @ to_le_bytes (compression_as_u16 (sh_compression h)) @ to_le_bytes (sh_payload_len h)"

text \<open>
  What the types of the source guarantee (\<open>[u8; 32]\<close>), and what makes a header one that this
  build writes and reads back.
\<close>

definition wf_header :: "section_header \<Rightarrow> bool" where
  "wf_header h = (length (sh_sha512_256 h) = 32)"

definition supported_header :: "section_header \<Rightarrow> bool" where
  "supported_header h \<longleftrightarrow>
     wf_header h \<and> sh_major h = SUPPORTED_MAJOR \<and> sh_minor h \<le> SUPPORTED_MINOR
     \<and> canonical_section_type (sh_section_type h) \<and> canonical_compression (sh_compression h)"

lemma length_write_header [simp]: "wf_header h \<Longrightarrow> length (write_header h) = 64"
  by (simp add: write_header_def wf_header_def)

lemma section_len_bounds: "64 \<le> section_len h" "section_len h < 2 ^ 64"
  by (auto simp: section_len_def saturating_add64_def)

lemma section_len_exact:
  "section_len h < 2 ^ 64 - 1 \<Longrightarrow> section_len h = 64 + unat (sh_payload_len h)"
  by (auto simp: section_len_def saturating_add64_def min_def split: if_splits)

lemma parse_header_Inr_magic: "parse_header b off = Inr h \<Longrightarrow> subslice b 0 6 = MAGIC"
  by (auto simp: parse_header_def Let_def split: if_splits)

lemma parse_header_Inr_length: "parse_header b off = Inr h \<Longrightarrow> 64 \<le> length b"
  by (auto simp: parse_header_def Let_def split: if_splits)

lemma parse_header_supported: "parse_header b off = Inr h \<Longrightarrow> supported_header h"
  by (auto simp: parse_header_def Let_def supported_header_def wf_header_def not_less
      split: if_splits)

text \<open>The outcome depends on the first 64 bytes only, and on the offset only in errors.\<close>

lemma parse_header_take: "64 \<le> length b \<Longrightarrow> parse_header (take 64 b) off = parse_header b off"
  by (simp add: parse_header_def subslice_take Let_def)

lemma parse_header_offset: "parse_header b off = Inr h \<Longrightarrow> parse_header b off' = Inr h"
  by (auto simp: parse_header_def Let_def split: if_splits)

lemma parse_write_header:
  assumes "supported_header h"
  shows "parse_header (write_header h @ rest) off = Inr h"
proof -
  from assms have len: "length (sh_sha512_256 h) = 32"
    by (simp add: supported_header_def wf_header_def)
  have st: "section_type_from_u16 (section_type_as_u16 (sh_section_type h)) = sh_section_type h"
    and cp: "compression_from_u16 (compression_as_u16 (sh_compression h)) = sh_compression h"
    using assms
    by (simp_all add: supported_header_def canonical_section_type_def canonical_compression_def)
  have "subslice (write_header h @ rest) 0 6 = MAGIC"
    and "(write_header h @ rest) ! 6 = sh_major h" and "(write_header h @ rest) ! 7 = sh_minor h"
    and "subslice (write_header h @ rest) 0x08 0x28 = sh_sha512_256 h"
    and "subslice (write_header h @ rest) 0x28 0x30 = to_le_bytes (sh_xxh3_64 h)"
    and "subslice (write_header h @ rest) 0x30 0x34 = to_le_bytes (sh_number h)"
    and "subslice (write_header h @ rest) 0x34 0x36
         = to_le_bytes (section_type_as_u16 (sh_section_type h))"
    and "subslice (write_header h @ rest) 0x36 0x38
         = to_le_bytes (compression_as_u16 (sh_compression h))"
    and "subslice (write_header h @ rest) 0x38 0x40 = to_le_bytes (sh_payload_len h)"
    by (simp_all add: write_header_def subslice_def len MAGIC_def nth_append)
  moreover have "64 \<le> length (write_header h @ rest)"
    using assms by (simp add: supported_header_def)
  ultimately show ?thesis
    using assms by (simp add: parse_header_def Let_def supported_header_def st cp not_less [symmetric])
qed

lemma write_parse_header:
  assumes "parse_header b off = Inr h"
  shows "write_header h = take 64 b"
proof -
  have len: "64 \<le> length b" using assms by (rule parse_header_Inr_length)
  have h: "sh_major h = b ! 6" "sh_minor h = b ! 7" "sh_sha512_256 h = subslice b 8 40"
    "to_le_bytes (sh_xxh3_64 h) = subslice b 40 48" "to_le_bytes (sh_number h) = subslice b 48 52"
    "to_le_bytes (section_type_as_u16 (sh_section_type h)) = subslice b 52 54"
    "to_le_bytes (compression_as_u16 (sh_compression h)) = subslice b 54 56"
    "to_le_bytes (sh_payload_len h) = subslice b 56 64"
    using assms len
    by (auto simp: parse_header_def Let_def to_from_le_bytes split: if_splits)
  have two: "[b ! 6, b ! 7] = subslice b 6 8"
    using len by (auto simp: subslice_def list_eq_iff_nth_eq less_Suc_eq numeral_2_eq_2)
  have "MAGIC @ subslice b 6 8 @ subslice b 8 40 @ subslice b 40 48 @ subslice b 48 52 @ subslice b 52 54
        @ subslice b 54 56 @ subslice b 56 64 = subslice b 0 64"
    using subslice_append_subslice [of 0 6 64 b] parse_header_Inr_magic [OF assms]
    by (simp add: subslice_append_subslice)
  then show ?thesis
    by (simp add: write_header_def h two subslice_0 del: append_Cons append_Nil)
qed

end
