(* ===== verification/Image_Source.thy ===== *)
theory Image_Source
  imports Section_Header
begin

text \<open>
  \<open>src/src/format/source.rs\<close>: byte sources an image can be read from. The trait object
  \<open>dyn ImageSource\<close> is a record of its three methods; each implementation of the trait is a
  value of that record. Reading fills a buffer of a given length, so \<open>src_read_exact_at\<close> takes
  the buffer length and the offset and returns the bytes.

  The locale \<open>byte_source\<close> is the contract every client relies on: a source stands for one
  fixed byte list, serves exactly the ranges inside it, and its optional contiguous view is that
  byte list.
\<close>

record image_source =
  src_len :: nat
  src_read_exact_at :: "nat \<Rightarrow> nat \<Rightarrow> bytes result"
  src_as_slice :: "bytes option"

definition slice_at :: "bytes \<Rightarrow> nat \<Rightarrow> nat \<Rightarrow> bytes result" where
  "slice_at bs buf_len offset =
     and_then
       (ok_or
         (case checked_add64 offset buf_len of
            None \<Rightarrow> None
          | Some e \<Rightarrow> if e \<le> length bs then Some e else None)
         (SourceOutOfBounds offset buf_len (length bs)))
       (\<lambda>e. Inr (subslice bs offset e))"

definition vec_source :: "bytes \<Rightarrow> image_source" where
  "vec_source bs =
     \<lparr>src_len = length bs, src_read_exact_at = slice_at bs, src_as_slice = Some bs\<rparr>"

definition mmap_source :: "bytes \<Rightarrow> image_source" where
  "mmap_source bs =
     \<lparr>src_len = length bs, src_read_exact_at = slice_at bs, src_as_slice = Some bs\<rparr>"

text \<open>
  \<open>pread\<close> is the operating system's positional read (\<open>FileExt::read_exact_at\<close>): length and
  offset to bytes or an I/O error. \<open>flen\<close> is the file length recorded when it was opened.
\<close>

definition file_source :: "(nat \<Rightarrow> nat \<Rightarrow> bytes result) \<Rightarrow> nat \<Rightarrow> image_source" where
  "file_source pread flen =
     \<lparr>src_len = flen,
      src_read_exact_at = (\<lambda>buf_len offset.
        case checked_add64 offset buf_len of
          None \<Rightarrow> Inl (SourceOutOfBounds offset buf_len flen)
        | Some e \<Rightarrow>
            if e \<le> flen then pread buf_len offset
            else Inl (SourceOutOfBounds offset buf_len flen)),
      src_as_slice = None\<rparr>"

definition windowed_source :: "image_source \<Rightarrow> nat \<Rightarrow> nat \<Rightarrow> image_source" where
  "windowed_source inner woff wlen =
     \<lparr>src_len = wlen,
      src_read_exact_at = (\<lambda>buf_len offset.
        if (case checked_add64 offset buf_len of None \<Rightarrow> False | Some e \<Rightarrow> e \<le> wlen)
        then src_read_exact_at inner buf_len (woff + offset)
        else Inl (SourceOutOfBounds offset buf_len wlen)),
      src_as_slice =
        (case src_as_slice inner of
           None \<Rightarrow> None
         | Some bs \<Rightarrow>
             (case checked_add64 woff wlen of
                None \<Rightarrow> None
              | Some e \<Rightarrow>
                  if woff \<le> e \<and> e \<le> length bs then Some (subslice bs woff e) else None))\<rparr>"

definition windowed_new :: "image_source \<Rightarrow> nat \<Rightarrow> nat \<Rightarrow> image_source result" where
  "windowed_new inner woff wlen =
     (if (case checked_add64 woff wlen of None \<Rightarrow> False | Some e \<Rightarrow> e \<le> src_len inner)
      then Inr (windowed_source inner woff wlen)
      else Inl (SourceOutOfBounds woff wlen (src_len inner)))"

definition read_range :: "image_source \<Rightarrow> nat \<Rightarrow> nat \<Rightarrow> bytes result" where
  "read_range s offset len =
     (case checked_add64 offset len of
        None \<Rightarrow> Inl (SourceOutOfBounds offset len (src_len s))
      | Some e \<Rightarrow>
          if src_len s < e then Inl (SourceOutOfBounds offset len (src_len s))
          else (case src_as_slice s of
                  Some bs \<Rightarrow> Inr (subslice bs offset (offset + len))
                | None \<Rightarrow> src_read_exact_at s len offset))"

text \<open>The range a source of \<open>n\<close> bytes serves, with the 64-bit bound of \<open>checked_add\<close>.\<close>

definition in_bounds :: "nat \<Rightarrow> nat \<Rightarrow> nat \<Rightarrow> bool" where
  "in_bounds n offset len = (offset + len < 2 ^ 64 \<and> offset + len \<le> n)"

locale byte_source =
  fixes s :: image_source
    and content :: bytes
  assumes src_len: "src_len s = length content"
    and src_read: "src_read_exact_at s n off =
      (if in_bounds (length content) off n then Inr (subslice content off (off + n))
       else Inl (SourceOutOfBounds off n (length content)))"
    and src_slice: "src_as_slice s = None \<or> src_as_slice s = Some content"
begin

lemma read_range_eq:
  "read_range s off n =
     (if in_bounds (length content) off n then Inr (subslice content off (off + n))
      else Inl (SourceOutOfBounds off n (length content)))"
  using src_slice
  by (auto simp: read_range_def checked_add64_def src_len src_read in_bounds_def
      split: option.splits)

lemma read_range_length: "read_range s off n = Inr bs \<Longrightarrow> length bs = n"
  by (auto simp: read_range_eq in_bounds_def split: if_splits)

lemma window_byte_source:
  assumes "windowed_new s woff wlen = Inr w"
  shows "byte_source w (subslice content woff (woff + wlen))"
proof -
  from assms have fits: "woff + wlen < 2 ^ 64" "woff + wlen \<le> length content"
    and w: "w = windowed_source s woff wlen"
    by (auto simp: windowed_new_def src_len checked_add64_def split: option.splits if_splits)
  let ?c = "subslice content woff (woff + wlen)"
  have len: "length ?c = wlen" using fits by simp
  show ?thesis
  proof
    show "src_len w = length ?c" using len by (simp add: w windowed_source_def)
  next
    fix n off
    have "subslice ?c off (off + n) = subslice content (woff + off) (woff + off + n)"
      if "off + n \<le> wlen"
      using that by (rule subslice_subslice)
    with len fits show "src_read_exact_at w n off =
        (if in_bounds (length ?c) off n then Inr (subslice ?c off (off + n))
         else Inl (SourceOutOfBounds off n (length ?c)))"
      by (auto simp: w windowed_source_def checked_add64_def in_bounds_def src_read
          split: option.splits)
  next
    show "src_as_slice w = None \<or> src_as_slice w = Some ?c"
      using src_slice fits
      by (auto simp: w windowed_source_def checked_add64_def split: option.splits)
  qed
qed

end

interpretation vec_src: byte_source "vec_source bs" bs for bs
  by unfold_locales
    (auto simp: vec_source_def slice_at_def in_bounds_def checked_add64_def)

interpretation mmap_src: byte_source "mmap_source bs" bs for bs
  by unfold_locales
    (auto simp: mmap_source_def slice_at_def in_bounds_def checked_add64_def)

text \<open>A file whose positional reads return the file's bytes.\<close>

definition pread_of :: "bytes \<Rightarrow> nat \<Rightarrow> nat \<Rightarrow> bytes result" where
  "pread_of bs n off =
     (if off + n \<le> length bs then Inr (subslice bs off (off + n))
      else Inl (Io ''failed to fill whole buffer''))"

interpretation file_src: byte_source "file_source (pread_of bs) (length bs)" bs for bs
  by unfold_locales
    (auto simp: file_source_def pread_of_def in_bounds_def checked_add64_def split: option.splits)

text \<open>
  A window never touches a byte outside it: the source it opens depends on the window's bytes
  alone, whatever surrounds them.
\<close>

lemma window_isolated:
  assumes "byte_source s1 (pre1 @ body @ post1)" and "byte_source s2 (pre2 @ body @ post2)"
    and "windowed_new s1 (length pre1) (length body) = Inr w1"
    and "windowed_new s2 (length pre2) (length body) = Inr w2"
  shows "read_range w1 off n = read_range w2 off n"
proof -
  from byte_source.window_byte_source [OF assms(1,3)]
  have "byte_source w1 body" by (simp add: subslice_append_at)
  moreover from byte_source.window_byte_source [OF assms(2,4)]
  have "byte_source w2 body" by (simp add: subslice_append_at)
  ultimately show ?thesis by (simp add: byte_source.read_range_eq)
qed

end
