(* ===== verification/Detect.thy ===== *)
theory Detect
  imports Image_Source
begin

text \<open>
  \<open>src/src/format/detect.rs\<close>: locating the first section of an image that may sit behind a
  script or executable prefix. There are two scanners, one over contiguous memory
  (\<open>detect_base_offset\<close>) and one over overlapping positional reads
  (\<open>detect_base_offset_in\<close>). Both are shown to compute the same abstract scan over
  candidate positions, \<open>scan_positions\<close>, which makes them interchangeable; where the
  positional one can differ (an unchecked addition in its boundary test) is stated as well.
\<close>

definition SCAN_CHUNK :: nat where "SCAN_CHUNK = 64 * 1024"

lemma SCAN_CHUNK_gt: "5 < SCAN_CHUNK" "64 \<le> SCAN_CHUNK"
  by (simp_all add: SCAN_CHUNK_def)

subsection \<open>Finding the magic\<close>

fun find_magic :: "bytes \<Rightarrow> nat option" where
  "find_magic [] = None"
| "find_magic (b # bs) =
     (if take 6 (b # bs) = MAGIC then Some 0 else map_option Suc (find_magic bs))"

definition magic_at :: "bytes \<Rightarrow> nat \<Rightarrow> bool" where
  "magic_at bs i = (take 6 (drop i bs) = MAGIC)"

lemma magic_at_Cons [simp]: "magic_at (b # bs) (Suc i) = magic_at bs i"
  by (simp add: magic_at_def)

lemma magic_at_bound: "magic_at bs i \<Longrightarrow> i + 6 \<le> length bs"
proof -
  assume "magic_at bs i"
  then have "length (take 6 (drop i bs)) = 6" by (simp add: magic_at_def)
  then show ?thesis by simp
qed

lemma magic_at_drop: "magic_at (drop n bs) i = magic_at bs (n + i)"
  by (simp add: magic_at_def add.commute)

lemma magic_at_take:
  "magic_at (take n bs) i \<longleftrightarrow> magic_at bs i \<and> i + 6 \<le> n"
proof (cases "i + 6 \<le> n")
  case True
  then have "take 6 (drop i (take n bs)) = take 6 (drop i bs)"
    by (simp add: drop_take min_def)
  with True show ?thesis by (simp add: magic_at_def)
next
  case False
  then have "\<not> magic_at (take n bs) i" using magic_at_bound by fastforce
  with False show ?thesis by simp
qed

lemma find_magic_Some:
  "find_magic bs = Some i \<longleftrightarrow> magic_at bs i \<and> (\<forall>j < i. \<not> magic_at bs j)"
proof (induction bs arbitrary: i)
  case Nil
  show ?case using magic_at_bound [of "[]" i] by auto
next
  case (Cons b bs)
  show ?case
  proof (cases i)
    case 0
    then show ?thesis by (auto simp: magic_at_def)
  next
    case (Suc j)
    then show ?thesis by (auto simp: Cons.IH All_less_Suc2) (simp_all add: magic_at_def)
  qed
qed

lemma find_magic_None: "find_magic bs = None \<longleftrightarrow> (\<forall>i. \<not> magic_at bs i)"
proof (induction bs)
  case Nil
  show ?case using magic_at_bound [of "[]"] by fastforce
next
  case (Cons b bs)
  have "(\<forall>i. \<not> magic_at (b # bs) i) \<longleftrightarrow> \<not> magic_at (b # bs) 0 \<and> (\<forall>i. \<not> magic_at bs i)"
    by (metis magic_at_Cons not0_implies_Suc)
  with Cons show ?case by (simp add: magic_at_def)
qed

subsection \<open>The scanner over contiguous memory\<close>

definition follows_a_section_boundary :: "bytes \<Rightarrow> nat \<Rightarrow> section_header \<Rightarrow> bool" where
  "follows_a_section_boundary img pos h =
     (case checked_add64 pos (section_len h) of
        None \<Rightarrow> False
      | Some next \<Rightarrow>
          if next = length img then True
          else (case checked_add64 next (length MAGIC) of
                  None \<Rightarrow> False
                | Some magic_end \<Rightarrow>
                    if length img < magic_end then False
                    else subslice img next magic_end = MAGIC))"

definition remember_error :: "error option \<Rightarrow> error \<Rightarrow> error option" where
  "remember_error version_error err =
     (case version_error of None \<Rightarrow> Some err | Some e \<Rightarrow> Some e)"

definition scan_failed :: "error option \<Rightarrow> nat result" where
  "scan_failed version_error =
     Inl (case version_error of None \<Rightarrow> NotADwarfsImage | Some e \<Rightarrow> e)"

function detect_scan :: "bytes \<Rightarrow> nat \<Rightarrow> nat \<Rightarrow> error option \<Rightarrow> nat result" where
  "detect_scan img last_header_start probe version_error =
     (if last_header_start < probe then scan_failed version_error
      else case find_magic (drop probe img) of
        None \<Rightarrow> scan_failed version_error
      | Some rel \<Rightarrow>
          let candidate = probe + rel in
          if last_header_start < candidate then scan_failed version_error
          else case parse_header (subslice img candidate (candidate + HEADER_LEN)) candidate of
            Inr h \<Rightarrow>
              if follows_a_section_boundary img candidate h then Inr candidate
              else detect_scan img last_header_start (candidate + 1) version_error
          | Inl err \<Rightarrow>
              detect_scan img last_header_start (candidate + 1)
                (if is_UnsupportedVersion err then remember_error version_error err
                 else version_error))"
  by pat_completeness auto
termination
  by (relation "measure (\<lambda>(img, lst, probe, _). Suc lst - probe)") auto

declare detect_scan.simps [simp del]

definition detect_base_offset :: "bytes \<Rightarrow> nat result" where
  "detect_base_offset img =
     (if length img < HEADER_LEN then Inl NotADwarfsImage
      else detect_scan img (length img - HEADER_LEN) 0 None)"

subsection \<open>The scanner over positional reads\<close>

definition read_header :: "image_source \<Rightarrow> nat \<Rightarrow> section_header result" where
  "read_header s pos = and_then (src_read_exact_at s HEADER_LEN pos) (\<lambda>buf. parse_header buf pos)"

definition source_follows_a_section_boundary ::
  "image_source \<Rightarrow> nat \<Rightarrow> section_header \<Rightarrow> bool result" where
  "source_follows_a_section_boundary s pos h =
     (case checked_add64 pos (section_len h) of
        None \<Rightarrow> Inr False
      | Some next \<Rightarrow>
          let total = src_len s in
          if next = total then Inr True
          else if total < wrapping_add64 next (length MAGIC) then Inr False
          else and_then (src_read_exact_at s (length MAGIC) next) (\<lambda>magic. Inr (magic = MAGIC)))"

text \<open>
  One probe window. The result is \<open>Inl\<close> with the final answer when the scan ends inside the
  window, and \<open>Inr\<close> with the remembered version error when the window is exhausted.
\<close>

lemma find_magic_advances: "find_magic (drop pos window) = Some rel \<Longrightarrow> pos < length window"
  using magic_at_bound [of "drop pos window" rel] by (auto simp: find_magic_Some)

function detect_window ::
  "image_source \<Rightarrow> nat \<Rightarrow> nat \<Rightarrow> bytes \<Rightarrow> nat \<Rightarrow> error option \<Rightarrow> nat result + error option" where
  "detect_window s last_header_start probe window pos version_error =
     (case find_magic (drop pos window) of
        None \<Rightarrow> Inr version_error
      | Some rel \<Rightarrow>
          let candidate = probe + (pos + rel) in
          if last_header_start < candidate then Inl (scan_failed version_error)
          else case read_header s candidate of
            Inr h \<Rightarrow>
              (case source_follows_a_section_boundary s candidate h of
                 Inl e \<Rightarrow> Inl (Inl e)
               | Inr True \<Rightarrow> Inl (Inr candidate)
               | Inr False \<Rightarrow>
                   detect_window s last_header_start probe window (pos + rel + 1) version_error)
          | Inl err \<Rightarrow>
              detect_window s last_header_start probe window (pos + rel + 1)
                (if is_UnsupportedVersion err then remember_error version_error err
                 else version_error))"
  by pat_completeness auto
termination
  by (relation "measure (\<lambda>(s, lst, probe, window, pos, _). length window - pos)")
    (auto dest!: find_magic_advances)

declare detect_window.simps [simp del]

function detect_probe ::
  "image_source \<Rightarrow> nat \<Rightarrow> nat \<Rightarrow> nat \<Rightarrow> error option \<Rightarrow> nat result" where
  "detect_probe s source_len last_header_start probe version_error =
     (if last_header_start < probe then scan_failed version_error
      else let want = min SCAN_CHUNK (source_len - probe) in
        and_then (src_read_exact_at s want probe) (\<lambda>window.
          case detect_window s last_header_start probe window 0 version_error of
            Inl r \<Rightarrow> r
          | Inr version_error' \<Rightarrow>
              if want < SCAN_CHUNK then scan_failed version_error'
              else detect_probe s source_len last_header_start
                     (probe + (SCAN_CHUNK - (length MAGIC - 1))) version_error'))"
  by pat_completeness auto
termination
  by (relation "measure (\<lambda>(s, source_len, lst, probe, _). Suc lst - probe)")
    (auto simp: SCAN_CHUNK_def)

declare detect_probe.simps [simp del]

definition detect_base_offset_in :: "image_source \<Rightarrow> nat result" where
  "detect_base_offset_in s =
     (case src_as_slice s of
        Some bytes \<Rightarrow> detect_base_offset bytes
      | None \<Rightarrow>
          let source_len = src_len s in
          if source_len < HEADER_LEN then Inl NotADwarfsImage
          else detect_probe s source_len (source_len - HEADER_LEN) 0 None)"

subsection \<open>The abstract scan\<close>

datatype verdict = Accept | Reject | BadVersion error | Fail error

fun scan_positions :: "(nat \<Rightarrow> verdict) \<Rightarrow> nat list \<Rightarrow> error option \<Rightarrow> nat result" where
  "scan_positions v [] version_error = scan_failed version_error"
| "scan_positions v (p # ps) version_error =
     (case v p of
        Accept \<Rightarrow> Inr p
      | Reject \<Rightarrow> scan_positions v ps version_error
      | BadVersion e \<Rightarrow> scan_positions v ps (remember_error version_error e)
      | Fail e \<Rightarrow> Inl e)"

lemma scan_positions_skip:
  "a \<le> b \<Longrightarrow> (\<And>p. a \<le> p \<Longrightarrow> p < b \<Longrightarrow> v p = Reject) \<Longrightarrow>
   scan_positions v [a..<c] e = scan_positions v [b..<c] e"
proof (induction "b - a" arbitrary: a)
  case 0
  then show ?case by simp
next
  case (Suc n)
  then have "scan_positions v [Suc a..<c] e = scan_positions v [b..<c] e" by simp
  with Suc show ?case by (cases "a < c") (auto simp: upt_conv_Cons)
qed

lemma scan_positions_from:
  "a < c \<Longrightarrow> scan_positions v [a..<c] e =
     (case v a of
        Accept \<Rightarrow> Inr a
      | Reject \<Rightarrow> scan_positions v [Suc a..<c] e
      | BadVersion e' \<Rightarrow> scan_positions v [Suc a..<c] (remember_error e e')
      | Fail e' \<Rightarrow> Inl e')"
  by (simp add: upt_conv_Cons)

lemma scan_positions_cong:
  "(\<And>p. p \<in> set ps \<Longrightarrow> v p = w p) \<Longrightarrow> scan_positions v ps e = scan_positions w ps e"
  by (induction ps arbitrary: e) (auto split: verdict.splits)

lemma scan_positions_Inr:
  "scan_positions v [a..<c] e = Inr p \<longleftrightarrow>
     a \<le> p \<and> p < c \<and> v p = Accept \<and> (\<forall>q. a \<le> q \<and> q < p \<longrightarrow> v q \<noteq> Accept \<and> (\<forall>x. v q \<noteq> Fail x))"
proof (induction "c - a" arbitrary: a e)
  case 0
  then show ?case by (auto simp: scan_failed_def)
next
  case (Suc n)
  then have ac: "a < c" and IH: "\<And>e. scan_positions v [Suc a..<c] e = Inr p \<longleftrightarrow>
     Suc a \<le> p \<and> p < c \<and> v p = Accept \<and>
     (\<forall>q. Suc a \<le> q \<and> q < p \<longrightarrow> v q \<noteq> Accept \<and> (\<forall>x. v q \<noteq> Fail x))"
    by auto
  consider "p < a" | "p = a" | "a < p" by linarith
  then show ?case
  proof cases
    case 3
    then have "(\<forall>q. a \<le> q \<and> q < p \<longrightarrow> Q q) \<longleftrightarrow> Q a \<and> (\<forall>q. Suc a \<le> q \<and> q < p \<longrightarrow> Q q)" for Q
      by (metis Suc_leD Suc_leI le_eq_less_or_eq)
    with 3 ac show ?thesis
      by (cases "v a") (auto simp: scan_positions_from IH)
  qed (use ac IH in \<open>cases "v a"; auto simp: scan_positions_from\<close>)+
qed

text \<open>The verdict of the contiguous scanner on one position.\<close>

definition verdict_of :: "bytes \<Rightarrow> nat \<Rightarrow> verdict" where
  "verdict_of img p =
     (if \<not> magic_at img p then Reject
      else case parse_header (subslice img p (p + HEADER_LEN)) p of
        Inr h \<Rightarrow> if follows_a_section_boundary img p h then Accept else Reject
      | Inl err \<Rightarrow> if is_UnsupportedVersion err then BadVersion err else Reject)"

lemma verdict_of_at:
  "magic_at img p \<Longrightarrow> verdict_of img p =
     (case parse_header (subslice img p (p + HEADER_LEN)) p of
        Inr h \<Rightarrow> if follows_a_section_boundary img p h then Accept else Reject
      | Inl err \<Rightarrow> if is_UnsupportedVersion err then BadVersion err else Reject)"
  by (simp add: verdict_of_def)

lemma verdict_of_no_magic: "\<not> magic_at img p \<Longrightarrow> verdict_of img p = Reject"
  by (simp add: verdict_of_def)

lemma find_magic_rejects:
  assumes "find_magic (drop probe img) = Some rel" "probe \<le> p" "p < probe + rel"
  shows "\<not> magic_at img p"
proof -
  from assms(2,3) have "p - probe < rel" "probe + (p - probe) = p" by auto
  with assms(1) show ?thesis unfolding find_magic_Some by (metis magic_at_drop)
qed

lemma find_magic_none_rejects:
  "find_magic (drop probe img) = None \<Longrightarrow> probe \<le> p \<Longrightarrow> \<not> magic_at img p"
  unfolding find_magic_None by (metis le_add_diff_inverse magic_at_drop)

lemma find_magic_at: "find_magic (drop probe img) = Some rel \<Longrightarrow> magic_at img (probe + rel)"
  by (simp add: find_magic_Some magic_at_drop)

lemma detect_scan_eq:
  "detect_scan img lst probe e = scan_positions (verdict_of img) [probe..<Suc lst] e"
proof (induction img lst probe e rule: detect_scan.induct)
  case (1 img lst probe e)
  show ?case
  proof (cases "lst < probe")
    case True
    then show ?thesis by (simp add: detect_scan.simps [of img lst probe])
  next
    case False
    note le = this
    show ?thesis
    proof (cases "find_magic (drop probe img)")
      case None
      then have "scan_positions (verdict_of img) [probe..<Suc lst] e
          = scan_positions (verdict_of img) [Suc lst..<Suc lst] e"
        using le
        by (intro scan_positions_skip)
          (auto simp: verdict_of_no_magic dest: find_magic_none_rejects)
      with None le show ?thesis by (simp add: detect_scan.simps [of img lst probe] del: upt_Suc)
    next
      case (Some rel)
      let ?c = "probe + rel"
      have skip: "scan_positions (verdict_of img) [probe..<Suc lst] e
          = scan_positions (verdict_of img) [?c..<Suc lst] e"
        by (rule scan_positions_skip)
          (auto simp: verdict_of_no_magic dest: find_magic_rejects [OF Some])
      show ?thesis
      proof (cases "lst < ?c")
        case True
        with Some le skip show ?thesis
          by (simp add: detect_scan.simps [of img lst probe] del: upt_Suc)
      next
        case False
        with "1.IH" Some le skip find_magic_at [OF Some] show ?thesis
          by (simp add: detect_scan.simps [of img lst probe] scan_positions_from verdict_of_at
              Let_def del: upt_Suc split: sum.split)
      qed
    qed
  qed
qed

lemma detect_base_offset_eq:
  "64 \<le> length img \<Longrightarrow>
   detect_base_offset img = scan_positions (verdict_of img) [0..<Suc (length img - 64)] None"
  by (simp add: detect_base_offset_def detect_scan_eq)

text \<open>
  What the scanner promises: the least position whose header parses and whose section ends at
  the end of the image or at another magic.
\<close>

definition accepts :: "bytes \<Rightarrow> nat \<Rightarrow> bool" where
  "accepts img p \<longleftrightarrow>
     p + 64 \<le> length img
     \<and> (\<exists>h. parse_header (subslice img p (p + 64)) p = Inr h
            \<and> follows_a_section_boundary img p h)"

lemma parse_header_magic_at:
  "parse_header (subslice img p (p + 64)) p = Inr h \<Longrightarrow> magic_at img p"
  by (drule parse_header_Inr_magic) (simp add: magic_at_def subslice_def min_def)

lemma verdict_of_Accept:
  "p + 64 \<le> length img \<Longrightarrow> verdict_of img p = Accept \<longleftrightarrow> accepts img p"
  by (auto simp: verdict_of_def accepts_def parse_header_magic_at split: sum.splits if_splits)

lemma verdict_of_not_Fail [simp]: "verdict_of img p \<noteq> Fail e"
  by (auto simp: verdict_of_def split: sum.splits)

lemma detect_base_offset_Inr:
  "detect_base_offset img = Inr p \<longleftrightarrow> accepts img p \<and> (\<forall>q < p. \<not> accepts img q)"
proof (cases "64 \<le> length img")
  case True
  then show ?thesis
    by (auto simp: detect_base_offset_eq scan_positions_Inr verdict_of_Accept accepts_def
        simp del: upt_Suc)
next
  case False
  then show ?thesis by (auto simp: detect_base_offset_def accepts_def)
qed

definition unsupported_at :: "bytes \<Rightarrow> nat \<Rightarrow> bool" where
  "unsupported_at img p \<longleftrightarrow>
     (\<exists>e. parse_header (subslice img p (p + 64)) p = Inl e \<and> is_UnsupportedVersion e)"

lemma scan_positions_Inl:
  assumes "\<And>p e. v p \<noteq> Fail e"
  shows "scan_positions v ps None = Inl err \<Longrightarrow>
    (err = NotADwarfsImage \<and> (\<forall>p \<in> set ps. v p = Reject))
    \<or> (\<exists>us p vs. ps = us @ p # vs \<and> v p = BadVersion err \<and> (\<forall>q \<in> set us. v q = Reject))"
proof -
  have some: "scan_positions v qs (Some e) = Inl err \<Longrightarrow> err = e" for qs e
    by (induction qs) (auto simp: scan_failed_def remember_error_def assms split: verdict.splits)
  show "scan_positions v ps None = Inl err \<Longrightarrow> ?thesis"
  proof (induction ps)
    case Nil
    then show ?case by (simp add: scan_failed_def)
  next
    case (Cons p ps)
    show ?case
    proof (cases "v p")
      case (BadVersion e)
      with Cons.prems have "err = e" by (auto simp: remember_error_def dest: some)
      with BadVersion show ?thesis by fastforce
    next
      case Reject
      with Cons have "(err = NotADwarfsImage \<and> (\<forall>p \<in> set ps. v p = Reject))
        \<or> (\<exists>us q vs. ps = us @ q # vs \<and> v q = BadVersion err \<and> (\<forall>q \<in> set us. v q = Reject))"
        by simp
      with Reject show ?thesis by (metis append_Cons set_ConsD)
    qed (use Cons.prems assms in auto)
  qed
qed

lemma detect_base_offset_Inl:
  assumes "detect_base_offset img = Inl err"
  shows "(\<forall>p. \<not> accepts img p) \<and> (err = NotADwarfsImage \<or> is_UnsupportedVersion err)"
proof -
  have "\<not> accepts img p" for p
  proof
    assume "accepts img p"
    then obtain q where "accepts img q" "\<forall>r < q. \<not> accepts img r"
      by (metis exists_least_iff)
    with assms show False using detect_base_offset_Inr [of img q] by simp
  qed
  moreover have "err = NotADwarfsImage \<or> is_UnsupportedVersion err"
  proof (cases "64 \<le> length img")
    case True
    with assms have "scan_positions (verdict_of img) [0..<Suc (length img - 64)] None = Inl err"
      by (simp only: detect_base_offset_eq)
    from scan_positions_Inl [OF verdict_of_not_Fail this] show ?thesis
      by (auto simp: verdict_of_def split: sum.splits if_splits)
  next
    case False
    with assms show ?thesis by (simp add: detect_base_offset_def)
  qed
  ultimately show ?thesis by blast
qed

subsection \<open>The positional scanner computes the same scan\<close>

definition verdict_src :: "image_source \<Rightarrow> bytes \<Rightarrow> nat \<Rightarrow> verdict" where
  "verdict_src s content p =
     (if \<not> magic_at content p then Reject
      else case read_header s p of
        Inr h \<Rightarrow>
          (case source_follows_a_section_boundary s p h of
             Inl e \<Rightarrow> Fail e
           | Inr b \<Rightarrow> if b then Accept else Reject)
      | Inl err \<Rightarrow> if is_UnsupportedVersion err then BadVersion err else Reject)"

lemma verdict_src_at:
  "magic_at content p \<Longrightarrow> verdict_src s content p =
     (case read_header s p of
        Inr h \<Rightarrow>
          (case source_follows_a_section_boundary s p h of
             Inl e \<Rightarrow> Fail e
           | Inr b \<Rightarrow> if b then Accept else Reject)
      | Inl err \<Rightarrow> if is_UnsupportedVersion err then BadVersion err else Reject)"
  by (simp add: verdict_src_def)

lemma verdict_src_no_magic: "\<not> magic_at content p \<Longrightarrow> verdict_src s content p = Reject"
  by (simp add: verdict_src_def)

lemma magic_in_window:
  assumes "probe + want \<le> length content"
  shows "magic_at (subslice content probe (probe + want)) i
    \<longleftrightarrow> magic_at content (probe + i) \<and> i + 6 \<le> want"
  using assms by (simp add: subslice_def magic_at_take magic_at_drop)

lemma detect_window_eq:
  assumes window: "window = subslice content probe (probe + want)"
    and fits: "probe + want \<le> length content" "6 \<le> want"
  shows "at0 + 5 \<le> want \<Longrightarrow>
         (case detect_window s lst probe window at0 e of
            Inl r \<Rightarrow> r
          | Inr e' \<Rightarrow> scan_positions (verdict_src s content) [probe + want - 5..<Suc lst] e')
         = scan_positions (verdict_src s content) [probe + at0..<Suc lst] e"
proof (induction "length window - at0" arbitrary: at0 e rule: less_induct)
  case less
  let ?v = "verdict_src s content"
  have in_win: "magic_at window i \<longleftrightarrow> magic_at content (probe + i) \<and> i + 6 \<le> want" for i
    unfolding window by (rule magic_in_window [OF fits(1)])
  show ?case
  proof (cases "find_magic (drop at0 window)")
    case None
    have "?v p = Reject" if "probe + at0 \<le> p" "p < probe + want - 5" for p
    proof (rule verdict_src_no_magic)
      have "\<not> magic_at window (p - probe)"
        using find_magic_none_rejects [OF None] that by simp
      with that fits(2) show "\<not> magic_at content p" by (auto simp: in_win)
    qed
    then have "scan_positions ?v [probe + at0..<Suc lst] e
        = scan_positions ?v [probe + want - 5..<Suc lst] e"
      using less.prems by (intro scan_positions_skip) auto
    then show ?thesis using None by (simp add: detect_window.simps [of s lst probe] del: upt_Suc)
  next
    case (Some rel)
    let ?c = "probe + (at0 + rel)"
    have c: "magic_at content ?c" and adv: "at0 < length window"
      using find_magic_at [OF Some] find_magic_advances [OF Some] by (auto simp: in_win)
    have "?v p = Reject" if "probe + at0 \<le> p" "p < ?c" for p
    proof (rule verdict_src_no_magic)
      have "\<not> magic_at window (p - probe)"
        using find_magic_rejects [OF Some] that by simp
      moreover have "p - probe + 6 \<le> want"
        using find_magic_at [OF Some] that by (auto simp: in_win)
      ultimately show "\<not> magic_at content p" using that by (auto simp: in_win)
    qed
    then have skip: "scan_positions ?v [probe + at0..<Suc lst] e
        = scan_positions ?v [?c..<Suc lst] e"
      by (intro scan_positions_skip) auto
    show ?thesis
    proof (cases "lst < ?c")
      case True
      with Some skip show ?thesis by (simp add: detect_window.simps [of s lst probe] del: upt_Suc)
    next
      case False
      note IH = less.hyps [of "at0 + rel + 1"]
      have "at0 + rel + 1 + 5 \<le> want" using find_magic_at [OF Some] by (simp add: in_win)
      then have IH': "(case detect_window s lst probe window (Suc (at0 + rel)) e' of
            Inl r \<Rightarrow> r | Inr e' \<Rightarrow> scan_positions ?v [probe + want - 5..<Suc lst] e')
          = scan_positions ?v [Suc ?c..<Suc lst] e'" for e'
        using IH adv by simp
      have step: "scan_positions ?v [?c..<Suc lst] e
          = (case ?v ?c of
              Accept \<Rightarrow> Inr ?c
            | Reject \<Rightarrow> scan_positions ?v [Suc ?c..<Suc lst] e
            | BadVersion e' \<Rightarrow> scan_positions ?v [Suc ?c..<Suc lst] (remember_error e e')
            | Fail e' \<Rightarrow> Inl e')"
        by (rule scan_positions_from) (use False in simp)
      note unfold = detect_window.simps [of s lst probe window at0] Let_def
      show ?thesis
      proof (cases "read_header s ?c")
        case (Inl err)
        with False Some show ?thesis
          unfolding skip step verdict_src_at [OF c] by (simp add: unfold IH' del: upt_Suc)
      next
        case (Inr h)
        with False Some show ?thesis
          unfolding skip step verdict_src_at [OF c]
          by (cases "source_follows_a_section_boundary s ?c h")
            (auto simp: unfold IH' simp del: upt_Suc)
      qed
    qed
  qed
qed

context byte_source
begin

lemma detect_probe_eq:
  assumes "length content < 2 ^ 64" "64 \<le> length content" "lst = length content - 64"
  shows "detect_probe s (length content) lst probe e
    = scan_positions (verdict_src s content) [probe..<Suc lst] e"
proof (induction "Suc lst - probe" arbitrary: probe e rule: less_induct)
  case less
  let ?want = "min SCAN_CHUNK (length content - probe)"
  let ?w = "subslice content probe (probe + ?want)"
  show ?case
  proof (cases "lst < probe")
    case True
    then show ?thesis by (simp add: detect_probe.simps [of s _ lst probe] del: upt_Suc)
  next
    case False
    then have in_range: "probe + 64 \<le> length content" using assms by simp
    then have fits: "probe + ?want \<le> length content" "6 \<le> ?want" "0 + 5 \<le> ?want"
      using SCAN_CHUNK_gt by auto
    have read: "src_read_exact_at s ?want probe = Inr ?w"
      using fits assms(1) by (simp add: src_read in_bounds_def)
    have win: "(case detect_window s lst probe ?w 0 e of
            Inl r \<Rightarrow> r
          | Inr e' \<Rightarrow> scan_positions (verdict_src s content) [probe + ?want - 5..<Suc lst] e')
         = scan_positions (verdict_src s content) [probe..<Suc lst] e"
      using detect_window_eq [OF refl fits] by simp
    have rest: "detect_probe s (length content) lst (probe + (SCAN_CHUNK - 5)) e'
        = scan_positions (verdict_src s content) [probe + SCAN_CHUNK - 5..<Suc lst] e'" for e'
      using less [of "probe + (SCAN_CHUNK - 5)"] False SCAN_CHUNK_gt by simp
    show ?thesis
    proof (cases "?want < SCAN_CHUNK")
      case True
      then have want: "?want = length content - probe" and lt: "length content - probe < SCAN_CHUNK"
        by simp_all
      have "[probe + ?want - 5..<Suc lst] = []" using assms in_range unfolding want by simp
      from win [unfolded this scan_positions.simps] have "(case detect_window s lst probe ?w 0 e of
            Inl r \<Rightarrow> r | Inr e' \<Rightarrow> scan_failed e')
          = scan_positions (verdict_src s content) [probe..<Suc lst] e" .
      with False lt read show ?thesis
        by (simp add: detect_probe.simps [of s _ lst probe] Let_def want del: upt_Suc
            cong: sum.case_cong)
    next
      case nless: False
      then have "?want = SCAN_CHUNK" by simp
      with win read rest False show ?thesis
        by (simp add: detect_probe.simps [of s _ lst probe] Let_def del: upt_Suc
            cong: sum.case_cong)
    qed
  qed
qed

lemma detect_in_eq_scan:
  assumes "length content < 2 ^ 64" "64 \<le> length content" "src_as_slice s = None"
  shows "detect_base_offset_in s
    = scan_positions (verdict_src s content) [0..<Suc (length content - 64)] None"
  using assms by (simp add: detect_base_offset_in_def src_len detect_probe_eq Let_def del: upt_Suc)

text \<open>
  The two boundary tests agree unless the declared end of the section is within six bytes of
  the top of the address space, where the positional one adds without a check.
\<close>

lemma source_follows_eq:
  assumes "length content < 2 ^ 63" and "p + section_len h + 6 < 2 ^ 64"
  shows "source_follows_a_section_boundary s p h
    = Inr (follows_a_section_boundary content p h)"
  using assms
  by (auto simp: source_follows_a_section_boundary_def follows_a_section_boundary_def
      checked_add64_def wrapping_add64_def src_len src_read in_bounds_def Let_def)

lemma source_follows_overflow:
  assumes "length content < 2 ^ 63" "6 \<le> length content"
    and "p + section_len h < 2 ^ 64" "2 ^ 64 \<le> p + section_len h + 6"
  shows "source_follows_a_section_boundary s p h
    = Inl (SourceOutOfBounds (p + section_len h) 6 (length content))"
proof -
  have "(p + section_len h + 6) mod 2 ^ 64 = p + section_len h + 6 - 2 ^ 64"
    using assms(3,4) by (simp add: le_mod_geq)
  with assms show ?thesis
    by (auto simp: source_follows_a_section_boundary_def checked_add64_def wrapping_add64_def
        src_len src_read in_bounds_def Let_def)
qed

lemma verdict_src_eq:
  assumes "length content < 2 ^ 63" and "p + 64 \<le> length content"
    and "\<And>h. parse_header (subslice content p (p + 64)) p = Inr h \<Longrightarrow>
           p + section_len h + 6 < 2 ^ 64"
  shows "verdict_src s content p = verdict_of content p"
  using assms
  by (auto simp: verdict_src_def verdict_of_def read_header_def src_read in_bounds_def
      source_follows_eq split: sum.splits)

lemma detect_in_agrees:
  assumes "length content < 2 ^ 63"
    and "\<And>p h. p + 64 \<le> length content \<Longrightarrow>
           parse_header (subslice content p (p + 64)) p = Inr h \<Longrightarrow>
           p + section_len h + 6 < 2 ^ 64"
  shows "detect_base_offset_in s = detect_base_offset content"
proof (cases "src_as_slice s = None \<and> 64 \<le> length content")
  case True
  then have "detect_base_offset_in s
      = scan_positions (verdict_src s content) [0..<Suc (length content - 64)] None"
    using assms(1) by (intro detect_in_eq_scan) auto
  also have "\<dots> = scan_positions (verdict_of content) [0..<Suc (length content - 64)] None"
  proof (rule scan_positions_cong)
    fix p assume "p \<in> set [0..<Suc (length content - 64)]"
    then have "p + 64 \<le> length content" using True by auto
    then show "verdict_src s content p = verdict_of content p"
      using assms by (intro verdict_src_eq)
  qed
  also have "\<dots> = detect_base_offset content"
    using True by (simp add: detect_base_offset_eq del: upt_Suc)
  finally show ?thesis .
next
  case False
  with src_slice show ?thesis
    by (auto simp: detect_base_offset_in_def detect_base_offset_def src_len)
qed

end

end
