(* ===== verification/Sections.thy ===== *)
theory Sections
  imports Image_Source
begin

text \<open>
  The two section walkers: the iterator over a byte slice (\<open>src/src/format/sections.rs\<close>) and
  the walk over a source used when an image is opened (\<open>walk_sections\<close> in
  \<open>src/src/format/image.rs\<close>). A successful walk is characterised as the unique tiling of the
  bytes from the base offset to the end of the image, and the iterator is shown to yield the
  same sections and the same error.
\<close>

subsection \<open>The walk over a source\<close>

record section_record =
  rec_file_offset :: nat
  rec_header :: section_header

definition record_section_len :: "section_record \<Rightarrow> nat" where
  "record_section_len r = section_len (rec_header r)"

text \<open>The end of the section at \<open>cursor\<close>, when it lies inside the image.\<close>

definition section_end :: "nat \<Rightarrow> section_header \<Rightarrow> nat \<Rightarrow> nat option" where
  "section_end cursor h end_pos =
     (case checked_add64 cursor (section_len h) of
        None \<Rightarrow> None
      | Some next \<Rightarrow> if next \<le> end_pos then Some next else None)"

lemma section_end_Some:
  "section_end cursor h end_pos = Some nxt \<longleftrightarrow>
     nxt = cursor + section_len h \<and> nxt < 2 ^ 64 \<and> nxt \<le> end_pos"
  by (auto simp: section_end_def checked_add64_def split: option.splits if_splits)

lemma section_end_None:
  "end_pos < 2 ^ 64 \<Longrightarrow> end_pos < cursor + section_len h \<Longrightarrow> section_end cursor h end_pos = None"
  by (auto simp: section_end_def checked_add64_def split: option.splits if_splits)

lemma section_end_advances:
  "section_end cursor h end_pos = Some nxt \<Longrightarrow> cursor < nxt \<and> nxt \<le> end_pos"
  using section_len_bounds(1) [of h] by (simp add: section_end_Some)

function walk_from :: "image_source \<Rightarrow> nat \<Rightarrow> section_record list result" where
  "walk_from s cursor =
     (if src_len s \<le> cursor then Inr []
      else if src_len s < wrapping_add64 cursor HEADER_LEN then Inl (TruncatedHeader cursor)
      else and_then (src_read_exact_at s HEADER_LEN cursor) (\<lambda>header.
           and_then (parse_header header cursor) (\<lambda>parsed.
           and_then (ok_or (section_end cursor parsed (src_len s))
                       (TruncatedSection (sh_number parsed) cursor)) (\<lambda>next.
           and_then (walk_from s next) (\<lambda>sections.
           Inr (\<lparr>rec_file_offset = cursor, rec_header = parsed\<rparr> # sections))))))"
  by pat_completeness auto
termination
  by (relation "measure (\<lambda>(s, cursor). src_len s - cursor)")
    (auto simp: result_simps dest!: section_end_advances)

declare walk_from.simps [simp del]

text \<open>The header bound is exact below the top of the address space, and no bound at all there.\<close>

lemma header_bound:
  "n < 2 ^ 64 \<Longrightarrow> pos < n \<Longrightarrow>
    n < wrapping_add64 pos 64 \<longleftrightarrow> n < pos + 64 \<and> pos + 64 < 2 ^ 64"
  by (cases "pos + 64 < 2 ^ 64") (auto simp: wrapping_add64_def le_mod_geq)

definition walk_sections :: "image_source \<Rightarrow> nat \<Rightarrow> section_record list result" where
  "walk_sections s base_offset = walk_from s base_offset"

text \<open>The sections of a byte list from a position on: back to back, up to its very end.\<close>

fun tiling :: "bytes \<Rightarrow> nat \<Rightarrow> section_record list \<Rightarrow> bool" where
  "tiling content pos [] = (pos = length content)"
| "tiling content pos (r # rs) =
     (rec_file_offset r = pos
      \<and> pos + 64 \<le> length content
      \<and> parse_header (subslice content pos (pos + 64)) pos = Inr (rec_header r)
      \<and> pos + record_section_len r \<le> length content
      \<and> tiling content (pos + record_section_len r) rs)"

text \<open>
  The error side: a walk gets through the sections up to a position \<open>stop\<close>, and \<open>section_fault\<close> says
  which error the bytes from a position on are: too few for a header, a header that does not parse, or a
  payload that ends beyond the image. The bound of a header is added without a check: less than 64 bytes
  below the top of the address space it wraps, and the read of the header fails in its place.
\<close>

fun tiles_until :: "bytes \<Rightarrow> nat \<Rightarrow> section_record list \<Rightarrow> nat \<Rightarrow> bool" where
  "tiles_until content pos [] stop = (pos = stop)"
| "tiles_until content pos (r # rs) stop =
     (rec_file_offset r = pos
      \<and> pos + 64 \<le> length content
      \<and> parse_header (subslice content pos (pos + 64)) pos = Inr (rec_header r)
      \<and> pos + record_section_len r \<le> length content
      \<and> tiles_until content (pos + record_section_len r) rs stop)"

definition section_fault :: "bytes \<Rightarrow> nat \<Rightarrow> error \<Rightarrow> bool" where
  "section_fault content pos e \<longleftrightarrow> pos < length content
     \<and> (if length content < pos + 64
        then e = (if pos + 64 < 2 ^ 64 then TruncatedHeader pos
                  else SourceOutOfBounds pos 64 (length content))
        else case parse_header (subslice content pos (pos + 64)) pos of
               Inl f \<Rightarrow> e = f
             | Inr h \<Rightarrow> length content < pos + section_len h \<and> e = TruncatedSection (sh_number h) pos)"

lemma tiling_unique: "tiling content pos rs \<Longrightarrow> tiling content pos rs' \<Longrightarrow> rs = rs'"
proof (induction rs arbitrary: pos rs')
  case Nil
  then show ?case by (cases rs') auto
next
  case (Cons r rs)
  then obtain r' rs'' where rs': "rs' = r' # rs''" by (cases rs') auto
  with Cons.prems have "r = r'" by (auto simp: record_section_len_def)
  with Cons rs' show ?case by auto
qed

lemma tiling_in_bounds:
  "tiling content pos rs \<Longrightarrow> r \<in> set rs \<Longrightarrow>
     pos \<le> rec_file_offset r \<and> rec_file_offset r + record_section_len r \<le> length content
     \<and> parse_header (subslice content (rec_file_offset r) (rec_file_offset r + 64))
         (rec_file_offset r) = Inr (rec_header r)"
  by (induction rs arbitrary: pos) fastforce+

lemma tiling_sorted:
  "tiling content pos rs \<Longrightarrow> sorted_wrt (\<lambda>a b.
     rec_file_offset a + record_section_len a \<le> rec_file_offset b) rs"
  by (induction rs arbitrary: pos) (auto dest: tiling_in_bounds)

lemma tiling_concat:
  "tiling content pos rs \<Longrightarrow>
   concat (map (\<lambda>r. subslice content (rec_file_offset r)
                      (rec_file_offset r + record_section_len r)) rs) = drop pos content"
proof (induction rs arbitrary: pos)
  case Nil
  then show ?case by simp
next
  case (Cons r rs)
  then have "concat (map (\<lambda>r. subslice content (rec_file_offset r)
        (rec_file_offset r + record_section_len r)) rs)
      = drop (pos + record_section_len r) content" by auto
  moreover have "subslice content pos (pos + record_section_len r)
      @ drop (pos + record_section_len r) content = drop pos content"
    using append_take_drop_id [of "record_section_len r" "drop pos content"]
    by (simp add: subslice_def add.commute)
  ultimately show ?case using Cons.prems by simp
qed

context byte_source
begin

lemma walk_from_eq:
  assumes "length content < 2 ^ 64"
  shows "walk_from s pos =
    (if length content \<le> pos then Inr []
     else if length content < pos + 64
     then Inl (if pos + 64 < 2 ^ 64 then TruncatedHeader pos else SourceOutOfBounds pos 64 (length content))
     else and_then (parse_header (subslice content pos (pos + 64)) pos) (\<lambda>parsed.
          and_then (ok_or (section_end pos parsed (length content))
                      (TruncatedSection (sh_number parsed) pos)) (\<lambda>next.
          and_then (walk_from s next) (\<lambda>sections.
          Inr (\<lparr>rec_file_offset = pos, rec_header = parsed\<rparr> # sections)))))"
proof (cases "pos < length content")
  case True
  from header_bound [OF assms True] True assms show ?thesis
    by (simp add: walk_from.simps [of s pos] src_len src_read in_bounds_def)
next
  case False
  then show ?thesis by (simp add: walk_from.simps [of s pos] src_len)
qed

lemma walk_from_iff:
  assumes "length content < 2 ^ 64"
  shows "pos \<le> length content \<Longrightarrow> walk_from s pos = Inr rs \<longleftrightarrow> tiling content pos rs"
proof (induction "length content - pos" arbitrary: pos rs rule: less_induct)
  case less
  note unfold = walk_from_eq [OF assms, of pos]
  show ?case
  proof (cases "pos = length content")
    case True
    have "walk_from s (length content) = Inr []"
      by (simp add: walk_from.simps [of s "length content"] src_len)
    with True show ?thesis by (cases rs) auto
  next
    case False
    have IH: "\<forall>h rs'. pos + section_len h \<le> length content \<longrightarrow>
        walk_from s (pos + section_len h) = Inr rs'
        \<longleftrightarrow> tiling content (pos + section_len h) rs'"
    proof (intro allI impI less.hyps)
      fix h
      show "length content - (pos + section_len h) < length content - pos"
        using section_len_bounds(1) [of h] False less.prems by auto
    qed
    show ?thesis
    proof (cases "pos + 64 \<le> length content")
      case True
      with False less.prems assms IH show ?thesis
        by (cases rs) (auto simp: unfold result_simps section_end_Some record_section_len_def)
    next
      case short: False
      with False less.prems show ?thesis by (cases rs) (auto simp: unfold)
    qed
  qed
qed

lemma walk_sections_iff:
  "length content < 2 ^ 64 \<Longrightarrow> base \<le> length content \<Longrightarrow>
   walk_sections s base = Inr rs \<longleftrightarrow> tiling content base rs"
  by (simp add: walk_sections_def walk_from_iff)

lemma walk_from_step:
  assumes "length content < 2 ^ 64" "pos + 64 \<le> length content"
    "parse_header (subslice content pos (pos + 64)) pos = Inr h" "pos + section_len h \<le> length content"
  shows "walk_from s pos = and_then (walk_from s (pos + section_len h))
      (\<lambda>rs. Inr (\<lparr>rec_file_offset = pos, rec_header = h\<rparr> # rs))"
proof -
  have "section_end pos h (length content) = Some (pos + section_len h)"
    using assms by (simp add: section_end_Some)
  with assms show ?thesis
    by (simp add: walk_from_eq [OF assms(1), of pos])
qed

lemma walk_from_fault:
  assumes "length content < 2 ^ 64" "section_fault content pos e"
  shows "walk_from s pos = Inl e"
proof (cases "length content < pos + 64")
  case True
  with assms show ?thesis
    by (simp add: walk_from_eq [OF assms(1), of pos] section_fault_def)
next
  case False
  with assms show ?thesis
    by (auto simp: walk_from_eq [OF assms(1), of pos] section_fault_def section_end_None split: sum.splits)
qed

lemma walk_from_Inl_iff:
  assumes "length content < 2 ^ 64"
  shows "walk_from s pos = Inl e
    \<longleftrightarrow> (\<exists>rs stop. tiles_until content pos rs stop \<and> section_fault content stop e)"
proof
  assume "\<exists>rs stop. tiles_until content pos rs stop \<and> section_fault content stop e"
  then obtain rs stop where "tiles_until content pos rs stop" "section_fault content stop e" by blast
  then show "walk_from s pos = Inl e"
  proof (induction rs arbitrary: pos)
    case Nil
    with walk_from_fault [OF assms] show ?case by simp
  next
    case (Cons r rs)
    with walk_from_step [OF assms, of pos "rec_header r"] show ?case
      by (simp add: record_section_len_def)
  qed
next
  assume "walk_from s pos = Inl e"
  then show "\<exists>rs stop. tiles_until content pos rs stop \<and> section_fault content stop e"
  proof (induction "length content - pos" arbitrary: pos rule: less_induct)
    case less
    then have inside: "pos < length content"
      by (auto simp: walk_from.simps [of s pos] src_len split: if_splits)
    show ?case
    proof (cases "section_fault content pos e")
      case True
      then have "tiles_until content pos [] pos \<and> section_fault content pos e" by simp
      then show ?thesis by blast
    next
      case False
      have "\<not> section_fault content pos f" for f
        using walk_from_fault [OF assms, of pos f] less.prems False by auto
      with inside obtain h where h: "pos + 64 \<le> length content"
        "parse_header (subslice content pos (pos + 64)) pos = Inr h"
        "pos + section_len h \<le> length content"
        by (cases "length content < pos + 64"; cases "parse_header (subslice content pos (pos + 64)) pos")
          (auto simp: section_fault_def not_less)
      from walk_from_step [OF assms h] less.prems
      have "walk_from s (pos + section_len h) = Inl e"
        by (cases "walk_from s (pos + section_len h)") simp_all
      moreover have "length content - (pos + section_len h) < length content - pos"
        using section_len_bounds(1) [of h] inside by simp
      ultimately obtain rs stop where "tiles_until content (pos + section_len h) rs stop"
        "section_fault content stop e" using less.hyps by blast
      with h have "tiles_until content pos (\<lparr>rec_file_offset = pos, rec_header = h\<rparr> # rs) stop
          \<and> section_fault content stop e" by (simp add: record_section_len_def)
      then show ?thesis by blast
    qed
  qed
qed

end

subsection \<open>The iterator over a slice\<close>

record section_ref =
  ref_file_offset :: nat
  ref_header :: section_header
  ref_bytes :: bytes

definition ref_payload :: "section_ref \<Rightarrow> bytes" where
  "ref_payload r = drop HEADER_LEN (ref_bytes r)"

record sections_iter =
  it_image :: bytes
  it_cursor :: nat
  it_done :: bool

definition sections_new :: "bytes \<Rightarrow> nat \<Rightarrow> sections_iter" where
  "sections_new img base_offset = \<lparr>it_image = img, it_cursor = base_offset, it_done = False\<rparr>"

definition sections_next :: "sections_iter \<Rightarrow> section_ref result option \<times> sections_iter" where
  "sections_next it =
     (if it_done it \<or> length (it_image it) \<le> it_cursor it then (None, it)
      else let here = it_cursor it in
        if length (it_image it) < here + HEADER_LEN
        then (Some (Inl (TruncatedHeader here)), it\<lparr>it_done := True\<rparr>)
        else case parse_header (subslice (it_image it) here (here + HEADER_LEN)) here of
          Inl e \<Rightarrow> (Some (Inl e), it\<lparr>it_done := True\<rparr>)
        | Inr h \<Rightarrow>
            (case section_end here h (length (it_image it)) of
               None \<Rightarrow>
                 (Some (Inl (TruncatedSection (sh_number h) here)), it\<lparr>it_done := True\<rparr>)
             | Some e \<Rightarrow>
                 (Some (Inr \<lparr>ref_file_offset = here, ref_header = h,
                             ref_bytes = subslice (it_image it) here e\<rparr>),
                  it\<lparr>it_cursor := e\<rparr>)))"

text \<open>Everything the iterator yields, as \<open>collect\<close> would gather it.\<close>

lemma sections_next_decreases:
  assumes "sections_next it = (Some x, it')"
  shows "(if it_done it' then 0 else Suc (length (it_image it') - it_cursor it'))
       < (if it_done it then 0 else Suc (length (it_image it) - it_cursor it))"
proof -
  from assms have live: "\<not> it_done it" "it_cursor it < length (it_image it)"
    by (auto simp: sections_next_def split: if_splits)
  with assms consider "it_done it'"
    | e h where "it' = it\<lparr>it_cursor := e\<rparr>"
        "section_end (it_cursor it) h (length (it_image it)) = Some e"
    by (auto simp: sections_next_def Let_def split: if_splits sum.splits option.splits)
  then show ?thesis
  proof cases
    case 1
    with live show ?thesis by simp
  next
    case 2
    with live section_end_advances [OF 2(2)] show ?thesis by auto
  qed
qed

function sections_collect :: "sections_iter \<Rightarrow> section_ref result list" where
  "sections_collect it =
     (case sections_next it of
        (None, _) \<Rightarrow> []
      | (Some x, it') \<Rightarrow> x # sections_collect it')"
  by pat_completeness auto
termination
  by (relation "measure (\<lambda>it. if it_done it then 0 else Suc (length (it_image it) - it_cursor it))")
    (auto dest!: sections_next_decreases [OF sym])

declare sections_collect.simps [simp del]

definition ref_of_record :: "bytes \<Rightarrow> section_record \<Rightarrow> section_ref" where
  "ref_of_record img r =
     \<lparr>ref_file_offset = rec_file_offset r, ref_header = rec_header r,
      ref_bytes = subslice img (rec_file_offset r) (rec_file_offset r + record_section_len r)\<rparr>"

lemma sections_collect_done: "it_done it \<Longrightarrow> sections_collect it = []"
  by (simp add: sections_collect.simps [of it] sections_next_def)

lemma sections_collect_eq_walk:
  assumes "length img < 2 ^ 63"
  shows "try_map (\<lambda>x. x) (sections_collect (sections_new img pos))
    = and_then (walk_from (vec_source img) pos) (\<lambda>rs. Inr (map (ref_of_record img) rs))"
proof (induction "length img - pos" arbitrary: pos rule: less_induct)
  case less
  let ?it = "sections_new img pos"
  have [simp]: "it_image ?it = img" "it_cursor ?it = pos" "\<not> it_done ?it"
    and step: "?it\<lparr>it_cursor := e\<rparr> = sections_new img e" for e
    by (simp_all add: sections_new_def)
  have len: "length img < 2 ^ 64" using assms by simp
  note unfold = vec_src.walk_from_eq [OF len, of pos]
    sections_collect.simps [of ?it] sections_next_def [of ?it] Let_def
  show ?case
  proof (cases "pos + 64 \<le> length img")
    case False
    with assms show ?thesis by (auto simp: unfold sections_collect_done)
  next
    case True
    show ?thesis
    proof (cases "parse_header (subslice img pos (pos + 64)) pos")
      case (Inl e)
      with True assms show ?thesis by (simp add: unfold sections_collect_done)
    next
      case (Inr h)
      show ?thesis
      proof (cases "section_end pos h (length img)")
        case None
        with True Inr assms show ?thesis by (simp add: unfold sections_collect_done)
      next
        case (Some e)
        then have e: "e = pos + section_len h" "e \<le> length img" by (auto simp: section_end_Some)
        with section_len_bounds(1) [of h] True
        have IH: "try_map (\<lambda>x. x) (sections_collect (sections_new img e))
            = and_then (walk_from (vec_source img) e) (\<lambda>rs. Inr (map (ref_of_record img) rs))"
          by (intro less.hyps) auto
        with True Inr Some assms e show ?thesis
          by (cases "walk_from (vec_source img) e")
            (auto simp: unfold step ref_of_record_def record_section_len_def)
      qed
    qed
  qed
qed

end
