(* ===== verification/Section_Index.thy ===== *)
theory Section_Index
  imports Image_Source
begin

text \<open>
  \<open>src/src/format/index.rs\<close>: the optional section index at the end of an image. A row packs a
  section type in the top 16 bits and an offset in the bottom 48; the rows are strictly sorted
  and the last one is the index itself.
\<close>

record index_entry =
  ie_section_type :: section_type
  ie_offset_from_base :: nat

record section_index =
  si_entries :: "index_entry list"
  si_file_offset :: nat

definition OFFSET_MASK :: u64 where "OFFSET_MASK = push_bit 48 1 - 1"

definition row_type :: "u64 \<Rightarrow> u16" where
  "row_type raw = ucast (drop_bit 48 raw AND 0xFFFF)"

definition row_offset :: "u64 \<Rightarrow> nat" where
  "row_offset raw = unat (raw AND OFFSET_MASK)"

definition chunks_exact :: "nat \<Rightarrow> 'a list \<Rightarrow> 'a list list" where
  "chunks_exact n xs = map (\<lambda>i. subslice xs (n * i) (n * i + n)) [0..<length xs div n]"

fun index_rows :: "nat option \<Rightarrow> bytes list \<Rightarrow> index_entry list result" where
  "index_rows prev [] = Inr []"
| "index_rows prev (chunk # chunks) =
     (let raw = from_le_bytes chunk; off = row_offset raw in
      if (case prev of None \<Rightarrow> False | Some p \<Rightarrow> off \<le> p)
      then Inl (CorruptSectionIndex ''entries not strictly sorted by offset'')
      else and_then (index_rows (Some off) chunks) (\<lambda>es.
        Inr (\<lparr>ie_section_type = section_type_from_u16 (row_type raw),
              ie_offset_from_base = off\<rparr> # es)))"

definition index_parse_entries :: "bytes \<Rightarrow> nat \<Rightarrow> section_index result" where
  "index_parse_entries payload file_offset =
     (if length payload mod 8 \<noteq> 0
      then Inl (CorruptSectionIndex ''payload length is not a multiple of 8'')
      else if length payload div 8 = 0
      then Inl (CorruptSectionIndex ''index has zero entries'')
      else and_then (index_rows None (chunks_exact 8 payload)) (\<lambda>entries.
        if ie_section_type (last entries) \<noteq> SectionIndex
        then Inl (CorruptSectionIndex ''last entry is not the index itself'')
        else Inr \<lparr>si_entries = entries, si_file_offset = file_offset\<rparr>))"

definition index_from_source :: "image_source \<Rightarrow> nat \<Rightarrow> section_index option result" where
  "index_from_source s base_offset =
     (let total_len = src_len s in
      if total_len < 8 then Inr None
      else and_then (src_read_exact_at s 8 (total_len - 8)) (\<lambda>tail.
        let entry = from_le_bytes tail :: u64 in
        if row_type entry \<noteq> section_type_as_u16 SectionIndex then Inr None
        else and_then (ok_or (checked_add64 base_offset (row_offset entry))
               (CorruptSectionIndex ''tail offset overflows file size'')) (\<lambda>header_file_offset.
        if total_len < saturating_add64 header_file_offset HEADER_LEN
        then Inl (CorruptSectionIndex ''tail offset past end of image'')
        else and_then (src_read_exact_at s HEADER_LEN header_file_offset) (\<lambda>header_bytes.
        and_then (parse_header header_bytes header_file_offset) (\<lambda>h.
        if sh_section_type h \<noteq> SectionIndex
        then Inl (CorruptSectionIndex ''tail offset does not point to SECTION_INDEX'')
        else if sh_compression h \<noteq> NoCompression
        then Inl (CorruptSectionIndex ''section index must be uncompressed'')
        else let payload_start = header_file_offset + HEADER_LEN in
        and_then (ok_or (checked_add64 payload_start (unat (sh_payload_len h)))
               (CorruptSectionIndex ''payload length overflows'')) (\<lambda>payload_end.
        if payload_end \<noteq> total_len
        then Inl (CorruptSectionIndex ''section index must be the last section'')
        else and_then (read_range s payload_start (unat (sh_payload_len h))) (\<lambda>payload.
        and_then (index_parse_entries payload header_file_offset) (\<lambda>idx. Inr (Some idx)))))))))"

definition index_find :: "section_index \<Rightarrow> section_type \<Rightarrow> nat option" where
  "index_find idx kind =
     map_option ie_offset_from_base (find (\<lambda>e. ie_section_type e = kind) (si_entries idx))"

text \<open>The writer used by the index tests: type and offset packed into one row.\<close>

definition index_row :: "index_entry \<Rightarrow> bytes" where
  "index_row e =
     to_le_bytes (push_bit 48 (ucast (section_type_as_u16 (ie_section_type e)))
                  OR (word_of_nat (ie_offset_from_base e)) :: u64)"

subsection \<open>Rows\<close>

lemma OFFSET_MASK_mask: "OFFSET_MASK = mask 48"
  by (simp add: OFFSET_MASK_def mask_eq_exp_minus_1 push_bit_eq_mult)

lemma row_offset_bound: "row_offset raw < 2 ^ 48"
proof -
  have "row_offset raw = unat raw mod 2 ^ 48"
    unfolding row_offset_def OFFSET_MASK_mask take_bit_eq_mask [symmetric] unsigned_take_bit_eq
    by (simp add: take_bit_eq_mod)
  then show ?thesis by simp
qed

definition pack_row :: "u16 \<Rightarrow> nat \<Rightarrow> u64" where
  "pack_row t off = push_bit 48 (ucast t) OR word_of_nat off"

lemma index_row_pack:
  "index_row e = to_le_bytes (pack_row (section_type_as_u16 (ie_section_type e))
     (ie_offset_from_base e))"
  by (simp add: index_row_def pack_row_def)

lemma bit_small_offset: "off < 2 ^ 48 \<Longrightarrow> bit (off :: nat) n \<Longrightarrow> n < 48"
proof (rule ccontr)
  assume off: "off < 2 ^ 48" and bit: "bit off n" and n: "\<not> n < 48"
  have "(2 :: nat) ^ 48 \<le> 2 ^ n" using n by (intro power_increasing) auto
  with off have "off div 2 ^ n = 0" by simp
  with bit show False by (simp add: bit_iff_odd)
qed

lemma row_type_pack: "off < 2 ^ 48 \<Longrightarrow> row_type (pack_row t off) = t"
proof -
  assume off: "off < 2 ^ 48"
  have mask: "(0xFFFF :: u64) = mask 16" by (simp add: mask_eq_exp_minus_1)
  show ?thesis
    unfolding row_type_def pack_row_def mask
    by (rule bit_word_eqI) (auto simp: bit_simps dest: bit_imp_le_length bit_small_offset [OF off])
qed

lemma row_offset_pack: "off < 2 ^ 48 \<Longrightarrow> row_offset (pack_row t off) = off"
proof -
  assume off: "off < 2 ^ 48"
  have "pack_row t off AND OFFSET_MASK = word_of_nat off"
    unfolding pack_row_def OFFSET_MASK_mask
    by (rule bit_word_eqI) (auto simp: bit_simps dest: bit_small_offset [OF off])
  with off show ?thesis by (simp add: row_offset_def unat_of_nat)
qed

subsection \<open>The decoded rows\<close>

definition offsets_above :: "nat option \<Rightarrow> index_entry list \<Rightarrow> bool" where
  "offsets_above prev es = (\<forall>p. prev = Some p \<longrightarrow> (\<forall>e \<in> set es. p < ie_offset_from_base e))"

definition strictly_sorted_entries :: "index_entry list \<Rightarrow> bool" where
  "strictly_sorted_entries es = sorted_wrt (<) (map ie_offset_from_base es)"

lemma index_rows_Inr:
  "index_rows prev chunks = Inr es \<Longrightarrow>
     length es = length chunks \<and> strictly_sorted_entries es \<and> offsets_above prev es
     \<and> (\<forall>e \<in> set es. ie_offset_from_base e < 2 ^ 48 \<and> canonical_section_type (ie_section_type e))"
proof (induction chunks arbitrary: prev es)
  case Nil
  then show ?case by (simp add: strictly_sorted_entries_def offsets_above_def)
next
  case (Cons chunk chunks)
  let ?off = "row_offset (from_le_bytes chunk)"
  from Cons.prems obtain es' where rest: "index_rows (Some ?off) chunks = Inr es'"
    and es: "es = \<lparr>ie_section_type = section_type_from_u16 (row_type (from_le_bytes chunk)),
              ie_offset_from_base = ?off\<rparr> # es'"
    and prev: "\<And>p. prev = Some p \<Longrightarrow> p < ?off"
    by (auto simp: Let_def result_simps split: if_splits option.splits)
  show ?case
    using Cons.IH [OF rest] prev row_offset_bound [of "from_le_bytes chunk"]
    by (auto simp: es strictly_sorted_entries_def offsets_above_def intro: less_trans)
qed

lemma index_rows_pack:
  assumes "strictly_sorted_entries es" "offsets_above prev es"
    and "\<forall>e \<in> set es. ie_offset_from_base e < 2 ^ 48 \<and> canonical_section_type (ie_section_type e)"
  shows "index_rows prev (map index_row es) = Inr es"
  using assms
proof (induction es arbitrary: prev)
  case Nil
  then show ?case by simp
next
  case (Cons e es)
  then have "index_rows (Some (ie_offset_from_base e)) (map index_row es) = Inr es"
    by (intro Cons.IH) (auto simp: strictly_sorted_entries_def offsets_above_def)
  moreover have "ie_offset_from_base e < 2 ^ 48"
    and "section_type_from_u16 (section_type_as_u16 (ie_section_type e)) = ie_section_type e"
    using Cons.prems by (auto simp: canonical_section_type_def)
  ultimately show ?case
    using Cons.prems(2)
    by (auto simp: index_row_pack [of e] row_type_pack row_offset_pack Let_def offsets_above_def
        split: option.splits)
qed

lemma chunks_exact_concat:
  assumes "\<forall>x \<in> set xss. length x = n" "0 < n"
  shows "chunks_exact n (concat xss) = xss"
proof -
  have len: "length (concat xss) = n * length xss"
    using assms(1) by (induction xss) auto
  have "subslice (concat xss) (n * i) (n * i + n) = xss ! i" if "i < length xss" for i
    using assms(1) that
  proof (induction xss arbitrary: i)
    case Nil
    then show ?case by simp
  next
    case (Cons x xss)
    show ?case
    proof (cases i)
      case 0
      with Cons.prems show ?thesis by (simp add: subslice_def)
    next
      case (Suc j)
      with Cons.prems have "subslice (concat xss) (n * j) (n * j + n) = xss ! j"
        by (intro Cons.IH) auto
      moreover have "subslice (concat (x # xss)) (n * i) (n * i + n)
          = subslice (concat xss) (n * j) (n * j + n)"
        using Suc Cons.prems by (simp add: subslice_append2 add.commute [of n "n * j"])
      ultimately show ?thesis using Suc by simp
    qed
  qed
  with assms(2) show ?thesis
    by (intro nth_equalityI) (simp_all add: chunks_exact_def len)
qed

lemma index_parse_entries_Inr:
  assumes "index_parse_entries payload file_offset = Inr idx"
  shows "length payload = 8 * length (si_entries idx)" "si_entries idx \<noteq> []"
    and "strictly_sorted_entries (si_entries idx)"
    and "ie_section_type (last (si_entries idx)) = SectionIndex" "si_file_offset idx = file_offset"
proof -
  from assms have rows: "index_rows None (chunks_exact 8 payload) = Inr (si_entries idx)"
    and len: "length payload mod 8 = 0" "length payload div 8 \<noteq> 0"
    and "ie_section_type (last (si_entries idx)) = SectionIndex" "si_file_offset idx = file_offset"
    by (auto simp: index_parse_entries_def result_simps split: if_splits)
  with index_rows_Inr [OF rows] show "length payload = 8 * length (si_entries idx)"
    "si_entries idx \<noteq> []" "strictly_sorted_entries (si_entries idx)"
    "ie_section_type (last (si_entries idx)) = SectionIndex" "si_file_offset idx = file_offset"
    by (auto simp: chunks_exact_def)
qed

definition writable_index :: "index_entry list \<Rightarrow> bool" where
  "writable_index es \<longleftrightarrow>
     es \<noteq> [] \<and> strictly_sorted_entries es \<and> ie_section_type (last es) = SectionIndex
     \<and> (\<forall>e \<in> set es. ie_offset_from_base e < 2 ^ 48 \<and> canonical_section_type (ie_section_type e))"

lemma length_index_row [simp]: "length (index_row e) = 8"
  by (simp add: index_row_def)

lemma length_index_rows: "length (concat (map index_row es)) = 8 * length es"
  by (induction es) auto

lemma index_parse_entries_rows:
  assumes "writable_index es"
  shows "index_parse_entries (concat (map index_row es)) file_offset
    = Inr \<lparr>si_entries = es, si_file_offset = file_offset\<rparr>"
proof -
  from assms have "index_rows None (map index_row es) = Inr es"
    by (intro index_rows_pack) (auto simp: writable_index_def offsets_above_def)
  moreover have "chunks_exact 8 (concat (map index_row es)) = map index_row es"
    by (rule chunks_exact_concat) auto
  ultimately show ?thesis
    using assms by (simp add: index_parse_entries_def length_index_rows writable_index_def)
qed

text \<open>An index section appended to any image is found again from the image's last eight bytes.\<close>

lemma index_from_source_appended:
  assumes h: "supported_header h" "sh_section_type h = SectionIndex"
      "sh_compression h = NoCompression" "unat (sh_payload_len h) = 8 * length es"
    and es: "writable_index es" "base + ie_offset_from_base (last es) = length body"
    and len: "length body + 64 + 8 * length es < 2 ^ 64"
  shows "index_from_source (vec_source (body @ write_header h @ concat (map index_row es))) base
    = Inr (Some \<lparr>si_entries = es, si_file_offset = length body\<rparr>)"
proof -
  define rows where "rows = concat (map index_row es)"
  define img where "img = body @ write_header h @ rows"
  let ?n = "length body" and ?k = "8 * length es"
  have wf: "length (write_header h) = 64" using h by (simp add: supported_header_def)
  have rows_len: "length rows = ?k" by (simp add: rows_def length_index_rows)
  have total: "length img = ?n + 64 + ?k" by (simp add: img_def wf rows_len)
  from es have ne: "es \<noteq> []" and off: "ie_offset_from_base (last es) < 2 ^ 48"
    and st: "ie_section_type (last es) = SectionIndex" by (auto simp: writable_index_def)
  have "concat (map index_row (butlast es @ [last es]))
      = concat (map index_row (butlast es)) @ index_row (last es)" by simp
  then have "rows = concat (map index_row (butlast es)) @ index_row (last es)"
    unfolding rows_def append_butlast_last_id [OF ne] .
  then obtain front where split: "img = front @ index_row (last es)"
    by (auto simp: img_def)
  have k: "8 \<le> ?k" using ne by (cases es) auto
  have tail: "subslice img (length img - 8) (length img) = index_row (last es)"
    by (simp add: split subslice_append2 subslice_0)
  have hdr: "subslice img ?n (?n + 64) = write_header h"
    unfolding img_def by (rule subslice_append_at) (simp add: wf)
  have pay: "subslice img (?n + 64) (?n + 64 + ?k) = rows"
    using subslice_append_at [of ?k rows "body @ write_header h" "[]"]
    by (simp add: wf rows_len img_def)
  let ?s = "vec_source img"
  have read: "src_read_exact_at ?s m a = Inr (subslice img a (a + m))"
    if "a + m \<le> ?n + 64 + ?k" for a m
    using that len vec_src.src_read [of img] by (simp add: in_bounds_def total)
  have e: "length img - 8 + 8 = length img" using k total by simp
  have "src_read_exact_at ?s 8 (length img - 8) = Inr (subslice img (length img - 8) (length img - 8 + 8))"
    by (rule read) (use k total in simp)
  then have r1: "src_read_exact_at ?s 8 (length img - 8) = Inr (index_row (last es))"
    by (simp only: e tail)
  have r2: "src_read_exact_at ?s 64 ?n = Inr (write_header h)"
    using read [of ?n 64] hdr by simp
  have r3: "read_range ?s (?n + 64) ?k = Inr rows"
    using len pay by (simp add: vec_src.read_range_eq in_bounds_def total)
  let ?raw = "pack_row (section_type_as_u16 SectionIndex) (ie_offset_from_base (last es))"
  have raw: "from_le_bytes (index_row (last es)) = ?raw"
    by (simp add: index_row_pack st)
  have ty: "row_type ?raw = section_type_as_u16 SectionIndex"
    and at_row: "row_offset ?raw = ie_offset_from_base (last es)"
    by (rule row_type_pack [OF off], rule row_offset_pack [OF off])
  have parse: "parse_header (write_header h) ?n = Inr h"
    using parse_write_header [OF h(1), of "[]"] by simp
  have entries: "index_parse_entries rows ?n = Inr \<lparr>si_entries = es, si_file_offset = ?n\<rparr>"
    unfolding rows_def by (rule index_parse_entries_rows [OF es(1)])
  have sum: "checked_add64 base (ie_offset_from_base (last es)) = Some ?n"
    and sum2: "checked_add64 (?n + 64) ?k = Some (length img)"
    and enough: "\<not> length img < 8" "\<not> length img < saturating_add64 ?n 64"
    using es(2) len k total by (auto simp: checked_add64_def saturating_add64_def)
  have "index_from_source ?s base = Inr (Some \<lparr>si_entries = es, si_file_offset = ?n\<rparr>)"
    unfolding index_from_source_def Let_def vec_src.src_len
    by (simp only: enough r1 r2 r3 raw ty at_row parse entries sum sum2 h(2-4) HEADER_LEN_def
        and_then_Inr ok_or_Some if_False simp_thms)
  then show ?thesis by (simp add: img_def rows_def)
qed

text \<open>The first section of a kind, as a scan of the decoded entries.\<close>

lemma index_find_Some:
  assumes "index_find idx kind = Some off"
  shows "\<exists>i < length (si_entries idx). si_entries idx ! i =
      \<lparr>ie_section_type = kind, ie_offset_from_base = off\<rparr>
      \<and> (\<forall>j < i. ie_section_type (si_entries idx ! j) \<noteq> kind)"
proof -
  from assms obtain e where e: "find (\<lambda>e. ie_section_type e = kind) (si_entries idx) = Some e"
    and off: "off = ie_offset_from_base e" by (auto simp: index_find_def)
  from e have "ie_section_type e = kind" by (auto simp: find_Some_iff)
  with off have "e = \<lparr>ie_section_type = kind, ie_offset_from_base = off\<rparr>" by simp
  with e show ?thesis by (auto simp: find_Some_iff)
qed

lemma index_find_None:
  "index_find idx kind = None \<longleftrightarrow> (\<forall>e \<in> set (si_entries idx). ie_section_type e \<noteq> kind)"
  by (auto simp: index_find_def find_None_iff)

end
