(* ===== verification/Integrity.thy ===== *)
theory Integrity
  imports Section_Header
begin

text \<open>
  \<open>src/src/format/integrity.rs\<close>: the two per-section hashes. The hash functions themselves come
  from the \<open>xxhash_rust\<close> and \<open>sha2\<close> crates and are the fields of \<open>hash_lib\<close>. The slices
  \<open>[XXH_COVER_START..]\<close> and \<open>[SHA_COVER_START..]\<close> are taken of complete sections, which are at
  least 64 bytes long.
\<close>

record hash_lib =
  hl_xxh3_64 :: "bytes \<Rightarrow> u64"
  hl_sha512_256 :: "bytes \<Rightarrow> bytes"

definition compute_xxh3 :: "hash_lib \<Rightarrow> bytes \<Rightarrow> u64" where
  "compute_xxh3 hl section_bytes = hl_xxh3_64 hl (drop XXH_COVER_START section_bytes)"

definition compute_sha512_256 :: "hash_lib \<Rightarrow> bytes \<Rightarrow> bytes" where
  "compute_sha512_256 hl section_bytes = hl_sha512_256 hl (drop SHA_COVER_START section_bytes)"

definition verify_xxh3 :: "hash_lib \<Rightarrow> section_header \<Rightarrow> bytes \<Rightarrow> unit result" where
  "verify_xxh3 hl h section_bytes =
     (if compute_xxh3 hl section_bytes = sh_xxh3_64 h then Inr ()
      else Inl (IntegrityMismatch (sh_number h) ''xxh3''))"

definition verify_sha512_256 :: "hash_lib \<Rightarrow> section_header \<Rightarrow> bytes \<Rightarrow> unit result" where
  "verify_sha512_256 hl h section_bytes =
     (if compute_sha512_256 hl section_bytes = sh_sha512_256 h then Inr ()
      else Inl (IntegrityMismatch (sh_number h) ''sha512_256''))"

definition verify :: "hash_lib \<Rightarrow> section_header \<Rightarrow> bytes \<Rightarrow> unit result" where
  "verify hl h section_bytes =
     and_then (verify_xxh3 hl h section_bytes) (\<lambda>_. verify_sha512_256 hl h section_bytes)"

lemma verify_xxh3_Inr [simp]:
  "verify_xxh3 hl h b = Inr u \<longleftrightarrow> compute_xxh3 hl b = sh_xxh3_64 h"
  by (simp add: verify_xxh3_def)

lemma verify_sha_Inr [simp]:
  "verify_sha512_256 hl h b = Inr u \<longleftrightarrow> compute_sha512_256 hl b = sh_sha512_256 h"
  by (simp add: verify_sha512_256_def)

text \<open>
  Stamping a section the way the writer of the tests does: the fast hash first, then the slow
  one, which covers the fast hash field.
\<close>

definition put_at :: "nat \<Rightarrow> bytes \<Rightarrow> bytes \<Rightarrow> bytes" where
  "put_at off new bs = take off bs @ new @ drop (off + length new) bs"

definition finish_section :: "hash_lib \<Rightarrow> bytes \<Rightarrow> bytes" where
  "finish_section hl bs =
     (let b1 = put_at 0x28 (to_le_bytes (compute_xxh3 hl bs)) bs
      in put_at 0x08 (compute_sha512_256 hl b1) b1)"

lemma length_put_at: "off + length new \<le> length bs \<Longrightarrow> length (put_at off new bs) = length bs"
  by (simp add: put_at_def)

lemma drop_put_at: "off + length new \<le> n \<Longrightarrow> n \<le> length bs \<Longrightarrow> drop n (put_at off new bs) = drop n bs"
  by (simp add: put_at_def)

lemma subslice_put_at:
  "off + length new \<le> length bs \<Longrightarrow> subslice (put_at off new bs) off (off + length new) = new"
  by (simp add: put_at_def subslice_append2 subslice_0)

lemma subslice_put_at_other:
  assumes "off + length new \<le> a \<or> b \<le> off" "off + length new \<le> length bs"
  shows "subslice (put_at off new bs) a b = subslice bs a b"
proof (cases "off + length new \<le> a")
  case True
  with assms(2) show ?thesis
    by (simp add: put_at_def subslice_def)
next
  case False
  with assms have "b \<le> off" by simp
  with assms(2) have "subslice (put_at off new bs) a b = subslice (take off bs) a b"
    unfolding put_at_def by (intro subslice_append1) simp
  with \<open>b \<le> off\<close> show ?thesis by (simp add: subslice_take)
qed

lemma nth_put_at_before: "i < off \<Longrightarrow> off \<le> length bs \<Longrightarrow> put_at off new bs ! i = bs ! i"
  by (simp add: put_at_def nth_append)

text \<open>A stamped section verifies against the header parsed back from its own bytes.\<close>

lemma finish_section_verifies:
  assumes sha: "\<And>x. length (hl_sha512_256 hl x) = 32" and len: "64 \<le> length bs"
    and parse: "parse_header (finish_section hl bs) off = Inr h"
  shows "verify hl h (finish_section hl bs) = Inr ()"
proof -
  define b1 where "b1 = put_at 0x28 (to_le_bytes (compute_xxh3 hl bs)) bs"
  define b2 where "b2 = put_at 0x08 (compute_sha512_256 hl b1) b1"
  have len1: "length b1 = length bs" using len by (simp add: b1_def length_put_at)
  have sha_len: "length (compute_sha512_256 hl b1) = 32" by (simp add: compute_sha512_256_def sha)
  have b2: "finish_section hl bs = b2" by (simp add: finish_section_def b1_def b2_def Let_def)
  have "drop 48 b2 = drop 48 b1" unfolding b2_def by (rule drop_put_at) (use len len1 sha_len in auto)
  moreover have "drop 48 b1 = drop 48 bs" unfolding b1_def by (rule drop_put_at) (use len in auto)
  moreover have "drop 40 b2 = drop 40 b1"
    unfolding b2_def by (rule drop_put_at) (use len len1 sha_len in auto)
  moreover have "subslice b2 8 40 = compute_sha512_256 hl b1"
    using subslice_put_at [of 8 "compute_sha512_256 hl b1" b1] len len1 sha_len by (simp add: b2_def)
  moreover have "subslice b2 40 48 = to_le_bytes (compute_xxh3 hl bs)"
    using subslice_put_at_other [of 8 "compute_sha512_256 hl b1" 40 48 b1]
      subslice_put_at [of 40 "to_le_bytes (compute_xxh3 hl bs)" bs] len len1 sha_len
    by (simp add: b2_def b1_def)
  moreover have "sh_xxh3_64 h = from_le_bytes (subslice b2 40 48)"
    "sh_sha512_256 h = subslice b2 8 40"
    using parse by (auto simp: b2 parse_header_def Let_def split: if_splits)
  ultimately show ?thesis
    by (simp add: verify_def b2 verify_xxh3_def verify_sha512_256_def compute_xxh3_def
        compute_sha512_256_def)
qed

text \<open>
  Two section images that both verify and carry the same fast hash collide in the hash function
  as soon as they differ anywhere from the section number on.
\<close>

lemma verify_xxh3_collision:
  assumes "verify_xxh3 hl h b = Inr ()" "verify_xxh3 hl h b' = Inr ()"
    and "drop XXH_COVER_START b \<noteq> drop XXH_COVER_START b'"
  shows "\<exists>x y. x \<noteq> y \<and> hl_xxh3_64 hl x = hl_xxh3_64 hl y"
proof (intro exI conjI)
  show "drop XXH_COVER_START b \<noteq> drop XXH_COVER_START b'" by (rule assms(3))
  show "hl_xxh3_64 hl (drop XXH_COVER_START b) = hl_xxh3_64 hl (drop XXH_COVER_START b')"
    using assms(1,2) by (simp add: compute_xxh3_def)
qed

end
