(* ===== verification/Codecs.thy ===== *)
theory Codecs
  imports Section_Types Leb128
begin

text \<open>
  Block compression (\<open>src/src/compression/\<close>): the codec dispatch, the framing each codec uses and
  the two output sinks that bound a decode. The decoders themselves come from the crates \<open>zstd\<close>,
  \<open>lz4_flex\<close>, \<open>lzma_rs\<close>, \<open>liblzma\<close> and \<open>brotli\<close>: they are the fields of \<open>codec_lib\<close>.

  A streaming decoder is the list of what its reads will deliver: \<open>Chunk\<close> some bytes,
  \<open>Interrupted\<close> a read to be retried, \<open>ReadErr\<close> a failed read; past the end of the list a read
  returns no bytes. A read into a short buffer takes what fits and leaves the rest of the chunk.
  Every finite run of a \<open>Read\<close> implementation is one such list. Feature gates of the crate are
  the flags of \<open>features\<close>.
\<close>

datatype read_event = Chunk bytes | Interrupted | ReadErr string

type_synonym stream = "read_event list"

record codec_lib =
  cl_zstd_frame_content_size :: "bytes \<Rightarrow> string + nat option"
  cl_zstd_bulk_decompress :: "bytes \<Rightarrow> nat \<Rightarrow> string + bytes"
  cl_zstd_decoder :: "bytes \<Rightarrow> string + stream"
  cl_lz4_block_decompress :: "bytes \<Rightarrow> nat \<Rightarrow> string + bytes"
  cl_xz_output :: "bytes \<Rightarrow> stream"
  cl_liblzma_decoder :: "bytes \<Rightarrow> stream"
  cl_brotli_decompressor :: "bytes \<Rightarrow> stream"

record features =
  ft_zstd :: bool
  ft_lzma :: bool
  ft_lzma_native :: bool
  ft_lz4 :: bool
  ft_brotli :: bool

definition codec_name :: "compression \<Rightarrow> string" where
  "codec_name codec =
     (case codec of
        NoCompression \<Rightarrow> ''none''
      | Lzma \<Rightarrow> ''lzma''
      | Zstd \<Rightarrow> ''zstd''
      | Lz4 \<Rightarrow> ''lz4''
      | Lz4Hc \<Rightarrow> ''lz4hc''
      | Brotli \<Rightarrow> ''brotli''
      | Flac \<Rightarrow> ''flac''
      | Ricepp \<Rightarrow> ''ricepp''
      | UnknownCodec _ \<Rightarrow> ''unknown'')"

definition map_decode :: "string \<Rightarrow> string + 'a \<Rightarrow> 'a result" where
  "map_decode codec r = (case r of Inl msg \<Rightarrow> Inl (Decode codec msg) | Inr x \<Rightarrow> Inr x)"

lemma map_decode_simps [simp]:
  "map_decode c (Inl m) = Inl (Decode c m)" "map_decode c (Inr x) = Inr x"
  by (simp_all add: map_decode_def)

lemma map_decode_Inr [result_simps]: "map_decode c r = Inr x \<longleftrightarrow> r = Inr x"
  by (cases r) auto

subsection \<open>Readers and sinks\<close>

text \<open>One \<open>read\<close> into a buffer of \<open>room\<close> bytes.\<close>

fun dec_read :: "nat \<Rightarrow> stream \<Rightarrow> (read_event \<times> stream)" where
  "dec_read room [] = (Chunk [], [])"
| "dec_read room (Chunk c # evs) =
     (Chunk (take room c), if room < length c then Chunk (drop room c) # evs else evs)"
| "dec_read room (ev # evs) = (ev, evs)"

record capped_writer =
  cw_buf :: bytes
  cw_cap :: nat

definition capped_new :: "nat \<Rightarrow> capped_writer" where
  "capped_new cap = \<lparr>cw_buf = [], cw_cap = cap\<rparr>"

text \<open>The expected size only sizes the first allocation.\<close>

definition capped_with_expected_size :: "nat \<Rightarrow> nat \<Rightarrow> capped_writer" where
  "capped_with_expected_size cap expected = \<lparr>cw_buf = [], cw_cap = cap\<rparr>"

definition capped_write :: "capped_writer \<Rightarrow> bytes \<Rightarrow> string + capped_writer" where
  "capped_write w data =
     (if cw_cap w < saturating_add64 (length (cw_buf w)) (length data)
      then Inl ''output exceeded cap of {} bytes''
      else Inr (w\<lparr>cw_buf := cw_buf w @ data\<rparr>))"

record prefix_writer =
  pw_buf :: bytes
  pw_needed :: nat

definition PREFIX_COMPLETE :: string where "PREFIX_COMPLETE = ''rdwarfs: prefix complete''"

definition prefix_new :: "nat \<Rightarrow> prefix_writer" where
  "prefix_new needed = \<lparr>pw_buf = [], pw_needed = needed\<rparr>"

definition is_complete :: "string \<Rightarrow> bool" where
  "is_complete err =
     (\<exists>i \<in> set [0..<Suc (length err)]. take (length PREFIX_COMPLETE) (drop i err) = PREFIX_COMPLETE)"

text \<open>The write also keeps the bytes it took when it reports completion.\<close>

definition prefix_write :: "prefix_writer \<Rightarrow> bytes \<Rightarrow> prefix_writer \<times> string option" where
  "prefix_write w data =
     (let room = pw_needed w - length (pw_buf w);
          taken = min room (length data);
          w' = w\<lparr>pw_buf := pw_buf w @ take taken data\<rparr>
      in (w', if pw_needed w \<le> length (pw_buf w') then Some PREFIX_COMPLETE else None))"

text \<open>\<open>std::io::copy\<close> into a capped sink: 8 KiB reads, interrupted reads retried.\<close>

function io_copy :: "stream \<Rightarrow> capped_writer \<Rightarrow> string + capped_writer" where
  "io_copy evs sink =
     (case dec_read 8192 evs of
        (Interrupted, evs') \<Rightarrow> io_copy evs' sink
      | (ReadErr msg, _) \<Rightarrow> Inl msg
      | (Chunk data, evs') \<Rightarrow>
          if data = [] then Inr sink
          else and_then (capped_write sink data) (\<lambda>sink'. io_copy evs' sink'))"
  by pat_completeness auto

fun pending :: "stream \<Rightarrow> nat" where
  "pending [] = 0"
| "pending (Chunk c # evs) = Suc (length c) + pending evs"
| "pending (ev # evs) = Suc (pending evs)"

lemma dec_read_pending:
  "dec_read room evs = (ev, evs') \<Longrightarrow> ev \<noteq> Chunk [] \<Longrightarrow> pending evs' < pending evs"
  by (cases "(room, evs)" rule: dec_read.cases) (auto split: if_splits)

termination io_copy
  by (relation "measure (\<lambda>(evs, _). pending evs)") (auto dest!: dec_read_pending [OF sym])

declare io_copy.simps [simp del]

subsection \<open>Codecs\<close>

definition none_decompress :: "bytes \<Rightarrow> nat \<Rightarrow> bytes result" where
  "none_decompress src cap =
     (if cap < length src then Inl (Decode ''none'' ''payload size {} exceeds cap {}'')
      else Inr src)"

definition lz4_decompress :: "codec_lib \<Rightarrow> bytes \<Rightarrow> nat \<Rightarrow> bytes result" where
  "lz4_decompress cl src cap =
     (if length src < 4 then Inl (Decode ''lz4'' ''missing 4-byte size prefix'')
      else let declared = unat (from_le_bytes (take 4 src) :: u32) in
        if cap < declared then Inl (Decode ''lz4'' ''declared size {size} exceeds cap {cap}'')
        else map_decode ''lz4'' (cl_lz4_block_decompress cl (drop 4 src) declared))"

definition zstd_decompress :: "codec_lib \<Rightarrow> bytes \<Rightarrow> nat \<Rightarrow> bytes result" where
  "zstd_decompress cl src cap =
     (case cl_zstd_frame_content_size cl src of
        Inr (Some content_size) \<Rightarrow>
          if cap < content_size then Inl (Decode ''zstd'' ''frame declares {size} bytes, cap is {cap}'')
          else map_decode ''zstd'' (cl_zstd_bulk_decompress cl src content_size)
      | _ \<Rightarrow>
          and_then (map_decode ''zstd'' (cl_zstd_decoder cl src)) (\<lambda>decoder.
          and_then (map_decode ''zstd'' (io_copy decoder (capped_new cap))) (\<lambda>sink.
          Inr (cw_buf sink))))"

function zstd_fill :: "nat \<Rightarrow> stream \<Rightarrow> bytes \<Rightarrow> string + bytes" where
  "zstd_fill needed evs filled =
     (if length filled < needed then
        (case dec_read (needed - length filled) evs of
           (Chunk data, evs') \<Rightarrow>
             if data = [] then Inr filled else zstd_fill needed evs' (filled @ data)
         | (Interrupted, _) \<Rightarrow> Inl ''interrupted''
         | (ReadErr msg, _) \<Rightarrow> Inl msg)
      else Inr filled)"
  by pat_completeness auto
termination
  by (relation "measure (\<lambda>(_, evs, _). pending evs)") (auto dest!: dec_read_pending [OF sym])

declare zstd_fill.simps [simp del]

definition zstd_decompress_prefix :: "codec_lib \<Rightarrow> bytes \<Rightarrow> nat \<Rightarrow> bytes result" where
  "zstd_decompress_prefix cl src needed =
     and_then (map_decode ''zstd'' (cl_zstd_decoder cl src)) (\<lambda>decoder.
     map_decode ''zstd'' (zstd_fill needed decoder []))"

text \<open>\<open>lzma_rs\<close> owns the output loop: it pushes each piece it decodes into the sink.\<close>

fun xz_into_capped :: "stream \<Rightarrow> capped_writer \<Rightarrow> string + capped_writer" where
  "xz_into_capped [] sink = Inr sink"
| "xz_into_capped (Chunk data # evs) sink =
     (if data = [] then xz_into_capped evs sink
      else and_then (capped_write sink data) (\<lambda>sink'. xz_into_capped evs sink'))"
| "xz_into_capped (Interrupted # evs) sink = xz_into_capped evs sink"
| "xz_into_capped (ReadErr msg # evs) sink = Inl msg"

fun xz_into_prefix :: "stream \<Rightarrow> prefix_writer \<Rightarrow> prefix_writer \<times> string option" where
  "xz_into_prefix [] sink = (sink, None)"
| "xz_into_prefix (Chunk data # evs) sink =
     (if data = [] then xz_into_prefix evs sink
      else case prefix_write sink data of
        (sink', Some err) \<Rightarrow> (sink', Some err)
      | (sink', None) \<Rightarrow> xz_into_prefix evs sink')"
| "xz_into_prefix (Interrupted # evs) sink = xz_into_prefix evs sink"
| "xz_into_prefix (ReadErr msg # evs) sink = (sink, Some msg)"

definition lzma_rs_decompress :: "codec_lib \<Rightarrow> bytes \<Rightarrow> nat \<Rightarrow> bytes result" where
  "lzma_rs_decompress cl src cap =
     and_then (map_decode ''lzma'' (xz_into_capped (cl_xz_output cl src) (capped_new cap)))
       (\<lambda>sink. Inr (cw_buf sink))"

definition lzma_rs_decompress_prefix :: "codec_lib \<Rightarrow> bytes \<Rightarrow> nat \<Rightarrow> bytes result" where
  "lzma_rs_decompress_prefix cl src needed =
     (case xz_into_prefix (cl_xz_output cl src) (prefix_new needed) of
        (sink, None) \<Rightarrow> Inr (pw_buf sink)
      | (sink, Some err) \<Rightarrow>
          if is_complete err then Inr (pw_buf sink) else Inl (Decode ''lzma'' err))"

function read_stream_loop :: "nat \<Rightarrow> nat \<Rightarrow> stream \<Rightarrow> bytes \<Rightarrow> bytes result" where
  "read_stream_loop want cap evs out =
     (if length out < want then
        (case dec_read (min (want - length out) (256 * 1024)) evs of
           (Chunk data, evs') \<Rightarrow>
             if data = [] then Inr out
             else let out' = out @ data in
               if cap < length out'
               then Inl (Decode ''lzma'' ''output exceeded cap of {cap} bytes'')
               else read_stream_loop want cap evs' out'
         | (Interrupted, _) \<Rightarrow> Inl (Decode ''lzma'' ''interrupted'')
         | (ReadErr msg, _) \<Rightarrow> Inl (Decode ''lzma'' msg))
      else Inr out)"
  by pat_completeness auto
termination
  by (relation "measure (\<lambda>(_, _, evs, _). pending evs)") (auto dest!: dec_read_pending [OF sym])

declare read_stream_loop.simps [simp del]

definition read_stream :: "codec_lib \<Rightarrow> bytes \<Rightarrow> nat \<Rightarrow> nat \<Rightarrow> bytes result" where
  "read_stream cl src want cap = read_stream_loop want cap (cl_liblzma_decoder cl src) []"

definition lzma_decompress :: "features \<Rightarrow> codec_lib \<Rightarrow> bytes \<Rightarrow> nat \<Rightarrow> bytes result" where
  "lzma_decompress ft cl src cap =
     (if ft_lzma_native ft then read_stream cl src cap cap else lzma_rs_decompress cl src cap)"

definition lzma_decompress_prefix :: "features \<Rightarrow> codec_lib \<Rightarrow> bytes \<Rightarrow> nat \<Rightarrow> bytes result" where
  "lzma_decompress_prefix ft cl src needed =
     (if ft_lzma_native ft then read_stream cl src needed needed
      else lzma_rs_decompress_prefix cl src needed)"

definition LEB128_MAX_BYTES :: nat where "LEB128_MAX_BYTES = 10"

fun read_leb128_from :: "bytes \<Rightarrow> nat \<Rightarrow> u64 \<Rightarrow> nat \<Rightarrow> (u64 \<times> nat) result" where
  "read_leb128_from [] i res shift =
     Inl (Decode ''brotli'' ''leb128 size truncated or too long'')"
| "read_leb128_from (byte # bs) i res shift =
     and_then (ok_or (checked_shl64 (ucast (byte AND 0x7F)) shift)
                (Decode ''brotli'' ''leb128 size overflow'')) (\<lambda>chunk.
     let res' = res OR chunk in
     if byte AND 0x80 = 0 then Inr (res', i + 1)
     else read_leb128_from bs (i + 1) res' (shift + 7))"

definition read_leb128_u64 :: "bytes \<Rightarrow> (u64 \<times> nat) result" where
  "read_leb128_u64 src = read_leb128_from (take LEB128_MAX_BYTES src) 0 0 0"

function brotli_loop :: "stream \<Rightarrow> capped_writer \<Rightarrow> string + capped_writer" where
  "brotli_loop evs sink =
     (case dec_read 8192 evs of
        (Chunk data, evs') \<Rightarrow>
          if data = [] then Inr sink
          else and_then (capped_write sink data) (\<lambda>sink'. brotli_loop evs' sink')
      | (Interrupted, evs') \<Rightarrow> brotli_loop evs' sink
      | (ReadErr msg, _) \<Rightarrow> Inl msg)"
  by pat_completeness auto
termination
  by (relation "measure (\<lambda>(evs, _). pending evs)") (auto dest!: dec_read_pending [OF sym])

declare brotli_loop.simps [simp del]

definition brotli_decompress :: "codec_lib \<Rightarrow> bytes \<Rightarrow> nat \<Rightarrow> bytes result" where
  "brotli_decompress cl src cap =
     and_then (read_leb128_u64 src) (\<lambda>(declared, consumed).
     if cap < unat declared
     then Inl (Decode ''brotli'' ''declared size {declared} exceeds cap {cap}'')
     else and_then
       (map_decode ''brotli''
         (brotli_loop (cl_brotli_decompressor cl (drop consumed src))
            (capped_with_expected_size cap (unat declared))))
       (\<lambda>sink. Inr (cw_buf sink)))"

subsection \<open>Dispatch\<close>

definition decompress_prefix ::
    "features \<Rightarrow> codec_lib \<Rightarrow> compression \<Rightarrow> bytes \<Rightarrow> nat \<Rightarrow> bytes option result" where
  "decompress_prefix ft cl codec src needed =
     (case codec of
        Zstd \<Rightarrow>
          if ft_zstd ft then and_then (zstd_decompress_prefix cl src needed) (\<lambda>b. Inr (Some b))
          else Inr None
      | Lzma \<Rightarrow>
          if ft_lzma ft
          then and_then (lzma_decompress_prefix ft cl src needed) (\<lambda>b. Inr (Some b))
          else Inr None
      | _ \<Rightarrow> Inr None)"

definition decompress ::
    "features \<Rightarrow> codec_lib \<Rightarrow> compression \<Rightarrow> bytes \<Rightarrow> nat \<Rightarrow> bytes result" where
  "decompress ft cl codec src cap =
     (case codec of
        NoCompression \<Rightarrow> none_decompress src cap
      | Zstd \<Rightarrow> if ft_zstd ft then zstd_decompress cl src cap else Inl (CodecDisabled ''zstd'')
      | Lzma \<Rightarrow> if ft_lzma ft then lzma_decompress ft cl src cap else Inl (CodecDisabled ''lzma'')
      | Lz4 \<Rightarrow> if ft_lz4 ft then lz4_decompress cl src cap else Inl (CodecDisabled ''lz4'')
      | Lz4Hc \<Rightarrow> if ft_lz4 ft then lz4_decompress cl src cap else Inl (CodecDisabled ''lz4'')
      | Brotli \<Rightarrow>
          if ft_brotli ft then brotli_decompress cl src cap else Inl (CodecDisabled ''brotli'')
      | Flac \<Rightarrow> Inl (CodecUnimplemented ''flac'')
      | Ricepp \<Rightarrow> Inl (CodecUnimplemented ''ricepp'')
      | UnknownCodec value \<Rightarrow> Inl (UnknownCompression value))"

subsection \<open>The output bound\<close>

lemma capped_write_Inr:
  "capped_write w data = Inr w' \<Longrightarrow>
     w' = w\<lparr>cw_buf := cw_buf w @ data\<rparr>
     \<and> saturating_add64 (length (cw_buf w)) (length data) \<le> cw_cap w"
  by (auto simp: capped_write_def split: if_splits)

lemma capped_write_bound:
  "capped_write w data = Inr w' \<Longrightarrow> cw_cap w < 2 ^ 64 - 1 \<Longrightarrow>
     cw_cap w' = cw_cap w \<and> length (cw_buf w') \<le> cw_cap w"
  by (auto dest!: capped_write_Inr simp: saturating_add64_def min_def split: if_splits)

text \<open>What a stream delivers in full when it is read to its end.\<close>

fun drain :: "stream \<Rightarrow> string + bytes" where
  "drain [] = Inr []"
| "drain (Chunk c # evs) =
     (if c = [] then Inr [] else and_then (drain evs) (\<lambda>bs. Inr (c @ bs)))"
| "drain (Interrupted # evs) = drain evs"
| "drain (ReadErr msg # evs) = Inl msg"

text \<open>The same for a decoder that pushes its output and skips empty pieces.\<close>

fun push_all :: "stream \<Rightarrow> string + bytes" where
  "push_all [] = Inr []"
| "push_all (Chunk c # evs) = and_then (push_all evs) (\<lambda>bs. Inr (c @ bs))"
| "push_all (Interrupted # evs) = push_all evs"
| "push_all (ReadErr msg # evs) = Inl msg"

lemma brotli_loop_io_copy: "brotli_loop evs sink = io_copy evs sink"
proof (induction evs sink rule: io_copy.induct)
  case (1 evs sink)
  obtain ev evs' where step: "dec_read 8192 evs = (ev, evs')" by (cases "dec_read 8192 evs")
  show ?case
    by (cases ev; cases "capped_write sink (case ev of Chunk d \<Rightarrow> d | _ \<Rightarrow> [])")
      (auto simp: brotli_loop.simps [of evs] io_copy.simps [of evs] step 1)
qed

lemma drain_dec_read_chunk:
  assumes "dec_read room evs = (Chunk data, evs')" "data \<noteq> []"
  shows "drain evs = and_then (drain evs') (\<lambda>bs. Inr (data @ bs))"
  using assms
  by (cases "(room, evs)" rule: dec_read.cases; cases "drain (tl evs)")
    (auto split: if_splits)

lemma drain_dec_read_end:
  "dec_read room evs = (Chunk [], evs') \<Longrightarrow> 0 < room \<Longrightarrow> drain evs = Inr []"
  by (cases "(room, evs)" rule: dec_read.cases) auto

lemma drain_dec_read_other:
  "dec_read room evs = (Interrupted, evs') \<Longrightarrow> drain evs = drain evs'"
  "dec_read room evs = (ReadErr msg, evs') \<Longrightarrow> drain evs = Inl msg"
  by (cases "(room, evs)" rule: dec_read.cases; simp)+

lemma io_copy_Inr:
  "io_copy evs sink = Inr sink' \<Longrightarrow> cw_cap sink < 2 ^ 64 - 1 \<Longrightarrow>
   length (cw_buf sink) \<le> cw_cap sink \<Longrightarrow>
     (\<exists>bs. drain evs = Inr bs \<and> sink' = sink\<lparr>cw_buf := cw_buf sink @ bs\<rparr>
        \<and> length (cw_buf sink @ bs) \<le> cw_cap sink)"
proof (induction evs sink rule: io_copy.induct)
  case (1 evs sink)
  obtain ev evs' where step: "dec_read 8192 evs = (ev, evs')" by (cases "dec_read 8192 evs")
  show ?case
  proof (cases ev)
    case (Chunk data)
    show ?thesis
    proof (cases "data = []")
      case True
      with 1(3-) Chunk step show ?thesis
        by (auto simp: io_copy.simps [of evs] drain_dec_read_end [of 8192])
    next
      case False
      with 1(3-) Chunk step obtain s1 where w: "capped_write sink data = Inr s1"
        and rest: "io_copy evs' s1 = Inr sink'"
        by (auto simp: io_copy.simps [of evs] result_simps)
      from 1(1) [OF step [symmetric] Chunk False w rest] capped_write_bound [OF w] 1(4)
        capped_write_Inr [OF w] drain_dec_read_chunk [of 8192 evs data evs'] step Chunk False
      show ?thesis by auto
    qed
  next
    case Interrupted
    with 1 step show ?thesis
      by (auto simp: io_copy.simps [of evs] drain_dec_read_other)
  next
    case (ReadErr msg)
    with 1(3) step show ?thesis by (simp add: io_copy.simps [of evs])
  qed
qed

lemma xz_into_capped_Inr:
  "xz_into_capped evs sink = Inr sink' \<Longrightarrow> cw_cap sink < 2 ^ 64 - 1 \<Longrightarrow>
   length (cw_buf sink) \<le> cw_cap sink \<Longrightarrow>
     (\<exists>bs. push_all evs = Inr bs \<and> sink' = sink\<lparr>cw_buf := cw_buf sink @ bs\<rparr>
        \<and> length (cw_buf sink @ bs) \<le> cw_cap sink)"
proof (induction evs sink rule: xz_into_capped.induct)
  case (2 data evs sink)
  show ?case
  proof (cases "data = []")
    case True
    with 2 show ?thesis by auto
  next
    case False
    with 2(3) obtain s1 where w: "capped_write sink data = Inr s1"
      and rest: "xz_into_capped evs s1 = Inr sink'" by (auto simp: result_simps)
    from 2(2) [OF False w rest] capped_write_bound [OF w] capped_write_Inr [OF w] 2(4)
    show ?thesis by auto
  qed
qed auto

lemma dec_read_room: "dec_read room evs = (Chunk data, evs') \<Longrightarrow> length data \<le> room"
  by (cases "(room, evs)" rule: dec_read.cases) auto

lemma dec_read_clean:
  "dec_read room evs = (ev, evs') \<Longrightarrow> Interrupted \<notin> set evs \<Longrightarrow>
     ev \<noteq> Interrupted \<and> Interrupted \<notin> set evs'"
  by (cases "(room, evs)" rule: dec_read.cases) (auto split: if_splits)

lemma read_stream_loop_length:
  "read_stream_loop want cap evs out = Inr res \<Longrightarrow> length out \<le> want \<Longrightarrow> length res \<le> want"
proof (induction want cap evs out rule: read_stream_loop.induct)
  case (1 want cap evs out)
  obtain ev evs' where step: "dec_read (min (want - length out) (256 * 1024)) evs = (ev, evs')"
    by (cases "dec_read (min (want - length out) (256 * 1024)) evs")
  show ?case
  proof (cases ev)
    case (Chunk data)
    with step have "length data \<le> want - length out" by (auto dest: dec_read_room)
    with 1 step Chunk show ?thesis
      by (auto simp: read_stream_loop.simps [of want cap evs out] Let_def split: if_splits)
  next
    case Interrupted
    with 1(2,3) step show ?thesis
      by (auto simp: read_stream_loop.simps [of want cap evs out] split: if_splits)
  next
    case (ReadErr msg)
    with 1(2,3) step show ?thesis
      by (auto simp: read_stream_loop.simps [of want cap evs out] split: if_splits)
  qed
qed

text \<open>
  The one-shot decoders are documented to fill a buffer of the size they are given and never
  more.
\<close>

definition one_shot_bounded :: "codec_lib \<Rightarrow> bool" where
  "one_shot_bounded cl \<longleftrightarrow>
     (\<forall>src n out. cl_lz4_block_decompress cl src n = Inr out \<longrightarrow> length out \<le> n)
     \<and> (\<forall>src n out. cl_zstd_bulk_decompress cl src n = Inr out \<longrightarrow> length out \<le> n)"

lemma decompress_within_cap:
  assumes "one_shot_bounded cl" "cap < 2 ^ 64 - 1" "decompress ft cl codec src cap = Inr out"
  shows "length out \<le> cap"
proof -
  have capped: "length (cw_buf (capped_new cap)) \<le> cw_cap (capped_new cap)"
    "cw_cap (capped_new cap) = cap" "cw_buf (capped_new cap) = []"
    by (simp_all add: capped_new_def)
  have exp: "capped_with_expected_size cap n = capped_new cap" for n
    by (simp add: capped_new_def capped_with_expected_size_def)
  have io: "length (cw_buf sink) \<le> cap" if "io_copy evs (capped_new cap) = Inr sink" for evs sink
    using io_copy_Inr [OF that] assms(2) capped by auto
  have xz: "length (cw_buf sink) \<le> cap" if "xz_into_capped evs (capped_new cap) = Inr sink"
    for evs sink
    using xz_into_capped_Inr [OF that] assms(2) capped by auto
  have lz4: "length out \<le> cap" if "lz4_decompress cl src cap = Inr out"
    using that assms(1)
    by (fastforce simp: lz4_decompress_def one_shot_bounded_def Let_def result_simps)
  show ?thesis
  proof (cases codec)
    case Zstd
    with assms(1,3) show ?thesis
      by (fastforce simp: decompress_def zstd_decompress_def one_shot_bounded_def result_simps
          split: sum.splits option.splits if_splits dest: io)
  next
    case Lzma
    with assms(3) show ?thesis
      by (auto simp: decompress_def lzma_decompress_def lzma_rs_decompress_def read_stream_def
          result_simps split: if_splits dest: xz read_stream_loop_length)
  next
    case Brotli
    with assms(3) show ?thesis
      by (auto simp: decompress_def brotli_decompress_def exp brotli_loop_io_copy result_simps
          split: if_splits dest: io)
  qed (use assms(3) lz4 in \<open>auto simp: decompress_def none_decompress_def split: if_splits\<close>)
qed

subsection \<open>Prefix decodes\<close>

lemma zstd_fill_drain:
  "Interrupted \<notin> set evs \<Longrightarrow> drain evs = Inr bs \<Longrightarrow> length filled \<le> needed \<Longrightarrow>
     zstd_fill needed evs filled = Inr (filled @ take (needed - length filled) bs)"
proof (induction needed evs filled arbitrary: bs rule: zstd_fill.induct)
  case (1 needed evs filled)
  show ?case
  proof (cases "length filled < needed")
    case False
    with 1(4) show ?thesis by (simp add: zstd_fill.simps [of needed evs])
  next
    case True
    let ?room = "needed - length filled"
    obtain ev evs' where step: "dec_read ?room evs = (ev, evs')" by (cases "dec_read ?room evs")
    show ?thesis
    proof (cases ev)
      case (Chunk data)
      show ?thesis
      proof (cases "data = []")
        case end_: True
        with step Chunk True 1(3) show ?thesis
          by (simp add: zstd_fill.simps [of needed evs] drain_dec_read_end [of ?room])
      next
        case False
        from step Chunk have room: "length data \<le> ?room" by (auto dest: dec_read_room)
        have "and_then (drain evs') (\<lambda>bs. Inr (data @ bs)) = Inr bs"
          using 1(3) drain_dec_read_chunk [OF step [unfolded Chunk] False] by simp
        then obtain bs' where bs': "drain evs' = Inr bs'" "bs = data @ bs'"
          by (auto simp: result_simps)
        have "zstd_fill needed evs' (filled @ data)
            = Inr ((filled @ data) @ take (needed - length (filled @ data)) bs')"
          using 1(1) [OF True step [symmetric] Chunk False _ bs'(1)] dec_read_clean [OF step 1(2)]
            room True by simp
        with True step Chunk False room bs'(2) show ?thesis
          by (simp add: zstd_fill.simps [of needed evs])
      qed
    next
      case Interrupted
      with dec_read_clean [OF step 1(2)] show ?thesis by simp
    next
      case (ReadErr msg)
      with step 1(3) drain_dec_read_other(2) [of ?room evs msg evs'] show ?thesis by simp
    qed
  qed
qed

text \<open>The bytes a decoder delivers before it ends or fails, and the failure.\<close>

fun delivered :: "stream \<Rightarrow> bytes \<times> string option" where
  "delivered [] = ([], None)"
| "delivered (Chunk c # evs) =
     (if c = [] then ([], None) else case delivered evs of (bs, e) \<Rightarrow> (c @ bs, e))"
| "delivered (Interrupted # evs) = ([], Some ''interrupted'')"
| "delivered (ReadErr msg # evs) = ([], Some msg)"

lemma delivered_read_chunk:
  assumes "dec_read room evs = (Chunk data, evs')" "data \<noteq> []" "delivered evs = (bs, e)"
  shows "\<exists>bs'. delivered evs' = (bs', e) \<and> bs = data @ bs'"
  using assms by (cases "(room, evs)" rule: dec_read.cases; cases "delivered (tl evs)")
    (auto split: if_splits)

lemma delivered_read_end:
  assumes "dec_read room evs = (Chunk [], evs')" "0 < room"
  shows "delivered evs = ([], None)"
  using assms by (cases "(room, evs)" rule: dec_read.cases) auto

lemma delivered_read_stop:
  "dec_read room evs = (Interrupted, evs') \<Longrightarrow> delivered evs = ([], Some ''interrupted'')"
  "dec_read room evs = (ReadErr msg, evs') \<Longrightarrow> delivered evs = ([], Some msg)"
  by (cases "(room, evs)" rule: dec_read.cases; simp)+

text \<open>The native loop returns the wanted prefix, and fails only when the decoder fails before it.\<close>

lemma read_stream_loop_delivered:
  "delivered evs = (bs, e) \<Longrightarrow> length out \<le> want \<Longrightarrow> want \<le> cap \<Longrightarrow>
     read_stream_loop want cap evs out
     = (if e = None \<or> want \<le> length out + length bs then Inr (out @ take (want - length out) bs)
        else Inl (Decode ''lzma'' (the e)))"
proof (induction want cap evs out arbitrary: bs rule: read_stream_loop.induct)
  case (1 want cap evs out)
  show ?case
  proof (cases "length out < want")
    case False
    with 1(3) show ?thesis by (simp add: read_stream_loop.simps [of want cap evs])
  next
    case True
    let ?room = "min (want - length out) (256 * 1024)"
    have pos: "0 < ?room" using True by simp
    obtain ev evs' where step: "dec_read ?room evs = (ev, evs')" by (cases "dec_read ?room evs")
    show ?thesis
    proof (cases ev)
      case (Chunk data)
      show ?thesis
      proof (cases "data = []")
        case end_: True
        with step Chunk True 1(2) delivered_read_end [of ?room evs evs', OF _ pos] show ?thesis
          by (simp add: read_stream_loop.simps [of want cap evs] del: min_less_iff_conj)
      next
        case False
        from step Chunk have room: "length data \<le> want - length out" by (auto dest: dec_read_room)
        from delivered_read_chunk [OF step [unfolded Chunk] False 1(2)]
        obtain bs' where bs': "delivered evs' = (bs', e)" "bs = data @ bs'" by blast
        have fits: "\<not> cap < length (out @ data)" using room 1(4) True by simp
        have "length (out @ data) \<le> want" using room True by simp
        from 1(1) [OF True step [symmetric] Chunk False refl fits bs'(1) this 1(4)]
        show ?thesis using True step Chunk False room bs'(2) fits
          by (simp add: read_stream_loop.simps [of want cap evs] Let_def add.assoc)
      qed
    next
      case Interrupted
      with step delivered_read_stop(1) [OF step [unfolded Interrupted]] 1(2) True show ?thesis
        by (auto simp: read_stream_loop.simps [of want cap evs])
    next
      case (ReadErr msg)
      with step delivered_read_stop(2) [OF step [unfolded ReadErr]] 1(2) True show ?thesis
        by (auto simp: read_stream_loop.simps [of want cap evs])
    qed
  qed
qed

lemma is_complete_own: "is_complete PREFIX_COMPLETE"
  by (auto simp: is_complete_def intro!: bexI [of _ 0])

lemma xz_into_prefix_push_all:
  assumes "push_all evs = Inr bs" "length (pw_buf sink) < pw_needed sink \<or> bs \<noteq> [] \<or> pw_buf sink = []"
    and "length (pw_buf sink) \<le> pw_needed sink"
  shows "case xz_into_prefix evs sink of (sink', err) \<Rightarrow>
     pw_buf sink' = take (pw_needed sink) (pw_buf sink @ bs)
     \<and> (err = None \<or> err = Some PREFIX_COMPLETE)"
  using assms
proof (induction evs sink arbitrary: bs rule: xz_into_prefix.induct)
  case (1 sink)
  then show ?case by simp
next
  case (2 data evs sink)
  from 2(3) obtain bs' where bs': "push_all evs = Inr bs'" "bs = data @ bs'"
    by (auto simp: result_simps)
  show ?case
  proof (cases "data = []")
    case True
    with 2(1) [OF True bs'(1)] 2(4,5) bs'(2) show ?thesis by simp
  next
    case False
    obtain s1 err where w: "prefix_write sink data = (s1, err)" by (cases "prefix_write sink data")
    let ?n = "pw_needed sink" and ?k = "length (pw_buf sink)"
    have s1: "pw_buf s1 = pw_buf sink @ take (min (?n - ?k) (length data)) data"
      "pw_needed s1 = ?n" "err = (if ?n \<le> length (pw_buf s1) then Some PREFIX_COMPLETE else None)"
      using w by (auto simp: prefix_write_def Let_def)
    show ?thesis
    proof (cases err)
      case None
      with s1 have all: "pw_buf s1 = pw_buf sink @ data" and lt: "length (pw_buf s1) < ?n"
        by (auto simp: min_def split: if_splits)
      with 2(2) [OF False w [symmetric] None bs'(1)] s1(2) bs'(2)
      show ?thesis using False w None by (simp add: less_imp_le)
    next
      case (Some msg)
      with s1 2(5) have "?n - ?k \<le> length data" by (auto simp: min_def split: if_splits)
      with s1 Some False w bs'(2) 2(5) show ?thesis
        by (auto simp: min_def split: if_splits)
    qed
  qed
next
  case (3 evs sink)
  then show ?case by simp
next
  case (4 msg evs sink)
  then show ?case by simp
qed

text \<open>
  What the codec crates promise and the code relies on: reading from memory never reports an
  interrupted read, and the one-shot and the streaming zstd decoder produce the same bytes.
\<close>

definition decoders_consistent :: "codec_lib \<Rightarrow> bytes \<Rightarrow> bool" where
  "decoders_consistent cl src \<longleftrightarrow>
     (\<forall>evs. cl_zstd_decoder cl src = Inr evs \<longrightarrow> Interrupted \<notin> set evs)
     \<and> (\<forall>n out. cl_zstd_bulk_decompress cl src n = Inr out \<longrightarrow>
          (\<exists>evs. cl_zstd_decoder cl src = Inr evs \<and> drain evs = Inr out))"

lemma zstd_prefix_agrees:
  assumes "decoders_consistent cl src" "cap < 2 ^ 64 - 1"
    and "zstd_decompress cl src cap = Inr out"
  shows "zstd_decompress_prefix cl src needed = Inr (take needed out)"
proof -
  have "\<exists>evs. cl_zstd_decoder cl src = Inr evs \<and> drain evs = Inr out"
  proof (cases "\<exists>n. cl_zstd_frame_content_size cl src = Inr (Some n)")
    case True
    with assms(3) obtain n where "cl_zstd_bulk_decompress cl src n = Inr out"
      by (auto simp: zstd_decompress_def result_simps split: if_splits)
    with assms(1) show ?thesis by (auto simp: decoders_consistent_def)
  next
    case False
    with assms(3) obtain evs sink where evs: "cl_zstd_decoder cl src = Inr evs"
      and io: "io_copy evs (capped_new cap) = Inr sink" and out: "out = cw_buf sink"
      by (auto simp: zstd_decompress_def result_simps split: sum.splits option.splits)
    with io_copy_Inr [OF io] assms(2) show ?thesis by (auto simp: capped_new_def)
  qed
  then obtain evs where "cl_zstd_decoder cl src = Inr evs" "drain evs = Inr out" by blast
  with assms(1) show ?thesis
    by (simp add: zstd_decompress_prefix_def decoders_consistent_def zstd_fill_drain)
qed

lemma lzma_prefix_agrees:
  assumes "decoders_consistent cl src" "needed \<le> cap" "cap < 2 ^ 64 - 1"
    and "lzma_decompress ft cl src cap = Inr out"
  shows "lzma_decompress_prefix ft cl src needed = Inr (take needed out)"
proof (cases "ft_lzma_native ft")
  case True
  obtain bs e where "delivered (cl_liblzma_decoder cl src) = (bs, e)" by fastforce
  from read_stream_loop_delivered [OF this, of "[]"] True assms(2,4) show ?thesis
    by (auto simp: lzma_decompress_def lzma_decompress_prefix_def read_stream_def min_def
        split: if_splits)
next
  case False
  with assms(4) obtain sink where
    xz: "xz_into_capped (cl_xz_output cl src) (capped_new cap) = Inr sink"
    and out: "out = cw_buf sink"
    by (auto simp: lzma_decompress_def lzma_rs_decompress_def result_simps)
  from xz_into_capped_Inr [OF xz] assms(3) out have "push_all (cl_xz_output cl src) = Inr out"
    by (auto simp: capped_new_def)
  from xz_into_prefix_push_all [OF this, of "prefix_new needed"] False show ?thesis
    by (auto simp: lzma_decompress_prefix_def lzma_rs_decompress_prefix_def prefix_new_def
        is_complete_own split: prod.splits option.splits)
qed

lemma decompress_prefix_agrees:
  assumes "decoders_consistent cl src" "needed \<le> cap" "cap < 2 ^ 64 - 1"
    and "decompress ft cl codec src cap = Inr out"
  shows "decompress_prefix ft cl codec src needed = Inr None
    \<or> decompress_prefix ft cl codec src needed = Inr (Some (take needed out))"
  using assms zstd_prefix_agrees [OF assms(1,3)] lzma_prefix_agrees [OF assms(1-3)]
  by (cases codec) (auto simp: decompress_prefix_def decompress_def split: if_splits)

text \<open>
  With the native lzma decoder the room of every read is limited to what is missing from the
  cap, so the cap check after the read never fires and an oversized stream is cut off silently.
\<close>

lemma native_lzma_truncates:
  assumes "ft_lzma_native ft" "delivered (cl_liblzma_decoder cl src) = (bs, None)"
  shows "lzma_decompress ft cl src cap = Inr (take cap bs)"
  using assms by (simp add: lzma_decompress_def read_stream_def read_stream_loop_delivered)

subsection \<open>The LEB128 size prefix\<close>

lemma read_leb128_from_write:
  "unat v * 2 ^ shift < 2 ^ 64 \<Longrightarrow> shift < 64 \<Longrightarrow>
     read_leb128_from (write_varint v @ rest) i res shift
     = Inr (res OR push_bit shift v, i + length (write_varint v))"
proof (induction v arbitrary: i res shift rule: write_varint.induct)
  case (1 v)
  show ?case
  proof (cases "drop_bit 7 v = 0")
    case True
    with 1(3) write_varint_last [of v] show ?thesis by (auto simp: checked_shl64_def)
  next
    case False
    then obtain b where b: "write_varint v = b # write_varint (drop_bit 7 v)" "b AND 0x80 \<noteq> 0"
      "ucast (b AND 0x7F) = v AND 0x7F" using write_varint_more [of v] by auto
    have "read_leb128_from (write_varint (drop_bit 7 v) @ rest) (Suc i)
          (res OR push_bit shift (v AND 0x7F)) (shift + 7)
        = Inr ((res OR push_bit shift (v AND 0x7F)) OR push_bit (shift + 7) (drop_bit 7 v),
            Suc i + length (write_varint (drop_bit 7 v)))"
      using varint_fits_step [OF 1(2) False] by (intro 1(1)) (auto simp: False)
    moreover have "(res OR push_bit shift (v AND 0x7F)) OR push_bit (shift + 7) (drop_bit 7 v)
        = res OR push_bit shift v"
      unfolding or.assoc varint_join ..
    ultimately show ?thesis using b 1(3) by (simp add: checked_shl64_def)
  qed
qed

lemma read_leb128_write:
  "read_leb128_u64 (write_varint v @ rest) = Inr (v, length (write_varint v))"
proof -
  have "take LEB128_MAX_BYTES (write_varint v @ rest)
      = write_varint v @ take (10 - length (write_varint v)) rest"
    using length_write_varint [of v] by (simp add: LEB128_MAX_BYTES_def)
  moreover have "unat v * 2 ^ 0 < 2 ^ 64" using unat_u64_less [of v] by simp
  ultimately show ?thesis
    using read_leb128_from_write [of v 0] by (simp add: read_leb128_u64_def)
qed

lemma read_leb128_from_shift:
  "shift + 7 * length bs < 64 + 7 \<Longrightarrow>
     read_leb128_from bs i res shift \<noteq> Inl (Decode ''brotli'' ''leb128 size overflow'')"
  by (induction bs i res shift rule: read_leb128_from.induct)
    (auto simp: checked_shl64_def Let_def)

end
