(* ===== verification/Image_File.thy ===== *)
theory Image_File
  imports Detect Sections Section_Index Integrity Codecs
begin

text \<open>
  \<open>src/src/format/image.rs\<close>: the image handle. Opening detects the first section, walks every
  header and reads the index; payloads are hashed before they are handed to a codec. Both builds of
  \<open>verify_sections\<close> are modelled: the sequential one, and the one with the \<open>parallel\<close> feature, whose
  loop is a function of the \<open>rayon\<close> crate and so a parameter.
\<close>

record image_file =
  img_source :: image_source
  img_base_offset :: nat
  img_sections :: "section_record list"
  img_section_index :: "section_index option"

definition image_build :: "image_source \<Rightarrow> image_file result" where
  "image_build s =
     and_then (detect_base_offset_in s) (\<lambda>base_offset.
     and_then (walk_sections s base_offset) (\<lambda>sections.
     and_then (index_from_source s base_offset) (\<lambda>section_index.
     Inr \<lparr>img_source = s, img_base_offset = base_offset, img_sections = sections,
          img_section_index = section_index\<rparr>)))"

definition image_from_source :: "image_source \<Rightarrow> image_file result" where
  "image_from_source s = image_build s"

definition image_from_window :: "image_source \<Rightarrow> nat \<Rightarrow> nat \<Rightarrow> image_file result" where
  "image_from_window s offset len =
     and_then (windowed_new s offset len) (\<lambda>w. image_from_source w)"

definition image_from_vec :: "bytes \<Rightarrow> image_file result" where
  "image_from_vec bs = image_from_source (vec_source bs)"

definition image_len :: "image_file \<Rightarrow> nat" where
  "image_len img = src_len (img_source img)"

definition find_section :: "image_file \<Rightarrow> section_type \<Rightarrow> section_record option" where
  "find_section img kind = find (\<lambda>r. sh_section_type (rec_header r) = kind) (img_sections img)"

definition image_read_range :: "image_file \<Rightarrow> nat \<Rightarrow> nat \<Rightarrow> bytes result" where
  "image_read_range img offset len = read_range (img_source img) offset len"

definition section_bytes :: "image_file \<Rightarrow> section_record \<Rightarrow> bytes result" where
  "section_bytes img r = image_read_range img (rec_file_offset r) (record_section_len r)"

definition payload_bytes :: "image_file \<Rightarrow> section_record \<Rightarrow> bytes result" where
  "payload_bytes img r =
     image_read_range img (wrapping_add64 (rec_file_offset r) HEADER_LEN)
       (unat (sh_payload_len (rec_header r)))"

definition decompress_section_prefix ::
    "features \<Rightarrow> codec_lib \<Rightarrow> hash_lib \<Rightarrow> image_file \<Rightarrow> section_record \<Rightarrow> nat \<Rightarrow> bytes option result"
  where
  "decompress_section_prefix ft cl hl img r needed =
     and_then (section_bytes img r) (\<lambda>section.
     and_then (verify_xxh3 hl (rec_header r) section) (\<lambda>_.
     decompress_prefix ft cl (sh_compression (rec_header r)) (drop HEADER_LEN section) needed))"

definition decompress_section ::
    "features \<Rightarrow> codec_lib \<Rightarrow> hash_lib \<Rightarrow> image_file \<Rightarrow> section_record \<Rightarrow> nat \<Rightarrow> bytes result"
  where
  "decompress_section ft cl hl img r cap =
     and_then (section_bytes img r) (\<lambda>section.
     and_then (verify_xxh3 hl (rec_header r) section) (\<lambda>_.
     decompress ft cl (sh_compression (rec_header r)) (drop HEADER_LEN section) cap))"

definition verify_one :: "hash_lib \<Rightarrow> bool \<Rightarrow> image_file \<Rightarrow> section_record \<Rightarrow> unit result" where
  "verify_one hl deep img r =
     and_then (section_bytes img r) (\<lambda>bytes.
     and_then (verify_xxh3 hl (rec_header r) bytes) (\<lambda>_.
     if deep then verify_sha512_256 hl (rec_header r) bytes else Inr ()))"

fun try_for_each :: "('a \<Rightarrow> unit result) \<Rightarrow> 'a list \<Rightarrow> unit result" where
  "try_for_each f [] = Inr ()"
| "try_for_each f (x # xs) = and_then (f x) (\<lambda>_. try_for_each f xs)"

text \<open>
  \<open>pool\<close> is \<open>Some\<close> of rayon's \<open>par_iter().try_for_each\<close> on a build with the \<open>parallel\<close> feature, which is
  the default, and \<open>None\<close> on a sequential build.
\<close>

type_synonym section_loop = "(section_record \<Rightarrow> unit result) \<Rightarrow> section_record list \<Rightarrow> unit result"

definition verify_sections :: "section_loop option \<Rightarrow> hash_lib \<Rightarrow> image_file \<Rightarrow> bool \<Rightarrow> unit result" where
  "verify_sections pool hl img deep =
     (case pool of
        Some par_try_for_each \<Rightarrow> par_try_for_each (verify_one hl deep img) (img_sections img)
      | None \<Rightarrow> try_for_each (verify_one hl deep img) (img_sections img))"

definition verify_all :: "section_loop option \<Rightarrow> hash_lib \<Rightarrow> image_file \<Rightarrow> unit result" where
  "verify_all pool hl img = verify_sections pool hl img False"

definition verify_deep :: "section_loop option \<Rightarrow> hash_lib \<Rightarrow> image_file \<Rightarrow> unit result" where
  "verify_deep pool hl img = verify_sections pool hl img True"

text \<open>
  What rayon documents of the parallel loop: it succeeds when every item does, and otherwise returns the
  error of some item, whichever the schedule of the threads brings up.
\<close>

definition some_error :: "section_loop \<Rightarrow> bool" where
  "some_error each \<longleftrightarrow>
     (\<forall>f rs. case each f rs of
        Inr _ \<Rightarrow> \<forall>r \<in> set rs. f r = Inr ()
      | Inl e \<Rightarrow> \<exists>r \<in> set rs. f r = Inl e)"

definition pool_ok :: "section_loop option \<Rightarrow> bool" where
  "pool_ok pool \<longleftrightarrow> (case pool of None \<Rightarrow> True | Some each \<Rightarrow> some_error each)"

lemma try_for_each_Inr: "try_for_each f xs = Inr u \<longleftrightarrow> (\<forall>x \<in> set xs. f x = Inr ())"
  by (induction xs) (auto simp: result_simps)

lemma try_for_each_some_error: "some_error try_for_each"
proof -
  have "try_for_each f rs = Inl e \<Longrightarrow> \<exists>r \<in> set rs. f r = Inl e" for f :: "section_record \<Rightarrow> unit result" and rs e
    by (induction rs) (auto simp: result_simps)
  then show ?thesis by (auto simp: some_error_def try_for_each_Inr split: sum.split)
qed

lemma pool_ok_None [simp]: "pool_ok None"
  by (simp add: pool_ok_def)

text \<open>In both builds the loop is one that returns some error; in the sequential one, the first.\<close>

lemma verify_sections_loop:
  assumes "pool_ok pool"
  shows "\<exists>each. some_error each \<and> (\<forall>hl img deep.
    verify_sections pool hl img deep = each (verify_one hl deep img) (img_sections img))"
  using assms try_for_each_some_error
  by (cases pool) (auto simp: verify_sections_def pool_ok_def)

lemma verify_sections_Inr:
  assumes "pool_ok pool"
  shows "verify_sections pool hl img deep = Inr u
    \<longleftrightarrow> (\<forall>r \<in> set (img_sections img). verify_one hl deep img r = Inr ())"
proof -
  obtain each where each: "some_error each"
    "verify_sections pool hl img deep = each (verify_one hl deep img) (img_sections img)"
    using verify_sections_loop [OF assms] by blast
  from each(1) have "case each (verify_one hl deep img) (img_sections img) of
        Inr _ \<Rightarrow> \<forall>r \<in> set (img_sections img). verify_one hl deep img r = Inr ()
      | Inl e \<Rightarrow> \<exists>r \<in> set (img_sections img). verify_one hl deep img r = Inl e"
    unfolding some_error_def by blast
  then show ?thesis
    unfolding each(2) by (cases "each (verify_one hl deep img) (img_sections img)") (auto, force)
qed

lemma verify_sections_Inl:
  assumes "pool_ok pool" "verify_sections pool hl img deep = Inl e"
  shows "\<exists>r \<in> set (img_sections img). verify_one hl deep img r = Inl e"
proof -
  obtain each where each: "some_error each"
    "verify_sections pool hl img deep = each (verify_one hl deep img) (img_sections img)"
    using verify_sections_loop [OF assms(1)] by blast
  from each(1) have "case each (verify_one hl deep img) (img_sections img) of
        Inr _ \<Rightarrow> \<forall>r \<in> set (img_sections img). verify_one hl deep img r = Inr ()
      | Inl e \<Rightarrow> \<exists>r \<in> set (img_sections img). verify_one hl deep img r = Inl e"
    unfolding some_error_def by blast
  with assms(2) each(2) show ?thesis by simp
qed

text \<open>An opened image: its records tile the bytes of its source from the base offset on.\<close>

definition image_ok :: "image_file \<Rightarrow> bytes \<Rightarrow> bool" where
  "image_ok img content \<longleftrightarrow>
     byte_source (img_source img) content \<and> length content < 2 ^ 63
     \<and> tiling content (img_base_offset img) (img_sections img)"

lemma detect_bound:
  assumes "detect_base_offset content = Inr base"
  shows "base + 64 \<le> length content"
  using assms by (auto simp: detect_base_offset_Inr accepts_def)

context byte_source
begin

lemma detect_in_bound:
  assumes "detect_base_offset_in s = Inr base" "length content < 2 ^ 64"
  shows "base + 64 \<le> length content"
proof (cases "src_as_slice s = None \<and> 64 \<le> length content")
  case True
  with assms have "scan_positions (verdict_src s content) [0..<Suc (length content - 64)] None
      = Inr base" by (simp add: detect_in_eq_scan)
  then have "base < Suc (length content - 64)" by (simp only: scan_positions_Inr)
  with True show ?thesis by linarith
next
  case False
  with assms src_slice detect_bound [of content base] show ?thesis
    by (auto simp: detect_base_offset_in_def src_len)
qed

lemma image_build_ok:
  assumes "image_build s = Inr img" "length content < 2 ^ 63"
  shows "image_ok img content" "img_base_offset img + 64 \<le> length content"
proof -
  from assms(1) have walk: "walk_sections s (img_base_offset img) = Inr (img_sections img)"
    and src: "img_source img = s" and base: "detect_base_offset_in s = Inr (img_base_offset img)"
    by (auto simp: image_build_def result_simps)
  from detect_in_bound [OF base] assms(2)
  show bound: "img_base_offset img + 64 \<le> length content" by simp
  have "byte_source s content" by unfold_locales
  with walk bound src assms(2) walk_sections_iff [of "img_base_offset img" "img_sections img"]
  show "image_ok img content" by (simp add: image_ok_def)
qed

end

text \<open>
  A window over an in-memory file is the in-memory source of the bytes it covers, so an embedded
  image opens exactly as it would on its own.
\<close>

lemma window_of_vec:
  assumes "length pre + length body < 2 ^ 64"
  shows "windowed_new (vec_source (pre @ body @ post)) (length pre) (length body)
    = Inr (vec_source body)"
proof -
  let ?w = "windowed_source (vec_source (pre @ body @ post)) (length pre) (length body)"
  have read: "src_read_exact_at ?w n off = slice_at body n off" for n off
  proof (cases "off + n \<le> length body")
    case True
    then have "subslice (pre @ body @ post) (length pre + off) (length pre + off + n)
        = subslice body off (off + n)"
      by (simp add: subslice_append2 subslice_append1)
    with True assms show ?thesis
      by (simp add: windowed_source_def vec_source_def slice_at_def checked_add64_def)
  next
    case False
    then show ?thesis
      by (simp add: windowed_source_def slice_at_def checked_add64_def)
  qed
  have "?w = vec_source body"
  proof (rule image_source.equality)
    show "src_read_exact_at ?w = src_read_exact_at (vec_source body)"
      by (intro ext) (simp add: read, simp add: vec_source_def)
    show "src_as_slice ?w = src_as_slice (vec_source body)"
      using assms
      by (simp add: windowed_source_def vec_source_def checked_add64_def subslice_append_at)
  qed (simp_all add: windowed_source_def vec_source_def)
  with assms show ?thesis
    by (simp add: windowed_new_def checked_add64_def vec_src.src_len)
qed

lemma image_ok_section_bytes:
  assumes "image_ok img content" "r \<in> set (img_sections img)"
  shows "section_bytes img r = Inr (subslice content (rec_file_offset r)
           (rec_file_offset r + record_section_len r))"
proof -
  from assms(1) have bs: "byte_source (img_source img) content"
    and len: "length content < 2 ^ 63" and t: "tiling content (img_base_offset img) (img_sections img)"
    by (auto simp: image_ok_def)
  from tiling_in_bounds [OF t assms(2)] len show ?thesis
    by (simp add: section_bytes_def image_read_range_def byte_source.read_range_eq [OF bs] in_bounds_def)
qed

lemma record_len_exact:
  assumes "image_ok img content" "r \<in> set (img_sections img)"
  shows "record_section_len r = 64 + unat (sh_payload_len (rec_header r))"
proof -
  from assms have "rec_file_offset r + record_section_len r < 2 ^ 63"
    using tiling_in_bounds [of content "img_base_offset img" "img_sections img" r]
    by (auto simp: image_ok_def)
  then show ?thesis unfolding record_section_len_def by (intro section_len_exact) simp
qed

text \<open>A section is its header followed by its payload.\<close>

lemma image_ok_payload_bytes:
  assumes "image_ok img content" "r \<in> set (img_sections img)"
    and "section_bytes img r = Inr bytes"
  shows "payload_bytes img r = Inr (drop HEADER_LEN bytes)"
    and "parse_header bytes (rec_file_offset r) = Inr (rec_header r)"
    and "length (drop HEADER_LEN bytes) = unat (sh_payload_len (rec_header r))"
proof -
  let ?o = "rec_file_offset r" and ?p = "unat (sh_payload_len (rec_header r))"
  have bs: "byte_source (img_source img) content" and len: "length content < 2 ^ 63"
    using assms(1) by (auto simp: image_ok_def)
  have fits: "?o + (64 + ?p) \<le> length content"
    and hdr: "parse_header (subslice content ?o (?o + 64)) ?o = Inr (rec_header r)"
    using assms(1) record_len_exact [OF assms(1,2)]
      tiling_in_bounds [of content "img_base_offset img" "img_sections img" r] assms(2)
    by (auto simp: image_ok_def)
  have bytes: "bytes = subslice content ?o (?o + (64 + ?p))"
    using image_ok_section_bytes [OF assms(1,2)] assms(3) record_len_exact [OF assms(1,2)] by simp
  then have "drop 64 bytes = subslice content (?o + 64) (?o + 64 + ?p)"
    by (simp add: subslice_def drop_take add.commute)
  with fits len show "payload_bytes img r = Inr (drop HEADER_LEN bytes)"
    by (simp add: payload_bytes_def image_read_range_def wrapping_add64_def in_bounds_def
        byte_source.read_range_eq [OF bs])
  have "take 64 bytes = subslice content ?o (?o + 64)" "64 \<le> length bytes"
    using fits by (auto simp: bytes subslice_def min_def)
  with hdr show "parse_header bytes ?o = Inr (rec_header r)"
    using parse_header_take [of bytes ?o] by simp
  show "length (drop HEADER_LEN bytes) = ?p" using fits by (simp add: bytes)
qed

text \<open>
  Nothing reaches a codec before its hash matched: a successful decode hands exactly the hashed
  payload to the codec.
\<close>

lemma decompress_section_checked:
  assumes "decompress_section ft cl hl img r cap = Inr out"
  shows "\<exists>bytes. section_bytes img r = Inr bytes \<and> compute_xxh3 hl bytes = sh_xxh3_64 (rec_header r)
    \<and> decompress ft cl (sh_compression (rec_header r)) (drop HEADER_LEN bytes) cap = Inr out"
  using assms by (auto simp: decompress_section_def result_simps)

lemma decompress_section_corrupt:
  assumes "section_bytes img r = Inr bytes" "compute_xxh3 hl bytes \<noteq> sh_xxh3_64 (rec_header r)"
  shows "decompress_section ft cl hl img r cap
           = Inl (IntegrityMismatch (sh_number (rec_header r)) ''xxh3'')"
    and "decompress_section_prefix ft cl hl img r needed
           = Inl (IntegrityMismatch (sh_number (rec_header r)) ''xxh3'')"
  using assms by (simp_all add: decompress_section_def decompress_section_prefix_def verify_xxh3_def)

text \<open>The error a section is reported with: the fast hash is compared first.\<close>

definition first_mismatch :: "hash_lib \<Rightarrow> bool \<Rightarrow> section_header \<Rightarrow> bytes \<Rightarrow> error option" where
  "first_mismatch hl deep h section =
     (if compute_xxh3 hl section \<noteq> sh_xxh3_64 h then Some (IntegrityMismatch (sh_number h) ''xxh3'')
      else if deep \<and> compute_sha512_256 hl section \<noteq> sh_sha512_256 h
      then Some (IntegrityMismatch (sh_number h) ''sha512_256'')
      else None)"

lemma try_for_each_first:
  assumes "\<And>x. x \<in> set xs \<Longrightarrow> f x = (case g x of None \<Rightarrow> Inr () | Some e \<Rightarrow> Inl e)"
  shows "try_for_each f xs = (case List.map_filter g xs of [] \<Rightarrow> Inr () | e # _ \<Rightarrow> Inl e)"
  using assms by (induction xs) (auto simp: map_filter_simps split: option.splits)

text \<open>The mismatches of an image whose bytes are \<open>content\<close>, in file order.\<close>

definition section_mismatch :: "hash_lib \<Rightarrow> bool \<Rightarrow> bytes \<Rightarrow> section_record \<Rightarrow> error option" where
  "section_mismatch hl deep content r =
     first_mismatch hl deep (rec_header r)
       (subslice content (rec_file_offset r) (rec_file_offset r + record_section_len r))"

lemma verify_one_mismatch:
  assumes "image_ok img content" "r \<in> set (img_sections img)"
  shows "verify_one hl deep img r
    = (case section_mismatch hl deep content r of None \<Rightarrow> Inr () | Some e \<Rightarrow> Inl e)"
  using image_ok_section_bytes [OF assms]
  by (simp add: section_mismatch_def verify_one_def first_mismatch_def verify_xxh3_def verify_sha512_256_def)

lemma verify_sections_mismatches:
  fixes hl :: hash_lib and deep :: bool
  assumes "image_ok img content" "pool_ok pool"
  defines "found \<equiv> List.map_filter (section_mismatch hl deep content) (img_sections img)"
  shows "verify_sections pool hl img deep = Inr () \<longleftrightarrow> found = []"
    and "verify_sections pool hl img deep = Inl e \<Longrightarrow> e \<in> set found"
    and "verify_sections None hl img deep = (case found of [] \<Rightarrow> Inr () | e # _ \<Rightarrow> Inl e)"
proof -
  note one = verify_one_mismatch [OF assms(1), where hl = hl and deep = deep]
  have found: "set found = {e. \<exists>r \<in> set (img_sections img). section_mismatch hl deep content r = Some e}"
    by (force simp: found_def List.map_filter_def)
  have none: "found = [] \<longleftrightarrow> (\<forall>r \<in> set (img_sections img). section_mismatch hl deep content r = None)"
    unfolding set_empty [symmetric] found by (auto simp: not_Some_eq [symmetric] simp del: not_Some_eq)
  show "verify_sections pool hl img deep = Inr () \<longleftrightarrow> found = []"
    unfolding verify_sections_Inr [OF assms(2)] none by (auto simp: one split: option.splits)
  show "e \<in> set found" if "verify_sections pool hl img deep = Inl e"
    using verify_sections_Inl [OF assms(2) that] unfolding found by (auto simp: one split: option.splits)
  show "verify_sections None hl img deep = (case found of [] \<Rightarrow> Inr () | e # _ \<Rightarrow> Inl e)"
    unfolding verify_sections_def found_def option.case by (rule try_for_each_first) (rule one)
qed

lemma verify_deep_Inr:
  "pool_ok pool \<Longrightarrow> verify_deep pool hl img = Inr () \<longleftrightarrow>
     (\<forall>r \<in> set (img_sections img).
        \<exists>bytes. section_bytes img r = Inr bytes \<and> verify hl (rec_header r) bytes = Inr ())"
  by (auto simp: verify_deep_def verify_sections_Inr verify_one_def verify_def result_simps)

lemma verify_all_Inr:
  "pool_ok pool \<Longrightarrow> verify_all pool hl img = Inr () \<longleftrightarrow>
     (\<forall>r \<in> set (img_sections img).
        \<exists>bytes. section_bytes img r = Inr bytes \<and> verify_xxh3 hl (rec_header r) bytes = Inr ())"
  by (auto simp: verify_all_def verify_sections_Inr verify_one_def result_simps)

lemma verify_deep_imp_all:
  "pool_ok pool \<Longrightarrow> verify_deep pool hl img = Inr () \<Longrightarrow> verify_all pool hl img = Inr ()"
  by (auto simp: verify_deep_Inr verify_all_Inr verify_def result_simps)

lemma find_section_Some:
  "find_section img kind = Some r \<longleftrightarrow>
     (\<exists>i < length (img_sections img). img_sections img ! i = r
        \<and> sh_section_type (rec_header r) = kind
        \<and> (\<forall>j < i. sh_section_type (rec_header (img_sections img ! j)) \<noteq> kind))"
  by (auto simp: find_section_def find_Some_iff)

end
