(* ===== verification/Image_Writer.thy ===== *)
theory Image_Writer
  imports Image_File
begin

text \<open>
  The writer of images that the unit tests of \<open>src/src/format/image.rs\<close> and
  \<open>src/src/format/index.rs\<close> use (\<open>section\<close>, \<open>build_image\<close>; \<open>finish_section\<close> is in \<open>Integrity\<close>),
  and the proof that every image it writes is opened as the sections it was written from. The
  number of the index section is one more than the last number and wraps, where the debug build of
  the source panics.
\<close>

definition section_image :: "hash_lib \<Rightarrow> u32 \<Rightarrow> section_type \<Rightarrow> bytes \<Rightarrow> bytes" where
  "section_image hl number kind payload =
     (let bytes = replicate (HEADER_LEN + length payload) 0;
          bytes = put_at 0 MAGIC bytes;
          bytes = put_at 6 [2] bytes;
          bytes = put_at 7 [5] bytes;
          bytes = put_at 0x30 (to_le_bytes number) bytes;
          bytes = put_at 0x34 (to_le_bytes (section_type_as_u16 kind)) bytes;
          bytes = put_at 0x36 (to_le_bytes (compression_as_u16 NoCompression)) bytes;
          bytes = put_at 0x38 (to_le_bytes (word_of_nat (length payload) :: u64)) bytes;
          bytes = put_at HEADER_LEN payload bytes
      in finish_section hl bytes)"

type_synonym section_item = "u32 \<times> section_type \<times> bytes"

definition append_section ::
  "hash_lib \<Rightarrow> nat \<Rightarrow> bytes \<times> index_entry list \<Rightarrow> section_item \<Rightarrow> bytes \<times> index_entry list"
  where
  "append_section hl base = (\<lambda>(img, entries) (n, k, p).
     (img @ section_image hl n k p,
      entries @ [\<lparr>ie_section_type = k, ie_offset_from_base = length img - base\<rparr>]))"

definition build_image :: "hash_lib \<Rightarrow> bytes \<Rightarrow> section_item list \<Rightarrow> bool \<Rightarrow> bytes" where
  "build_image hl prefix body with_index =
     (let base = length prefix;
          (img, entries) = foldl (append_section hl base) (prefix, []) body
      in if with_index then
           let entries = entries @ [\<lparr>ie_section_type = SectionIndex, ie_offset_from_base = length img - base\<rparr>];
               payload = concat (map index_row entries);
               next = (if body = [] then 0 else fst (last body) + 1)
           in img @ section_image hl next SectionIndex payload
         else img)"

subsection \<open>A written section is its stamped header and its payload\<close>

definition blank_header :: "u32 \<Rightarrow> section_type \<Rightarrow> nat \<Rightarrow> section_header" where
  "blank_header number kind len =
     \<lparr>sh_major = 2, sh_minor = 5, sh_sha512_256 = replicate 32 0, sh_xxh3_64 = 0,
      sh_number = number, sh_section_type = kind, sh_compression = NoCompression,
      sh_payload_len = word_of_nat len\<rparr>"

definition stamped_header :: "hash_lib \<Rightarrow> u32 \<Rightarrow> section_type \<Rightarrow> bytes \<Rightarrow> section_header" where
  "stamped_header hl number kind payload =
     (let h = blank_header number kind (length payload);
          h = h\<lparr>sh_xxh3_64 := compute_xxh3 hl (write_header h @ payload)\<rparr>
      in h\<lparr>sh_sha512_256 := compute_sha512_256 hl (write_header h @ payload)\<rparr>)"

lemma zeros_split:
  "replicate (64 + n) (0 :: byte) = replicate 6 0 @ replicate 1 0 @ replicate 1 0 @ replicate 32 0
     @ replicate 8 0 @ replicate 4 0 @ replicate 2 0 @ replicate 2 0 @ replicate 8 0 @ replicate n 0"
  by (simp only: replicate_add [symmetric]) simp

lemma zeros_le_bytes: "to_le_bytes (0 :: 'a::len word) = replicate (LENGTH('a) div 8) 0"
proof -
  have "le_bytes n 0 = replicate n 0" for n by (induction n) auto
  then show ?thesis by (simp add: to_le_bytes_def)
qed

lemma stamp_xxh3:
  "wf_header h \<Longrightarrow> put_at 0x28 (to_le_bytes x) (write_header h @ p) = write_header (h\<lparr>sh_xxh3_64 := x\<rparr>) @ p"
  by (simp add: write_header_def put_at_def wf_header_def)

lemma stamp_sha512_256:
  "wf_header h \<Longrightarrow> length x = 32 \<Longrightarrow>
     put_at 0x08 x (write_header h @ p) = write_header (h\<lparr>sh_sha512_256 := x\<rparr>) @ p"
  by (simp add: write_header_def put_at_def wf_header_def)

lemma section_image_blank:
  "section_image hl number kind p = finish_section hl (write_header (blank_header number kind (length p)) @ p)"
proof -
  let ?h = "blank_header number kind (length p)"
  have blank: "put_at HEADER_LEN p (put_at 0x38 (to_le_bytes (word_of_nat (length p) :: u64))
     (put_at 0x36 (to_le_bytes (compression_as_u16 NoCompression))
     (put_at 0x34 (to_le_bytes (section_type_as_u16 kind)) (put_at 0x30 (to_le_bytes number)
     (put_at 7 [5] (put_at 6 [2] (put_at 0 MAGIC (replicate (HEADER_LEN + length p) 0)))))))) 
     = write_header ?h @ p"
    unfolding HEADER_LEN_def zeros_split
    by (simp add: put_at_def write_header_def blank_header_def zeros_le_bytes)
  show ?thesis unfolding section_image_def Let_def blank ..
qed

lemma section_image_written:
  assumes sha: "\<And>x. length (hl_sha512_256 hl x) = 32"
  shows "section_image hl number kind p = write_header (stamped_header hl number kind p) @ p"
  using sha by (simp add: section_image_blank finish_section_def stamped_header_def Let_def stamp_xxh3
      stamp_sha512_256 compute_sha512_256_def wf_header_def blank_header_def)

subsection \<open>The sections of a written image\<close>

definition section_images :: "hash_lib \<Rightarrow> section_item list \<Rightarrow> bytes" where
  "section_images hl items = concat (map (\<lambda>(n, k, p). section_image hl n k p) items)"

fun placed :: "hash_lib \<Rightarrow> nat \<Rightarrow> section_item list \<Rightarrow> section_record list" where
  "placed hl pos [] = []"
| "placed hl pos ((n, k, p) # items) =
     \<lparr>rec_file_offset = pos, rec_header = stamped_header hl n k p\<rparr>
       # placed hl (pos + HEADER_LEN + length p) items"

definition row_of :: "nat \<Rightarrow> section_record \<Rightarrow> index_entry" where
  "row_of base r = \<lparr>ie_section_type = sh_section_type (rec_header r), ie_offset_from_base = rec_file_offset r - base\<rparr>"

lemma section_images_simps [simp]:
  "section_images hl [] = []"
  "section_images hl ((n, k, p) # items) = section_image hl n k p @ section_images hl items"
  by (simp_all add: section_images_def)

lemma section_images_append [simp]:
  "section_images hl (xs @ ys) = section_images hl xs @ section_images hl ys"
  by (simp add: section_images_def)

definition sized_digests :: "hash_lib \<Rightarrow> bool" where
  "sized_digests hl \<longleftrightarrow> (\<forall>x. length (hl_sha512_256 hl x) = 32)"

lemma image_written:
  "sized_digests hl \<Longrightarrow> section_image hl n k p = write_header (stamped_header hl n k p) @ p"
  by (rule section_image_written) (simp add: sized_digests_def)

lemma stamped_fields [simp]:
  "sh_number (stamped_header hl n k p) = n" "sh_section_type (stamped_header hl n k p) = k"
  "sh_compression (stamped_header hl n k p) = NoCompression"
  "sh_payload_len (stamped_header hl n k p) = word_of_nat (length p)"
  by (simp_all add: stamped_header_def blank_header_def Let_def)

lemma stamped_wf: "sized_digests hl \<Longrightarrow> wf_header (stamped_header hl n k p)"
  by (simp add: stamped_header_def blank_header_def Let_def wf_header_def compute_sha512_256_def
      sized_digests_def)

lemma length_section_image:
  "sized_digests hl \<Longrightarrow> length (section_image hl n k p) = HEADER_LEN + length p"
  by (simp add: image_written stamped_wf)

lemma stamped_supported:
  "sized_digests hl \<Longrightarrow> canonical_section_type k \<Longrightarrow> supported_header (stamped_header hl n k p)"
  using stamped_wf [of hl n k p]
  by (simp add: supported_header_def stamped_header_def blank_header_def Let_def
      canonical_compression_def compression_from_u16_def)

lemma stamped_len: "length p < 2 ^ 63 \<Longrightarrow> section_len (stamped_header hl n k p) = HEADER_LEN + length p"
  by (simp add: section_len_def saturating_add64_def unat_of_nat)

lemma stamped_verifies:
  assumes "sized_digests hl" "canonical_section_type k"
  shows "verify hl (stamped_header hl n k p) (section_image hl n k p) = Inr ()"
proof -
  have "parse_header (section_image hl n k p) 0 = Inr (stamped_header hl n k p)"
    using parse_write_header [OF stamped_supported [OF assms]] by (simp add: image_written [OF assms(1)])
  moreover have "64 \<le> length bs" if "section_image hl n k p = finish_section hl bs"
    "bs = write_header (blank_header n k (length p)) @ p" for bs
    using that by (simp add: wf_header_def blank_header_def)
  moreover have "section_image hl n k p = finish_section hl (write_header (blank_header n k (length p)) @ p)"
    by (rule section_image_blank)
  ultimately show ?thesis
    using finish_section_verifies [of hl "write_header (blank_header n k (length p)) @ p" 0] assms(1)
    by (simp add: sized_digests_def)
qed

lemma placed_tiles:
  assumes "sized_digests hl"
  shows "list_all (\<lambda>(n, k, p). canonical_section_type k) items \<Longrightarrow>
   length (pre @ section_images hl items) < 2 ^ 63 \<Longrightarrow>
     tiling (pre @ section_images hl items) (length pre) (placed hl (length pre) items)"
proof (induction items arbitrary: pre)
  case Nil
  then show ?case by simp
next
  case (Cons it items)
  obtain n k p where it: "it = (n, k, p)" by (cases it)
  let ?h = "stamped_header hl n k p"
  have k: "canonical_section_type k" using Cons.prems(1) it by simp
  note [simp] = length_section_image [OF assms] image_written [OF assms] stamped_wf [OF assms]
  have len: "length p < 2 ^ 63" using Cons.prems(2) by (simp add: it)
  have "subslice (pre @ write_header ?h @ p @ section_images hl items) (length pre) (length pre + 64) = write_header ?h"
    by (rule subslice_append_at) simp
  then have hdr: "parse_header (subslice (pre @ section_images hl (it # items)) (length pre) (length pre + 64)) (length pre) = Inr ?h"
    using parse_write_header [OF stamped_supported [OF assms k], of n p "[]"] by (simp add: it)
  have "tiling (pre @ section_images hl (it # items)) (length pre + 64 + length p)
      (placed hl (length pre + 64 + length p) items)"
    using Cons.IH [of "pre @ section_image hl n k p"] Cons.prems by (simp add: it ac_simps)
  with hdr len show ?case
    by (simp add: it record_section_len_def stamped_len add.assoc)
qed

lemma tiling_accepts:
  assumes "tiling content pos (r # rs)" "length content < 2 ^ 63"
  shows "accepts content pos"
proof -
  let ?next = "pos + section_len (rec_header r)"
  from assms(1) have t: "pos + 64 \<le> length content" "?next \<le> length content"
    "parse_header (subslice content pos (pos + 64)) pos = Inr (rec_header r)"
    "tiling content ?next rs" by (simp_all add: record_section_len_def)
  have "?next = length content \<or> ?next + 6 \<le> length content \<and> subslice content ?next (?next + 6) = MAGIC"
  proof (cases rs)
    case Nil
    with t(4) show ?thesis by simp
  next
    case (Cons r' rs')
    with t(4) have "?next + 64 \<le> length content"
      "parse_header (subslice content ?next (?next + 64)) ?next = Inr (rec_header r')" by simp_all
    then show ?thesis
      by (auto dest!: parse_header_Inr_magic simp: subslice_def min_def)
  qed
  with t assms(2) show ?thesis
    by (auto simp: accepts_def follows_a_section_boundary_def checked_add64_def)
qed

lemma foldl_append_section:
  assumes hl: "sized_digests hl" and "base \<le> length img"
  shows "foldl (append_section hl base) (img, es) body
    = (img @ section_images hl body, es @ map (row_of base) (placed hl (length img) body))"
  using assms(2)
proof (induction body arbitrary: img es)
  case Nil
  then show ?case by simp
next
  case (Cons it body)
  obtain n k p where it: "it = (n, k, p)" by (cases it)
  from Cons.IH [of "img @ section_image hl n k p"] Cons.prems show ?case
    by (simp add: it append_section_def length_section_image [OF hl] row_of_def add.assoc)
qed

subsection \<open>The rows of the index\<close>

definition index_rows_of :: "hash_lib \<Rightarrow> bytes \<Rightarrow> section_item list \<Rightarrow> index_entry list" where
  "index_rows_of hl prefix body =
     map (row_of (length prefix)) (placed hl (length prefix) body)
     @ [\<lparr>ie_section_type = SectionIndex, ie_offset_from_base = length (section_images hl body)\<rparr>]"

definition index_item :: "hash_lib \<Rightarrow> bytes \<Rightarrow> section_item list \<Rightarrow> section_item" where
  "index_item hl prefix body =
     (if body = [] then 0 else fst (last body) + 1, SectionIndex,
      concat (map index_row (index_rows_of hl prefix body)))"

definition written_items :: "hash_lib \<Rightarrow> bytes \<Rightarrow> section_item list \<Rightarrow> bool \<Rightarrow> section_item list" where
  "written_items hl prefix body with_index =
     body @ (if with_index then [index_item hl prefix body] else [])"

lemma build_image_sections:
  assumes "sized_digests hl"
  shows "build_image hl prefix body with_index
    = prefix @ section_images hl (written_items hl prefix body with_index)"
  by (simp add: build_image_def foldl_append_section [OF assms] written_items_def index_item_def
      index_rows_of_def Let_def)

lemma placed_append:
  "sized_digests hl \<Longrightarrow>
   placed hl pos (xs @ ys) = placed hl pos xs @ placed hl (pos + length (section_images hl xs)) ys"
  by (induction hl pos xs rule: placed.induct) (simp_all add: length_section_image add.assoc)

lemma placed_bounds:
  "sized_digests hl \<Longrightarrow> r \<in> set (placed hl pos items) \<Longrightarrow>
     pos \<le> rec_file_offset r \<and> rec_file_offset r < pos + length (section_images hl items)"
  by (induction hl pos items rule: placed.induct) (auto simp: length_section_image)

lemma placed_sorted:
  "sized_digests hl \<Longrightarrow> sorted_wrt (<) (map rec_file_offset (placed hl pos items))"
  by (induction hl pos items rule: placed.induct) (auto dest!: placed_bounds)

lemma placed_kinds:
  "list_all (\<lambda>(n, k, p). canonical_section_type k) items \<Longrightarrow> r \<in> set (placed hl pos items) \<Longrightarrow>
     canonical_section_type (sh_section_type (rec_header r))"
  by (induction hl pos items rule: placed.induct) auto

lemma rows_writable:
  assumes hl: "sized_digests hl" and kinds: "list_all (\<lambda>(n, k, p). canonical_section_type k) body"
    and len: "length (section_images hl body) < 2 ^ 48"
  shows "writable_index (index_rows_of hl prefix body)"
proof -
  let ?rs = "placed hl (length prefix) body"
  have off: "length prefix \<le> rec_file_offset r" "rec_file_offset r - length prefix < length (section_images hl body)"
    if "r \<in> set ?rs" for r using placed_bounds [OF hl that] by auto
  have small: "rec_file_offset r - length prefix < 2 ^ 48" if "r \<in> set ?rs" for r
    using off(2) [OF that] len by simp
  have "sorted_wrt (\<lambda>a b. rec_file_offset a - length prefix < rec_file_offset b - length prefix) ?rs"
    using placed_sorted [OF hl, of "length prefix" body] unfolding sorted_wrt_map
    by (rule sorted_wrt_mono_rel [rotated]) (auto dest: off)
  with placed_kinds [OF kinds] show ?thesis
    using off small len
    by (auto simp: writable_index_def index_rows_of_def strictly_sorted_entries_def sorted_wrt_append
        sorted_wrt_map row_of_def canonical_section_type_iff intro: less_trans)
qed

text \<open>What the bytes of a section are, wherever it stands.\<close>

lemma placed_bytes:
  assumes "sized_digests hl"
  shows "list_all2 (\<lambda>r (n, k, p). rec_header r = stamped_header hl n k p
       \<and> subslice (pre @ section_images hl items @ post) (rec_file_offset r)
           (rec_file_offset r + HEADER_LEN + length p) = section_image hl n k p)
     (placed hl (length pre) items) items"
proof (induction items arbitrary: pre)
  case Nil
  then show ?case by simp
next
  case (Cons it items)
  obtain n k p where it: "it = (n, k, p)" by (cases it)
  have "subslice (pre @ section_image hl n k p @ section_images hl items @ post) (length pre)
      (length pre + (64 + length p)) = section_image hl n k p"
    by (rule subslice_append_at) (simp add: length_section_image [OF assms])
  with Cons.IH [of "pre @ section_image hl n k p"] show ?case
    by (simp add: it length_section_image [OF assms] add.assoc)
qed

lemma written_image_index:
  assumes hl: "sized_digests hl" and kinds: "list_all (\<lambda>(n, k, p). canonical_section_type k) body"
    and len: "length (build_image hl prefix body True) < 2 ^ 48"
  shows "index_from_source (vec_source (build_image hl prefix body True)) (length prefix)
    = Inr (Some \<lparr>si_entries = index_rows_of hl prefix body,
        si_file_offset = length (prefix @ section_images hl body)\<rparr>)"
proof -
  let ?rows = "index_rows_of hl prefix body"
  obtain n where item: "index_item hl prefix body = (n, SectionIndex, concat (map index_row ?rows))"
    by (simp add: index_item_def)
  let ?h = "stamped_header hl n SectionIndex (concat (map index_row ?rows))"
  have img: "build_image hl prefix body True
      = (prefix @ section_images hl body) @ write_header ?h @ concat (map index_row ?rows)"
    by (simp add: build_image_sections [OF hl] written_items_def item image_written [OF hl])
  have wf: "length (write_header ?h) = 64" by (simp add: stamped_wf [OF hl])
  have total: "length prefix + length (section_images hl body) + 64 + 8 * length ?rows < 2 ^ 48"
    using len by (simp add: img wf length_index_rows add.assoc del: write_header_def)
  have "unat (sh_payload_len ?h) = 8 * length ?rows"
    unfolding stamped_fields length_index_rows unat_of_nat using total by simp
  moreover have "writable_index ?rows"
    using total by (intro rows_writable hl kinds) simp
  moreover have "length prefix + ie_offset_from_base (last ?rows) = length (prefix @ section_images hl body)"
    by (simp add: index_rows_of_def)
  moreover have "supported_header ?h"
    by (rule stamped_supported [OF hl]) (simp add: canonical_section_type_iff)
  ultimately show ?thesis
    unfolding img using total by (intro index_from_source_appended) simp_all
qed

subsection \<open>A written image is opened as it was written\<close>

text \<open>The image a written one is opened as.\<close>

definition opened_as :: "hash_lib \<Rightarrow> bytes \<Rightarrow> section_item list \<Rightarrow> bool \<Rightarrow> image_file" where
  "opened_as hl prefix body with_index =
     \<lparr>img_source = vec_source (build_image hl prefix body with_index),
      img_base_offset = length prefix,
      img_sections = placed hl (length prefix) (written_items hl prefix body with_index),
      img_section_index =
        (if with_index
         then Some \<lparr>si_entries = index_rows_of hl prefix body,
                    si_file_offset = length (prefix @ section_images hl body)\<rparr>
         else None)\<rparr>"

definition no_index_tail :: "bytes \<Rightarrow> bool" where
  "no_index_tail img \<longleftrightarrow>
     row_type (from_le_bytes (drop (length img - 8) img)) \<noteq> section_type_as_u16 SectionIndex"

lemma no_index_found:
  assumes "no_index_tail img" "length img < 2 ^ 63"
  shows "index_from_source (vec_source img) base = Inr None"
proof (cases "length img < 8")
  case True
  then show ?thesis by (simp add: index_from_source_def vec_src.src_len)
next
  case False
  then have "src_read_exact_at (vec_source img) 8 (length img - 8) = Inr (drop (length img - 8) img)"
    using assms(2) vec_src.src_read [of img] by (simp add: in_bounds_def subslice_def)
  with False assms(1) show ?thesis
    by (simp add: index_from_source_def vec_src.src_len Let_def no_index_tail_def)
qed

lemma written_kinds:
  "list_all (\<lambda>(n, k, p). canonical_section_type k) body \<Longrightarrow>
     list_all (\<lambda>(n, k, p). canonical_section_type k) (written_items hl prefix body with_index)"
  by (simp add: written_items_def index_item_def canonical_section_type_iff)

lemma written_image_opened:
  assumes hl: "sized_digests hl" and kinds: "list_all (\<lambda>(n, k, p). canonical_section_type k) body"
    and len: "length (build_image hl prefix body with_index) < 2 ^ 48"
    and some: "body \<noteq> [] \<or> with_index"
    and first: "\<And>q. q < length prefix \<Longrightarrow> \<not> accepts (build_image hl prefix body with_index) q"
    and tail: "with_index \<or> no_index_tail (build_image hl prefix body with_index)"
  shows "image_from_vec (build_image hl prefix body with_index) = Inr (opened_as hl prefix body with_index)"
proof -
  let ?img = "build_image hl prefix body with_index"
  let ?items = "written_items hl prefix body with_index"
  have img: "?img = prefix @ section_images hl ?items" by (rule build_image_sections [OF hl])
  have len63: "length ?img < 2 ^ 63" using len by simp
  have t: "tiling ?img (length prefix) (placed hl (length prefix) ?items)"
    using placed_tiles [OF hl written_kinds [OF kinds], of prefix] len63 by (simp add: img)
  have "?items \<noteq> []" using some by (auto simp: written_items_def)
  then obtain r rs where rs: "placed hl (length prefix) ?items = r # rs"
    by (cases ?items) auto
  have "accepts ?img (length prefix)"
    using t len63 unfolding rs by (rule tiling_accepts)
  then have base: "detect_base_offset ?img = Inr (length prefix)"
    using first by (simp add: detect_base_offset_Inr)
  have walk: "walk_sections (vec_source ?img) (length prefix) = Inr (placed hl (length prefix) ?items)"
    using t len63 by (simp add: vec_src.walk_sections_iff img)
  have index: "index_from_source (vec_source ?img) (length prefix)
      = Inr (img_section_index (opened_as hl prefix body with_index))"
    using written_image_index [OF hl kinds, of prefix] len tail no_index_found len63
    by (cases with_index) (simp_all add: opened_as_def)
  have "detect_base_offset_in (vec_source ?img) = Inr (length prefix)"
    using base by (simp add: detect_base_offset_in_def) (simp add: vec_source_def)
  with walk index show ?thesis
    unfolding image_from_vec_def image_from_source_def image_build_def
    by (simp only: and_then_Inr) (simp add: opened_as_def)
qed

lemma written_image_sections:
  assumes hl: "sized_digests hl" and kinds: "list_all (\<lambda>(n, k, p). canonical_section_type k) body"
    and len: "length (build_image hl prefix body with_index) < 2 ^ 63"
    and opens: "image_from_vec (build_image hl prefix body with_index) = Inr im"
    and im: "im = opened_as hl prefix body with_index"
  shows "list_all2 (\<lambda>r (n, k, p). rec_header r = stamped_header hl n k p
       \<and> section_bytes im r = Inr (section_image hl n k p) \<and> payload_bytes im r = Inr p
       \<and> verify hl (rec_header r) (section_image hl n k p) = Inr ())
     (img_sections im) (written_items hl prefix body with_index)"
proof -
  let ?img = "build_image hl prefix body with_index"
  let ?items = "written_items hl prefix body with_index"
  have img: "?img = prefix @ section_images hl ?items" by (rule build_image_sections [OF hl])
  have ok: "image_ok im ?img"
    using opens len by (intro vec_src.image_build_ok(1)) (simp_all add: image_from_vec_def image_from_source_def)
  have "rec_header r = stamped_header hl n k p
       \<and> section_bytes im r = Inr (section_image hl n k p) \<and> payload_bytes im r = Inr p
       \<and> verify hl (rec_header r) (section_image hl n k p) = Inr ()"
    if r: "r \<in> set (img_sections im)" and i: "(n, k, p) \<in> set ?items"
      and h: "rec_header r = stamped_header hl n k p"
      and s: "subslice ?img (rec_file_offset r) (rec_file_offset r + HEADER_LEN + length p) = section_image hl n k p"
    for r n k p
  proof -
    have k: "canonical_section_type k" using written_kinds [OF kinds, of hl prefix with_index] i by (force simp: list_all_iff)
    have "length (section_images hl [(n, k, p)]) \<le> length (section_images hl ?items)"
      using i by (auto simp: section_images_def dest!: split_list)
    with len have "length p < 2 ^ 63" by (simp add: img length_section_image [OF hl])
    then have "record_section_len r = HEADER_LEN + length p"
      by (simp add: record_section_len_def h stamped_len)
    with image_ok_section_bytes [OF ok r] s
    have b: "section_bytes im r = Inr (section_image hl n k p)" by (simp add: add.assoc)
    with image_ok_payload_bytes(1) [OF ok r b] have "payload_bytes im r = Inr p"
      by (simp add: image_written [OF hl] stamped_wf [OF hl])
    with b h stamped_verifies [OF hl k] show ?thesis by simp
  qed
  moreover have "list_all2 (\<lambda>r (n, k, p). rec_header r = stamped_header hl n k p
       \<and> subslice ?img (rec_file_offset r) (rec_file_offset r + HEADER_LEN + length p) = section_image hl n k p)
     (img_sections im) ?items"
    using placed_bytes [OF hl, of prefix ?items "[]"] by (simp add: img im opened_as_def)
  ultimately show ?thesis
    by (elim list.rel_mono_strong) auto
qed

lemma written_image_verifies:
  assumes "list_all2 (\<lambda>r (n, k, p). rec_header r = stamped_header hl n k p
       \<and> section_bytes im r = Inr (section_image hl n k p) \<and> payload_bytes im r = Inr p
       \<and> verify hl (rec_header r) (section_image hl n k p) = Inr ())
     (img_sections im) items"
  shows "pool_ok pool \<Longrightarrow> verify_deep pool hl im = Inr ()"
  using assms unfolding verify_deep_Inr by (fastforce simp: list_all2_conv_all_nth in_set_conv_nth split_beta)

lemma index_rows_are_sections:
  assumes "sized_digests hl"
  shows "index_rows_of hl prefix body
    = map (row_of (length prefix)) (placed hl (length prefix) (written_items hl prefix body True))"
  by (simp add: index_rows_of_def written_items_def placed_append [OF assms] index_item_def row_of_def)

lemma length_placed [simp]: "length (placed hl pos items) = length items"
  by (induction hl pos items rule: placed.induct) auto

lemma written_items_body: "take (length body) (written_items hl prefix body with_index) = body"
  by (simp add: written_items_def)

end
