(* ===== verification/Filesystem.thy ===== *)
theory Filesystem
  imports Image_File Chunks "HOL-Library.List_Lexorder"
begin

text \<open>
  \<open>Filesystem\<close> of \<open>src/src/fs/read.rs\<close>: opening an image, and the metadata queries (kind, stat,
  symlink targets, chunk ranges, directory listing, child lookup, path lookup and the recursive
  walk). The read path is in the theory \<open>Read_Path\<close>.

  An \<open>environment\<close> bundles what comes from outside the crate: the feature gates of the build, the
  codec crates, the hash crates, and the parallel loop of rayon on a build that uses it.
\<close>

record environment =
  ev_features :: features
  ev_codecs :: codec_lib
  ev_hash :: hash_lib
  ev_pool :: "section_loop option"

definition CAP_SCHEMA_BYTES :: nat where "CAP_SCHEMA_BYTES = 2 ^ 20"

definition CAP_METADATA_BYTES :: nat where "CAP_METADATA_BYTES = 64 * 1024 * 1024"

record filesystem =
  fs_image :: image_file
  fs_block_records :: "section_record list"
  fs_block_size :: u32
  fs_options :: fs_options
  fs_timestamp_base :: nat
  fs_modes :: "u32 list"
  fs_uids :: "u32 list"
  fs_gids :: "u32 list"
  fs_inodes :: "inode_data list"
  fs_directories :: "directory list"
  fs_dir_entries :: "dir_entry list"
  fs_chunks :: "chunk list"
  fs_chunk_end :: "nat list"
  fs_chunk_table :: "u32 list"
  fs_symlink_table :: "u32 list"
  fs_shared_files :: "u32 list"
  fs_large_hole_size :: "nat list"
  fs_hole_block_index :: "u32 option"
  fs_names :: string_table
  fs_symlinks :: string_table
  fs_devices :: "nat list"
  fs_block_category_names :: "bytes list"
  fs_features :: "bytes list"
  fs_preferred_path_separator :: "u32 option"
  fs_total_fs_size :: nat
  fs_total_allocated_fs_size :: "nat option"
  fs_offsets :: inode_offsets

subsection \<open>Opening\<close>

definition missing_section :: "section_type \<Rightarrow> error" where
  "missing_section kind = fs_error ''required section type {kind:?} missing''"

definition unpack_chunk_table :: "fs_options \<Rightarrow> u32 list \<Rightarrow> u32 list" where
  "unpack_chunk_table opts table =
     (if fo_packed_chunk_table opts then inclusive_prefix_sum_u32 table else table)"

definition unpack_directories :: "fs_options \<Rightarrow> directory list \<Rightarrow> dir_entry list \<Rightarrow> directory list" where
  "unpack_directories opts dirs entries =
     (if fo_packed_directories opts
      then rebuild_directory_links (unpack_directory_first_entries dirs) entries else dirs)"

definition filesystem_build :: "image_file \<Rightarrow> metadata \<Rightarrow> filesystem result" where
  "filesystem_build image_h m =
     and_then (md_features m) (\<lambda>features.
     and_then (check_features features) (\<lambda>_.
     and_then (block_size m) (\<lambda>bsize.
     and_then (md_fs_options m) (\<lambda>options.
     and_then (timestamp_base m) (\<lambda>tbase.
     and_then (modes m) (\<lambda>mode_col.
     and_then (uids m) (\<lambda>uid_col.
     and_then (gids m) (\<lambda>gid_col.
     and_then (md_inodes m) (\<lambda>inodes.
     and_then (md_directories m) (\<lambda>raw_dirs.
     and_then (md_dir_entries m) (\<lambda>entries.
     and_then (md_chunks m) (\<lambda>chunks.
     and_then (chunk_table_raw m) (\<lambda>raw_table.
     and_then (symlink_table m) (\<lambda>link_table.
     and_then (shared_files_table m) (\<lambda>shared.
     and_then (large_hole_size m) (\<lambda>large_holes.
     and_then (hole_block_index m) (\<lambda>hole_block.
     and_then (md_names m) (\<lambda>names.
     and_then (md_symlinks m) (\<lambda>links.
     and_then (devices m) (\<lambda>device_col.
     and_then (resolve_block_categories m) (\<lambda>cats.
     and_then (preferred_path_separator m) (\<lambda>sep.
     and_then (total_fs_size m) (\<lambda>tsize.
     and_then (total_allocated_fs_size m) (\<lambda>alloc.
     let table = unpack_chunk_table options raw_table;
         dirs = unpack_directories options raw_dirs entries
     in and_then (compute_offsets inodes mode_col (length shared)) (\<lambda>offsets.
     and_then (build_chunk_ends chunks table hole_block bsize large_holes) (\<lambda>ends.
     Inr \<lparr>fs_image = image_h,
          fs_block_records =
            filter (\<lambda>s. sh_section_type (rec_header s) = Block) (img_sections image_h),
          fs_block_size = bsize, fs_options = options, fs_timestamp_base = tbase,
          fs_modes = mode_col, fs_uids = uid_col, fs_gids = gid_col, fs_inodes = inodes,
          fs_directories = dirs, fs_dir_entries = entries, fs_chunks = chunks,
          fs_chunk_end = ends, fs_chunk_table = table, fs_symlink_table = link_table,
          fs_shared_files = shared, fs_large_hole_size = large_holes,
          fs_hole_block_index = hole_block, fs_names = names, fs_symlinks = links,
          fs_devices = device_col, fs_block_category_names = cats, fs_features = features,
          fs_preferred_path_separator = sep, fs_total_fs_size = tsize,
          fs_total_allocated_fs_size = alloc, fs_offsets = offsets\<rparr>))))))))))))))))))))))))))"

text \<open>\<open>None\<close> would say that the schema parser ran out of fuel, which it never does.\<close>

definition filesystem_open :: "environment \<Rightarrow> image_file \<Rightarrow> (error, filesystem) run" where
  "filesystem_open env image_h =
     run_bind (Some (ok_or (find_section image_h MetadataV2Schema) (missing_section MetadataV2Schema)))
       (\<lambda>schema_section.
     run_bind (Some (ok_or (find_section image_h MetadataV2) (missing_section MetadataV2)))
       (\<lambda>metadata_section.
     run_bind (Some (decompress_section (ev_features env) (ev_codecs env) (ev_hash env) image_h
       schema_section CAP_SCHEMA_BYTES)) (\<lambda>schema_bytes.
     run_bind (Some (decompress_section (ev_features env) (ev_codecs env) (ev_hash env) image_h
       metadata_section CAP_METADATA_BYTES)) (\<lambda>metadata_bytes.
     run_bind (schema_parse schema_bytes) (\<lambda>schema.
     run_bind (Some (metadata_parse schema metadata_bytes)) (\<lambda>m.
     Some (filesystem_build image_h m)))))))"

lemma filesystem_open_returns: "filesystem_open env image_h \<noteq> None"
  using schema_parse_returns
  by (auto simp: filesystem_open_def run_bind_eq_None simp del: not_None_eq)

text \<open>What a successful \<open>open\<close> guarantees of the tables.\<close>

definition fs_ok :: "filesystem \<Rightarrow> bool" where
  "fs_ok fs \<longleftrightarrow>
     build_chunk_ends (fs_chunks fs) (fs_chunk_table fs) (fs_hole_block_index fs)
       (fs_block_size fs) (fs_large_hole_size fs) = Inr (fs_chunk_end fs)
     \<and> compute_offsets (fs_inodes fs) (fs_modes fs) (length (fs_shared_files fs)) = Inr (fs_offsets fs)
     \<and> length (fs_chunks fs) \<le> DEFAULT_LIST_CAP \<and> length (fs_inodes fs) \<le> DEFAULT_LIST_CAP
     \<and> length (fs_dir_entries fs) \<le> DEFAULT_LIST_CAP
     \<and> set (fs_features fs) \<subseteq> set SUPPORTED_FEATURES
     \<and> fs_block_records fs =
         filter (\<lambda>s. sh_section_type (rec_header s) = Block) (img_sections (fs_image fs))"

lemma filesystem_build_ok:
  assumes "filesystem_build image_h m = Inr fs"
  shows "fs_ok fs" "fs_image fs = image_h"
proof -
  note split = assms [unfolded filesystem_build_def and_then_eq_Inr Let_def]
  have "build_chunk_ends (fs_chunks fs) (fs_chunk_table fs) (fs_hole_block_index fs)
       (fs_block_size fs) (fs_large_hole_size fs) = Inr (fs_chunk_end fs)"
    using split by (elim exE conjE) auto
  moreover have "compute_offsets (fs_inodes fs) (fs_modes fs) (length (fs_shared_files fs))
      = Inr (fs_offsets fs)"
    using split by (elim exE conjE) auto
  moreover have "length (fs_chunks fs) \<le> DEFAULT_LIST_CAP"
    using split by (elim exE conjE) (auto simp: md_chunks_def dest: decode_struct_list_cap)
  moreover have "length (fs_inodes fs) \<le> DEFAULT_LIST_CAP"
    using split by (elim exE conjE) (auto simp: md_inodes_def dest: decode_struct_list_cap)
  moreover have "length (fs_dir_entries fs) \<le> DEFAULT_LIST_CAP"
    using split by (elim exE conjE) (auto simp: md_dir_entries_def dest: decode_struct_list_cap)
  moreover have "set (fs_features fs) \<subseteq> set SUPPORTED_FEATURES"
    using split by (elim exE conjE) (auto simp: check_features_Inr)
  moreover have "fs_block_records fs =
      filter (\<lambda>s. sh_section_type (rec_header s) = Block) (img_sections (fs_image fs))"
    using split by (elim exE conjE) auto
  ultimately show "fs_ok fs" by (simp only: fs_ok_def simp_thms)
  show "fs_image fs = image_h" using split by (elim exE conjE) auto
qed

text \<open>Every filesystem that opens has consistent tables over the image it was opened from.\<close>

lemma filesystem_open_ok:
  assumes "filesystem_open env image_h = Some (Inr fs)"
  shows "fs_ok fs" "fs_image fs = image_h"
  using assms filesystem_build_ok [of image_h _ fs]
  by (auto simp: filesystem_open_def run_bind_eq_Some_Inr)

lemma filesystem_open_checked:
  assumes "filesystem_open env image_h = Some (Inr fs)"
  shows "\<exists>r bytes. find_section image_h MetadataV2 = Some r \<and> section_bytes image_h r = Inr bytes
    \<and> compute_xxh3 (ev_hash env) bytes = sh_xxh3_64 (rec_header r)"
  using assms decompress_section_checked
  by (auto simp: filesystem_open_def run_bind_eq_Some_Inr result_simps) blast

subsection \<open>Inodes\<close>

definition inode_index :: "filesystem \<Rightarrow> u32 \<Rightarrow> nat result" where
  "inode_index fs inode =
     (if length (fs_inodes fs) \<le> unat inode then Inl (fs_error ''inode {inode} out of {} entries'')
      else Inr (unat inode))"

definition mode_at :: "filesystem \<Rightarrow> u32 \<Rightarrow> u32 result" where
  "mode_at fs mode_index =
     ok_or (get_at (fs_modes fs) (unat mode_index)) (fs_error ''mode index {mode_index} out of range'')"

definition mode_of :: "filesystem \<Rightarrow> u32 \<Rightarrow> u32 result" where
  "mode_of fs inode =
     and_then (inode_index fs inode) (\<lambda>i. mode_at fs (in_mode_index (fs_inodes fs ! i)))"

definition fs_kind :: "filesystem \<Rightarrow> u32 \<Rightarrow> inode_kind result" where
  "fs_kind fs inode = and_then (mode_of fs inode) (\<lambda>mode. Inr (mode_kind mode))"

text \<open>\<open>require_kind\<close> is the guard that opens most accessors.\<close>

definition require_kind :: "filesystem \<Rightarrow> u32 \<Rightarrow> inode_kind \<Rightarrow> string \<Rightarrow> unit result" where
  "require_kind fs inode kind msg =
     and_then (fs_kind fs inode) (\<lambda>k. if k \<noteq> kind then Inl (fs_error msg) else Inr ())"

lemma require_kind_Inr [result_simps]:
  "require_kind fs inode kind msg = Inr u \<longleftrightarrow> fs_kind fs inode = Inr kind"
  by (auto simp: require_kind_def result_simps)

definition device_rdev :: "filesystem \<Rightarrow> u32 \<Rightarrow> nat result" where
  "device_rdev fs inode =
     and_then (fs_kind fs inode) (\<lambda>kind.
     if kind \<noteq> KBlockDevice \<and> kind \<noteq> KCharDevice
     then Inl (fs_error ''inode {inode} is not a device'')
     else and_then
       (ok_or (checked_sub (unat inode) (unat (io_device_offset (fs_offsets fs))))
         (fs_error ''device inode {inode} precedes device offset'')) (\<lambda>idx.
       ok_or (get_at (fs_devices fs) idx) (fs_error ''device index {idx} out of range'')))"

definition block_category :: "filesystem \<Rightarrow> u32 \<Rightarrow> bytes option" where
  "block_category fs block = get_at (fs_block_category_names fs) (unat block)"

definition fs_category_names :: "filesystem \<Rightarrow> bytes list" where
  "fs_category_names fs =
     foldl (\<lambda>seen name. if name \<in> set seen then seen else seen @ [name]) []
       (fs_block_category_names fs)"

definition inode_count :: "filesystem \<Rightarrow> u32" where
  "inode_count fs = io_total (fs_offsets fs)"

definition read_link :: "filesystem \<Rightarrow> u32 \<Rightarrow> bytes result" where
  "read_link fs inode =
     and_then (require_kind fs inode KSymlink ''inode {inode} is not a symlink'') (\<lambda>_.
     let slot = unat (inode - io_symlink_offset (fs_offsets fs)) in
     and_then (ok_or (get_at (fs_symlink_table fs) slot)
                (fs_error ''symlink_table index {slot} out of range'')) (\<lambda>table_value.
     ok_or (table_get (fs_symlinks fs) (unat table_value))
       (fs_error ''symlinks index {table_value} out of range'')))"

subsection \<open>Chunk ranges and sizes\<close>

definition chunk_table_slot :: "filesystem \<Rightarrow> u32 \<Rightarrow> nat result" where
  "chunk_table_slot fs inode =
     (let off = fs_offsets fs;
          num_unique = unat (io_shared_file_offset off - io_file_offset off)
      in if inode < io_shared_file_offset off
         then ok_or (checked_sub (unat inode) (unat (io_file_offset off)))
                (fs_error ''inode {inode} is not a regular file'')
         else let shared_slot = unat (inode - io_shared_file_offset off) in
           and_then (ok_or (get_at (fs_shared_files fs) shared_slot)
                      (fs_error ''shared_files index {shared_slot} out of range'')) (\<lambda>group.
           ok_or (checked_add64 num_unique (unat group))
             (fs_error ''shared file chunk index overflow'')))"

definition chunk_range :: "filesystem \<Rightarrow> u32 \<Rightarrow> (nat \<times> nat) result" where
  "chunk_range fs inode =
     and_then (chunk_table_slot fs inode) (\<lambda>table_index.
     if length (fs_chunk_table fs) \<le> table_index + 1
     then Inl (fs_error ''chunk_table index {table_index} out of range'')
     else let start = unat (fs_chunk_table fs ! table_index);
              e = unat (fs_chunk_table fs ! (table_index + 1))
          in if e < start \<or> length (fs_chunks fs) < e
             then Inl (fs_error ''chunk range [{start}, {end}) out of {} chunks'')
             else Inr (start, e))"

definition content_id :: "filesystem \<Rightarrow> u32 \<Rightarrow> u32 result" where
  "content_id fs inode =
     and_then (chunk_table_slot fs inode) (\<lambda>slot.
     ok_or (u32_try_from slot) (fs_error ''content id {slot} exceeds u32''))"

definition first_block :: "filesystem \<Rightarrow> u32 \<Rightarrow> u32 option" where
  "first_block fs inode =
     (case chunk_range fs inode of
        Inl _ \<Rightarrow> None
      | Inr (start, e) \<Rightarrow> map_option ck_block (get_at (fs_chunks fs) start))"

text \<open>For a file without chunks this is the block of the chunk that follows, another file's.\<close>

lemma first_block_of_empty_file:
  assumes "chunk_range fs inode = Inr (p, p)" "get_at (fs_chunks fs) p = Some other"
  shows "first_block fs inode = Some (ck_block other)"
  using assms by (simp add: first_block_def)

definition file_size :: "filesystem \<Rightarrow> u32 \<Rightarrow> nat result" where
  "file_size fs inode =
     and_then (fs_kind fs inode) (\<lambda>kind.
     if kind \<noteq> KRegular then Inr 0
     else and_then (chunk_range fs inode) (\<lambda>(start, e).
       case checked_sub e 1 of
         Some final \<Rightarrow> if start \<le> final then Inr (fs_chunk_end fs ! final) else Inr 0
       | None \<Rightarrow> Inr 0))"

text \<open>The logical length of a chunk and the ends the open computed.\<close>

definition is_hole_chunk :: "filesystem \<Rightarrow> chunk \<Rightarrow> bool" where
  "is_hole_chunk fs chunk \<longleftrightarrow> fs_hole_block_index fs = Some (ck_block chunk)"

definition chunk_logical_len :: "filesystem \<Rightarrow> chunk \<Rightarrow> nat result" where
  "chunk_logical_len fs chunk =
     (if is_hole_chunk fs chunk then hole_length chunk (fs_block_size fs) (fs_large_hole_size fs)
      else Inr (unat (ck_size chunk)))"

lemma chunk_logical_len_eq:
  "chunk_logical_len fs = chunk_len (fs_hole_block_index fs) (fs_block_size fs) (fs_large_hole_size fs)"
  by (intro ext) (simp add: chunk_logical_len_def chunk_len_def is_hole_chunk_def)

definition logical_len :: "filesystem \<Rightarrow> nat \<Rightarrow> nat" where
  "logical_len fs i = logical_of (chunk_logical_len fs) (fs_chunks fs ! i)"

lemma chunk_range_summed:
  assumes "fs_ok fs" "chunk_range fs inode = Inr (a, b)"
  shows "a \<le> b" "b \<le> length (fs_chunks fs)" "length (fs_chunk_end fs) = length (fs_chunks fs)"
    and "summed (chunk_logical_len fs) (fs_chunks fs) (fs_chunk_end fs) a b"
proof -
  from assms(1) have build: "build_chunk_ends (fs_chunks fs) (fs_chunk_table fs)
      (fs_hole_block_index fs) (fs_block_size fs) (fs_large_hole_size fs) = Inr (fs_chunk_end fs)"
    by (simp add: fs_ok_def)
  from assms(2) obtain t where t: "t + 1 < length (fs_chunk_table fs)"
    and ab: "a = unat (fs_chunk_table fs ! t)" "b = unat (fs_chunk_table fs ! (t + 1))"
    and le: "a \<le> b" "b \<le> length (fs_chunks fs)"
    by (auto simp: chunk_range_def Let_def result_simps not_le)
  show "a \<le> b" "b \<le> length (fs_chunks fs)" by (rule le)+
  from build_chunk_ends_Inr(1) [OF build]
  show "length (fs_chunk_end fs) = length (fs_chunks fs)" .
  from build_chunk_ends_Inr(3) [OF build t]
  show "summed (chunk_logical_len fs) (fs_chunks fs) (fs_chunk_end fs) a b"
    by (simp add: chunk_logical_len_eq ab)
qed

lemma chunk_end_eq:
  assumes "fs_ok fs" "chunk_range fs inode = Inr (a, b)" "a \<le> i" "i < b"
  shows "fs_chunk_end fs ! i = (\<Sum>j = a..<i. logical_len fs j) + logical_len fs i"
    and "chunk_logical_len fs (fs_chunks fs ! i) = Inr (logical_len fs i)"
    and "fs_chunk_end fs ! i < 2 ^ 64"
  using summed_start [OF chunk_range_summed(4) [OF assms(1,2)] assms(3,4)]
  by (simp_all add: logical_len_def)

text \<open>The constant-time file size is the sum of the chunk lengths.\<close>

lemma file_size_sum:
  assumes "fs_ok fs" "fs_kind fs inode = Inr KRegular" "chunk_range fs inode = Inr (a, b)"
  shows "file_size fs inode = Inr (\<Sum>i = a..<b. logical_len fs i)"
proof (cases "a < b")
  case True
  then have "a \<le> b - 1" "b - 1 < b" "Suc (b - 1) = b" by auto
  with chunk_end_eq(1) [OF assms(1,3), of "b - 1"]
  have "fs_chunk_end fs ! (b - 1) = (\<Sum>j = a..<b. logical_len fs j)"
    by (metis sum.op_ivl_Suc not_less)
  with True assms(2,3) show ?thesis
    by (auto simp: file_size_def checked_sub_def)
next
  case False
  with chunk_range_summed(1) [OF assms(1,3)] have "b = a" by simp
  with assms(2,3) show ?thesis by (auto simp: file_size_def checked_sub_def)
qed

subsection \<open>Stat\<close>

record stat =
  st_inode :: u32
  st_kind :: inode_kind
  st_mode :: u32
  st_uid :: u32
  st_gid :: u32
  st_mtime :: nat
  st_atime :: nat
  st_ctime :: nat
  st_size :: nat
  st_nlink :: u32
  st_rdev :: nat

definition stamp_at :: "filesystem \<Rightarrow> nat \<Rightarrow> nat result" where
  "stamp_at fs offset =
     (let resolution = (case fo_time_resolution_sec (fs_options fs) of None \<Rightarrow> 1 | Some r \<Rightarrow> unat r) in
      and_then (ok_or (checked_mul64 offset resolution)
                 (fs_error ''time resolution multiplication overflows'')) (\<lambda>scaled.
      ok_or (checked_add64 (fs_timestamp_base fs) scaled) (fs_error ''timestamp exceeds u64'')))"

definition saturating_inc :: "u32 \<Rightarrow> u32" where
  "saturating_inc x = (if x = U32_MAX then U32_MAX else x + 1)"

definition fs_stat :: "filesystem \<Rightarrow> u32 \<Rightarrow> stat result" where
  "fs_stat fs inode =
     and_then (inode_index fs inode) (\<lambda>i.
     let info = fs_inodes fs ! i in
     and_then (mode_at fs (in_mode_index info)) (\<lambda>mode.
     let kind = mode_kind mode in
     and_then (ok_or (get_at (fs_uids fs) (unat (in_owner_index info)))
                (fs_error ''uid index {} out of range'')) (\<lambda>uid.
     and_then (ok_or (get_at (fs_gids fs) (unat (in_group_index info)))
                (fs_error ''gid index {} out of range'')) (\<lambda>gid.
     and_then (stamp_at fs (in_mtime_offset info)) (\<lambda>mtime.
     and_then
       (if fo_mtime_only (fs_options fs) then Inr (mtime, mtime)
        else and_then (stamp_at fs (in_atime_offset info)) (\<lambda>atime.
             and_then (stamp_at fs (in_ctime_offset info)) (\<lambda>ctime. Inr (atime, ctime))))
       (\<lambda>(atime, ctime).
     and_then (if kind = KRegular then file_size fs inode else Inr 0) (\<lambda>sz.
     Inr \<lparr>st_inode = inode, st_kind = kind, st_mode = mode, st_uid = uid, st_gid = gid,
          st_mtime = mtime, st_atime = atime, st_ctime = ctime, st_size = sz,
          st_nlink = (if fo_inodes_have_nlink (fs_options fs)
                      then saturating_inc (in_nlink_minus_one info) else 1),
          st_rdev = (if kind = KBlockDevice \<or> kind = KCharDevice
                     then (case device_rdev fs inode of Inl _ \<Rightarrow> 0 | Inr d \<Rightarrow> d) else 0)\<rparr>)))))))"

text \<open>Times of a stat never wrap, and its kind and size agree with the dedicated accessors.\<close>

lemma stamp_at_Inr:
  "stamp_at fs offset = Inr t \<longleftrightarrow>
     t = fs_timestamp_base fs
         + offset * (case fo_time_resolution_sec (fs_options fs) of None \<Rightarrow> 1 | Some r \<Rightarrow> unat r)
     \<and> t < 2 ^ 64"
  by (auto simp: stamp_at_def Let_def result_simps)

lemma fs_stat_agrees:
  assumes "fs_stat fs inode = Inr st"
  shows "st_inode st = inode" "fs_kind fs inode = Inr (st_kind st)" "mode_of fs inode = Inr (st_mode st)"
    and "file_size fs inode = Inr (st_size st)"
    and "st_mtime st < 2 ^ 64"
    and "fo_mtime_only (fs_options fs) \<Longrightarrow> st_atime st = st_mtime st \<and> st_ctime st = st_mtime st"
    and "\<not> fo_inodes_have_nlink (fs_options fs) \<Longrightarrow> st_nlink st = 1"
proof -
  from assms obtain i mode uid gid mtime times sz where
    i: "inode_index fs inode = Inr i" and mode: "mode_at fs (in_mode_index (fs_inodes fs ! i)) = Inr mode"
    and mt: "stamp_at fs (in_mtime_offset (fs_inodes fs ! i)) = Inr mtime"
    and times: "(if fo_mtime_only (fs_options fs) then Inr (mtime, mtime)
        else and_then (stamp_at fs (in_atime_offset (fs_inodes fs ! i))) (\<lambda>atime.
             and_then (stamp_at fs (in_ctime_offset (fs_inodes fs ! i))) (\<lambda>ctime. Inr (atime, ctime))))
        = Inr times"
    and sz: "(if mode_kind mode = KRegular then file_size fs inode else Inr 0) = Inr sz"
    and st: "st = \<lparr>st_inode = inode, st_kind = mode_kind mode, st_mode = mode, st_uid = uid,
          st_gid = gid, st_mtime = mtime, st_atime = fst times, st_ctime = snd times, st_size = sz,
          st_nlink = (if fo_inodes_have_nlink (fs_options fs)
                      then saturating_inc (in_nlink_minus_one (fs_inodes fs ! i)) else 1),
          st_rdev = (if mode_kind mode = KBlockDevice \<or> mode_kind mode = KCharDevice
                     then (case device_rdev fs inode of Inl _ \<Rightarrow> 0 | Inr d \<Rightarrow> d) else 0)\<rparr>"
    unfolding fs_stat_def Let_def and_then_eq_Inr case_prod_beta by blast
  from i mode show mo: "mode_of fs inode = Inr (st_mode st)" by (simp add: mode_of_def st)
  then show k: "fs_kind fs inode = Inr (st_kind st)" by (simp add: fs_kind_def st)
  show "st_inode st = inode" by (simp add: st)
  from sz k show "file_size fs inode = Inr (st_size st)"
    by (auto simp: st file_size_def split: if_splits)
  from mt show "st_mtime st < 2 ^ 64" by (simp add: stamp_at_Inr st)
  show "fo_mtime_only (fs_options fs) \<Longrightarrow> st_atime st = st_mtime st \<and> st_ctime st = st_mtime st"
    using times by (auto simp: st)
  show "\<not> fo_inodes_have_nlink (fs_options fs) \<Longrightarrow> st_nlink st = 1" by (simp add: st)
qed

end
