(* ===== verification/Block_Cache.thy ===== *)
theory Block_Cache
  imports Errors
begin

text \<open>
  \<open>BlockCache\<close> of \<open>src/src/fs/read.rs\<close>: the bounded LRU cache of decoded blocks. An
  \<open>Arc<Vec<u8>>\<close> is its bytes; the mutex-protected \<open>Inner\<close> is a record, and every critical section
  of the source is one function on it. \<open>fetch\<close> composes them for one thread; the step relation
  at the end interleaves the same critical sections between any number of threads.
\<close>

datatype entry = Loading | Ready bytes

record cache_inner =
  ci_decoded_whole :: "u32 set"
  ci_resident :: nat
  ci_blocks :: "u32 \<Rightarrow> entry option"
  ci_order :: "u32 list"

record block_cache =
  bc_budget :: nat
  bc_inner :: cache_inner

definition inner_default :: cache_inner where
  "inner_default =
     \<lparr>ci_decoded_whole = {}, ci_resident = 0, ci_blocks = Map.empty, ci_order = []\<rparr>"

definition cache_new :: "nat \<Rightarrow> block_cache" where
  "cache_new budget = \<lparr>bc_budget = budget, bc_inner = inner_default\<rparr>"

definition resident_bytes :: "block_cache \<Rightarrow> nat" where
  "resident_bytes c = ci_resident (bc_inner c)"

definition touch :: "u32 \<Rightarrow> cache_inner \<Rightarrow> cache_inner" where
  "touch b i =
     (if b \<in> set (ci_order i) then i\<lparr>ci_order := remove1 b (ci_order i) @ [b]\<rparr> else i)"

text \<open>Remove a block from the map, giving its bytes back when it was resident.\<close>

definition drop_block :: "u32 \<Rightarrow> cache_inner \<Rightarrow> cache_inner" where
  "drop_block b i =
     (case ci_blocks i b of
        Some (Ready bs) \<Rightarrow>
          i\<lparr>ci_blocks := (ci_blocks i)(b := None), ci_resident := ci_resident i - length bs\<rparr>
      | _ \<Rightarrow> i\<lparr>ci_blocks := (ci_blocks i)(b := None)\<rparr>)"

definition evict :: "u32 \<Rightarrow> cache_inner \<Rightarrow> cache_inner" where
  "evict b i = (let i = drop_block b i in i\<lparr>ci_order := remove1 b (ci_order i)\<rparr>)"

definition evict_one :: "cache_inner \<Rightarrow> cache_inner \<times> bool" where
  "evict_one i =
     (case ci_order i of
        [] \<Rightarrow> (i, False)
      | key # rest \<Rightarrow> (drop_block key (i\<lparr>ci_order := rest\<rparr>), True))"

function evict_until :: "nat \<Rightarrow> nat \<Rightarrow> cache_inner \<Rightarrow> cache_inner" where
  "evict_until budget len i =
     (if budget < ci_resident i + len
      then (case evict_one i of (i', True) \<Rightarrow> evict_until budget len i' | (i', False) \<Rightarrow> i')
      else i)"
  by pat_completeness auto

lemma drop_block_order [simp]: "ci_order (drop_block b i) = ci_order i"
  by (simp add: drop_block_def split: option.split entry.split)

lemma evict_one_shrinks: "evict_one i = (i', True) \<Longrightarrow> length (ci_order i') < length (ci_order i)"
  by (auto simp: evict_one_def split: list.splits)

termination evict_until
  by (relation "measure (\<lambda>(_, _, i). length (ci_order i))") (auto dest!: evict_one_shrinks [OF sym])

declare evict_until.simps [simp del]

definition admit :: "u32 \<Rightarrow> bytes \<Rightarrow> nat \<Rightarrow> cache_inner \<Rightarrow> cache_inner" where
  "admit b bs budget i =
     (let i1 = (case ci_blocks i b of
                  Some (Ready old) \<Rightarrow>
                    i\<lparr>ci_blocks := (ci_blocks i)(b := None),
                      ci_resident := ci_resident i - length old,
                      ci_order := remove1 b (ci_order i)\<rparr>
                | _ \<Rightarrow> i\<lparr>ci_blocks := (ci_blocks i)(b := None)\<rparr>);
          i2 = evict_until budget (length bs) i1
      in i2\<lparr>ci_resident := ci_resident i2 + length bs,
            ci_order := ci_order i2 @ [b],
            ci_blocks := (ci_blocks i2)(b := Some (Ready bs))\<rparr>)"

definition clear_inner :: "cache_inner \<Rightarrow> cache_inner" where
  "clear_inner i =
     i\<lparr>ci_blocks := (\<lambda>b. if ci_blocks i b = Some Loading then Some Loading else None),
       ci_order := [], ci_resident := 0\<rparr>"

definition cache_clear :: "block_cache \<Rightarrow> block_cache" where
  "cache_clear c = c\<lparr>bc_inner := clear_inner (bc_inner c)\<rparr>"

text \<open>A budget of zero does not disable the cache: a block just admitted is resident.\<close>

lemma zero_budget_keeps_block:
  "ci_blocks (admit b bs 0 i) b = Some (Ready bs)" "length bs \<le> ci_resident (admit b bs 0 i)"
  by (simp_all add: admit_def Let_def)

text \<open>What the first critical section of \<open>fetch\<close> decides.\<close>

datatype probe = Hit bytes | StartDecode bool | MustWait

definition begin_load :: "u32 \<Rightarrow> bool \<Rightarrow> cache_inner \<Rightarrow> cache_inner \<times> probe" where
  "begin_load b stale i =
     (i\<lparr>ci_blocks := (ci_blocks i)(b := Some Loading)\<rparr>,
      StartDecode (stale \<or> b \<in> ci_decoded_whole i))"

definition probe_block :: "u32 \<Rightarrow> nat \<Rightarrow> cache_inner \<Rightarrow> cache_inner \<times> probe" where
  "probe_block b needed i =
     (case ci_blocks i b of
        Some (Ready bs) \<Rightarrow>
          if needed \<le> length bs then (touch b i, Hit bs) else begin_load b True (evict b i)
      | Some Loading \<Rightarrow> (i, MustWait)
      | None \<Rightarrow> begin_load b False i)"

definition mark_whole :: "u32 \<Rightarrow> nat \<Rightarrow> bytes \<Rightarrow> cache_inner \<Rightarrow> cache_inner" where
  "mark_whole b whole bs i =
     (if whole \<le> length bs then i\<lparr>ci_decoded_whole := insert b (ci_decoded_whole i)\<rparr> else i)"

text \<open>
  The critical sections that end a load. The source calls \<open>notify_all\<close> after each of them, with the lock
  released; that is a step of its own in \<open>Cache_Threads\<close>.
\<close>

definition publish :: "u32 \<Rightarrow> bytes \<Rightarrow> nat \<Rightarrow> cache_inner \<Rightarrow> cache_inner" where
  "publish b bs budget i = admit b bs budget i"

text \<open>Dropping an armed in-flight guard.\<close>

definition abort_load :: "u32 \<Rightarrow> cache_inner \<Rightarrow> cache_inner" where
  "abort_load b i = i\<lparr>ci_blocks := (ci_blocks i)(b := None)\<rparr>"

text \<open>
  One thread on its own. \<open>None\<close> says the call would wait for another thread's decode of the same
  block.
\<close>

definition fetch ::
    "block_cache \<Rightarrow> u32 \<Rightarrow> nat \<Rightarrow> nat \<Rightarrow> (bool \<Rightarrow> bytes result) \<Rightarrow> (block_cache \<times> bytes result) option"
  where
  "fetch c b needed whole decode =
     (case probe_block b needed (bc_inner c) of
        (i, Hit bs) \<Rightarrow> Some (c\<lparr>bc_inner := i\<rparr>, Inr bs)
      | (i, MustWait) \<Rightarrow> None
      | (i, StartDecode retry_in_full) \<Rightarrow>
          (case decode retry_in_full of
             Inl e \<Rightarrow> Some (c\<lparr>bc_inner := abort_load b i\<rparr>, Inl e)
           | Inr bs \<Rightarrow>
               Some (c\<lparr>bc_inner := publish b bs (bc_budget c) (mark_whole b whole bs i)\<rparr>, Inr bs)))"

definition resident :: "block_cache \<Rightarrow> u32 \<Rightarrow> block_cache \<times> bytes option" where
  "resident c b =
     (let i = touch b (bc_inner c) in
      (c\<lparr>bc_inner := i\<rparr>, case ci_blocks i b of Some (Ready bs) \<Rightarrow> Some bs | _ \<Rightarrow> None))"

subsection \<open>Accounting\<close>

fun entry_len :: "entry option \<Rightarrow> nat" where
  "entry_len (Some (Ready bs)) = length bs"
| "entry_len _ = 0"

definition ready_len :: "(u32 \<Rightarrow> entry option) \<Rightarrow> u32 \<Rightarrow> nat" where
  "ready_len m b = entry_len (m b)"

text \<open>
  The queue lists the resident blocks, each once, and the counter is the number of bytes they
  hold.
\<close>

definition accounts :: "(u32 \<Rightarrow> entry option) \<Rightarrow> u32 list \<Rightarrow> nat \<Rightarrow> bool" where
  "accounts m queue n \<longleftrightarrow>
     distinct queue \<and> (\<forall>b. b \<in> set queue \<longleftrightarrow> (\<exists>bs. m b = Some (Ready bs)))
     \<and> n = sum_list (map (ready_len m) queue)"

definition accounted :: "cache_inner \<Rightarrow> bool" where
  "accounted i \<longleftrightarrow> accounts (ci_blocks i) (ci_order i) (ci_resident i)"

definition within_budget :: "nat \<Rightarrow> cache_inner \<Rightarrow> bool" where
  "within_budget budget i \<longleftrightarrow> ci_resident i \<le> budget \<or> length (ci_order i) \<le> 1"

lemma ready_len_upd: "ready_len (m(b := x)) c = (if c = b then entry_len x else ready_len m c)"
  by (simp add: ready_len_def)

lemma map_ready_len_upd:
  "b \<notin> set queue \<Longrightarrow> map (ready_len (m(b := x))) queue = map (ready_len m) queue"
  by (auto simp: ready_len_upd)

lemma accounts_touch:
  "accounts m queue n \<Longrightarrow> b \<in> set queue \<Longrightarrow> accounts m (remove1 b queue @ [b]) n"
  by (auto simp: accounts_def sum_list_map_remove1 [of b queue])

lemma accounts_remove:
  assumes "accounts m queue n" "b \<in> set queue"
  shows "accounts (m(b := None)) (remove1 b queue) (n - ready_len m b)"
proof -
  from assms have nb: "b \<notin> set (remove1 b queue)" by (auto simp: accounts_def)
  have "sum_list (map (ready_len (m(b := None))) (remove1 b queue))
      = sum_list (map (ready_len m) (remove1 b queue))"
    unfolding map_ready_len_upd [OF nb] ..
  with assms show ?thesis
    by (auto simp: accounts_def sum_list_map_remove1 [of b queue])
qed

lemma accounts_forget:
  assumes "accounts m queue n" "b \<notin> set queue" "\<forall>bs. x \<noteq> Some (Ready bs)"
  shows "accounts (m(b := x)) queue n"
  using assms by (simp add: accounts_def map_ready_len_upd)

lemma accounts_insert:
  assumes "accounts m queue n" "b \<notin> set queue"
  shows "accounts (m(b := Some (Ready bs))) (queue @ [b]) (n + length bs)"
  using assms by (auto simp: accounts_def map_ready_len_upd ready_len_upd)

lemma accounts_Ready: "accounts m queue n \<Longrightarrow> b \<in> set queue \<longleftrightarrow> (\<exists>bs. m b = Some (Ready bs))"
  by (simp add: accounts_def)

lemma accounted_default: "accounted inner_default"
  by (simp add: accounted_def accounts_def inner_default_def)

lemma accounted_touch: "accounted i \<Longrightarrow> accounted (touch b i)"
  by (simp add: accounted_def touch_def accounts_touch)

text \<open>Removing a block from the map and from the queue.\<close>

lemma drop_block_blocks [simp]: "ci_blocks (drop_block b i) = (ci_blocks i)(b := None)"
  by (simp add: drop_block_def split: option.split entry.split)

lemma drop_block_resident [simp]:
  "ci_resident (drop_block b i) = ci_resident i - ready_len (ci_blocks i) b"
  by (simp add: drop_block_def ready_len_def split: option.split entry.split)

lemma drop_block_whole [simp]: "ci_decoded_whole (drop_block b i) = ci_decoded_whole i"
  by (simp add: drop_block_def split: option.split entry.split)

lemma ready_len_absent: "accounts m queue n \<Longrightarrow> b \<notin> set queue \<Longrightarrow> ready_len m b = 0"
  by (cases "m b" rule: entry_len.cases) (auto simp: accounts_def ready_len_def)

lemma accounts_remove_any:
  assumes "accounts m queue n"
  shows "accounts (m(b := None)) (remove1 b queue) (n - ready_len m b)"
  using accounts_remove [OF assms, of b] accounts_forget [OF assms, of b None]
    ready_len_absent [OF assms, of b]
  by (cases "b \<in> set queue") (simp_all add: remove1_idem)

lemma accounted_evict: "accounted i \<Longrightarrow> accounted (evict b i)"
  by (simp add: accounted_def evict_def Let_def accounts_remove_any)

lemma evict_simps [simp]:
  "ci_blocks (evict b i) = (ci_blocks i)(b := None)"
  "ci_decoded_whole (evict b i) = ci_decoded_whole i"
  "ci_order (evict b i) = remove1 b (ci_order i)"
  by (simp_all add: evict_def Let_def)

lemma accounted_evict_one: "accounted i \<Longrightarrow> accounted (fst (evict_one i))"
proof (cases "ci_order i")
  case Nil
  then show "accounted i \<Longrightarrow> ?thesis" by (simp add: evict_one_def)
next
  case (Cons key rest)
  assume "accounted i"
  then have "accounts (ci_blocks i) (key # rest) (ci_resident i)" by (simp add: accounted_def Cons)
  from accounts_remove_any [OF this, of key] show ?thesis
    by (simp add: accounted_def evict_one_def Cons)
qed

text \<open>
  Eviction only removes: blocks not evicted keep their entries, and it stops within the budget or
  with an empty queue.
\<close>

definition shrunk :: "cache_inner \<Rightarrow> cache_inner \<Rightarrow> bool" where
  "shrunk i i' \<longleftrightarrow>
     ci_decoded_whole i' = ci_decoded_whole i \<and> set (ci_order i') \<subseteq> set (ci_order i)
     \<and> (\<forall>b. ci_blocks i' b = ci_blocks i b \<or> ci_blocks i' b = None \<and> b \<in> set (ci_order i))"

lemma shrunk_refl: "shrunk i i"
  by (simp add: shrunk_def)

lemma shrunk_trans: "shrunk i i' \<Longrightarrow> shrunk i' i'' \<Longrightarrow> shrunk i i''"
  unfolding shrunk_def by (metis subsetD subset_trans)

lemma shrunk_evict_one: "shrunk i (fst (evict_one i))"
  by (auto simp: shrunk_def evict_one_def split: list.split)

lemma evict_one_False: "snd (evict_one i) = False \<longleftrightarrow> ci_order i = []"
  "ci_order i = [] \<Longrightarrow> fst (evict_one i) = i"
  by (auto simp: evict_one_def split: list.splits)

lemma evict_until_ok:
  "accounted i \<Longrightarrow> i' = evict_until budget len i \<Longrightarrow>
     accounted i' \<and> shrunk i i' \<and> (ci_resident i' + len \<le> budget \<or> ci_order i' = [])"
proof (induction budget len i arbitrary: i' rule: evict_until.induct)
  case (1 budget len i)
  obtain i1 more where step: "evict_one i = (i1, more)" by (cases "evict_one i")
  show ?case
  proof (cases "budget < ci_resident i + len \<and> more")
    case True
    then have over: "budget < ci_resident i + len" and more: "more" by simp_all
    have acc: "accounted i1" and shr: "shrunk i i1"
      using accounted_evict_one [OF 1(2)] shrunk_evict_one [of i] step by simp_all
    have "i' = evict_until budget len i1"
      using 1(3) over more unfolding evict_until.simps [of budget len i] by (simp add: step)
    moreover have "(i1, True) = evict_one i" using step more by simp
    ultimately have "accounted i' \<and> shrunk i1 i' \<and> (ci_resident i' + len \<le> budget \<or> ci_order i' = [])"
      using 1(1) [OF over _ refl acc, of i'] by simp
    with shrunk_trans [OF shr, of i']
    show ?thesis by blast
  next
    case False
    have stop: "ci_resident i + len \<le> budget \<or> ci_order i = []"
      using False evict_one_False(1) [of i] step by auto
    moreover have "i' = i"
    proof (cases "budget < ci_resident i + len")
      case True
      with False step have "evict_one i = (i1, False)" by simp
      moreover from this have "i1 = i" using evict_one_False [of i] by simp
      ultimately show ?thesis
        using 1(3) True unfolding evict_until.simps [of budget len i] by simp
    next
      case fits: False
      then show ?thesis using 1(3) unfolding evict_until.simps [of budget len i] by simp
    qed
    ultimately show ?thesis using 1(2) by (simp add: shrunk_refl)
  qed
qed

lemma admit_eq:
  assumes "accounted i"
  shows "admit b bs budget i = (let i2 = evict_until budget (length bs) (evict b i) in
     i2\<lparr>ci_resident := ci_resident i2 + length bs, ci_order := ci_order i2 @ [b],
        ci_blocks := (ci_blocks i2)(b := Some (Ready bs))\<rparr>)"
proof -
  have "b \<notin> set (ci_order i)" if "\<forall>old. ci_blocks i b \<noteq> Some (Ready old)"
    using that assms by (simp add: accounted_def accounts_def)
  then have "(case ci_blocks i b of
                  Some (Ready old) \<Rightarrow>
                    i\<lparr>ci_blocks := (ci_blocks i)(b := None),
                      ci_resident := ci_resident i - length old,
                      ci_order := remove1 b (ci_order i)\<rparr>
                | _ \<Rightarrow> i\<lparr>ci_blocks := (ci_blocks i)(b := None)\<rparr>) = evict b i"
    by (auto simp: evict_def drop_block_def Let_def remove1_idem split: option.split entry.split)
  then show ?thesis by (simp add: admit_def Let_def)
qed

lemma admit_ok:
  assumes "accounted i"
  shows "accounted (admit b bs budget i)" "within_budget budget (admit b bs budget i)"
    and "ci_blocks (admit b bs budget i) b = Some (Ready bs)"
    and "ci_decoded_whole (admit b bs budget i) = ci_decoded_whole i"
    and "b' \<noteq> b \<Longrightarrow> ci_blocks (admit b bs budget i) b' = ci_blocks i b'
       \<or> ci_blocks (admit b bs budget i) b' = None \<and> ci_blocks i b' \<noteq> Some Loading"
proof -
  define i2 where "i2 = evict_until budget (length bs) (evict b i)"
  have ev: "accounted i2" "shrunk (evict b i) i2"
    "ci_resident i2 + length bs \<le> budget \<or> ci_order i2 = []"
    using evict_until_ok [OF accounted_evict [OF assms] i2_def] by auto
  have adm: "admit b bs budget i = i2\<lparr>ci_resident := ci_resident i2 + length bs,
      ci_order := ci_order i2 @ [b], ci_blocks := (ci_blocks i2)(b := Some (Ready bs))\<rparr>"
    by (simp add: admit_eq [OF assms] Let_def i2_def)
  have b: "b \<notin> set (ci_order i2)"
    using ev(2) assms by (auto simp: shrunk_def accounted_def accounts_def)
  show "accounted (admit b bs budget i)"
    using accounts_insert [of "ci_blocks i2" _ _ b bs] ev(1) b by (simp add: adm accounted_def)
  show "within_budget budget (admit b bs budget i)"
    using ev(3) by (auto simp: within_budget_def adm)
  show "ci_blocks (admit b bs budget i) b = Some (Ready bs)" by (simp add: adm)
  show "ci_decoded_whole (admit b bs budget i) = ci_decoded_whole i"
    using ev(2) by (simp add: adm shrunk_def)
  assume b': "b' \<noteq> b"
  have "b' \<notin> set (ci_order i)" if "ci_blocks i b' = Some Loading"
    using that assms by (simp add: accounted_def accounts_def)
  moreover have "set (ci_order (evict b i)) \<subseteq> set (ci_order i)"
    by (simp add: set_remove1_subset)
  ultimately show "ci_blocks (admit b bs budget i) b' = ci_blocks i b'
      \<or> ci_blocks (admit b bs budget i) b' = None \<and> ci_blocks i b' \<noteq> Some Loading"
    using ev(2) b' by (auto simp: adm shrunk_def dest!: spec [of _ b'])
qed

subsection \<open>Every critical section keeps the accounts\<close>

definition loading :: "cache_inner \<Rightarrow> u32 set" where
  "loading i = {b. ci_blocks i b = Some Loading}"

lemma not_loading_queue: "accounted i \<Longrightarrow> b \<in> loading i \<Longrightarrow> b \<notin> set (ci_order i)"
  by (simp add: loading_def accounted_def accounts_def)

lemma within_budget_touch: "within_budget budget i \<Longrightarrow> within_budget budget (touch b i)"
  by (auto simp: within_budget_def touch_def length_remove1)

lemma touch_simps [simp]:
  "ci_blocks (touch b i) = ci_blocks i" "ci_decoded_whole (touch b i) = ci_decoded_whole i"
  by (simp_all add: touch_def)

lemma within_budget_evict: "within_budget budget i \<Longrightarrow> within_budget budget (evict b i)"
  by (auto simp: within_budget_def evict_def Let_def length_remove1)

lemma begin_load_ok:
  assumes "accounted i" "ci_blocks i b = None"
  shows "accounted (fst (begin_load b stale i))"
    "within_budget budget i \<Longrightarrow> within_budget budget (fst (begin_load b stale i))"
    "loading (fst (begin_load b stale i)) = insert b (loading i)"
proof -
  from assms have "b \<notin> set (ci_order i)" by (simp add: accounted_def accounts_def)
  with accounts_forget [of "ci_blocks i" "ci_order i" "ci_resident i" b "Some Loading"] assms(1)
  show "accounted (fst (begin_load b stale i))" by (simp add: begin_load_def accounted_def)
qed (auto simp: begin_load_def within_budget_def loading_def)

text \<open>
  The first critical section starts a load only when nobody is loading the block, and waits only
  when somebody is.
\<close>

definition probe_outcome :: "u32 \<Rightarrow> nat \<Rightarrow> cache_inner \<Rightarrow> cache_inner \<Rightarrow> probe \<Rightarrow> bool" where
  "probe_outcome b needed i i' p \<longleftrightarrow>
     (case p of
        Hit bs \<Rightarrow> needed \<le> length bs \<and> ci_blocks i b = Some (Ready bs) \<and> loading i' = loading i
      | StartDecode r \<Rightarrow> b \<notin> loading i \<and> loading i' = insert b (loading i)
      | MustWait \<Rightarrow> b \<in> loading i \<and> i' = i)"

definition keeps_accounts :: "cache_inner \<Rightarrow> cache_inner \<Rightarrow> bool" where
  "keeps_accounts i i' \<longleftrightarrow>
     accounted i' \<and> (\<forall>budget. within_budget budget i \<longrightarrow> within_budget budget i')"

lemma loading_simps [simp]:
  "loading (evict b i) = loading i - {b}" "loading (touch b i) = loading i"
  by (auto simp: loading_def)

lemma begin_load_keeps:
  assumes "accounted i" "ci_blocks i b = None"
  shows "keeps_accounts i (fst (begin_load b stale i))"
  using begin_load_ok [OF assms] by (simp add: keeps_accounts_def)

lemma keeps_accounts_trans: "keeps_accounts i i' \<Longrightarrow> keeps_accounts i' i'' \<Longrightarrow> keeps_accounts i i''"
  by (simp add: keeps_accounts_def)

lemma keeps_evict: "accounted i \<Longrightarrow> keeps_accounts i (evict b i)"
  by (simp add: keeps_accounts_def accounted_evict within_budget_evict)

lemma snd_begin_load: "snd (begin_load b stale i) = StartDecode (stale \<or> b \<in> ci_decoded_whole i)"
  by (simp add: begin_load_def)

lemma probe_block_ok:
  assumes "accounted i"
  shows "keeps_accounts i (fst (probe_block b needed i))"
    and "probe_outcome b needed i (fst (probe_block b needed i)) (snd (probe_block b needed i))"
proof -
  have ev: "accounted (evict b i)" "ci_blocks (evict b i) b = None"
    using accounted_evict [OF assms] by simp_all
  consider (hit) bs where "ci_blocks i b = Some (Ready bs)" "needed \<le> length bs"
    | (stale) bs where "ci_blocks i b = Some (Ready bs)" "\<not> needed \<le> length bs"
    | (wait) "ci_blocks i b = Some Loading"
    | (miss) "ci_blocks i b = None"
    by (cases "ci_blocks i b") (auto, metis entry.exhaust)
  then have "keeps_accounts i (fst (probe_block b needed i))
      \<and> probe_outcome b needed i (fst (probe_block b needed i)) (snd (probe_block b needed i))"
  proof cases
    case hit
    with assms show ?thesis
      by (simp add: probe_block_def probe_outcome_def keeps_accounts_def accounted_touch
          within_budget_touch)
  next
    case stale
    then have "probe_block b needed i = begin_load b True (evict b i)"
      by (simp add: probe_block_def)
    moreover have "keeps_accounts i (fst (begin_load b True (evict b i)))"
      by (rule keeps_accounts_trans [OF keeps_evict [OF assms] begin_load_keeps [OF ev]])
    moreover have "b \<notin> loading i" using stale by (simp add: loading_def)
    ultimately show ?thesis
      using begin_load_ok(3) [OF ev, of True] by (simp add: probe_outcome_def snd_begin_load)
  next
    case wait
    with assms show ?thesis
      by (simp add: probe_block_def probe_outcome_def keeps_accounts_def loading_def)
  next
    case miss
    then have "probe_block b needed i = begin_load b False i" by (simp add: probe_block_def)
    moreover have "b \<notin> loading i" using miss by (simp add: loading_def)
    ultimately show ?thesis
      using begin_load_ok(3) [OF assms miss, of False] begin_load_keeps [OF assms miss]
      by (simp add: probe_outcome_def snd_begin_load)
  qed
  then show "keeps_accounts i (fst (probe_block b needed i))"
    and "probe_outcome b needed i (fst (probe_block b needed i)) (snd (probe_block b needed i))"
    by simp_all
qed

lemma mark_whole_keeps [simp]:
  "accounted (mark_whole b whole bs i) = accounted i"
  "within_budget budget (mark_whole b whole bs i) = within_budget budget i"
  "ci_blocks (mark_whole b whole bs i) = ci_blocks i"
  by (simp_all add: mark_whole_def accounted_def within_budget_def)

lemma loading_mark_whole [simp]: "loading (mark_whole b whole bs i) = loading i"
  by (simp add: loading_def)

lemma publish_ok:
  assumes "accounted i"
  shows "accounted (publish b bs budget i)" "within_budget budget (publish b bs budget i)"
    "loading (publish b bs budget i) = loading i - {b}"
proof -
  show "accounted (publish b bs budget i)" "within_budget budget (publish b bs budget i)"
    unfolding publish_def by (rule admit_ok [OF assms])+
  have "ci_blocks (admit b bs budget i) b' = Some Loading \<longleftrightarrow> b' \<noteq> b \<and> ci_blocks i b' = Some Loading"
    for b'
  proof (cases "b' = b")
    case True
    then show ?thesis by (simp add: admit_ok(3) [OF assms])
  next
    case False
    with admit_ok(5) [OF assms False, of bs budget] show ?thesis by auto
  qed
  then show "loading (publish b bs budget i) = loading i - {b}"
    by (auto simp: loading_def publish_def)
qed

lemma abort_load_ok:
  assumes "accounted i" "b \<in> loading i"
  shows "keeps_accounts i (abort_load b i)" "loading (abort_load b i) = loading i - {b}"
proof -
  from accounts_forget [of "ci_blocks i" "ci_order i" "ci_resident i" b None] assms
    not_loading_queue [OF assms]
  show "keeps_accounts i (abort_load b i)"
    by (simp add: keeps_accounts_def accounted_def abort_load_def within_budget_def)
  show "loading (abort_load b i) = loading i - {b}"
    by (auto simp: loading_def abort_load_def)
qed

lemma clear_inner_ok: "accounted (clear_inner i)" "within_budget budget (clear_inner i)"
  "loading (clear_inner i) = loading i"
  by (auto simp: accounted_def accounts_def clear_inner_def within_budget_def loading_def
      split: if_splits)

subsection \<open>One thread\<close>

definition idle_cache :: "block_cache \<Rightarrow> bool" where
  "idle_cache c \<longleftrightarrow>
     accounted (bc_inner c) \<and> within_budget (bc_budget c) (bc_inner c) \<and> loading (bc_inner c) = {}"

text \<open>Every resident entry satisfies \<open>P\<close>.\<close>

definition entries_satisfy :: "(u32 \<Rightarrow> bytes \<Rightarrow> bool) \<Rightarrow> block_cache \<Rightarrow> bool" where
  "entries_satisfy P c \<longleftrightarrow> (\<forall>b bs. ci_blocks (bc_inner c) b = Some (Ready bs) \<longrightarrow> P b bs)"

lemma idle_cache_new: "idle_cache (cache_new budget)" "entries_satisfy P (cache_new budget)"
  using accounted_default
  by (simp_all add: idle_cache_def cache_new_def)
    (simp_all add: within_budget_def inner_default_def loading_def entries_satisfy_def)

lemma probe_block_ready:
  assumes "accounted i" "ci_blocks (fst (probe_block b needed i)) b' = Some (Ready bs)"
  shows "ci_blocks i b' = Some (Ready bs)"
  using assms
  by (auto simp: probe_block_def begin_load_def split: option.splits entry.splits if_splits)

text \<open>
  A fetch on a cache no other thread is using never waits, leaves the cache idle and accounted,
  and keeps a property of the entries that every decoded block has.
\<close>

lemma fetch_ok:
  assumes "idle_cache c" "entries_satisfy P c" "\<And>r bs. decode r = Inr bs \<Longrightarrow> P b bs"
  shows "\<exists>c' res. fetch c b needed whole decode = Some (c', res) \<and> idle_cache c'
    \<and> entries_satisfy P c' \<and> bc_budget c' = bc_budget c
    \<and> (\<forall>bs. res = Inr bs \<longrightarrow> P b bs \<and> (needed \<le> length bs \<or> (\<exists>r. decode r = Inr bs)))
    \<and> (\<forall>e. res = Inl e \<longrightarrow> (\<exists>r. decode r = Inl e))"
proof -
  let ?i = "bc_inner c"
  obtain i p where probe: "probe_block b needed ?i = (i, p)" by (cases "probe_block b needed ?i")
  have acc: "accounted ?i" and bud: "within_budget (bc_budget c) ?i" and idle: "loading ?i = {}"
    using assms(1) by (auto simp: idle_cache_def)
  have keep: "accounted i" "within_budget (bc_budget c) i" and out: "probe_outcome b needed ?i i p"
    using probe_block_ok [OF acc, where b = b and needed = needed] bud by (auto simp: probe keeps_accounts_def)
  have entries: "P b' bs" if "ci_blocks i b' = Some (Ready bs)" for b' bs
    using probe_block_ready [OF acc, of b needed b' bs] that assms(2)
    by (simp add: probe entries_satisfy_def)
  show ?thesis
  proof (cases p)
    case (Hit bs)
    with out idle keep entries assms(2) show ?thesis
      by (auto simp: fetch_def probe probe_outcome_def idle_cache_def entries_satisfy_def)
  next
    case MustWait
    with out idle show ?thesis by (simp add: probe_outcome_def)
  next
    case (StartDecode r)
    with out idle have load: "loading i = {b}" by (simp add: probe_outcome_def)
    show ?thesis
    proof (cases "decode r")
      case (Inl e)
      have "accounted (abort_load b i)" "within_budget (bc_budget c) (abort_load b i)"
        "loading (abort_load b i) = {}"
        using abort_load_ok [OF keep(1), of b] keep load by (auto simp: keeps_accounts_def)
      moreover have "entries_satisfy P (c\<lparr>bc_inner := abort_load b i\<rparr>)"
        using entries by (auto simp: entries_satisfy_def abort_load_def split: if_splits)
      ultimately show ?thesis
        using Inl StartDecode by (auto simp: fetch_def probe idle_cache_def)
    next
      case (Inr bs)
      let ?m = "mark_whole b whole bs i"
      have acc': "accounted ?m" using keep by simp
      have "entries_satisfy P (c\<lparr>bc_inner := publish b bs (bc_budget c) ?m\<rparr>)"
        unfolding entries_satisfy_def
      proof (intro allI impI)
        fix b' bs' assume "ci_blocks (bc_inner (c\<lparr>bc_inner := publish b bs (bc_budget c) ?m\<rparr>)) b'
          = Some (Ready bs')"
        then have r: "ci_blocks (admit b bs (bc_budget c) ?m) b' = Some (Ready bs')"
          by (simp add: publish_def)
        show "P b' bs'"
        proof (cases "b' = b")
          case True
          with r admit_ok(3) [OF acc'] assms(3) [OF Inr] show ?thesis by simp
        next
          case False
          with r admit_ok(5) [OF acc' False, of bs "bc_budget c"] entries show ?thesis by auto
        qed
      qed
      with publish_ok [OF acc', where b = b and bs = bs and budget = "bc_budget c"] load show ?thesis
        using Inr StartDecode assms(3) by (auto simp: fetch_def probe idle_cache_def)
    qed
  qed
qed

text \<open>What a fetch hands out is resident afterwards, whatever had to be evicted for it.\<close>

lemma fetch_resident:
  assumes "accounted (bc_inner c)" "fetch c b needed whole decode = Some (c', Inr bs)"
  shows "resident c' b = (c'\<lparr>bc_inner := touch b (bc_inner c')\<rparr>, Some bs)"
proof -
  obtain i p where probe: "probe_block b needed (bc_inner c) = (i, p)"
    by (cases "probe_block b needed (bc_inner c)")
  have acc: "accounted i"
    using probe_block_ok(1) [OF assms(1), of b needed] by (simp add: probe keeps_accounts_def)
  have "ci_blocks (bc_inner c') b = Some (Ready bs)"
  proof (cases p)
    case (Hit bs')
    have "ci_blocks i = ci_blocks (bc_inner c)"
      using probe Hit by (auto simp: probe_block_def begin_load_def split: option.splits entry.splits if_splits)
    moreover have "ci_blocks (bc_inner c) b = Some (Ready bs')"
      using probe_block_ok(2) [OF assms(1), of b needed] by (simp add: probe Hit probe_outcome_def)
    ultimately show ?thesis using assms(2) by (auto simp: fetch_def probe Hit)
  next
    case MustWait
    with assms(2) show ?thesis by (simp add: fetch_def probe)
  next
    case (StartDecode r)
    with assms(2) have c': "c' = c\<lparr>bc_inner := publish b bs (bc_budget c) (mark_whole b whole bs i)\<rparr>"
      by (auto simp: fetch_def probe split: sum.splits)
    have "accounted (mark_whole b whole bs i)" using acc by simp
    from admit_ok(3) [OF this] show ?thesis by (simp add: c' publish_def)
  qed
  then show ?thesis by (simp add: resident_def Let_def)
qed

end
