(* ===== verification/Read_Path.thy ===== *)
theory Read_Path
  imports Filesystem Block_Cache
begin

text \<open>
  Reading file data (\<open>decode_block\<close>, \<open>read_into\<close>, \<open>read_at\<close>, \<open>read_file\<close>, \<open>read_borrowed\<close> of
  \<open>src/src/fs/read.rs\<close>). The read loop only needs a few promises of the block cache; they are the
  locale \<open>block_fetcher\<close>, in which the loop is shown to deliver exactly the bytes of the file's
  logical content, and which the cache of the theory \<open>Block_Cache\<close> over the block decoder of an
  open filesystem satisfies.
\<close>

definition PREFIX_GRANULARITY :: nat where "PREFIX_GRANULARITY = 2 ^ 20"

definition PREFIX_MAX :: nat where "PREFIX_MAX = 4 * 2 ^ 20"

text \<open>The closure \<open>decode_block\<close> hands to the cache.\<close>

definition decode_one :: "environment \<Rightarrow> filesystem \<Rightarrow> u32 \<Rightarrow> nat \<Rightarrow> bool \<Rightarrow> bytes result" where
  "decode_one env fs block needed retry_in_full =
     and_then (ok_or (get_at (fs_block_records fs) (unat block))
                (fs_error ''block {block} out of range'')) (\<lambda>record.
     let full = unat (fs_block_size fs);
         in_full = decompress_section (ev_features env) (ev_codecs env) (ev_hash env)
           (fs_image fs) record full
     in if \<not> retry_in_full \<and> needed \<le> min PREFIX_MAX full
        then and_then
          (decompress_section_prefix (ev_features env) (ev_codecs env) (ev_hash env) (fs_image fs)
             record (min (max needed PREFIX_GRANULARITY) full)) (\<lambda>found.
          case found of Some bytes \<Rightarrow> Inr bytes | None \<Rightarrow> in_full)
        else in_full)"

definition decode_block ::
    "environment \<Rightarrow> filesystem \<Rightarrow> block_cache \<Rightarrow> u32 \<Rightarrow> nat \<Rightarrow> (block_cache \<times> bytes result) option" where
  "decode_block env fs cache block needed =
     fetch cache block needed (unat (fs_block_size fs)) (decode_one env fs block needed)"

text \<open>\<open>partition_point\<close> of a table that is monotonic, as the ends of one file are.\<close>

definition partition_point :: "('a \<Rightarrow> bool) \<Rightarrow> 'a list \<Rightarrow> nat" where
  "partition_point P xs = length (takeWhile P xs)"

definition chunks_covering :: "filesystem \<Rightarrow> nat \<times> nat \<Rightarrow> nat \<Rightarrow> nat list" where
  "chunks_covering fs rng offset =
     (let ends = subslice (fs_chunk_end fs) (fst rng) (snd rng);
          first = partition_point (\<lambda>e. e \<le> offset) ends
      in [fst rng + first..<snd rng])"

type_synonym held = "(u32 \<times> bytes) option"

type_synonym 'c fetcher = "'c \<Rightarrow> u32 \<Rightarrow> nat \<Rightarrow> ('c \<times> bytes result) option"

text \<open>The block the loop holds serves a chunk when it is the right one and reaches far enough.\<close>

definition obtain_block ::
    "'c fetcher \<Rightarrow> 'c \<Rightarrow> held \<Rightarrow> u32 \<Rightarrow> nat \<Rightarrow> ('c \<times> held \<times> bytes result) option" where
  "obtain_block dec cache held block block_end =
     (let again = (case dec cache block block_end of
            None \<Rightarrow> None
          | Some (cache', Inl e) \<Rightarrow> Some (cache', held, Inl e)
          | Some (cache', Inr bytes) \<Rightarrow> Some (cache', Some (block, bytes), Inr bytes))
      in case held of
           Some (b, bytes) \<Rightarrow>
             if b = block \<and> block_end \<le> length bytes then Some (cache, held, Inr bytes) else again
         | None \<Rightarrow> again)"

text \<open>
  The loop of \<open>read_into\<close>: the outcome carries the cache, the buffer and the bytes written or the
  error. The subtractions from \<open>chunk_end\<close> do not go below zero in a filesystem that opened
  (\<open>chunk_end_eq\<close>).
\<close>

primrec read_loop ::
    "'c fetcher \<Rightarrow> filesystem \<Rightarrow> nat \<Rightarrow> nat list \<Rightarrow> 'c \<Rightarrow> held \<Rightarrow> nat \<Rightarrow> bytes
       \<Rightarrow> ('c \<times> bytes \<times> nat result) option" where
  "read_loop dec fs offset [] cache held written buf = Some (cache, buf, Inr written)"
| "read_loop dec fs offset (i # is) cache held written buf =
     (if written = length buf then Some (cache, buf, Inr written)
      else
        let chunk = fs_chunks fs ! i;
            chunk_end = fs_chunk_end fs ! i;
            want_end = saturating_add64 offset (length buf)
        in case chunk_logical_len fs chunk of
          Inl e \<Rightarrow> Some (cache, buf, Inl e)
        | Inr len \<Rightarrow>
            let cursor = chunk_end - len in
            if want_end \<le> cursor then Some (cache, buf, Inr written)
            else if chunk_end \<le> offset then read_loop dec fs offset is cache held written buf
            else
              let local_start = offset - cursor;
                  local_end = min (want_end - cursor) (chunk_end - cursor);
                  taken = min (local_end - local_start) (length buf - written)
              in if is_hole_chunk fs chunk
                 then read_loop dec fs offset is cache held (written + taken)
                        (put_at written (replicate taken 0) buf)
                 else
                   let block_start = unat (ck_offset chunk) + local_start;
                       block_end = block_start + taken
                   in case obtain_block dec cache held (ck_block chunk) block_end of
                        None \<Rightarrow> None
                      | Some (cache', held', Inl e) \<Rightarrow> Some (cache', buf, Inl e)
                      | Some (cache', held', Inr bytes) \<Rightarrow>
                          if length bytes < block_end
                          then Some (cache', buf, Inl (fs_error
                                 ''chunk {block_start}..{block_end} exceeds block of {} bytes''))
                          else read_loop dec fs offset is cache' held' (written + taken)
                                 (put_at written (subslice bytes block_start block_end) buf))"

definition read_into ::
    "environment \<Rightarrow> filesystem \<Rightarrow> u32 \<Rightarrow> nat \<Rightarrow> bytes \<Rightarrow> block_cache
       \<Rightarrow> (block_cache \<times> bytes \<times> nat result) option" where
  "read_into env fs inode offset buf cache =
     (case require_kind fs inode KRegular ''inode {inode} is not a regular file'' of
        Inl e \<Rightarrow> Some (cache, buf, Inl e)
      | Inr _ \<Rightarrow>
          (case chunk_range fs inode of
             Inl e \<Rightarrow> Some (cache, buf, Inl e)
           | Inr rng \<Rightarrow>
               read_loop (decode_block env fs) fs offset (chunks_covering fs rng offset)
                 cache None 0 buf))"

text \<open>On a 64-bit platform the conversion of the length to \<open>usize\<close> never fails.\<close>

definition read_at ::
    "environment \<Rightarrow> filesystem \<Rightarrow> u32 \<Rightarrow> nat \<Rightarrow> nat \<Rightarrow> block_cache
       \<Rightarrow> (block_cache \<times> bytes result) option" where
  "read_at env fs inode offset sz cache =
     (case file_size fs inode of
        Inl e \<Rightarrow> Some (cache, Inl e)
      | Inr fsize \<Rightarrow>
          (let available = min (fsize - offset) sz in
           case read_into env fs inode offset (replicate available 0) cache of
             None \<Rightarrow> None
           | Some (cache', buf, Inl e) \<Rightarrow> Some (cache', Inl e)
           | Some (cache', buf, Inr written) \<Rightarrow> Some (cache', Inr (take written buf))))"

definition read_file :: "environment \<Rightarrow> filesystem \<Rightarrow> u32 \<Rightarrow> bytes result option" where
  "read_file env fs inode =
     (case file_size fs inode of
        Inl e \<Rightarrow> Some (Inl e)
      | Inr sz \<Rightarrow>
          map_option snd (read_at env fs inode 0 sz (cache_new (2 * unat (fs_block_size fs)))))"

definition read_borrowed ::
    "environment \<Rightarrow> filesystem \<Rightarrow> u32 \<Rightarrow> nat \<Rightarrow> nat \<Rightarrow> block_cache
       \<Rightarrow> (block_cache \<times> bytes option result) option" where
  "read_borrowed env fs inode offset len cache =
     (case require_kind fs inode KRegular ''inode {inode} is not a regular file'' of
        Inl e \<Rightarrow> Some (cache, Inl e)
      | Inr _ \<Rightarrow>
        if len = 0 then Some (cache, Inr (Some []))
        else case chunk_range fs inode of
          Inl e \<Rightarrow> Some (cache, Inl e)
        | Inr rng \<Rightarrow>
          (case chunks_covering fs rng offset of
             [] \<Rightarrow> Some (cache, Inr None)
           | i # _ \<Rightarrow>
             (let chunk = fs_chunks fs ! i; chunk_end = fs_chunk_end fs ! i in
              if is_hole_chunk fs chunk then Some (cache, Inr None)
              else if chunk_end < saturating_add64 offset len then Some (cache, Inr None)
              else case chunk_logical_len fs chunk of
                Inl e \<Rightarrow> Some (cache, Inl e)
              | Inr clen \<Rightarrow>
                (let cursor = chunk_end - clen;
                     block_start = unat (ck_offset chunk) + (offset - cursor);
                     block_end = block_start + len
                 in case decode_block env fs cache (ck_block chunk) block_end of
                   None \<Rightarrow> None
                 | Some (cache', Inl e) \<Rightarrow> Some (cache', Inl e)
                 | Some (cache', Inr bytes) \<Rightarrow>
                     if length bytes < block_end
                     then Some (cache', Inl (fs_error
                            ''chunk {block_start}..{block_end} exceeds block of {len} bytes''))
                     else (case resident cache' (ck_block chunk) of
                         (cache'', None) \<Rightarrow> Some (cache'', Inl (fs_error ''block cache lost entry''))
                       | (cache'', Some blk) \<Rightarrow>
                           Some (cache'', Inr (Some (subslice blk block_start block_end))))))))"

subsection \<open>The logical content of a file\<close>

text \<open>
  \<open>blk b\<close> stands for the full content of block \<open>b\<close>. A chunk contributes the bytes it names, a
  hole zeros; the content of a file is the concatenation over its chunk range.
\<close>

definition chunk_bytes :: "filesystem \<Rightarrow> (u32 \<Rightarrow> bytes) \<Rightarrow> nat \<Rightarrow> bytes" where
  "chunk_bytes fs blk i =
     (let chunk = fs_chunks fs ! i in
      if is_hole_chunk fs chunk then replicate (logical_len fs i) 0
      else map (\<lambda>k. blk (ck_block chunk) ! (unat (ck_offset chunk) + k)) [0..<unat (ck_size chunk)])"

definition file_content :: "filesystem \<Rightarrow> (u32 \<Rightarrow> bytes) \<Rightarrow> nat \<Rightarrow> nat \<Rightarrow> bytes" where
  "file_content fs blk a b = concat (map (chunk_bytes fs blk) [a..<b])"

lemma length_chunk_bytes [simp]: "length (chunk_bytes fs blk i) = logical_len fs i"
  by (simp add: chunk_bytes_def Let_def logical_len_def logical_of_def chunk_logical_len_def)

lemma length_file_content: "length (file_content fs blk a b) = (\<Sum>i = a..<b. logical_len fs i)"
  by (simp add: file_content_def length_concat comp_def sum_list_distinct_conv_sum_set)

lemma file_content_split:
  "a \<le> i \<Longrightarrow> i \<le> b \<Longrightarrow> file_content fs blk a b = file_content fs blk a i @ file_content fs blk i b"
  using upt_add_eq_append [of a i "b - i"] by (simp add: file_content_def)

lemma file_content_Cons: "i < b \<Longrightarrow> file_content fs blk i b = chunk_bytes fs blk i @ file_content fs blk (Suc i) b"
  by (simp add: file_content_def upt_rec [of i b])

text \<open>Decoded bytes that agree with the block are interchangeable with it.\<close>

definition agrees :: "(u32 \<Rightarrow> bytes) \<Rightarrow> u32 \<Rightarrow> bytes \<Rightarrow> bool" where
  "agrees blk b bs \<longleftrightarrow> bs = take (length bs) (blk b)"

lemma agrees_nth: "agrees blk b bs \<Longrightarrow> k < length bs \<Longrightarrow> bs ! k = blk b ! k"
  unfolding agrees_def by (metis nth_take)

lemma chunk_piece:
  assumes "agrees blk (ck_block chunk) bs" "fs_chunks fs ! i = chunk" "\<not> is_hole_chunk fs chunk"
    and "k + n \<le> logical_len fs i" "unat (ck_offset chunk) + k + n \<le> length bs"
  shows "subslice bs (unat (ck_offset chunk) + k) (unat (ck_offset chunk) + k + n)
    = take n (drop k (chunk_bytes fs blk i))"
proof (rule nth_equalityI)
  from assms(4,5) show "length (subslice bs (unat (ck_offset chunk) + k) (unat (ck_offset chunk) + k + n))
      = length (take n (drop k (chunk_bytes fs blk i)))" by simp
  fix j assume "j < length (subslice bs (unat (ck_offset chunk) + k) (unat (ck_offset chunk) + k + n))"
  with assms(5) have j: "j < n" by simp
  have size_eq: "logical_len fs i = unat (ck_size chunk)"
    using assms(2,3) by (simp add: logical_len_def logical_of_def chunk_logical_len_def)
  have "subslice bs (unat (ck_offset chunk) + k) (unat (ck_offset chunk) + k + n) ! j
      = blk (ck_block chunk) ! (unat (ck_offset chunk) + (k + j))"
    using j assms(5) by (simp add: subslice_nth agrees_nth [OF assms(1)] add.assoc)
  moreover have "take n (drop k (chunk_bytes fs blk i)) ! j
      = blk (ck_block chunk) ! (unat (ck_offset chunk) + (k + j))"
    using j assms(2-4) size_eq by (simp add: chunk_bytes_def Let_def)
  ultimately show "subslice bs (unat (ck_offset chunk) + k) (unat (ck_offset chunk) + k + n) ! j
      = take n (drop k (chunk_bytes fs blk i)) ! j" by simp
qed

lemma hole_piece:
  assumes "is_hole_chunk fs (fs_chunks fs ! i)" "k + n \<le> logical_len fs i"
  shows "replicate n 0 = take n (drop k (chunk_bytes fs blk i))"
  using assms by (simp add: chunk_bytes_def Let_def)

lemma put_at_put_at:
  assumes "w + length x + length y \<le> length buf"
  shows "put_at (w + length x) y (put_at w x buf) = put_at w (x @ y) buf"
  using assms by (cases "x = []") (simp_all add: put_at_def ac_simps)

lemma put_at_Nil [simp]: "put_at w [] buf = buf"
  by (simp add: put_at_def)

text \<open>The arithmetic of one step: \<open>s\<close> is where the chunk starts, \<open>l\<close> its length.\<close>

lemma saturated_tail: "2 ^ 64 - 1 \<le> (s :: nat) \<Longrightarrow> s + n < 2 ^ 64 \<Longrightarrow> n = 0"
  by simp

lemma past_end:
  assumes "saturating_add64 off len \<le> s" "off + w = max off s" "w < len" "s + n < 2 ^ 64"
  shows "s + n \<le> off + w"
proof (cases "off + len \<le> s")
  case True
  with assms(2,3) show ?thesis by (auto simp: max_def split: if_splits)
next
  case False
  with assms(1) have "2 ^ 64 - 1 \<le> s" by (auto simp: saturating_add64_def min_def split: if_splits)
  with assms(4) saturated_tail have "n = 0" by blast
  with assms(2) show ?thesis by simp
qed

lemma taken_eq:
  assumes "off + w = max off s" "w < len" "off < s + l" "s + l < 2 ^ 64"
  shows "min (min (saturating_add64 off len - s) (s + l - s) - (off - s)) (len - w)
    = min (len - w) (l - (off - s))"
proof -
  have "min (saturating_add64 off len - s) l = min (off + len - s) l"
    using assms(4) by (auto simp: saturating_add64_def min_def)
  moreover have "off + len - s - (off - s) = len - w"
    using assms(1,2) by (auto simp: max_def split: if_splits)
  ultimately show ?thesis by (simp add: min_diff [symmetric] del: min_diff)
qed

lemma reach_eq:
  fixes off w s len l :: nat
  assumes "off + w = max off s" "w < len" "off < s + l"
  shows "w + min (len - w) (l - (off - s)) = len
    \<or> off + (w + min (len - w) (l - (off - s))) = s + l"
proof (cases "off \<le> s")
  case True
  with assms have "s = off + w" by (simp add: max_def)
  then have "off - s = 0" by simp
  with assms(2) \<open>s = off + w\<close> show ?thesis by (cases "len - w \<le> l") (simp_all add: min_def)
next
  case False
  with assms have "w = 0" by (simp add: max_def)
  with assms(3) False show ?thesis by (cases "len \<le> l - (off - s)") (simp_all add: min_def)
qed
text \<open>
  The loop from chunk \<open>i\<close> on: it writes what is left of the buffer from the content of the chunks
  \<open>[i, b)\<close>, starting where the bytes already written end.
\<close>

definition start_of :: "filesystem \<Rightarrow> nat \<Rightarrow> nat \<Rightarrow> nat" where
  "start_of fs a i = (\<Sum>j = a..<i. logical_len fs j)"

definition written_right ::
    "filesystem \<Rightarrow> (u32 \<Rightarrow> bytes) \<Rightarrow> nat \<Rightarrow> nat \<Rightarrow> nat \<Rightarrow> nat \<Rightarrow> nat \<Rightarrow> bytes \<Rightarrow> bytes \<Rightarrow> nat \<Rightarrow> bool" where
  "written_right fs blk a b offset i w buf buf' w' \<longleftrightarrow>
     (let new = take (length buf - w) (drop (offset + w - start_of fs a i) (file_content fs blk i b))
      in w' = w + length new \<and> buf' = put_at w new buf)"

lemma written_right_none:
  assumes "w = length buf \<or> start_of fs a i + length (file_content fs blk i b) \<le> offset + w"
  shows "written_right fs blk a b offset i w buf buf w"
  using assms by (auto simp: written_right_def Let_def)

text \<open>One chunk's worth of bytes and then the rest.\<close>

lemma written_right_step:
  fixes fs i b offset w a
  defines "k \<equiv> offset + w - start_of fs a i"
  assumes "i < b" "a \<le> i" "w \<le> length buf" "k \<le> logical_len fs i"
    and "piece = take (length buf - w) (drop k (chunk_bytes fs blk i))"
    and "w + length piece = length buf \<or> offset + (w + length piece) = start_of fs a (Suc i)"
    and "written_right fs blk a b offset (Suc i) (w + length piece) (put_at w piece buf) buf' w'"
  shows "written_right fs blk a b offset i w buf buf' w'"
proof -
  let ?n = "length buf - w" and ?rest = "file_content fs blk (Suc i) b"
  have fits: "w + length piece \<le> length buf" using assms(4,6) by simp
  then have len: "length (put_at w piece buf) = length buf" by (rule length_put_at)
  have all: "take ?n (drop k (file_content fs blk i b)) = piece @ take (?n - length piece) ?rest"
    using assms(5,6) by (auto simp: file_content_Cons [OF assms(2)] min_def)
  let ?new' = "take (length buf - (w + length piece))
      (drop (offset + (w + length piece) - start_of fs a (Suc i)) ?rest)"
  have new': "?new' = take (?n - length piece) ?rest"
    using assms(7) by auto
  have w': "w' = w + length piece + length ?new'"
    and buf': "buf' = put_at (w + length piece) ?new' (put_at w piece buf)"
    using assms(8) by (auto simp: written_right_def Let_def len)
  have "length ?new' \<le> length buf - (w + length piece)" by simp
  with fits have "w + length piece + length ?new' \<le> length buf" by linarith
  from put_at_put_at [OF this] buf' have "buf' = put_at w (piece @ ?new') buf" by simp
  with w' all new' show ?thesis
    by (simp add: written_right_def Let_def k_def [symmetric])
qed

lemma written_right_skip:
  assumes "i < b" "a \<le> i" "start_of fs a (Suc i) \<le> offset + w"
    and "written_right fs blk a b offset (Suc i) w buf buf' w'"
  shows "written_right fs blk a b offset i w buf buf' w'"
proof -
  have "start_of fs a (Suc i) = start_of fs a i + logical_len fs i"
    using assms(2) by (simp add: start_of_def)
  with assms(3,4) show ?thesis
    by (simp add: written_right_def file_content_Cons [OF assms(1)])
qed

lemma start_of_bound:
  assumes "fs_ok fs" "chunk_range fs inode = Inr (a, b)" "a \<le> i" "i \<le> b"
  shows "start_of fs a i + length (file_content fs blk i b) < 2 ^ 64"
proof -
  have eq: "start_of fs a i + length (file_content fs blk i b) = start_of fs a b"
    using assms(3,4) by (simp add: start_of_def length_file_content sum.atLeastLessThan_concat)
  show ?thesis
  proof (cases "a < b")
    case True
    then have "a \<le> b - 1" "b - 1 < b" "Suc (b - 1) = b" by auto
    with chunk_end_eq(1,3) [OF assms(1,2), of "b - 1"] have "start_of fs a b < 2 ^ 64"
      unfolding start_of_def by (metis sum.op_ivl_Suc not_less)
    with eq show ?thesis by simp
  next
    case False
    with eq show ?thesis by (simp add: start_of_def)
  qed
qed

text \<open>The chunk the search finds starts at or before the offset.\<close>

definition first_chunk :: "filesystem \<Rightarrow> nat \<Rightarrow> nat \<Rightarrow> nat \<Rightarrow> nat" where
  "first_chunk fs a b offset =
     a + partition_point (\<lambda>e. e \<le> offset) (subslice (fs_chunk_end fs) a b)"

lemma chunks_covering_from: "chunks_covering fs (a, b) offset = [first_chunk fs a b offset..<b]"
  by (simp add: chunks_covering_def Let_def first_chunk_def)

lemma first_chunk_start:
  fixes offset
  assumes ok: "fs_ok fs" "chunk_range fs inode = Inr (a, b)"
  defines "i \<equiv> first_chunk fs a b offset"
  shows "a \<le> i" "i \<le> b" "start_of fs a i \<le> offset"
proof -
  note rng = chunk_range_summed [OF ok]
  let ?ends = "subslice (fs_chunk_end fs) a b"
  have len: "length ?ends = b - a" using rng by simp
  show i: "a \<le> i" "i \<le> b"
    using length_takeWhile_le [of "\<lambda>e. e \<le> offset" ?ends] len rng(1)
    by (auto simp: i_def first_chunk_def partition_point_def)
  show "start_of fs a i \<le> offset"
  proof (cases "i = a")
    case True
    then show ?thesis by (simp add: start_of_def)
  next
    case False
    with i have j: "a \<le> i - 1" "i - 1 < b" "Suc (i - 1) = i" by auto
    have "i - 1 - a < length (takeWhile (\<lambda>e. e \<le> offset) ?ends)"
      using False i by (simp add: i_def first_chunk_def partition_point_def)
    then have "takeWhile (\<lambda>e. e \<le> offset) ?ends ! (i - 1 - a) \<in> set (takeWhile (\<lambda>e. e \<le> offset) ?ends)"
      and eq: "takeWhile (\<lambda>e. e \<le> offset) ?ends ! (i - 1 - a) = ?ends ! (i - 1 - a)"
      by (auto intro: takeWhile_nth)
    then have "?ends ! (i - 1 - a) \<le> offset" by (auto dest: set_takeWhileD)
    moreover have "?ends ! (i - 1 - a) = fs_chunk_end fs ! (i - 1)"
      using j rng by (simp add: subslice_nth)
    moreover have "fs_chunk_end fs ! (i - 1) = start_of fs a i"
      using chunk_end_eq(1) [OF ok j(1,2)] j(3) unfolding start_of_def by (metis j(1) not_less sum.op_ivl_Suc)
    ultimately show ?thesis by simp
  qed
qed

subsection \<open>What the loop needs of the cache\<close>

text \<open>
  \<open>inv\<close> is what the cache keeps, \<open>produced b bs\<close> says that \<open>bs\<close> came out of decoding block \<open>b\<close>,
  and \<open>serves b n\<close> that decoding \<open>b\<close> always succeeds and reaches \<open>n\<close> bytes.
\<close>

locale block_fetcher =
  fixes dec :: "'c fetcher"
    and inv :: "'c \<Rightarrow> bool"
    and produced :: "u32 \<Rightarrow> bytes \<Rightarrow> bool"
    and serves :: "u32 \<Rightarrow> nat \<Rightarrow> bool"
  assumes dec_returns: "inv c \<Longrightarrow> \<exists>c' r. dec c b n = Some (c', r) \<and> inv c'
      \<and> (\<forall>bs. r = Inr bs \<longrightarrow> produced b bs)"
    and dec_serves: "inv c \<Longrightarrow> serves b n \<Longrightarrow> dec c b n = Some (c', r) \<Longrightarrow> \<exists>bs. r = Inr bs \<and> n \<le> length bs"
begin

definition held_ok :: "held \<Rightarrow> bool" where
  "held_ok h \<longleftrightarrow> (\<forall>b bs. h = Some (b, bs) \<longrightarrow> produced b bs)"

lemma obtain_block_ok:
  assumes "inv c" "held_ok h"
  shows "\<exists>c' h' r. obtain_block dec c h b n = Some (c', h', r) \<and> inv c' \<and> held_ok h'
    \<and> (\<forall>bs. r = Inr bs \<longrightarrow> produced b bs) \<and> (serves b n \<longrightarrow> (\<exists>bs. r = Inr bs \<and> n \<le> length bs))"
proof -
  from dec_returns [OF assms(1), of b n] obtain c' r where
    d: "dec c b n = Some (c', r)" "inv c'" "\<forall>bs. r = Inr bs \<longrightarrow> produced b bs" by blast
  have s: "serves b n \<Longrightarrow> \<exists>bs. r = Inr bs \<and> n \<le> length bs" using dec_serves [OF assms(1) _ d(1)] .
  show ?thesis
  proof (cases "\<exists>bs. h = Some (b, bs) \<and> n \<le> length bs")
    case True
    with assms show ?thesis by (auto simp: obtain_block_def held_ok_def)
  next
    case False
    then have "obtain_block dec c h b n = (case r of
        Inl e \<Rightarrow> Some (c', h, Inl e) | Inr bytes \<Rightarrow> Some (c', Some (b, bytes), Inr bytes))"
      by (auto simp: obtain_block_def d(1) Let_def split: option.split prod.split)
    with d s assms(2) show ?thesis by (cases r) (auto simp: held_ok_def)
  qed
qed

definition all_served :: "filesystem \<Rightarrow> nat \<Rightarrow> nat \<Rightarrow> bool" where
  "all_served fs i b \<longleftrightarrow>
     (\<forall>j n. i \<le> j \<longrightarrow> j < b \<longrightarrow> \<not> is_hole_chunk fs (fs_chunks fs ! j) \<longrightarrow>
        n \<le> unat (ck_offset (fs_chunks fs ! j)) + unat (ck_size (fs_chunks fs ! j)) \<longrightarrow>
        serves (ck_block (fs_chunks fs ! j)) n)"

lemma read_loop_ok:
  assumes ok: "fs_ok fs" "chunk_range fs inode = Inr (a, b)"
    and prod: "\<And>b bs. produced b bs \<Longrightarrow> agrees blk b bs"
  shows "a \<le> i \<Longrightarrow> i \<le> b \<Longrightarrow> inv c \<Longrightarrow> held_ok h \<Longrightarrow> w \<le> length buf \<Longrightarrow>
    w = length buf \<or> offset + w = max offset (start_of fs a i) \<Longrightarrow>
    \<exists>c' buf' r. read_loop dec fs offset [i..<b] c h w buf = Some (c', buf', r) \<and> inv c'
      \<and> (\<forall>w'. r = Inr w' \<longrightarrow> written_right fs blk a b offset i w buf buf' w')
      \<and> (all_served fs i b \<longrightarrow> (\<exists>w'. r = Inr w'))"
proof (induction "b - i" arbitrary: i c h w buf)
  case 0
  then have "[i..<b] = []" "file_content fs blk i b = []" by (simp_all add: file_content_def)
  with 0 show ?case by (auto simp: written_right_def)
next
  case (Suc n)
  have i: "i < b" and upt: "[i..<b] = i # [Suc i..<b]" using Suc.hyps(2) by (auto simp: upt_rec)
  let ?S = "start_of fs a i" and ?L = "logical_len fs i" and ?chunk = "fs_chunks fs ! i"
  let ?want = "saturating_add64 offset (length buf)"
  have cend: "fs_chunk_end fs ! i = ?S + ?L" and len: "chunk_logical_len fs ?chunk = Inr ?L"
    using chunk_end_eq [OF ok Suc.prems(1) i] by (simp_all add: start_of_def)
  have next_S: "start_of fs a (Suc i) = ?S + ?L" using Suc.prems(1) by (simp add: start_of_def)
  have served: "all_served fs i b \<Longrightarrow> all_served fs (Suc i) b" by (simp add: all_served_def)
  have bound: "?S + length (file_content fs blk i b) < 2 ^ 64"
    by (rule start_of_bound [OF ok Suc.prems(1,2)])
  consider (full) "w = length buf" | (past) "w < length buf" "?want \<le> ?S"
    | (before) "w < length buf" "?S < ?want" "?S + ?L \<le> offset"
    | (copy) "w < length buf" "?S < ?want" "offset < ?S + ?L"
    using Suc.prems(5) by linarith
  then show ?case
  proof cases
    case full
    then show ?thesis using Suc.prems(3) upt written_right_none [of w buf] by auto
  next
    case past
    have inv_w: "offset + w = max offset ?S" using Suc.prems(6) past(1) by simp
    from past_end [OF past(2) inv_w past(1) bound]
    have "written_right fs blk a b offset i w buf buf w" by (intro written_right_none disjI2)
    with past Suc.prems(3) show ?thesis by (simp add: upt len cend Let_def)
  next
    case before
    have w: "offset + w = max offset (start_of fs a (Suc i))" "start_of fs a (Suc i) \<le> offset + w"
      using before Suc.prems(6) next_S by auto
    have "read_loop dec fs offset [i..<b] c h w buf = read_loop dec fs offset [Suc i..<b] c h w buf"
      using before by (simp add: upt len cend Let_def)
    moreover have "n = b - Suc i" "a \<le> Suc i" "Suc i \<le> b" using Suc.hyps(2) Suc.prems(1) i by auto
    ultimately show ?thesis
      using Suc.hyps(1) [of "Suc i" c h w buf] Suc.prems(3-5) w served
        written_right_skip [OF i Suc.prems(1) w(2)] by auto
  next
    case copy
    then have inv_w: "offset + w = max offset ?S" using Suc.prems(6) by simp
    define k where "k = offset - ?S"
    have k: "k = offset + w - ?S" "k < ?L \<or> ?L = 0 \<and> k = 0" "k \<le> ?L"
      using inv_w copy(3) by (auto simp: k_def max_def split: if_splits)
    define piece where "piece = take (length buf - w) (drop k (chunk_bytes fs blk i))"
    have piece_len: "length piece = min (length buf - w) (?L - k)" by (simp add: piece_def)
    have taken: "min (min (?want - ?S) (fs_chunk_end fs ! i - ?S) - (offset - ?S)) (length buf - w)
        = length piece"
    proof -
      have "?S + ?L < 2 ^ 64" using bound file_content_Cons [OF i, of fs blk] by simp
      from taken_eq [OF inv_w copy(1,3) this] show ?thesis by (simp add: cend piece_len k_def)
    qed
    have kl: "k + length piece \<le> ?L" using k(3) by (simp add: piece_len)
    have piece_eq: "take (length piece) (drop k (chunk_bytes fs blk i)) = piece"
    proof (cases "length buf - w \<le> ?L - k")
      case True
      then show ?thesis by (simp add: piece_def)
    next
      case False
      then show ?thesis by (simp add: piece_def)
    qed
    have w1: "w + length piece \<le> length buf" using piece_len copy(1) by simp
    have reach: "w + length piece = length buf \<or> offset + (w + length piece) = start_of fs a (Suc i)"
      using reach_eq [OF inv_w copy(1,3)] by (simp add: piece_len next_S k_def)
    then have inv1: "w + length piece = length (put_at w piece buf)
        \<or> offset + (w + length piece) = max offset (start_of fs a (Suc i))"
      using w1 copy(3) next_S by (auto simp: length_put_at)
    have n: "n = b - Suc i" "a \<le> Suc i" "Suc i \<le> b" using Suc.hyps(2) Suc.prems(1) i by auto
    have go: "\<exists>c'' buf' r. read_loop dec fs offset [Suc i..<b] c' h' (w + length piece) (put_at w piece buf)
          = Some (c'', buf', r) \<and> inv c''
        \<and> (\<forall>w'. r = Inr w' \<longrightarrow> written_right fs blk a b offset i w buf buf' w')
        \<and> (all_served fs i b \<longrightarrow> (\<exists>w'. r = Inr w'))" if "inv c'" "held_ok h'" for c' h'
      using Suc.hyps(1) [OF n that _ inv1] w1 served
        written_right_step [OF i Suc.prems(1,5) k(3)[unfolded k(1)] piece_def[unfolded k(1)] reach]
      by (fastforce simp: length_put_at)
    show ?thesis
    proof (cases "is_hole_chunk fs ?chunk")
      case True
      have "replicate (length piece) 0 = piece"
        using hole_piece [OF True kl, of blk] by (simp only: piece_eq)
      then have "read_loop dec fs offset [i..<b] c h w buf
          = read_loop dec fs offset [Suc i..<b] c h (w + length piece) (put_at w piece buf)"
        using copy True taken by (simp add: upt len cend Let_def)
      with go [OF Suc.prems(3,4)] show ?thesis by simp
    next
      case False
      let ?bs = "unat (ck_offset ?chunk) + k"
      let ?be = "?bs + length piece"
      obtain c' h' r where ob: "obtain_block dec c h (ck_block ?chunk) ?be = Some (c', h', r)"
        and inv': "inv c'" "held_ok h'" and pr: "\<forall>bs. r = Inr bs \<longrightarrow> produced (ck_block ?chunk) bs"
        and sv: "serves (ck_block ?chunk) ?be \<longrightarrow> (\<exists>bs. r = Inr bs \<and> ?be \<le> length bs)"
        using obtain_block_ok [OF Suc.prems(3,4), of "ck_block ?chunk" ?be] by blast
      have loop: "read_loop dec fs offset [i..<b] c h w buf = (case r of
          Inl e \<Rightarrow> Some (c', buf, Inl e)
        | Inr bytes \<Rightarrow>
            if length bytes < ?be
            then Some (c', buf, Inl (fs_error
                   ''chunk {block_start}..{block_end} exceeds block of {} bytes''))
            else read_loop dec fs offset [Suc i..<b] c' h' (w + length piece)
                   (put_at w (subslice bytes ?bs ?be) buf))"
        using copy False taken ob by (simp add: upt len cend Let_def k_def split: sum.split)
      have size_eq: "?L = unat (ck_size ?chunk)"
        using False by (simp add: logical_len_def logical_of_def chunk_logical_len_def)
      have "?be \<le> unat (ck_offset ?chunk) + unat (ck_size ?chunk)"
        using kl size_eq by simp
      then have all: "all_served fs i b \<Longrightarrow> \<exists>bs. r = Inr bs \<and> ?be \<le> length bs"
        using sv i False by (auto simp: all_served_def)
      show ?thesis
      proof (cases "\<exists>bs. r = Inr bs \<and> ?be \<le> length bs")
        case True
        then obtain bs where bs: "r = Inr bs" "?be \<le> length bs" by blast
        have "subslice bs ?bs ?be = piece"
          using chunk_piece [OF prod refl False kl, of bs] pr bs by (simp add: piece_eq)
        with loop bs go [OF inv'] show ?thesis by simp
      next
        case False
        with loop all inv' show ?thesis by (cases r) auto
      qed
    qed
  qed
qed

text \<open>From the first chunk the search finds.\<close>

lemma read_from_start:
  assumes ok: "fs_ok fs" "chunk_range fs inode = Inr (a, b)"
    and prod: "\<And>b bs. produced b bs \<Longrightarrow> agrees blk b bs" and "inv c"
  shows "\<exists>c' buf' r. read_loop dec fs offset (chunks_covering fs (a, b) offset) c None 0 buf
      = Some (c', buf', r) \<and> inv c'
    \<and> (\<forall>w. r = Inr w \<longrightarrow> w = length (take (length buf) (drop offset (file_content fs blk a b)))
        \<and> buf' = put_at 0 (take (length buf) (drop offset (file_content fs blk a b))) buf)
    \<and> (all_served fs a b \<longrightarrow> (\<exists>w. r = Inr w))"
proof -
  define i where "i = first_chunk fs a b offset"
  have i: "a \<le> i" "i \<le> b" and S: "start_of fs a i \<le> offset"
    unfolding i_def by (rule first_chunk_start [OF ok])+
  have cover: "chunks_covering fs (a, b) offset = [i..<b]"
    by (simp add: chunks_covering_from i_def)
  have "drop offset (file_content fs blk a b) = drop (offset - start_of fs a i) (file_content fs blk i b)"
    using S by (simp add: file_content_split [OF i] length_file_content start_of_def)
  then have right: "written_right fs blk a b offset i 0 buf buf' w \<Longrightarrow>
      w = length (take (length buf) (drop offset (file_content fs blk a b)))
      \<and> buf' = put_at 0 (take (length buf) (drop offset (file_content fs blk a b))) buf" for buf' w
    by (simp add: written_right_def Let_def)
  have served: "all_served fs a b \<Longrightarrow> all_served fs i b" using i by (auto simp: all_served_def)
  have "held_ok None" by (simp add: held_ok_def)
  moreover have "0 = length buf \<or> offset + 0 = max offset (start_of fs a i)" using S by simp
  ultimately obtain c' buf' r where "read_loop dec fs offset [i..<b] c None 0 buf = Some (c', buf', r)"
      "inv c'" "\<forall>w'. r = Inr w' \<longrightarrow> written_right fs blk a b offset i 0 buf buf' w'"
      "all_served fs i b \<longrightarrow> (\<exists>w'. r = Inr w')"
    using read_loop_ok [OF ok prod i \<open>inv c\<close>, of None 0 buf offset] by auto
  with right served show ?thesis by (auto simp: cover)
qed

end

subsection \<open>The block cache is such a fetcher\<close>

definition block_produced :: "environment \<Rightarrow> filesystem \<Rightarrow> u32 \<Rightarrow> bytes \<Rightarrow> bool" where
  "block_produced env fs b bs \<longleftrightarrow> (\<exists>n r. decode_one env fs b n r = Inr bs)"

definition block_served :: "environment \<Rightarrow> filesystem \<Rightarrow> u32 \<Rightarrow> nat \<Rightarrow> bool" where
  "block_served env fs b n \<longleftrightarrow> (\<forall>r. \<exists>bs. decode_one env fs b n r = Inr bs \<and> n \<le> length bs)"

text \<open>A cache no thread is loading into, holding only blocks of this filesystem.\<close>

definition cache_ready :: "environment \<Rightarrow> filesystem \<Rightarrow> block_cache \<Rightarrow> bool" where
  "cache_ready env fs c \<longleftrightarrow> idle_cache c \<and> entries_satisfy (block_produced env fs) c"

lemma decode_block_ok:
  assumes "cache_ready env fs c"
  shows "\<exists>c' r. decode_block env fs c b n = Some (c', r) \<and> cache_ready env fs c'
    \<and> bc_budget c' = bc_budget c \<and> (\<forall>bs. r = Inr bs \<longrightarrow> block_produced env fs b bs)
    \<and> (block_served env fs b n \<longrightarrow> (\<exists>bs. r = Inr bs \<and> n \<le> length bs))"
proof -
  have dec: "decode_one env fs b n r = Inr bs \<Longrightarrow> block_produced env fs b bs" for r bs
    by (auto simp: block_produced_def)
  from fetch_ok [of c "block_produced env fs" "decode_one env fs b n" b n "unat (fs_block_size fs)"] assms dec
  obtain c' r where f: "decode_block env fs c b n = Some (c', r)" "idle_cache c'"
      "entries_satisfy (block_produced env fs) c'" "bc_budget c' = bc_budget c"
    and ok: "\<forall>bs. r = Inr bs \<longrightarrow> block_produced env fs b bs
        \<and> (n \<le> length bs \<or> (\<exists>q. decode_one env fs b n q = Inr bs))"
    and err: "\<forall>e. r = Inl e \<longrightarrow> (\<exists>q. decode_one env fs b n q = Inl e)"
    unfolding decode_block_def cache_ready_def by blast
  have "\<exists>bs. r = Inr bs \<and> n \<le> length bs" if served: "block_served env fs b n"
  proof (cases r)
    case (Inl e)
    with err obtain q where "decode_one env fs b n q = Inl e" by blast
    with served show ?thesis by (metis block_served_def sum.distinct(1))
  next
    case (Inr bs)
    with ok served show ?thesis by (metis block_served_def sum.inject(2))
  qed
  with f ok show ?thesis by (auto simp: cache_ready_def)
qed

interpretation fs_blocks: block_fetcher "decode_block env fs" "cache_ready env fs"
  "block_produced env fs" "block_served env fs" for env fs
proof unfold_locales
  fix c b n assume "cache_ready env fs c"
  from decode_block_ok [OF this] show "\<exists>c' r. decode_block env fs c b n = Some (c', r)
      \<and> cache_ready env fs c' \<and> (\<forall>bs. r = Inr bs \<longrightarrow> block_produced env fs b bs)" by blast
next
  fix c b n c' r
  assume "cache_ready env fs c" "block_served env fs b n" "decode_block env fs c b n = Some (c', r)"
  with decode_block_ok [of env fs c b n] show "\<exists>bs. r = Inr bs \<and> n \<le> length bs" by auto
qed

subsection \<open>Reads deliver the file's content\<close>

text \<open>
  Every block of the image decodes in full to \<open>blk\<close>, and its payload is one on which the codec
  crates keep their promises.
\<close>

definition blocks_decode :: "environment \<Rightarrow> filesystem \<Rightarrow> (u32 \<Rightarrow> bytes) \<Rightarrow> bool" where
  "blocks_decode env fs blk \<longleftrightarrow>
     (\<forall>b rcd bytes. get_at (fs_block_records fs) (unat b) = Some rcd \<longrightarrow>
        section_bytes (fs_image fs) rcd = Inr bytes \<longrightarrow>
        decoders_consistent (ev_codecs env) (drop HEADER_LEN bytes)
        \<and> decompress_section (ev_features env) (ev_codecs env) (ev_hash env) (fs_image fs) rcd
            (unat (fs_block_size fs)) = Inr (blk b))"

lemma decode_one_cases:
  assumes "blocks_decode env fs blk" "get_at (fs_block_records fs) (unat b) = Some rcd"
    and "section_bytes (fs_image fs) rcd = Inr bytes"
  shows "decode_one env fs b n retry = Inr (blk b)
    \<or> (\<exists>want. n \<le> want \<and> decode_one env fs b n retry = Inr (take want (blk b)))"
proof -
  let ?full = "unat (fs_block_size fs)" and ?ft = "ev_features env" and ?cl = "ev_codecs env"
    and ?hl = "ev_hash env"
  let ?want = "min (max n PREFIX_GRANULARITY) ?full"
  from assms have con: "decoders_consistent ?cl (drop HEADER_LEN bytes)"
    and whole: "decompress_section ?ft ?cl ?hl (fs_image fs) rcd ?full = Inr (blk b)"
    by (auto simp: blocks_decode_def)
  from whole assms(3) have hash: "verify_xxh3 ?hl (rec_header rcd) bytes = Inr ()"
    and dec: "decompress ?ft ?cl (sh_compression (rec_header rcd)) (drop HEADER_LEN bytes) ?full
      = Inr (blk b)"
    by (auto simp: decompress_section_def result_simps)
  have "?full < 2 ^ 64 - 1" using unat_u32_less [of "fs_block_size fs"] by simp
  from decompress_prefix_agrees [OF con _ this dec, of ?want]
  have "decompress_prefix ?ft ?cl (sh_compression (rec_header rcd)) (drop HEADER_LEN bytes) ?want
      = Inr None
    \<or> decompress_prefix ?ft ?cl (sh_compression (rec_header rcd)) (drop HEADER_LEN bytes) ?want
      = Inr (Some (take ?want (blk b)))" by simp
  then have prefix: "decompress_section_prefix ?ft ?cl ?hl (fs_image fs) rcd ?want = Inr None
    \<or> decompress_section_prefix ?ft ?cl ?hl (fs_image fs) rcd ?want
      = Inr (Some (take ?want (blk b)))"
    using hash assms(3) by (simp add: decompress_section_prefix_def verify_xxh3_def)
  show ?thesis
  proof (cases "\<not> retry \<and> n \<le> min PREFIX_MAX ?full")
    case True
    then have n: "n \<le> ?want" by simp
    from True have "decode_one env fs b n retry = and_then
        (decompress_section_prefix ?ft ?cl ?hl (fs_image fs) rcd ?want)
        (\<lambda>found. case found of Some bytes \<Rightarrow> Inr bytes | None \<Rightarrow> Inr (blk b))"
      using whole assms(2) by (simp add: decode_one_def Let_def)
    with prefix have "decode_one env fs b n retry = Inr (blk b)
        \<or> decode_one env fs b n retry = Inr (take ?want (blk b))" by (elim disjE) simp_all
    with n show ?thesis by blast
  next
    case False
    with whole assms(2) show ?thesis by (auto simp: decode_one_def Let_def)
  qed
qed

lemma decode_one_record:
  assumes "fs_ok fs" "image_ok (fs_image fs) content" "decode_one env fs b n retry = Inr bs"
  shows "\<exists>rcd bytes. get_at (fs_block_records fs) (unat b) = Some rcd
    \<and> section_bytes (fs_image fs) rcd = Inr bytes"
proof -
  from assms(3) obtain rcd where r: "get_at (fs_block_records fs) (unat b) = Some rcd"
    by (auto simp: decode_one_def result_simps)
  then have "rcd \<in> set (fs_block_records fs)" by (auto simp: result_simps)
  with assms(1) have "rcd \<in> set (img_sections (fs_image fs))" by (auto simp: fs_ok_def)
  from image_ok_section_bytes [OF assms(2) this] r show ?thesis by blast
qed

lemma produced_agrees:
  assumes "blocks_decode env fs blk" "fs_ok fs" "image_ok (fs_image fs) content"
    and "block_produced env fs b bs"
  shows "agrees blk b bs"
proof -
  from assms(4) obtain n r where dec: "decode_one env fs b n r = Inr bs"
    by (auto simp: block_produced_def)
  from decode_one_record [OF assms(2,3) dec] obtain rcd bytes where
    "get_at (fs_block_records fs) (unat b) = Some rcd"
    "section_bytes (fs_image fs) rcd = Inr bytes" by blast
  from decode_one_cases [OF assms(1) this, of n r] dec show ?thesis
    by (auto simp: agrees_def min_def)
qed

lemma blocks_served:
  assumes "blocks_decode env fs blk" "fs_ok fs" "image_ok (fs_image fs) content"
    and "unat b < length (fs_block_records fs)" "n \<le> length (blk b)"
  shows "block_served env fs b n"
proof -
  let ?rcd = "fs_block_records fs ! unat b"
  have r: "get_at (fs_block_records fs) (unat b) = Some ?rcd" using assms(4) by simp
  have "?rcd \<in> set (img_sections (fs_image fs))" using assms(2,4) nth_mem [OF assms(4)]
    by (auto simp: fs_ok_def)
  from decode_one_cases [OF assms(1) r image_ok_section_bytes [OF assms(3) this]] assms(5)
  show ?thesis unfolding block_served_def by (metis length_take min.boundedI)
qed

text \<open>Every chunk of the file lies inside its block.\<close>

definition chunks_inside :: "filesystem \<Rightarrow> (u32 \<Rightarrow> bytes) \<Rightarrow> nat \<Rightarrow> nat \<Rightarrow> bool" where
  "chunks_inside fs blk a b \<longleftrightarrow>
     (\<forall>i. a \<le> i \<longrightarrow> i < b \<longrightarrow> \<not> is_hole_chunk fs (fs_chunks fs ! i) \<longrightarrow>
        unat (ck_block (fs_chunks fs ! i)) < length (fs_block_records fs)
        \<and> unat (ck_offset (fs_chunks fs ! i)) + unat (ck_size (fs_chunks fs ! i))
            \<le> length (blk (ck_block (fs_chunks fs ! i))))"

definition readable ::
    "environment \<Rightarrow> filesystem \<Rightarrow> bytes \<Rightarrow> (u32 \<Rightarrow> bytes) \<Rightarrow> u32 \<Rightarrow> nat \<Rightarrow> nat \<Rightarrow> bool" where
  "readable env fs content blk inode a b \<longleftrightarrow>
     fs_ok fs \<and> image_ok (fs_image fs) content \<and> blocks_decode env fs blk
     \<and> fs_kind fs inode = Inr KRegular \<and> chunk_range fs inode = Inr (a, b)"

lemma read_into_right:
  assumes "readable env fs content blk inode a b" "cache_ready env fs c"
  shows "\<exists>c' buf' r. read_into env fs inode offset buf c = Some (c', buf', r) \<and> cache_ready env fs c'
    \<and> (\<forall>w. r = Inr w \<longrightarrow> w = length (take (length buf) (drop offset (file_content fs blk a b)))
        \<and> buf' = put_at 0 (take (length buf) (drop offset (file_content fs blk a b))) buf)
    \<and> (chunks_inside fs blk a b \<longrightarrow> (\<exists>w. r = Inr w))"
proof -
  from assms(1) have ok: "fs_ok fs" "image_ok (fs_image fs) content" "blocks_decode env fs blk"
    and k: "fs_kind fs inode = Inr KRegular" and rng: "chunk_range fs inode = Inr (a, b)"
    by (auto simp: readable_def)
  have eq: "read_into env fs inode offset buf c = read_loop (decode_block env fs) fs offset
      (chunks_covering fs (a, b) offset) c None 0 buf"
    by (simp add: read_into_def require_kind_def k rng)
  have inside: "chunks_inside fs blk a b \<Longrightarrow> fs_blocks.all_served env fs fs a b"
    unfolding fs_blocks.all_served_def chunks_inside_def
    using blocks_served [OF ok(3,1,2)] le_trans by blast
  from fs_blocks.read_from_start [OF ok(1) rng produced_agrees [OF ok(3,1,2)] assms(2), of offset buf]
  show ?thesis unfolding eq using inside by blast
qed

lemma put_at_0_take: "length new \<le> length buf \<Longrightarrow> take (length new) (put_at 0 new buf) = new"
  by (simp add: put_at_def)

lemma read_at_right:
  assumes "readable env fs content blk inode a b" "cache_ready env fs c"
  shows "\<exists>c' r. read_at env fs inode offset sz c = Some (c', r) \<and> cache_ready env fs c'
    \<and> (\<forall>bs. r = Inr bs \<longrightarrow> bs = take sz (drop offset (file_content fs blk a b)))
    \<and> (chunks_inside fs blk a b \<longrightarrow> (\<exists>bs. r = Inr bs))"
proof -
  let ?C = "file_content fs blk a b"
  let ?n = "min (length ?C - offset) sz"
  from assms(1) have sz: "file_size fs inode = Inr (length ?C)"
    using file_size_sum by (auto simp: readable_def length_file_content)
  from read_into_right [OF assms, of offset "replicate ?n 0"] obtain c' buf' r where
    r: "read_into env fs inode offset (replicate ?n 0) c = Some (c', buf', r)" "cache_ready env fs c'"
    and w: "\<forall>w. r = Inr w \<longrightarrow> w = length (take ?n (drop offset ?C))
      \<and> buf' = put_at 0 (take ?n (drop offset ?C)) (replicate ?n 0)"
    and live: "chunks_inside fs blk a b \<longrightarrow> (\<exists>w. r = Inr w)"
    by auto
  have new: "take ?n (drop offset ?C) = take sz (drop offset ?C)" by (simp add: min_def)
  have eq: "read_at env fs inode offset sz c = Some (c', case r of Inl e \<Rightarrow> Inl e | Inr w \<Rightarrow> Inr (take w buf'))"
    by (simp add: read_at_def sz Let_def r(1) split: sum.split)
  have "take w buf' = take sz (drop offset ?C)" if "r = Inr w" for w
    using w that new put_at_0_take [of "take ?n (drop offset ?C)" "replicate ?n 0"] by simp
  with eq r(2) live show ?thesis by (auto split: sum.splits)
qed

lemma read_file_right:
  assumes "readable env fs content blk inode a b" "chunks_inside fs blk a b"
  shows "read_file env fs inode = Some (Inr (file_content fs blk a b))"
proof -
  let ?C = "file_content fs blk a b"
  from assms(1) have sz: "file_size fs inode = Inr (length ?C)"
    using file_size_sum by (auto simp: readable_def length_file_content)
  have "cache_ready env fs (cache_new n)" for n
    using idle_cache_new by (simp add: cache_ready_def)
  from read_at_right [OF assms(1) this, of 0 "length ?C"] assms(2) sz show ?thesis
    by (fastforce simp: read_file_def)
qed

subsection \<open>The interface of a reader of one file\<close>

text \<open>
  What the clients that copy, archive or hash a file rely on: a fetch at an offset returns the bytes
  of the content from there on, and keeps the reader ready. \<open>next_piece\<close> is the step of their loops.
\<close>

locale content_reader =
  fixes fetch :: "nat \<Rightarrow> nat \<Rightarrow> 'c \<Rightarrow> ('c \<times> bytes result) option"
    and ready :: "'c \<Rightarrow> bool"
    and content :: bytes
  assumes delivers: "ready c \<Longrightarrow>
    \<exists>c'. fetch offset n c = Some (c', Inr (take n (drop offset content))) \<and> ready c'"
begin

lemma next_piece:
  assumes "ready c" "offset < length content" "0 < n"
  obtains c' piece where "fetch offset n c = Some (c', Inr piece)" "ready c'" "piece \<noteq> []"
    "offset + length piece \<le> length content"
    "length content - (offset + length piece) < length content - offset"
    "take (offset + length piece) content = take offset content @ piece"
proof -
  from delivers [OF assms(1), of offset n] obtain c' where
    "fetch offset n c = Some (c', Inr (take n (drop offset content)))" "ready c'" by blast
  moreover note chunk_step [OF assms(2,3)]
  ultimately show ?thesis by (intro that [of c' "take n (drop offset content)"]) auto
qed

lemma within_rest:
  assumes "ready c"
  shows "\<exists>c'. fetch offset (min n (length content - offset)) c = Some (c', Inr (take n (drop offset content)))
    \<and> ready c'"
proof -
  have "take (min n (length content - offset)) (drop offset content) = take n (drop offset content)"
    by (simp add: min_def)
  with delivers [OF assms, of offset "min n (length content - offset)"] show ?thesis by simp
qed

lemma pieces_join:
  "take n (drop offset content) @ take m (drop (offset + length (take n (drop offset content))) content)
    = take (n + m) (drop offset content)"
proof -
  have "drop (offset + length (take n (drop offset content))) content = drop n (drop offset content)"
    by (cases "n \<le> length content - offset") (simp_all add: add.commute min_def)
  then show ?thesis by (simp only: take_add)
qed

end

definition file_reading :: "environment \<Rightarrow> filesystem \<Rightarrow> bytes \<Rightarrow> (u32 \<Rightarrow> bytes) \<Rightarrow> u32 \<Rightarrow> nat \<Rightarrow> nat \<Rightarrow> block_cache \<Rightarrow> bool" where
  "file_reading env fs content blk inode a b c \<longleftrightarrow>
     readable env fs content blk inode a b \<and> chunks_inside fs blk a b \<and> cache_ready env fs c"

interpretation file_bytes: content_reader "read_at env fs inode" "file_reading env fs content blk inode a b"
  "file_content fs blk a b" for env fs content blk inode a b
proof unfold_locales
  fix c offset n assume "file_reading env fs content blk inode a b c"
  then show "\<exists>c'. read_at env fs inode offset n c = Some (c', Inr (take n (drop offset (file_content fs blk a b))))
      \<and> file_reading env fs content blk inode a b c'"
    using read_at_right [of env fs content blk inode a b c offset n] by (auto simp: file_reading_def)
qed

subsection \<open>Borrowing\<close>

lemma accounted_ready: "cache_ready env fs c \<Longrightarrow> accounted (bc_inner c)"
  by (simp add: cache_ready_def idle_cache_def)

lemma take_drop_piece:
  assumes "offset = length xs + k" "k + n \<le> length ys"
  shows "take n (drop offset (xs @ ys @ zs)) = take n (drop k ys)"
  using assms by simp

text \<open>
  A borrow that succeeds hands out the bytes \<open>read_into\<close> would have copied. The branch for a block
  lost between decoding and borrowing is never taken.
\<close>

lemma decoded_block_resident:
  assumes "cache_ready env fs c" "decode_block env fs c b n = Some (c', Inr bytes)"
  shows "resident c' b = (c'\<lparr>bc_inner := touch b (bc_inner c')\<rparr>, Some bytes)"
  using assms(2) unfolding decode_block_def by (rule fetch_resident [OF accounted_ready [OF assms(1)]])

lemma read_borrowed_right:
  assumes "readable env fs content blk inode a b" "cache_ready env fs c"
    and "read_borrowed env fs inode offset len c = Some (c', r)" and no_wrap: "offset + len < 2 ^ 64"
  shows "\<forall>bs. r = Inr (Some bs) \<longrightarrow>
      bs = take len (drop offset (file_content fs blk a b)) \<and> length bs = len"
proof -
  from assms(1) have ok: "fs_ok fs" "image_ok (fs_image fs) content" "blocks_decode env fs blk"
    and k: "fs_kind fs inode = Inr KRegular" and rng: "chunk_range fs inode = Inr (a, b)"
    by (auto simp: readable_def)
  note sums = chunk_range_summed [OF ok(1) rng]
  define first where "first = first_chunk fs a b offset"
  have cover: "chunks_covering fs (a, b) offset = [first..<b]"
    by (simp add: chunks_covering_from first_def)
  have a: "a \<le> first" and S: "start_of fs a first \<le> offset"
    unfolding first_def by (rule first_chunk_start [OF ok(1) rng])+
  show ?thesis
  proof (cases "len = 0 \<or> b \<le> first")
    case True
    with assms(3) k rng cover show ?thesis
      by (auto simp: read_borrowed_def require_kind_def fs_error_def split: if_splits)
  next
    case False
    then have i: "first < b" and len: "0 < len" by auto
    let ?i = first
    let ?chunk = "fs_chunks fs ! ?i" and ?S = "start_of fs a ?i" and ?L = "logical_len fs ?i"
    have cend: "fs_chunk_end fs ! ?i = ?S + ?L" and clen: "chunk_logical_len fs ?chunk = Inr ?L"
      and small: "?S + ?L < 2 ^ 64"
      using chunk_end_eq [OF ok(1) rng a i] by (simp_all add: start_of_def)
    have upt: "[first..<b] = ?i # [Suc ?i..<b]" using i by (simp add: upt_rec)
    let ?bs = "unat (ck_offset ?chunk) + (offset - ?S)"
    show ?thesis
    proof (cases "is_hole_chunk fs ?chunk \<or> fs_chunk_end fs ! ?i < saturating_add64 offset len")
      case True
      with assms(3) k rng cover upt len show ?thesis
        by (auto simp: read_borrowed_def require_kind_def Let_def fs_error_def split: if_splits)
    next
      case False
      then have hole: "\<not> is_hole_chunk fs ?chunk" and fits: "offset + len \<le> ?S + ?L"
        using no_wrap by (auto simp: cend saturating_add64_def min_def split: if_splits)
      from decode_block_ok [OF assms(2)] obtain c1 r1 where
        dec: "decode_block env fs c (ck_block ?chunk) (?bs + len) = Some (c1, r1)"
        and prod: "\<forall>bs. r1 = Inr bs \<longrightarrow> block_produced env fs (ck_block ?chunk) bs" by blast
      have out: "Some (c', r) = (case r1 of Inl e \<Rightarrow> Some (c1, Inl e)
        | Inr bytes \<Rightarrow>
            if length bytes < ?bs + len
            then Some (c1, Inl (fs_error ''chunk {block_start}..{block_end} exceeds block of {len} bytes''))
            else (case resident c1 (ck_block ?chunk) of
                (c2, None) \<Rightarrow> Some (c2, Inl (fs_error ''block cache lost entry''))
              | (c2, Some blk) \<Rightarrow> Some (c2, Inr (Some (subslice blk ?bs (?bs + len))))))"
        using assms(3) k rng cover upt len False
        by (simp add: read_borrowed_def require_kind_def Let_def clen cend dec split: sum.split)
      show ?thesis
      proof (cases r1)
        case (Inl e)
        with Inl out show ?thesis by simp
      next
        case (Inr bytes)
        from decoded_block_resident [OF assms(2) dec [unfolded Inr]]
        have "resident c1 (ck_block ?chunk)
            = (c1\<lparr>bc_inner := touch (ck_block ?chunk) (bc_inner c1)\<rparr>, Some bytes)" .
        with out Inr have r: "r = (if length bytes < ?bs + len
            then Inl (fs_error ''chunk {block_start}..{block_end} exceeds block of {len} bytes'')
            else Inr (Some (subslice bytes ?bs (?bs + len))))" by (simp split: if_splits)
        have "agrees blk (ck_block ?chunk) bytes"
          using produced_agrees [OF ok(3,1,2)] prod Inr by blast
        moreover have kl: "offset - ?S + len \<le> ?L" using fits S by linarith
        ultimately have piece: "subslice bytes ?bs (?bs + len)
            = take len (drop (offset - ?S) (chunk_bytes fs blk ?i))" if "?bs + len \<le> length bytes"
          using chunk_piece [OF _ refl hole kl] that by (simp add: add.assoc)
        have content: "file_content fs blk a b
            = file_content fs blk a ?i @ chunk_bytes fs blk ?i @ file_content fs blk (Suc ?i) b"
          using file_content_split [of a ?i b fs blk] file_content_Cons [OF i, of fs blk] a i by simp
        have "take len (drop offset (file_content fs blk a b))
            = take len (drop (offset - ?S) (chunk_bytes fs blk ?i))"
          unfolding content
          by (rule take_drop_piece) (use S kl in \<open>auto simp: length_file_content start_of_def\<close>)
        with r piece kl show ?thesis
          by (auto simp: fs_error_def split: if_splits)
      qed
    qed
  qed
qed

end
