(* ===== verification/Filesystem_Writer.thy ===== *)
theory Filesystem_Writer
  imports Metadata_Writer Image_Writer Read_Path
begin

text \<open>
  Whole file systems: an image whose sections are some data blocks followed by the written schema and
  metadata of \<open>Metadata_Writer\<close>. \<open>filesystem_of_tables\<close> is what opening such an image means, said on
  the tables alone; \<open>written_filesystem_opens\<close> that the reader does just that, errors included, and
  \<open>written_file_reads\<close> that it then reads the bytes of the blocks.
\<close>

definition categories_of :: "bytes list \<Rightarrow> u32 list \<Rightarrow> bytes list result" where
  "categories_of names indices =
     (if names = [] then Inr []
      else try_map (\<lambda>index. ok_or (get_at names (unat index))
        (fs_error ''category index {index} out of range'')) indices)"

definition filesystem_of_tables :: "image_file \<Rightarrow> metadata_tables \<Rightarrow> filesystem result" where
  "filesystem_of_tables im t =
     (let opts = mt_options t;
          dirs = unpack_directories opts (mt_directories t) (mt_dir_entries t);
          chunk_table = unpack_chunk_table opts (mt_chunk_table t) in
      and_then (check_features (mt_features t)) (\<lambda>_.
      and_then (if fo_packed_shared_files_table opts then unpack_shared_from 0 (mt_shared_files t)
                else Inr (mt_shared_files t)) (\<lambda>shared.
      and_then (names_of (mt_names t) (mt_compact_names t)) (\<lambda>names.
      and_then (names_of (mt_symlinks t) (mt_compact_symlinks t)) (\<lambda>links.
      and_then (categories_of (mt_category_names t) (mt_block_categories t)) (\<lambda>cats.
      and_then (compute_offsets (mt_inodes t) (mt_modes t) (length shared)) (\<lambda>offsets.
      and_then (build_chunk_ends (mt_chunks t) chunk_table (mt_hole_block t) (mt_block_size t)
                  (mt_large_holes t)) (\<lambda>ends.
      Inr \<lparr>fs_image = im,
           fs_block_records = filter (\<lambda>s. sh_section_type (rec_header s) = Block) (img_sections im),
           fs_block_size = mt_block_size t, fs_options = opts, fs_timestamp_base = mt_timestamp_base t,
           fs_modes = mt_modes t, fs_uids = mt_uids t, fs_gids = mt_gids t, fs_inodes = mt_inodes t,
           fs_directories = dirs, fs_dir_entries = mt_dir_entries t, fs_chunks = mt_chunks t,
           fs_chunk_end = ends, fs_chunk_table = chunk_table, fs_symlink_table = mt_symlink_table t,
           fs_shared_files = shared, fs_large_hole_size = mt_large_holes t,
           fs_hole_block_index = mt_hole_block t, fs_names = names, fs_symlinks = links, fs_devices = mt_devices t,
           fs_block_category_names = cats, fs_features = mt_features t,
           fs_preferred_path_separator = mt_separator t, fs_total_fs_size = mt_total_fs_size t,
           fs_total_allocated_fs_size = mt_allocated t, fs_offsets = offsets\<rparr>))))))))"

lemma filesystem_build_tables:
  assumes "tables_fit t"
  shows "filesystem_build im (written_metadata (metadata_slots t)) = filesystem_of_tables im t"
proof -
  note w = written_tables [OF assms refl]
  have cats: "resolve_block_categories (written_metadata (metadata_slots t))
      = categories_of (mt_category_names t) (mt_block_categories t)"
    by (simp add: resolve_block_categories_def categories_of_def w)
  have shared: "shared_files_table (written_metadata (metadata_slots t))
      = (if fo_packed_shared_files_table (mt_options t) then unpack_shared_from 0 (mt_shared_files t)
         else Inr (mt_shared_files t))"
    by (simp add: shared_files_table_def w)
  show ?thesis
    unfolding filesystem_build_def filesystem_of_tables_def Let_def
    by (simp only: w cats shared and_then_Inr)
qed

subsection \<open>Sections of the image\<close>

definition filesystem_sections :: "metadata_tables \<Rightarrow> section_item list \<Rightarrow> section_item list" where
  "filesystem_sections t blocks =
     blocks @ [(word_of_nat (length blocks), MetadataV2Schema, encode_schema (metadata_schema t)),
               (word_of_nat (length blocks + 1), MetadataV2, metadata_blob t)]"

definition filesystem_image ::
  "hash_lib \<Rightarrow> bytes \<Rightarrow> metadata_tables \<Rightarrow> section_item list \<Rightarrow> bool \<Rightarrow> bytes" where
  "filesystem_image hl prefix t blocks with_index = build_image hl prefix (filesystem_sections t blocks) with_index"

definition data_sections :: "section_item list \<Rightarrow> bool" where
  "data_sections blocks \<longleftrightarrow> list_all (\<lambda>(n, k, p). canonical_section_type k \<and> k \<noteq> MetadataV2Schema \<and> k \<noteq> MetadataV2) blocks"

text \<open>A record and the item it was written from.\<close>

definition record_of_item :: "hash_lib \<Rightarrow> image_file \<Rightarrow> section_record \<Rightarrow> section_item \<Rightarrow> bool" where
  "record_of_item hl im r = (\<lambda>(n, k, p). rec_header r = stamped_header hl n k p
     \<and> section_bytes im r = Inr (section_image hl n k p) \<and> payload_bytes im r = Inr p
     \<and> verify hl (rec_header r) (section_image hl n k p) = Inr ())"

lemma record_decodes:
  assumes "sized_digests hl" "record_of_item hl im r (n, k, p)" "length p \<le> cap"
  shows "decompress_section ft cl hl im r cap = Inr p"
proof -
  have "drop HEADER_LEN (section_image hl n k p) = p" "length (section_image hl n k p) = HEADER_LEN + length p"
    by (simp_all add: image_written [OF assms(1)] stamped_wf [OF assms(1)])
  then show ?thesis
    using assms(2,3)
    by (auto simp: record_of_item_def decompress_section_def verify_def result_simps decompress_def
      none_decompress_def)
qed

lemma find_record:
  assumes "list_all2 (record_of_item hl im) rs items" "find (\<lambda>(n, k, p). k = kind) items = Some item"
  shows "\<exists>r. find (\<lambda>r. sh_section_type (rec_header r) = kind) rs = Some r \<and> record_of_item hl im r item"
  using assms
proof (induction rule: list_all2_induct)
  case (Cons r rs i items)
  then show ?case by (cases i) (auto simp: record_of_item_def split: if_splits)
qed simp

lemma find_in_append: "find P xs = None \<Longrightarrow> find P (xs @ ys) = find P ys"
  by (induction xs) (auto split: if_splits)

lemma metadata_sections_found:
  assumes "data_sections blocks"
  shows "find (\<lambda>(n, k, p). k = MetadataV2Schema) (written_items hl prefix (filesystem_sections t blocks) with_index)
      = Some (word_of_nat (length blocks), MetadataV2Schema, encode_schema (metadata_schema t))"
    and "find (\<lambda>(n, k, p). k = MetadataV2) (written_items hl prefix (filesystem_sections t blocks) with_index)
      = Some (word_of_nat (length blocks + 1), MetadataV2, metadata_blob t)"
proof -
  have "find (\<lambda>(n, k, p). k = MetadataV2Schema) blocks = None" "find (\<lambda>(n, k, p). k = MetadataV2) blocks = None"
    using assms by (auto simp: data_sections_def find_None_iff list_all_iff)
  note skip = this [THEN find_in_append]
  show "find (\<lambda>(n, k, p). k = MetadataV2Schema) (written_items hl prefix (filesystem_sections t blocks) with_index)
      = Some (word_of_nat (length blocks), MetadataV2Schema, encode_schema (metadata_schema t))"
    "find (\<lambda>(n, k, p). k = MetadataV2) (written_items hl prefix (filesystem_sections t blocks) with_index)
      = Some (word_of_nat (length blocks + 1), MetadataV2, metadata_blob t)"
    by (simp_all add: written_items_def filesystem_sections_def skip)
qed

lemma filesystem_sections_canonical:
  "data_sections blocks \<Longrightarrow> list_all (\<lambda>(n, k, p). canonical_section_type k) (filesystem_sections t blocks)"
  by (auto simp: filesystem_sections_def data_sections_def list_all_iff canonical_section_type_iff)

definition filesystem_writable ::
  "environment \<Rightarrow> bytes \<Rightarrow> metadata_tables \<Rightarrow> section_item list \<Rightarrow> bool \<Rightarrow> bool" where
  "filesystem_writable env prefix t blocks with_index \<longleftrightarrow>
     (let img = filesystem_image (ev_hash env) prefix t blocks with_index in
      sized_digests (ev_hash env) \<and> tables_fit t \<and> length (metadata_blob t) \<le> CAP_METADATA_BYTES
      \<and> data_sections blocks \<and> length img < 2 ^ 48
      \<and> (\<forall>q < length prefix. \<not> accepts img q) \<and> (with_index \<or> no_index_tail img))"

lemma written_filesystem_opens:
  assumes "filesystem_writable env prefix t blocks with_index"
  defines "im \<equiv> opened_as (ev_hash env) prefix (filesystem_sections t blocks) with_index"
  shows "image_from_vec (filesystem_image (ev_hash env) prefix t blocks with_index) = Inr im"
    and "filesystem_open env im = Some (filesystem_of_tables im t)"
    and "list_all2 (record_of_item (ev_hash env) im) (img_sections im)
      (written_items (ev_hash env) prefix (filesystem_sections t blocks) with_index)"
proof -
  let ?hl = "ev_hash env" and ?body = "filesystem_sections t blocks"
  have hl: "sized_digests ?hl" and fit: "tables_fit t" and cap: "length (metadata_blob t) \<le> CAP_METADATA_BYTES"
    and data: "data_sections blocks" and len: "length (build_image ?hl prefix ?body with_index) < 2 ^ 48"
    and first: "\<And>q. q < length prefix \<Longrightarrow> \<not> accepts (build_image ?hl prefix ?body with_index) q"
    and tail: "with_index \<or> no_index_tail (build_image ?hl prefix ?body with_index)"
    using assms(1) unfolding filesystem_writable_def filesystem_image_def Let_def by blast+
  have some: "?body \<noteq> [] \<or> with_index" by (simp add: filesystem_sections_def)
  note kinds = filesystem_sections_canonical [OF data, of t]
  have opened: "image_from_vec (build_image ?hl prefix ?body with_index) = Inr im"
    unfolding im_def by (rule written_image_opened [OF hl kinds len some first tail])
  then show "image_from_vec (filesystem_image ?hl prefix t blocks with_index) = Inr im"
    by (simp only: filesystem_image_def)
  have len63: "length (build_image ?hl prefix ?body with_index) < 2 ^ 63" using len by simp
  from written_image_sections [OF hl kinds len63 opened im_def [THEN meta_eq_to_obj_eq]]
  show items: "list_all2 (record_of_item ?hl im) (img_sections im) (written_items ?hl prefix ?body with_index)"
    by (rule list.rel_mono_strong) (auto simp: record_of_item_def)
  obtain rs where rs: "find_section im MetadataV2Schema = Some rs"
    "record_of_item ?hl im rs (word_of_nat (length blocks), MetadataV2Schema, encode_schema (metadata_schema t))"
    using find_record [OF items metadata_sections_found(1) [OF data]] by (auto simp: find_section_def)
  obtain rm where rm: "find_section im MetadataV2 = Some rm"
    "record_of_item ?hl im rm (word_of_nat (length blocks + 1), MetadataV2, metadata_blob t)"
    using find_record [OF items metadata_sections_found(2) [OF data]] by (auto simp: find_section_def)
  note slots = metadata_slots_fit [OF fit]
  have schema: "decompress_section ft cl ?hl im rs CAP_SCHEMA_BYTES = Inr (encode_schema (metadata_schema t))" for ft cl
    using written_schema_length [OF slots]
    by (intro record_decodes [OF hl rs(2)]) (simp add: metadata_schema_def CAP_SCHEMA_BYTES_def)
  have blob: "decompress_section ft cl ?hl im rm CAP_METADATA_BYTES = Inr (metadata_blob t)" for ft cl
    by (rule record_decodes [OF hl rm(2) cap])
  have "metadata_parse (metadata_schema t) (metadata_blob t) = Inr (written_metadata (metadata_slots t))"
    unfolding metadata_schema_def metadata_blob_def by (rule written_metadata_parse [OF slots])
  then show "filesystem_open env im = Some (filesystem_of_tables im t)"
    using written_schema_parses [OF slots] filesystem_build_tables [OF fit, of im]
    by (simp add: filesystem_open_def rs(1) rm(1) schema blob metadata_schema_def)
qed

subsection \<open>Reading the blocks back\<close>

definition block_payloads :: "section_item list \<Rightarrow> bytes list" where
  "block_payloads items = map (\<lambda>(n, k, p). p) (filter (\<lambda>(n, k, p). k = Block) items)"

definition payload_of :: "section_item list \<Rightarrow> u32 \<Rightarrow> bytes" where
  "payload_of blocks b =
     (let ps = block_payloads blocks in if unat b < length ps then ps ! unat b else [])"

definition blocks_fit :: "environment \<Rightarrow> metadata_tables \<Rightarrow> section_item list \<Rightarrow> bool" where
  "blocks_fit env t blocks \<longleftrightarrow>
     list_all (\<lambda>p. length p \<le> unat (mt_block_size t) \<and> decoders_consistent (ev_codecs env) p) (block_payloads blocks)"

lemma block_records:
  assumes "list_all2 (record_of_item hl im) rs items"
  shows "list_all2 (\<lambda>r p. \<exists>n. record_of_item hl im r (n, Block, p))
    (filter (\<lambda>r. sh_section_type (rec_header r) = Block) rs) (block_payloads items)"
  using assms
proof (induction rule: list_all2_induct)
  case (Cons r rs i items)
  then show ?case by (cases i) (auto simp: record_of_item_def block_payloads_def)
qed (simp add: block_payloads_def)

lemma written_block_payloads:
  "block_payloads (written_items hl prefix (filesystem_sections t blocks) with_index) = block_payloads blocks"
  by (simp add: block_payloads_def written_items_def index_item_def filesystem_sections_def)

lemma filesystem_of_tables_Inr:
  assumes "filesystem_of_tables im t = Inr fs"
  shows "fs_image fs = im" "fs_block_size fs = mt_block_size t"
    "fs_block_records fs = filter (\<lambda>s. sh_section_type (rec_header s) = Block) (img_sections im)"
  using assms by (auto simp: filesystem_of_tables_def Let_def result_simps)

lemma written_blocks_decode:
  assumes "filesystem_writable env prefix t blocks with_index" "blocks_fit env t blocks"
    and "filesystem_of_tables (opened_as (ev_hash env) prefix (filesystem_sections t blocks) with_index) t = Inr fs"
  shows "blocks_decode env fs (payload_of blocks)"
  unfolding blocks_decode_def
proof (intro allI impI)
  fix b :: u32 and r bytes
  let ?im = "opened_as (ev_hash env) prefix (filesystem_sections t blocks) with_index"
  assume r: "get_at (fs_block_records fs) (unat b) = Some r" and bytes: "section_bytes (fs_image fs) r = Inr bytes"
  note fs = filesystem_of_tables_Inr [OF assms(3)]
  have hl: "sized_digests (ev_hash env)" using assms(1) by (simp add: filesystem_writable_def Let_def)
  have records: "list_all2 (\<lambda>r p. \<exists>n. record_of_item (ev_hash env) ?im r (n, Block, p))
      (fs_block_records fs) (block_payloads blocks)"
    using block_records [OF written_filesystem_opens(3) [OF assms(1)]] by (simp add: fs(3) written_block_payloads)
  from r have i: "unat b < length (fs_block_records fs)" "fs_block_records fs ! unat b = r"
    by (auto simp: get_at_def split: if_splits)
  with records list_all2_lengthD [OF records]
  obtain n where item: "record_of_item (ev_hash env) ?im r (n, Block, payload_of blocks b)"
    by (auto simp: list_all2_conv_all_nth payload_of_def Let_def)
  have p: "length (payload_of blocks b) \<le> unat (mt_block_size t)"
    "decoders_consistent (ev_codecs env) (payload_of blocks b)"
    using assms(2) i(1) list_all2_lengthD [OF records]
    by (auto simp: blocks_fit_def list_all_length payload_of_def Let_def)
  have "drop HEADER_LEN bytes = payload_of blocks b"
    using item bytes by (auto simp: record_of_item_def fs(1) image_written [OF hl] stamped_wf [OF hl])
  with p record_decodes [OF hl item p(1)]
  show "decoders_consistent (ev_codecs env) (drop HEADER_LEN bytes)
    \<and> decompress_section (ev_features env) (ev_codecs env) (ev_hash env) (fs_image fs) r
        (unat (fs_block_size fs)) = Inr (payload_of blocks b)"
    by (simp add: fs(1,2))
qed

lemma written_file_readable:
  assumes "filesystem_writable env prefix t blocks with_index" "blocks_fit env t blocks"
    and "image_from_vec (filesystem_image (ev_hash env) prefix t blocks with_index) = Inr im"
    and "filesystem_open env im = Some (Inr fs)"
    and "fs_kind fs inode = Inr KRegular" "chunk_range fs inode = Inr (a, b)"
  shows "readable env fs (filesystem_image (ev_hash env) prefix t blocks with_index) (payload_of blocks) inode a b"
proof -
  note w = written_filesystem_opens [OF assms(1)]
  have im: "im = opened_as (ev_hash env) prefix (filesystem_sections t blocks) with_index"
    using w(1) assms(3) by simp
  have len: "length (filesystem_image (ev_hash env) prefix t blocks with_index) < 2 ^ 63"
    using assms(1) by (simp add: filesystem_writable_def Let_def)
  have "image_ok im (filesystem_image (ev_hash env) prefix t blocks with_index)"
    using assms(3) len by (intro vec_src.image_build_ok(1)) (simp_all add: image_from_vec_def image_from_source_def)
  moreover have "blocks_decode env fs (payload_of blocks)"
    using w(2) assms(4) im by (intro written_blocks_decode [OF assms(1,2)]) simp
  ultimately show ?thesis
    using filesystem_open_ok [OF assms(4)] assms(5,6) by (simp add: readable_def)
qed

end
