(* ===== verification/Directories.thy ===== *)
theory Directories
  imports Filesystem
begin

text \<open>
  Directory listing, child lookup by bisection, path lookup and the recursive walk of
  \<open>src/src/fs/read.rs\<close>. Names are byte strings compared lexicographically, the order of \<open>[u8]\<close>
  in the source and of lists of words here. The walk recurses as deep as the image makes it: it
  runs on fuel, is shown to return on every image whose directories are ranked, and never to
  return on one whose directory contains itself.
\<close>

record listing =
  ls_inode :: u32
  ls_kind :: inode_kind
  ls_name :: bytes

record node =
  nd_inode :: u32
  nd_kind :: inode_kind

record walk_entry =
  we_path :: bytes
  we_inode :: u32
  we_kind :: inode_kind

definition dir_entry_range :: "filesystem \<Rightarrow> u32 \<Rightarrow> (nat \<times> nat) result" where
  "dir_entry_range fs dir_inode =
     (let i = unat dir_inode in
      if length (fs_directories fs) \<le> i
      then Inl (fs_error ''directory inode {dir_inode} out of {} entries'')
      else let b = unat (dr_first_entry (fs_directories fs ! i));
               e = (if i + 1 < length (fs_directories fs)
                    then unat (dr_first_entry (fs_directories fs ! (i + 1)))
                    else length (fs_dir_entries fs))
           in if length (fs_dir_entries fs) < e \<or> e < b
              then Inl (fs_error ''directory entry range [{begin}, {end}) out of {} entries'')
              else Inr (b, e))"

definition entry_name :: "filesystem \<Rightarrow> u32 \<Rightarrow> bytes result" where
  "entry_name fs index =
     ok_or (table_get (fs_names fs) (unat index)) (fs_error ''name index {index} out of range'')"

definition listing_at :: "filesystem \<Rightarrow> nat \<Rightarrow> listing result" where
  "listing_at fs i =
     (let de = fs_dir_entries fs ! i in
      and_then (entry_name fs (de_name_index de)) (\<lambda>name.
      and_then (fs_kind fs (de_inode_num de)) (\<lambda>kind.
      Inr \<lparr>ls_inode = de_inode_num de, ls_kind = kind, ls_name = name\<rparr>)))"

definition read_dir :: "filesystem \<Rightarrow> u32 \<Rightarrow> listing list result" where
  "read_dir fs inode =
     and_then (require_kind fs inode KDirectory ''inode {inode} is not a directory'') (\<lambda>_.
     and_then (dir_entry_range fs inode) (\<lambda>(b, e).
     try_map (listing_at fs) [b..<e]))"

text \<open>The visitor carries its own state \<open>'s\<close>; \<open>False\<close> stops the visit.\<close>

fun visit_entries ::
    "filesystem \<Rightarrow> (u32 \<Rightarrow> inode_kind \<Rightarrow> bytes \<Rightarrow> 's \<Rightarrow> 's \<times> bool) \<Rightarrow> nat list \<Rightarrow> 's \<Rightarrow> 's \<times> unit result" where
  "visit_entries fs visit [] s = (s, Inr ())"
| "visit_entries fs visit (i # is) s =
     (let de = fs_dir_entries fs ! i in
      case entry_name fs (de_name_index de) of
        Inl e \<Rightarrow> (s, Inl e)
      | Inr name \<Rightarrow>
          (case fs_kind fs (de_inode_num de) of
             Inl e \<Rightarrow> (s, Inl e)
           | Inr kind \<Rightarrow>
               (case visit (de_inode_num de) kind name s of
                  (s', True) \<Rightarrow> visit_entries fs visit is s'
                | (s', False) \<Rightarrow> (s', Inr ()))))"

definition for_each_entry ::
    "filesystem \<Rightarrow> u32 \<Rightarrow> (u32 \<Rightarrow> inode_kind \<Rightarrow> bytes \<Rightarrow> 's \<Rightarrow> 's \<times> bool) \<Rightarrow> 's \<Rightarrow> 's \<times> unit result" where
  "for_each_entry fs inode visit s =
     (case require_kind fs inode KDirectory ''inode {inode} is not a directory'' of
        Inl e \<Rightarrow> (s, Inl e)
      | Inr _ \<Rightarrow>
          (case dir_entry_range fs inode of
             Inl e \<Rightarrow> (s, Inl e)
           | Inr (b, e) \<Rightarrow> visit_entries fs visit [b..<e] s))"

definition parent_dir :: "filesystem \<Rightarrow> u32 \<Rightarrow> u32 result" where
  "parent_dir fs inode =
     and_then (require_kind fs inode KDirectory ''inode {inode} is not a directory'') (\<lambda>_.
     and_then (ok_or (get_at (fs_directories fs) (unat inode))
                (fs_error ''directory inode {inode} out of range'')) (\<lambda>dir.
     and_then (ok_or (get_at (fs_dir_entries fs) (unat (dr_parent_entry dir)))
                (fs_error ''parent entry {} out of range'')) (\<lambda>entry.
     Inr (de_inode_num entry))))"

subsection \<open>Bisection\<close>

function search_names :: "(nat \<Rightarrow> bytes result) \<Rightarrow> bytes \<Rightarrow> nat \<Rightarrow> nat \<Rightarrow> nat option result" where
  "search_names name_at name lo hi =
     (if lo < hi then
        let mid = lo + (hi - lo) div 2 in
        and_then (name_at mid) (\<lambda>n.
        if n < name then search_names name_at name (mid + 1) hi
        else if name < n then search_names name_at name lo mid
        else Inr (Some mid))
      else Inr None)"
  by pat_completeness auto
termination
  by (relation "measure (\<lambda>(_, _, lo, hi). hi - lo)") auto

declare search_names.simps [simp del]

definition entry_name_at :: "filesystem \<Rightarrow> nat \<Rightarrow> bytes result" where
  "entry_name_at fs i = entry_name fs (de_name_index (fs_dir_entries fs ! i))"

definition lookup_one :: "filesystem \<Rightarrow> u32 \<Rightarrow> bytes \<Rightarrow> u32 option result" where
  "lookup_one fs dir_inode name =
     and_then (dir_entry_range fs dir_inode) (\<lambda>(b, e).
     and_then (search_names (entry_name_at fs) name b e) (\<lambda>found.
     Inr (map_option (\<lambda>i. de_inode_num (fs_dir_entries fs ! i)) found)))"

definition lookup_child :: "filesystem \<Rightarrow> u32 \<Rightarrow> bytes \<Rightarrow> u32 option result" where
  "lookup_child fs dir_inode name =
     and_then (require_kind fs dir_inode KDirectory ''inode {dir_inode} is not a directory'') (\<lambda>_.
     lookup_one fs dir_inode name)"

text \<open>Whatever the search finds is there, sorted or not.\<close>

lemma search_names_sound:
  "search_names name_at name lo hi = Inr (Some i) \<Longrightarrow> lo \<le> i \<and> i < hi \<and> name_at i = Inr name"
proof (induction name_at name lo hi rule: search_names.induct)
  case (1 name_at name lo hi)
  let ?mid = "lo + (hi - lo) div 2"
  from 1(3) have lt: "lo < hi" by (auto simp: search_names.simps [of name_at name lo hi] split: if_splits)
  with 1(3) obtain n where n: "name_at ?mid = Inr n"
    and rest: "(if n < name then search_names name_at name (?mid + 1) hi
        else if name < n then search_names name_at name lo ?mid else Inr (Some ?mid)) = Inr (Some i)"
    by (auto simp: search_names.simps [of name_at name lo hi] Let_def and_then_eq_Inr)
  have mid: "lo \<le> ?mid" "?mid < hi" using lt by auto
  show ?case
  proof (cases "n < name")
    case True
    with rest have "search_names name_at name (?mid + 1) hi = Inr (Some i)" by simp
    from 1(1) [OF lt refl n True this] mid show ?thesis by simp
  next
    case False
    show ?thesis
    proof (cases "name < n")
      case True
      with rest False have "search_names name_at name lo ?mid = Inr (Some i)" by simp
      from 1(2) [OF lt refl n False True this] mid show ?thesis by simp
    next
      case False
      with rest \<open>\<not> n < name\<close> n mid show ?thesis by auto
    qed
  qed
qed

text \<open>On a sorted directory the search decides membership.\<close>

definition names_sorted :: "(nat \<Rightarrow> bytes) \<Rightarrow> nat \<Rightarrow> nat \<Rightarrow> bool" where
  "names_sorted nm lo hi \<longleftrightarrow> (\<forall>i j. lo \<le> i \<and> i < j \<and> j < hi \<longrightarrow> nm i < nm j)"

lemma search_names_complete:
  assumes "\<And>i. lo \<le> i \<Longrightarrow> i < hi \<Longrightarrow> name_at i = Inr (nm i)" "names_sorted nm lo hi"
    and "lo \<le> k" "k < hi" "nm k = name"
  shows "search_names name_at name lo hi = Inr (Some k)"
  using assms
proof (induction "hi - lo" arbitrary: lo hi rule: less_induct)
  case less
  let ?mid = "lo + (hi - lo) div 2"
  have lt: "lo < hi" and mid: "lo \<le> ?mid" "?mid < hi" using less.prems(3,4) by auto
  have at_mid: "name_at ?mid = Inr (nm ?mid)" by (rule less.prems(1) [OF mid])
  have step: "search_names name_at name lo hi
      = (if nm ?mid < name then search_names name_at name (?mid + 1) hi
         else if name < nm ?mid then search_names name_at name lo ?mid else Inr (Some ?mid))"
    using lt by (simp add: search_names.simps [of name_at name lo hi] Let_def at_mid)
  consider "k = ?mid" | "?mid < k" | "k < ?mid" by linarith
  then show ?case
  proof cases
    case 1
    with step less.prems(5) show ?thesis by simp
  next
    case 2
    with less.prems(2,4,5) mid have ltn: "nm ?mid < name"
      unfolding names_sorted_def by metis
    have "search_names name_at name (?mid + 1) hi = Inr (Some k)"
    proof (rule less.hyps)
      show "hi - (?mid + 1) < hi - lo" using mid by linarith
      show "names_sorted nm (?mid + 1) hi" using less.prems(2) mid by (auto simp: names_sorted_def)
    qed (use less.prems mid 2 in auto)
    with step ltn show ?thesis by simp
  next
    case 3
    with less.prems(2,3,5) mid have gtn: "name < nm ?mid"
      unfolding names_sorted_def by metis
    have "search_names name_at name lo ?mid = Inr (Some k)"
    proof (rule less.hyps)
      show "?mid - lo < hi - lo" using mid by linarith
      show "names_sorted nm lo ?mid" using less.prems(2) mid by (auto simp: names_sorted_def)
    qed (use less.prems mid 3 in auto)
    with step gtn show ?thesis by (simp add: less_not_sym)
  qed
qed

lemma search_names_returns:
  assumes "\<And>i. lo \<le> i \<Longrightarrow> i < hi \<Longrightarrow> is_ok (name_at i)"
  shows "is_ok (search_names name_at name lo hi)"
  using assms
proof (induction name_at name lo hi rule: search_names.induct)
  case (1 name_at name lo hi)
  let ?mid = "lo + (hi - lo) div 2"
  show ?case
  proof (cases "lo < hi")
    case True
    then have mid: "lo \<le> ?mid" "?mid < hi" by auto
    from 1(3) [OF mid] obtain n where n: "name_at ?mid = Inr n" by (auto simp: is_ok_iff)
    have up: "n < name \<Longrightarrow> is_ok (search_names name_at name (?mid + 1) hi)"
      using 1(1) [OF True refl n] 1(3) mid by simp
    have down: "\<not> n < name \<Longrightarrow> name < n \<Longrightarrow> is_ok (search_names name_at name lo ?mid)"
      using 1(2) [OF True refl n] 1(3) mid by simp
    from up down True n show ?thesis
      by (simp add: search_names.simps [of name_at name lo hi] Let_def)
  next
    case False
    then show ?thesis by (simp add: search_names.simps [of name_at name lo hi])
  qed
qed

text \<open>A listing gives the names and inodes of the entry range in order.\<close>

lemma read_dir_Inr:
  assumes "read_dir fs d = Inr es"
  shows "fs_kind fs d = Inr KDirectory"
    and "\<exists>b e. dir_entry_range fs d = Inr (b, e) \<and> length es = e - b
      \<and> (\<forall>i < length es. entry_name_at fs (b + i) = Inr (ls_name (es ! i))
          \<and> de_inode_num (fs_dir_entries fs ! (b + i)) = ls_inode (es ! i)
          \<and> fs_kind fs (ls_inode (es ! i)) = Inr (ls_kind (es ! i)))"
proof -
  from assms obtain b e where k: "fs_kind fs d = Inr KDirectory"
    and r: "dir_entry_range fs d = Inr (b, e)" and m: "try_map (listing_at fs) [b..<e] = Inr es"
    by (auto simp: read_dir_def result_simps)
  show "fs_kind fs d = Inr KDirectory" by (rule k)
  have len: "length es = e - b" using try_map_length [OF m] by simp
  have "entry_name_at fs (b + i) = Inr (ls_name (es ! i))
      \<and> de_inode_num (fs_dir_entries fs ! (b + i)) = ls_inode (es ! i)
      \<and> fs_kind fs (ls_inode (es ! i)) = Inr (ls_kind (es ! i))" if "i < length es" for i
    using try_map_nth [OF m, of i] that len
    by (auto simp: listing_at_def entry_name_at_def Let_def result_simps dest!: sym [of _ "es ! i"])
  with r len show "\<exists>b e. dir_entry_range fs d = Inr (b, e) \<and> length es = e - b
      \<and> (\<forall>i < length es. entry_name_at fs (b + i) = Inr (ls_name (es ! i))
          \<and> de_inode_num (fs_dir_entries fs ! (b + i)) = ls_inode (es ! i)
          \<and> fs_kind fs (ls_inode (es ! i)) = Inr (ls_kind (es ! i)))" by blast
qed

definition listing_sorted :: "listing list \<Rightarrow> bool" where
  "listing_sorted es \<longleftrightarrow> sorted_wrt (<) (map ls_name es)"

lemma lookup_one_listed:
  assumes "read_dir fs d = Inr es" "listing_sorted es" "x \<in> set es"
  shows "lookup_one fs d (ls_name x) = Inr (Some (ls_inode x))"
proof -
  from read_dir_Inr(2) [OF assms(1)] obtain b e where r: "dir_entry_range fs d = Inr (b, e)"
    and len: "length es = e - b"
    and at: "\<And>i. i < length es \<Longrightarrow> entry_name_at fs (b + i) = Inr (ls_name (es ! i))
          \<and> de_inode_num (fs_dir_entries fs ! (b + i)) = ls_inode (es ! i)" by blast
  from assms(3) obtain k where k: "k < length es" "es ! k = x" by (auto simp: in_set_conv_nth)
  have "search_names (entry_name_at fs) (ls_name x) b e = Inr (Some (b + k))"
  proof (rule search_names_complete [where nm = "\<lambda>i. ls_name (es ! (i - b))"])
    show "entry_name_at fs i = Inr (ls_name (es ! (i - b)))" if "b \<le> i" "i < e" for i
      using at [of "i - b"] that len by simp
    show "names_sorted (\<lambda>i. ls_name (es ! (i - b))) b e"
      using assms(2) len by (auto simp: names_sorted_def listing_sorted_def sorted_wrt_iff_nth_less)
  qed (use k len in auto)
  with r at [OF k(1)] k(2) show ?thesis by (simp add: lookup_one_def)
qed

lemma lookup_one_missing:
  assumes "read_dir fs d = Inr es" "name \<notin> ls_name ` set es"
  shows "lookup_one fs d name = Inr None"
proof -
  from read_dir_Inr(2) [OF assms(1)] obtain b e where r: "dir_entry_range fs d = Inr (b, e)"
    and len: "length es = e - b"
    and at: "\<And>i. i < length es \<Longrightarrow> entry_name_at fs (b + i) = Inr (ls_name (es ! i))" by blast
  have at': "entry_name_at fs i = Inr (ls_name (es ! (i - b)))" if "b \<le> i" "i < e" for i
    using at [of "i - b"] that len by simp
  obtain found where found: "search_names (entry_name_at fs) name b e = Inr found"
    using search_names_returns [of b e "entry_name_at fs" name] at' by (auto simp: is_ok_iff)
  have "found = None"
  proof (cases found)
    case (Some i)
    from search_names_sound [OF found [unfolded Some]]
    have i: "b \<le> i" "i < e" "entry_name_at fs i = Inr name" by auto
    with at' [OF i(1,2)] have "name = ls_name (es ! (i - b))" by simp
    moreover have "es ! (i - b) \<in> set es" using i len by simp
    ultimately show ?thesis using assms(2) by blast
  qed
  with r found show ?thesis by (simp add: lookup_one_def)
qed

text \<open>Child lookup by bisection agrees with a scan of the listing.\<close>

lemma lookup_child_scan:
  assumes "read_dir fs d = Inr es" "listing_sorted es"
  shows "lookup_child fs d name = Inr (map_option ls_inode (find (\<lambda>x. ls_name x = name) es))"
proof -
  have k: "fs_kind fs d = Inr KDirectory" by (rule read_dir_Inr(1) [OF assms(1)])
  show ?thesis
  proof (cases "find (\<lambda>x. ls_name x = name) es")
    case None
    then have "name \<notin> ls_name ` set es" by (auto simp: find_None_iff)
    from lookup_one_missing [OF assms(1) this] None k show ?thesis
      by (simp add: lookup_child_def require_kind_def)
  next
    case (Some x)
    then have "x \<in> set es" "ls_name x = name" by (auto simp: find_Some_iff)
    with lookup_one_listed [OF assms this(1)] Some k show ?thesis
      by (simp add: lookup_child_def require_kind_def)
  qed
qed

text \<open>Visiting every entry sees the listing.\<close>

lemma visit_entries_collect:
  assumes "try_map (listing_at fs) is = Inr es"
  shows "visit_entries fs (\<lambda>ino kind name acc.
      (acc @ [\<lparr>ls_inode = ino, ls_kind = kind, ls_name = name\<rparr>], True)) is acc = (acc @ es, Inr ())"
  using assms
proof (induction "is" arbitrary: es acc)
  case Nil
  then show ?case by simp
next
  case (Cons i "is")
  then show ?case
    by (auto simp: result_simps listing_at_def Let_def)
qed

subsection \<open>Paths\<close>

definition SLASH :: byte where "SLASH = 0x2F"

fun split_slash :: "bytes \<Rightarrow> bytes list" where
  "split_slash [] = [[]]"
| "split_slash (b # bs) =
     (if b = SLASH then [] # split_slash bs
      else (b # hd (split_slash bs)) # tl (split_slash bs))"

definition split_path :: "bytes \<Rightarrow> bytes list" where
  "split_path path = filter (\<lambda>c. c \<noteq> []) (split_slash path)"

fun lookup_from :: "filesystem \<Rightarrow> u32 \<Rightarrow> bytes list \<Rightarrow> u32 result" where
  "lookup_from fs inode [] = Inr inode"
| "lookup_from fs inode (component # rest) =
     (if component = [] then lookup_from fs inode rest
      else and_then (require_kind fs inode KDirectory ''component {:?} not under directory'') (\<lambda>_.
        and_then (lookup_one fs inode component) (\<lambda>found.
        and_then (ok_or found (fs_error ''no entry {:?} in inode {inode}'')) (\<lambda>child.
        lookup_from fs child rest))))"

definition lookup_path :: "filesystem \<Rightarrow> bytes \<Rightarrow> node result" where
  "lookup_path fs path =
     and_then (lookup_from fs 0 (split_path path)) (\<lambda>inode.
     and_then (fs_kind fs inode) (\<lambda>kind. Inr \<lparr>nd_inode = inode, nd_kind = kind\<rparr>))"

lemma split_slash_nonempty: "split_slash bs \<noteq> []"
  by (induction bs) auto

lemma split_slash_single: "SLASH \<notin> set bs \<Longrightarrow> split_slash bs = [bs]"
  by (induction bs) auto

lemma split_slash_snoc: "split_slash (xs @ SLASH # ys) = split_slash xs @ split_slash ys"
proof (induction xs)
  case (Cons x xs)
  then show ?case using split_slash_nonempty [of xs] by simp
qed simp

lemma split_path_join:
  assumes "name \<noteq> []" "SLASH \<notin> set name"
  shows "split_path (prefix @ SLASH # name) = split_path prefix @ [name]"
  using assms by (simp add: split_path_def split_slash_snoc split_slash_single)

lemma lookup_from_append:
  "lookup_from fs inode (xs @ ys) = and_then (lookup_from fs inode xs) (\<lambda>i. lookup_from fs i ys)"
proof (induction fs inode xs rule: lookup_from.induct)
  case (2 fs inode component rest)
  show ?case
  proof (cases "component = []")
    case True
    with 2(1) show ?thesis by simp
  next
    case False
    have step: "lookup_from fs child (rest @ ys) = and_then (lookup_from fs child rest) (\<lambda>i. lookup_from fs i ys)"
      if "require_kind fs inode KDirectory ''component {:?} not under directory'' = Inr ()"
        "lookup_one fs inode component = Inr found"
        "ok_or found (fs_error ''no entry {:?} in inode {inode}'') = Inr child" for found child
      using 2(2) [OF False] that by simp
    with False show ?thesis
      by (auto simp: and_then_assoc intro!: and_then_cong step)
  qed
qed simp

text \<open>Leading, trailing and repeated separators do not matter.\<close>

lemma split_path_slashes:
  "split_path (SLASH # path) = split_path path" "split_path (path @ [SLASH]) = split_path path"
  "split_path (xs @ SLASH # SLASH # ys) = split_path (xs @ SLASH # ys)"
  using split_slash_snoc [of path "[]"]
  by (simp_all add: split_path_def split_slash_snoc)

subsection \<open>The recursive walk\<close>

fun walk_entries ::
    "(u32 \<Rightarrow> bytes \<Rightarrow> (error, walk_entry list) run) \<Rightarrow> bytes \<Rightarrow> listing list \<Rightarrow> (error, walk_entry list) run"
  where
  "walk_entries descend prefix [] = Some (Inr [])"
| "walk_entries descend prefix (entry # rest) =
     (let path = prefix @ SLASH # ls_name entry in
      run_bind (if ls_kind entry = KDirectory then descend (ls_inode entry) path else Some (Inr [])) (\<lambda>inner.
      run_bind (walk_entries descend prefix rest) (\<lambda>out.
      Some (Inr (\<lparr>we_path = path, we_inode = ls_inode entry, we_kind = ls_kind entry\<rparr> # inner @ out)))))"

fun walk_inner :: "filesystem \<Rightarrow> nat \<Rightarrow> u32 \<Rightarrow> bytes \<Rightarrow> (error, walk_entry list) run" where
  "walk_inner fs 0 inode prefix = None"
| "walk_inner fs (Suc fuel) inode prefix =
     run_bind (Some (read_dir fs inode)) (\<lambda>entries. walk_entries (walk_inner fs fuel) prefix entries)"

definition walk_tree :: "filesystem \<Rightarrow> nat \<Rightarrow> (error, walk_entry list) run" where
  "walk_tree fs fuel =
     run_bind (Some (fs_kind fs 0)) (\<lambda>kind.
     run_bind (walk_inner fs fuel 0 []) (\<lambda>out.
     Some (Inr (\<lparr>we_path = [], we_inode = 0, we_kind = kind\<rparr> # out))))"

text \<open>A directory is below its parent when a listing names it.\<close>

definition subdirs :: "filesystem \<Rightarrow> u32 \<Rightarrow> u32 set" where
  "subdirs fs d =
     (case read_dir fs d of
        Inl _ \<Rightarrow> {}
      | Inr es \<Rightarrow> ls_inode ` {x \<in> set es. ls_kind x = KDirectory})"

lemma walk_entries_returns:
  assumes "\<And>x path. x \<in> set es \<Longrightarrow> ls_kind x = KDirectory \<Longrightarrow> descend (ls_inode x) path \<noteq> None"
  shows "walk_entries descend prefix es \<noteq> None"
  using assms
proof (induction es)
  case Nil
  then show ?case by simp
next
  case (Cons x es)
  have "walk_entries descend prefix es \<noteq> None" using Cons by simp
  moreover have "(if ls_kind x = KDirectory then descend (ls_inode x) path else Some (Inr [])) \<noteq> None"
    for path using Cons.prems [of x] by simp
  ultimately show ?case
    by (simp add: Let_def run_bind_eq_None del: not_None_eq)
qed

text \<open>The walk returns when the directories can be ranked, with as much fuel as the root's rank.\<close>

lemma walk_inner_returns:
  assumes "\<And>d c. c \<in> subdirs fs d \<Longrightarrow> rank c < rank d"
  shows "rank d < fuel \<Longrightarrow> walk_inner fs fuel d prefix \<noteq> None"
proof (induction fuel arbitrary: d prefix)
  case 0
  then show ?case by simp
next
  case (Suc fuel)
  show ?case
  proof (cases "read_dir fs d")
    case (Inl e)
    then show ?thesis by simp
  next
    case (Inr es)
    have "walk_entries (walk_inner fs fuel) prefix es \<noteq> None"
    proof (rule walk_entries_returns)
      fix x path assume "x \<in> set es" "ls_kind x = KDirectory"
      with Inr have "ls_inode x \<in> subdirs fs d" by (auto simp: subdirs_def)
      from assms [OF this] Suc.prems have "rank (ls_inode x) < fuel" by simp
      then show "walk_inner fs fuel (ls_inode x) path \<noteq> None" by (rule Suc.IH)
    qed
    with Inr show ?thesis by simp
  qed
qed

lemma walk_tree_returns:
  assumes "\<And>d c. c \<in> subdirs fs d \<Longrightarrow> rank c < rank d" "rank 0 < fuel"
  shows "walk_tree fs fuel \<noteq> None"
  using walk_inner_returns [of fs rank, OF assms(1) assms(2)]
  by (auto simp: walk_tree_def run_bind_eq_None simp del: not_None_eq)

text \<open>On a directory that lists itself first, no amount of fuel is enough.\<close>

lemma walk_inner_cycle:
  assumes "read_dir fs d = Inr (x # es)" "ls_inode x = d" "ls_kind x = KDirectory"
  shows "walk_inner fs fuel d prefix = None"
proof (induction fuel arbitrary: prefix)
  case 0
  then show ?case by simp
next
  case (Suc fuel)
  then show ?case by (simp add: assms Let_def)
qed

text \<open>More fuel never changes an answer.\<close>

lemma walk_entries_mono:
  assumes "\<And>c p r. descend c p = Some r \<Longrightarrow> descend' c p = Some r"
    and "walk_entries descend prefix es = Some r"
  shows "walk_entries descend' prefix es = Some r"
  using assms(2)
proof (induction es arbitrary: r)
  case (Cons x es)
  let ?path = "prefix @ SLASH # ls_name x"
  let ?d = "if ls_kind x = KDirectory then descend (ls_inode x) ?path else Some (Inr [])"
  let ?d' = "if ls_kind x = KDirectory then descend' (ls_inode x) ?path else Some (Inr [])"
  have same: "?d = Some a \<Longrightarrow> ?d' = Some a" for a using assms(1) by (auto split: if_splits)
  show ?case
  proof (cases ?d)
    case None
    with Cons.prems show ?thesis by (simp add: Let_def)
  next
    case (Some a)
    note d' = same [OF Some]
    show ?thesis
    proof (cases a)
      case (Inl e)
      with d' have "?d' = Some (Inl e)" by simp
      moreover from Cons.prems Some Inl have "r = Inl e" by (simp add: Let_def)
      ultimately show ?thesis by (simp add: Let_def)
    next
      case (Inr inner)
      show ?thesis
      proof (cases "walk_entries descend prefix es")
        case None
        with Cons.prems Some Inr show ?thesis by (simp add: Let_def)
      next
        case (Some b)
        from Cons.IH [OF this] Cons.prems Some \<open>?d = Some a\<close> d' Inr show ?thesis
          by (simp add: Let_def)
      qed
    qed
  qed
qed simp

lemma walk_inner_mono: "walk_inner fs n d prefix = Some r \<Longrightarrow> n \<le> m \<Longrightarrow> walk_inner fs m d prefix = Some r"
proof (induction n arbitrary: m d prefix r)
  case 0
  then show ?case by simp
next
  case (Suc n)
  then obtain k where m: "m = Suc k" "n \<le> k" by (cases m) auto
  show ?case
  proof (cases "read_dir fs d")
    case (Inl e)
    with Suc.prems m show ?thesis by simp
  next
    case (Inr es)
    with Suc.prems have "walk_entries (walk_inner fs n) prefix es = Some r" by simp
    moreover have "walk_inner fs k c p = Some r" if "walk_inner fs n c p = Some r" for c p r
      using Suc.IH [OF that m(2)] .
    ultimately have "walk_entries (walk_inner fs k) prefix es = Some r"
      by (rule walk_entries_mono [rotated])
    with Inr m show ?thesis by simp
  qed
qed

text \<open>
  Every path the walk yields resolves, by the bisecting lookup, to the inode and kind the walk
  yielded with it.
\<close>

definition plain_dirs :: "filesystem \<Rightarrow> bool" where
  "plain_dirs fs \<longleftrightarrow>
     (\<forall>d es. read_dir fs d = Inr es \<longrightarrow>
        listing_sorted es \<and> (\<forall>x \<in> set es. ls_name x \<noteq> [] \<and> SLASH \<notin> set (ls_name x)))"

definition resolves :: "filesystem \<Rightarrow> walk_entry \<Rightarrow> bool" where
  "resolves fs w \<longleftrightarrow>
     lookup_from fs 0 (split_path (we_path w)) = Inr (we_inode w)
     \<and> fs_kind fs (we_inode w) = Inr (we_kind w)"

lemma resolves_step:
  assumes "plain_dirs fs" "read_dir fs d = Inr es" "x \<in> set es"
    and "lookup_from fs 0 (split_path prefix) = Inr d"
  shows "resolves fs \<lparr>we_path = prefix @ SLASH # ls_name x, we_inode = ls_inode x, we_kind = ls_kind x\<rparr>"
proof -
  from assms(1-3) have plain: "listing_sorted es" "ls_name x \<noteq> []" "SLASH \<notin> set (ls_name x)"
    by (auto simp: plain_dirs_def)
  have k: "require_kind fs d KDirectory msg = Inr ()" for msg
    using read_dir_Inr(1) [OF assms(2)] by (simp add: require_kind_Inr)
  have "lookup_from fs 0 (split_path (prefix @ SLASH # ls_name x)) = Inr (ls_inode x)"
    using lookup_one_listed [OF assms(2) plain(1) assms(3)] plain assms(4) k
    by (simp add: split_path_join [OF plain(2,3)] lookup_from_append)
  moreover have "fs_kind fs (ls_inode x) = Inr (ls_kind x)"
    using read_dir_Inr(2) [OF assms(2)] assms(3) by (auto simp: in_set_conv_nth)
  ultimately show ?thesis by (simp add: resolves_def)
qed

lemma walk_inner_resolves:
  assumes "plain_dirs fs"
  shows "walk_inner fs fuel d prefix = Some (Inr out) \<Longrightarrow>
    lookup_from fs 0 (split_path prefix) = Inr d \<Longrightarrow> \<forall>w \<in> set out. resolves fs w"
proof (induction fuel arbitrary: d prefix out)
  case 0
  then show ?case by simp
next
  case (Suc fuel)
  then obtain es where es: "read_dir fs d = Inr es"
    and walk: "walk_entries (walk_inner fs fuel) prefix es = Some (Inr out)"
    by (cases "read_dir fs d") auto
  have "walk_entries (walk_inner fs fuel) prefix xs = Some (Inr out) \<Longrightarrow> set xs \<subseteq> set es \<Longrightarrow>
      \<forall>w \<in> set out. resolves fs w" for xs out
  proof (induction xs arbitrary: out)
    case Nil
    then show ?case by simp
  next
    case (Cons x xs)
    let ?path = "prefix @ SLASH # ls_name x"
    let ?here = "\<lparr>we_path = ?path, we_inode = ls_inode x, we_kind = ls_kind x\<rparr>"
    from Cons.prems(2) have x: "x \<in> set es" by simp
    have here: "resolves fs ?here" by (rule resolves_step [OF assms es x Suc.prems(2)])
    from Cons.prems(1) obtain inner rest where
      inner: "(if ls_kind x = KDirectory then walk_inner fs fuel (ls_inode x) ?path else Some (Inr []))
        = Some (Inr inner)"
      and rest: "walk_entries (walk_inner fs fuel) prefix xs = Some (Inr rest)"
      and out: "out = ?here # inner @ rest"
      by (auto simp: Let_def run_bind_eq_Some_Inr)
    have "\<forall>w \<in> set inner. resolves fs w"
    proof (cases "ls_kind x = KDirectory")
      case True
      with inner have "walk_inner fs fuel (ls_inode x) ?path = Some (Inr inner)" by simp
      moreover have "lookup_from fs 0 (split_path ?path) = Inr (ls_inode x)"
        using here by (simp only: resolves_def walk_entry.select_convs)
      ultimately show ?thesis by (rule Suc.IH)
    next
      case False
      with inner show ?thesis by simp
    qed
    moreover have "\<forall>w \<in> set rest. resolves fs w" using Cons.IH [OF rest] Cons.prems(2) by simp
    ultimately show ?case using here by (auto simp: out)
  qed
  with walk show ?case by blast
qed

lemma walk_tree_resolves:
  assumes "plain_dirs fs" "walk_tree fs fuel = Some (Inr out)" "w \<in> set out"
  shows "lookup_path fs (we_path w) = Inr \<lparr>nd_inode = we_inode w, nd_kind = we_kind w\<rparr>"
proof -
  from assms(2) obtain kind inner where k: "fs_kind fs 0 = Inr kind"
    and inner: "walk_inner fs fuel 0 [] = Some (Inr inner)"
    and out: "out = \<lparr>we_path = [], we_inode = 0, we_kind = kind\<rparr> # inner"
    by (auto simp: walk_tree_def run_bind_eq_Some_Inr)
  have root: "lookup_from fs 0 (split_path []) = Inr 0" by (simp add: split_path_def)
  from walk_inner_resolves [OF assms(1) inner root] have "\<forall>w \<in> set inner. resolves fs w" .
  with assms(3) root k have "resolves fs w" by (auto simp: out resolves_def)
  then show ?thesis by (simp add: lookup_path_def resolves_def)
qed

end
