(* ===== verification/Cache_Threads.thy ===== *)
theory Cache_Threads
  imports Block_Cache
begin

text \<open>
  The block cache shared by any number of threads. A thread is a phase of \<open>BlockCache::fetch\<close>;
  each step of a thread is one critical section of \<open>src/src/fs/read.rs\<close>, or the decode between two of
  them, whose outcome is arbitrary, or one of the two things that end a wait on the condition variable:
  the \<open>notify_all\<close> of another thread, or a spurious wake-up.
\<close>

datatype phase =
    Idle
  | Fetching u32 nat nat
  | Waiting u32 nat nat
  | Decoding u32 nat bool
  | Marking u32 nat bytes
  | Publishing u32 bytes
  | Notifying u32 "bytes result"
  | Returned u32 "bytes result"

record cache_system =
  cs_inner :: cache_inner
  cs_threads :: "nat \<Rightarrow> phase"

definition goto :: "nat \<Rightarrow> phase \<Rightarrow> cache_inner \<Rightarrow> cache_system \<Rightarrow> cache_system" where
  "goto t ph i s = s\<lparr>cs_inner := i, cs_threads := (cs_threads s)(t := ph)\<rparr>"

fun after_probe :: "u32 \<Rightarrow> nat \<Rightarrow> nat \<Rightarrow> probe \<Rightarrow> phase" where
  "after_probe b needed whole (Hit bs) = Returned b (Inr bs)"
| "after_probe b needed whole MustWait = Waiting b needed whole"
| "after_probe b needed whole (StartDecode r) = Decoding b whole r"

text \<open>\<open>Condvar::notify_all\<close>: every waiting thread goes back to its loop and probes the cache again.\<close>

definition notify_all :: "(nat \<Rightarrow> phase) \<Rightarrow> nat \<Rightarrow> phase" where
  "notify_all threads t =
     (case threads t of Waiting b needed whole \<Rightarrow> Fetching b needed whole | ph \<Rightarrow> ph)"

text \<open>A step of the thread \<open>t\<close>. The thread that ends a load notifies after releasing the lock.\<close>

inductive cache_step :: "nat \<Rightarrow> nat \<Rightarrow> cache_system \<Rightarrow> cache_system \<Rightarrow> bool" for budget t where
  call: "cs_threads s t = Idle \<Longrightarrow>
     cache_step budget t s (goto t (Fetching b needed whole) (cs_inner s) s)"
| probe: "cs_threads s t = Fetching b needed whole \<Longrightarrow>
     probe_block b needed (cs_inner s) = (i, p) \<Longrightarrow>
     cache_step budget t s (goto t (after_probe b needed whole p) i s)"
| wake: "cs_threads s t = Waiting b needed whole \<Longrightarrow>
     cache_step budget t s (goto t (Fetching b needed whole) (cs_inner s) s)"
| decode_ok: "cs_threads s t = Decoding b whole r \<Longrightarrow>
     cache_step budget t s (goto t (Marking b whole bs) (cs_inner s) s)"
| decode_failed: "cs_threads s t = Decoding b whole r \<Longrightarrow>
     cache_step budget t s (goto t (Notifying b (Inl e)) (abort_load b (cs_inner s)) s)"
| mark: "cs_threads s t = Marking b whole bs \<Longrightarrow>
     cache_step budget t s (goto t (Publishing b bs) (mark_whole b whole bs (cs_inner s)) s)"
| publish: "cs_threads s t = Publishing b bs \<Longrightarrow>
     cache_step budget t s (goto t (Notifying b (Inr bs)) (publish b bs budget (cs_inner s)) s)"
| notify: "cs_threads s t = Notifying b res \<Longrightarrow>
     cache_step budget t s (goto t (Returned b res) (cs_inner s) (s\<lparr>cs_threads := notify_all (cs_threads s)\<rparr>))"
| return: "cs_threads s t = Returned b res \<Longrightarrow>
     cache_step budget t s (goto t Idle (cs_inner s) s)"
| clear: "cs_threads s t = Idle \<Longrightarrow>
     cache_step budget t s (goto t Idle (clear_inner (cs_inner s)) s)"

inductive reachable_cache :: "nat \<Rightarrow> cache_system \<Rightarrow> bool" for budget where
  start: "reachable_cache budget \<lparr>cs_inner = inner_default, cs_threads = (\<lambda>_. Idle)\<rparr>"
| step: "reachable_cache budget s \<Longrightarrow> cache_step budget t s s' \<Longrightarrow> reachable_cache budget s'"

inductive_cases cache_stepE: "cache_step budget t s s'"

text \<open>The block a thread holds an in-flight guard for.\<close>

fun in_flight :: "phase \<Rightarrow> u32 option" where
  "in_flight (Decoding b _ _) = Some b"
| "in_flight (Marking b _ _) = Some b"
| "in_flight (Publishing b _) = Some b"
| "in_flight _ = None"

definition owns :: "(nat \<Rightarrow> u32 option) \<Rightarrow> u32 set \<Rightarrow> bool" where
  "owns h loads \<longleftrightarrow>
     (\<forall>b. b \<in> loads \<longleftrightarrow> (\<exists>t. h t = Some b)) \<and> (\<forall>t t' b. h t = Some b \<longrightarrow> h t' = Some b \<longrightarrow> t = t')"

lemma owns_unique: "owns h loads \<Longrightarrow> h t = Some b \<Longrightarrow> h t' = Some b \<Longrightarrow> t = t'"
  by (simp add: owns_def)

lemma owns_loads: "owns h loads \<Longrightarrow> b \<in> loads \<longleftrightarrow> (\<exists>t. h t = Some b)"
  by (simp add: owns_def)

lemma owns_release:
  assumes "owns h loads" "h t = Some b"
  shows "owns (h(t := None)) (loads - {b})"
  unfolding owns_def
proof (intro conjI allI impI)
  fix b'
  show "b' \<in> loads - {b} \<longleftrightarrow> (\<exists>t'. (h(t := None)) t' = Some b')"
  proof
    assume "b' \<in> loads - {b}"
    then obtain t' where "h t' = Some b'" "b' \<noteq> b" using owns_loads [OF assms(1)] by auto
    with assms(2) show "\<exists>t'. (h(t := None)) t' = Some b'" by (intro exI [of _ t']) auto
  next
    assume "\<exists>t'. (h(t := None)) t' = Some b'"
    then obtain t' where t': "t' \<noteq> t" "h t' = Some b'" by (auto split: if_splits)
    moreover have "b' \<noteq> b" using t' owns_unique [OF assms(1) assms(2), of t'] by auto
    ultimately show "b' \<in> loads - {b}" using owns_loads [OF assms(1), of b'] by auto
  qed
next
  fix t1 t2 b' assume "(h(t := None)) t1 = Some b'" "(h(t := None)) t2 = Some b'"
  then have "h t1 = Some b'" "h t2 = Some b'" by (auto split: if_splits)
  then show "t1 = t2" by (rule owns_unique [OF assms(1)])
qed

lemma owns_acquire:
  assumes "owns h loads" "h t = None" "b \<notin> loads"
  shows "owns (h(t := Some b)) (insert b loads)"
  unfolding owns_def
proof (intro conjI allI impI)
  fix b'
  show "b' \<in> insert b loads \<longleftrightarrow> (\<exists>t'. (h(t := Some b)) t' = Some b')"
  proof
    assume "b' \<in> insert b loads"
    then consider "b' = b" | t' where "h t' = Some b'" using owns_loads [OF assms(1), of b'] by auto
    then show "\<exists>t'. (h(t := Some b)) t' = Some b'"
    proof cases
      case 1
      then show ?thesis by (intro exI [of _ t]) simp
    next
      case (2 t')
      with assms(2) show ?thesis by (intro exI [of _ t']) auto
    qed
  next
    assume "\<exists>t'. (h(t := Some b)) t' = Some b'"
    then show "b' \<in> insert b loads"
      using owns_loads [OF assms(1), of b'] by (auto split: if_splits)
  qed
next
  fix t1 t2 b' assume r: "(h(t := Some b)) t1 = Some b'" "(h(t := Some b)) t2 = Some b'"
  have free: "h t' \<noteq> Some b" for t' using assms(3) owns_loads [OF assms(1), of b] by auto
  show "t1 = t2"
    using r free owns_unique [OF assms(1), of t1 b' t2] by (auto split: if_splits)
qed

definition holders :: "cache_system \<Rightarrow> nat \<Rightarrow> u32 option" where
  "holders s t = in_flight (cs_threads s t)"

lemma holders_goto [simp]: "holders (goto t ph i s) = (holders s)(t := in_flight ph)"
  by (auto simp: holders_def goto_def)

lemma holders_notify_all [simp]: "holders (s\<lparr>cs_threads := notify_all (cs_threads s)\<rparr>) = holders s"
  by (auto simp: holders_def notify_all_def split: phase.split)

lemma threads_goto: "cs_threads (goto t ph i s) t' = (if t' = t then ph else cs_threads s t')"
  by (simp add: goto_def)

lemma inner_goto [simp]: "cs_inner (goto t ph i s) = i"
  by (simp add: goto_def)

definition cache_inv :: "nat \<Rightarrow> cache_system \<Rightarrow> bool" where
  "cache_inv budget s \<longleftrightarrow>
     accounted (cs_inner s) \<and> within_budget budget (cs_inner s)
     \<and> owns (holders s) (loading (cs_inner s))"

lemma cache_inv_start: "cache_inv budget \<lparr>cs_inner = inner_default, cs_threads = (\<lambda>_. Idle)\<rparr>"
  using accounted_default
  by (simp add: cache_inv_def owns_def holders_def)
    (simp add: within_budget_def inner_default_def loading_def)

lemma cache_inv_notify [simp]:
  "cache_inv budget (s\<lparr>cs_threads := notify_all (cs_threads s)\<rparr>) = cache_inv budget s"
  by (simp add: cache_inv_def)

text \<open>A step that changes neither who loads what nor the loading set.\<close>

lemma cache_inv_same:
  assumes "cache_inv budget s" "in_flight ph = holders s t"
    and "accounted i" "within_budget budget i" "loading i = loading (cs_inner s)"
  shows "cache_inv budget (goto t ph i s)"
  using assms by (simp add: cache_inv_def fun_upd_idem)

lemma cache_inv_release:
  assumes "cache_inv budget s" "holders s t = Some b" "in_flight ph = None"
    and "accounted i" "within_budget budget i" "loading i = loading (cs_inner s) - {b}"
  shows "cache_inv budget (goto t ph i s)"
  using assms owns_release [of "holders s" "loading (cs_inner s)" t b] by (simp add: cache_inv_def)

lemma cache_inv_acquire:
  assumes "cache_inv budget s" "holders s t = None" "in_flight ph = Some b"
    and "accounted i" "within_budget budget i" "b \<notin> loading (cs_inner s)"
    "loading i = insert b (loading (cs_inner s))"
  shows "cache_inv budget (goto t ph i s)"
  using assms owns_acquire [of "holders s" "loading (cs_inner s)" t b] by (simp add: cache_inv_def)

lemma cache_inv_step:
  assumes "cache_step budget t s s'" "cache_inv budget s"
  shows "cache_inv budget s'"
proof -
  have acc: "accounted (cs_inner s)" "within_budget budget (cs_inner s)"
    and load: "holders s t = Some b \<Longrightarrow> b \<in> loading (cs_inner s)" for t b
    using assms(2) by (auto simp: cache_inv_def owns_def)
  from assms(1) show ?thesis
  proof cases
    case (probe b needed whole i p)
    have keep: "accounted i" "within_budget budget i" and out: "probe_outcome b needed (cs_inner s) i p"
      using probe_block_ok [OF acc(1), where b = b and needed = needed] probe(3) acc(2)
      by (auto simp: keeps_accounts_def)
    show ?thesis
    proof (cases p)
      case (StartDecode r)
      with probe keep out show ?thesis
        unfolding probe(1)
        by (intro cache_inv_acquire [OF assms(2)]) (simp_all add: probe_outcome_def holders_def)
    next
      case (Hit bs)
      with probe keep out show ?thesis
        unfolding probe(1)
        by (intro cache_inv_same [OF assms(2)]) (simp_all add: probe_outcome_def holders_def)
    next
      case MustWait
      with probe keep out show ?thesis
        unfolding probe(1)
        by (intro cache_inv_same [OF assms(2)]) (simp_all add: probe_outcome_def holders_def)
    qed
  next
    case (decode_failed b whole r e)
    have "b \<in> loading (cs_inner s)" using load [of t b] decode_failed by (simp add: holders_def)
    from abort_load_ok [OF acc(1) this] acc(2) decode_failed show ?thesis
      unfolding decode_failed(1)
      by (intro cache_inv_release [OF assms(2), of t b])
        (simp_all add: keeps_accounts_def holders_def)
  next
    case (publish b bs)
    from publish_ok [OF acc(1), where b = b and bs = bs and budget = budget] publish show ?thesis
      unfolding publish(1)
      by (intro cache_inv_release [OF assms(2), of t b]) (simp_all add: holders_def)
  next
    case (notify b res)
    let ?s = "s\<lparr>cs_threads := notify_all (cs_threads s)\<rparr>"
    have "holders s t = None" using notify(2) by (simp add: holders_def)
    with acc assms(2) show ?thesis
      unfolding notify(1) by (intro cache_inv_same [of budget ?s]) simp_all
  next
    case clear
    from clear_inner_ok(1,3) [of "cs_inner s"] clear_inner_ok(2) [of budget "cs_inner s"] clear show ?thesis
      unfolding clear(1)
      by (intro cache_inv_same [OF assms(2)]) (simp_all add: holders_def)
  qed (use acc in \<open>auto simp: holders_def intro!: cache_inv_same [OF assms(2)]\<close>)
qed

lemma cache_inv_reachable: "reachable_cache budget s \<Longrightarrow> cache_inv budget s"
  by (induction rule: reachable_cache.induct) (auto intro: cache_inv_start cache_inv_step)

lemma single_flight:
  assumes "reachable_cache budget s"
    and "in_flight (cs_threads s t) = Some b" "in_flight (cs_threads s t') = Some b"
  shows "t = t'"
  using cache_inv_reachable [OF assms(1)] assms(2,3)
  unfolding cache_inv_def owns_def holders_def by blast

lemma reachable_resident:
  assumes "reachable_cache budget s"
  shows "ci_resident (cs_inner s) = sum_list (map (ready_len (ci_blocks (cs_inner s))) (ci_order (cs_inner s)))"
    and "ci_resident (cs_inner s) \<le> budget \<or> length (ci_order (cs_inner s)) \<le> 1"
  using cache_inv_reachable [OF assms]
  by (auto simp: cache_inv_def accounted_def accounts_def within_budget_def)

subsection \<open>Every waiter is woken\<close>

text \<open>The block whose waiters a thread still has to notify.\<close>

fun owes_notify :: "phase \<Rightarrow> u32 option" where
  "owes_notify (Notifying b _) = Some b"
| "owes_notify ph = in_flight ph"

fun is_waiting :: "phase \<Rightarrow> bool" where
  "is_waiting (Waiting _ _ _) = True"
| "is_waiting _ = False"

text \<open>How many steps a thread is away from its notification.\<close>

fun notify_distance :: "phase \<Rightarrow> nat" where
  "notify_distance (Decoding _ _ _) = 4"
| "notify_distance (Marking _ _ _) = 3"
| "notify_distance (Publishing _ _) = 2"
| "notify_distance (Notifying _ _) = 1"
| "notify_distance _ = 0"

lemma notify_distance_bounds:
  "owes_notify ph = Some b \<Longrightarrow> 0 < notify_distance ph" "notify_distance ph \<le> 4"
  by (cases ph; simp)+

lemma in_flight_owes: "in_flight ph = Some b \<Longrightarrow> owes_notify ph = Some b"
  by (cases ph) simp_all

lemma not_waiting_notified [simp]: "\<not> is_waiting (notify_all threads t)"
  by (simp add: notify_all_def split: phase.split)

text \<open>While a thread waits for a block, some thread owes the waiters of that block a notification.\<close>

definition covered :: "cache_system \<Rightarrow> bool" where
  "covered s \<longleftrightarrow> (\<forall>t b needed whole. cs_threads s t = Waiting b needed whole
     \<longrightarrow> (\<exists>t'. owes_notify (cs_threads s t') = Some b))"

lemma covered_goto:
  assumes "covered s" "owes_notify (cs_threads s t) \<in> {None, owes_notify ph}"
    and "\<And>b needed whole. ph = Waiting b needed whole \<Longrightarrow> \<exists>t'. t' \<noteq> t \<and> owes_notify (cs_threads s t') = Some b"
  shows "covered (goto t ph i s)"
  unfolding covered_def
proof (intro allI impI)
  fix t1 b needed whole assume w: "cs_threads (goto t ph i s) t1 = Waiting b needed whole"
  then obtain t' where t': "owes_notify (cs_threads s t') = Some b" "t' = t \<Longrightarrow> t1 \<noteq> t"
    using assms(1) assms(3) [of b needed whole] by (auto simp: threads_goto covered_def split: if_splits)
  with assms(2) have "owes_notify (cs_threads (goto t ph i s) t') = Some b" by (auto simp: threads_goto)
  then show "\<exists>t'. owes_notify (cs_threads (goto t ph i s) t') = Some b" ..
qed

lemma covered_no_waiter: "(\<And>t. \<not> is_waiting (cs_threads s t)) \<Longrightarrow> covered s"
  unfolding covered_def by (metis is_waiting.simps(1))

lemma covered_step:
  assumes "cache_step budget t s s'" "cache_inv budget s" "covered s"
  shows "covered s'"
  using assms(1)
proof cases
  case (probe b needed whole i p)
  show ?thesis
    unfolding probe(1)
  proof (rule covered_goto [OF assms(3)])
    fix b' needed' whole' assume "after_probe b needed whole p = Waiting b' needed' whole'"
    then have p: "p = MustWait" "b' = b" by (cases p; simp)+
    from assms(2) have acc: "accounted (cs_inner s)" by (simp add: cache_inv_def)
    from probe_block_ok(2) [OF acc, of b needed] probe(3) p have "b \<in> loading (cs_inner s)"
      by (simp add: probe_outcome_def)
    with assms(2) obtain t' where "in_flight (cs_threads s t') = Some b"
      by (auto simp: cache_inv_def owns_def holders_def)
    with probe(2) p(2) show "\<exists>t'. t' \<noteq> t \<and> owes_notify (cs_threads s t') = Some b'"
      by (intro exI [of _ t']) (auto intro: in_flight_owes)
  qed (simp add: probe(2))
next
  case (notify b res)
  show ?thesis unfolding notify(1) by (rule covered_no_waiter) (simp add: threads_goto)
next
  case (call b needed whole)
  then show ?thesis unfolding call(1) by (intro covered_goto [OF assms(3)]) simp_all
next
  case (wake b needed whole)
  then show ?thesis unfolding wake(1) by (intro covered_goto [OF assms(3)]) simp_all
next
  case (decode_ok b whole r bs)
  then show ?thesis unfolding decode_ok(1) by (intro covered_goto [OF assms(3)]) simp_all
next
  case (decode_failed b whole r e)
  then show ?thesis unfolding decode_failed(1) by (intro covered_goto [OF assms(3)]) simp_all
next
  case (mark b whole bs)
  then show ?thesis unfolding mark(1) by (intro covered_goto [OF assms(3)]) simp_all
next
  case (publish b bs)
  then show ?thesis unfolding publish(1) by (intro covered_goto [OF assms(3)]) simp_all
next
  case (return b res)
  then show ?thesis unfolding return(1) by (intro covered_goto [OF assms(3)]) simp_all
next
  case clear
  then show ?thesis unfolding clear(1) by (intro covered_goto [OF assms(3)]) simp_all
qed

lemma covered_reachable: "reachable_cache budget s \<Longrightarrow> covered s"
proof (induction rule: reachable_cache.induct)
  case start
  show ?case by (simp add: covered_def)
next
  case (step s t s')
  with covered_step cache_inv_reachable show ?case by blast
qed

text \<open>A thread that owes a notification is never blocked, and each of its steps brings it nearer.\<close>

lemma owing_can_step:
  assumes "owes_notify (cs_threads s t) = Some b"
  shows "\<exists>s'. cache_step budget t s s'"
proof (cases "cs_threads s t")
  case (Decoding b whole r)
  then show ?thesis using cache_step.decode_ok by blast
next
  case (Marking b whole bs)
  then show ?thesis using cache_step.mark by blast
next
  case (Publishing b bs)
  then show ?thesis using cache_step.publish by blast
next
  case (Notifying b res)
  then show ?thesis using cache_step.notify by blast
qed (use assms in simp_all)

lemma own_step:
  assumes "cache_step budget t' s s'" "owes_notify (cs_threads s t') = Some b" "is_waiting (cs_threads s t)"
  shows "\<not> is_waiting (cs_threads s' t)
    \<or> cs_threads s' t = cs_threads s t \<and> owes_notify (cs_threads s' t') = Some b
      \<and> notify_distance (cs_threads s' t') < notify_distance (cs_threads s t')"
proof -
  have "t \<noteq> t'" using assms(2,3) by (cases "cs_threads s t'") auto
  with assms show ?thesis by (cases rule: cache_step.cases) (auto simp: threads_goto)
qed

lemma other_step:
  assumes "cache_step budget t1 s s'" "t1 \<noteq> t'" "owes_notify (cs_threads s t') = Some b"
    and "is_waiting (cs_threads s t)"
  shows "\<not> is_waiting (cs_threads s' t)
    \<or> cs_threads s' t = cs_threads s t \<and> cs_threads s' t' = cs_threads s t'"
  using assms by (cases rule: cache_step.cases) (auto simp: threads_goto)

text \<open>A run: which thread makes each step, and the state it leads to.\<close>

fun cache_run :: "nat \<Rightarrow> cache_system \<Rightarrow> (nat \<times> cache_system) list \<Rightarrow> bool" where
  "cache_run budget s [] = True"
| "cache_run budget s ((t, s') # steps) \<longleftrightarrow> cache_step budget t s s' \<and> cache_run budget s' steps"

fun cache_end :: "cache_system \<Rightarrow> (nat \<times> cache_system) list \<Rightarrow> cache_system" where
  "cache_end s [] = s"
| "cache_end s ((t, s') # steps) = cache_end s' steps"

lemma waiting_run:
  assumes "cache_run budget s steps" "is_waiting (cs_threads s t)"
    and "owes_notify (cs_threads s t') = Some b" "\<forall>s' \<in> snd ` set steps. is_waiting (cs_threads s' t)"
  shows "owes_notify (cs_threads (cache_end s steps) t') = Some b
    \<and> notify_distance (cs_threads (cache_end s steps) t') + count_list (map fst steps) t'
        \<le> notify_distance (cs_threads s t')"
  using assms
proof (induction steps arbitrary: s)
  case Nil
  then show ?case by simp
next
  case (Cons st steps)
  obtain t1 s1 where st: "st = (t1, s1)" by (cases st)
  from Cons.prems(1) st have step: "cache_step budget t1 s s1" and run: "cache_run budget s1 steps" by simp_all
  have waits: "is_waiting (cs_threads s1 t)" "\<forall>s' \<in> snd ` set steps. is_waiting (cs_threads s' t)"
    using Cons.prems(4) st by simp_all
  have near: "owes_notify (cs_threads s1 t') = Some b
      \<and> notify_distance (cs_threads s1 t') + (if t1 = t' then 1 else 0) \<le> notify_distance (cs_threads s t')"
    using own_step [of budget t' s s1 b t] other_step [of budget t1 s s1 t' b t] step waits(1) Cons.prems(2,3)
    by (cases "t1 = t'") auto
  with Cons.IH [OF run waits(1) _ waits(2)] show ?case by (auto simp: st)
qed

text \<open>
  No waiter is stranded, and none depends on a spurious wake-up: as long as it waits, one other thread
  can go on, and that thread has made fewer than four steps.
\<close>

lemma waiter_woken:
  assumes "reachable_cache budget s" "cs_threads s t = Waiting b needed whole"
  shows "\<exists>t'. t' \<noteq> t \<and> owes_notify (cs_threads s t') = Some b
    \<and> (\<forall>steps. cache_run budget s steps \<and> (\<forall>s' \<in> snd ` set steps. is_waiting (cs_threads s' t))
        \<longrightarrow> count_list (map fst steps) t' < 4 \<and> (\<exists>s'. cache_step budget t' (cache_end s steps) s'))"
proof -
  from covered_reachable [OF assms(1)] assms(2) obtain t' where t': "owes_notify (cs_threads s t') = Some b"
    unfolding covered_def by blast
  have "count_list (map fst steps) t' < 4 \<and> (\<exists>s'. cache_step budget t' (cache_end s steps) s')"
    if run: "cache_run budget s steps" "\<forall>s' \<in> snd ` set steps. is_waiting (cs_threads s' t)" for steps
  proof -
    from waiting_run [OF run(1) _ t' run(2)] assms(2) have at_end:
      "owes_notify (cs_threads (cache_end s steps) t') = Some b"
      "notify_distance (cs_threads (cache_end s steps) t') + count_list (map fst steps) t'
        \<le> notify_distance (cs_threads s t')" by simp_all
    with notify_distance_bounds(1) [OF at_end(1)] notify_distance_bounds(2) [of "cs_threads s t'"]
      owing_can_step [OF at_end(1)] show ?thesis by simp
  qed
  moreover have "t' \<noteq> t" using t' assms(2) by auto
  ultimately show ?thesis using t' by blast
qed

end
