(* ===== verification/Sample_Image.thy ===== *)
theory Sample_Image
  imports Read_Path Directories Cache_Threads
begin

text \<open>
  A small image with one uncompressed block and a two-inode filesystem over it, on which the
  properties with hypotheses are instantiated: a root directory holding one file, whose content
  is three bytes of the block followed by a hole of two bytes.
\<close>

definition sample_hash :: hash_lib where
  "sample_hash = \<lparr>hl_xxh3_64 = (\<lambda>_. 7), hl_sha512_256 = (\<lambda>_. replicate 32 3)\<rparr>"

definition sample_codecs :: codec_lib where
  "sample_codecs =
     \<lparr>cl_zstd_frame_content_size = (\<lambda>_. Inr None),
      cl_zstd_bulk_decompress = (\<lambda>_ _. Inl ''no zstd''),
      cl_zstd_decoder = (\<lambda>_. Inl ''no zstd''),
      cl_lz4_block_decompress = (\<lambda>_ _. Inl ''no lz4''),
      cl_xz_output = (\<lambda>_. []),
      cl_liblzma_decoder = (\<lambda>_. []),
      cl_brotli_decompressor = (\<lambda>_. [])\<rparr>"

definition sample_features :: features where
  "sample_features = \<lparr>ft_zstd = True, ft_lzma = True, ft_lzma_native = False, ft_lz4 = True, ft_brotli = True\<rparr>"

definition sample_env :: environment where
  "sample_env = \<lparr>ev_features = sample_features, ev_codecs = sample_codecs, ev_hash = sample_hash,
     ev_pool = None\<rparr>"

definition sample_header :: section_header where
  "sample_header =
     \<lparr>sh_major = 2, sh_minor = 5, sh_sha512_256 = replicate 32 3, sh_xxh3_64 = 7, sh_number = 0,
      sh_section_type = Block, sh_compression = NoCompression, sh_payload_len = 5\<rparr>"

definition sample_block :: bytes where "sample_block = [10, 20, 30, 40, 50]"

definition sample_content :: bytes where "sample_content = write_header sample_header @ sample_block"

definition sample_record :: section_record where
  "sample_record = \<lparr>rec_file_offset = 0, rec_header = sample_header\<rparr>"

definition sample_image :: image_file where
  "sample_image =
     \<lparr>img_source = vec_source sample_content, img_base_offset = 0, img_sections = [sample_record],
      img_section_index = None\<rparr>"

lemma sample_supported: "supported_header sample_header"
  by (simp add: supported_header_def wf_header_def sample_header_def canonical_section_type_def
      canonical_compression_def section_type_from_u16_def compression_from_u16_def)

lemma length_sample_header [simp]: "length (write_header sample_header) = 64"
  using sample_supported by (simp add: supported_header_def)

lemma length_sample_content [simp]: "length sample_content = 69"
  by (simp add: sample_content_def sample_block_def)

lemma sample_record_len [simp]: "record_section_len sample_record = 69"
  by (simp add: record_section_len_def sample_record_def section_len_def saturating_add64_def
      sample_header_def)

lemma sample_record_simps [simp]:
  "rec_file_offset sample_record = 0" "rec_header sample_record = sample_header"
  by (simp_all add: sample_record_def)

lemma sample_parse: "parse_header (write_header sample_header @ rest) off = Inr sample_header"
  by (rule parse_write_header [OF sample_supported])

lemma sample_tiling: "tiling sample_content 0 [sample_record]"
proof -
  have "subslice sample_content 0 (0 + 64) = write_header sample_header"
    by (simp add: sample_content_def subslice_0)
  with sample_parse [of "[]" 0] show ?thesis by simp
qed

lemma sample_image_ok: "image_ok sample_image sample_content"
  using sample_tiling vec_src.byte_source_axioms [of sample_content]
  by (simp add: image_ok_def sample_image_def)

subsection \<open>A filesystem over it\<close>

definition sample_inode :: "u32 \<Rightarrow> inode_data" where
  "sample_inode mode_index =
     \<lparr>in_mode_index = mode_index, in_owner_index = 0, in_group_index = 0, in_atime_offset = 0,
      in_mtime_offset = 4, in_ctime_offset = 0, in_btime_offset = 0, in_atime_subsec = 0,
      in_mtime_subsec = 0, in_ctime_subsec = 0, in_btime_subsec = 0, in_nlink_minus_one = 0\<rparr>"

definition sample_chunks :: "chunk list" where
  "sample_chunks =
     [\<lparr>ck_block = 0, ck_offset = 1, ck_size = 3\<rparr>, \<lparr>ck_block = 1, ck_offset = 2, ck_size = 0\<rparr>]"

definition sample_offsets :: inode_offsets where
  "sample_offsets =
     \<lparr>io_dir_offset = 0, io_symlink_offset = 2, io_file_offset = 1, io_shared_file_offset = 2,
      io_device_offset = 2, io_special_offset = 2, io_total = 2\<rparr>"

definition sample_fs :: filesystem where
  "sample_fs =
     \<lparr>fs_image = sample_image, fs_block_records = [sample_record], fs_block_size = 16,
      fs_options = fs_options_default, fs_timestamp_base = 100, fs_modes = [0x41ED, 0x81A4],
      fs_uids = [0], fs_gids = [0], fs_inodes = [sample_inode 0, sample_inode 1],
      fs_directories =
        [\<lparr>dr_parent_entry = 0, dr_first_entry = 0, dr_self_entry = 0\<rparr>,
         \<lparr>dr_parent_entry = 0, dr_first_entry = 1, dr_self_entry = 0\<rparr>],
      fs_dir_entries = [\<lparr>de_name_index = 0, de_inode_num = 1\<rparr>],
      fs_chunks = sample_chunks, fs_chunk_end = [3, 5], fs_chunk_table = [0, 2],
      fs_symlink_table = [], fs_shared_files = [], fs_large_hole_size = [],
      fs_hole_block_index = Some 1, fs_names = \<lparr>tb_data = [0x61], tb_offsets = [0, 1]\<rparr>,
      fs_symlinks = string_table_default, fs_devices = [], fs_block_category_names = [],
      fs_features = [], fs_preferred_path_separator = None, fs_total_fs_size = 5,
      fs_total_allocated_fs_size = None, fs_offsets = sample_offsets\<rparr>"

definition sample_blk :: "u32 \<Rightarrow> bytes" where "sample_blk b = sample_block"

lemma sample_compute_offsets:
  "compute_offsets (fs_inodes sample_fs) (fs_modes sample_fs) 0 = Inr sample_offsets"
  by (simp add: sample_fs_def compute_offsets_def sample_inode_def mode_kind_def mode_consts
      note_kind_def U32_MAX_def Let_def get_at_def sample_offsets_def u32_try_from_def min_def)

lemma sample_chunk_ends:
  "build_chunk_ends (fs_chunks sample_fs) (fs_chunk_table sample_fs) (fs_hole_block_index sample_fs)
     (fs_block_size sample_fs) (fs_large_hole_size sample_fs) = Inr [3, 5]"
proof -
  have "[0..<2] = [0, 1]" by (simp add: upt_rec)
  then show ?thesis
    by (simp add: sample_fs_def sample_chunks_def build_chunk_ends_def windows2_def chunk_len_def
        hole_length_def LARGE_HOLE_SENTINEL_def U32_MAX_def checked_mul64_def checked_add64_def Let_def)
qed

lemma sample_fs_ok: "fs_ok sample_fs"
  using sample_compute_offsets sample_chunk_ends
  by (simp add: fs_ok_def)
    (simp add: sample_fs_def sample_chunks_def sample_image_def DEFAULT_LIST_CAP_def sample_header_def
      SUPPORTED_FEATURES_def)

lemma sample_kinds:
  "fs_kind sample_fs 0 = Inr KDirectory" "fs_kind sample_fs 1 = Inr KRegular"
  by (simp_all add: fs_kind_def mode_of_def inode_index_def mode_at_def sample_fs_def sample_inode_def
      mode_kind_def mode_consts Let_def get_at_def)

lemma sample_chunk_range: "chunk_range sample_fs 1 = Inr (0, 2)"
  by (simp add: chunk_range_def chunk_table_slot_def sample_fs_def sample_offsets_def Let_def
      checked_sub_def sample_chunks_def)

lemma sample_read_dir:
  "read_dir sample_fs 0 = Inr [\<lparr>ls_inode = 1, ls_kind = KRegular, ls_name = [0x61]\<rparr>]"
proof -
  have range: "dir_entry_range sample_fs 0 = Inr (0, 1)"
    by (simp add: dir_entry_range_def sample_fs_def Let_def)
  have "listing_at sample_fs 0 = Inr \<lparr>ls_inode = 1, ls_kind = KRegular, ls_name = [0x61]\<rparr>"
    using sample_kinds(2)
    by (simp add: listing_at_def Let_def entry_name_def)
      (simp add: sample_fs_def table_get_def get_at_def subslice_def)
  with range sample_kinds(1) show ?thesis
    by (simp add: read_dir_def require_kind_def)
qed

lemma sample_walk:
  "walk_tree sample_fs 1 = Some (Inr
     [\<lparr>we_path = [], we_inode = 0, we_kind = KDirectory\<rparr>,
      \<lparr>we_path = [SLASH, 0x61], we_inode = 1, we_kind = KRegular\<rparr>])"
  by (simp add: walk_tree_def sample_kinds sample_read_dir Let_def)

lemma sample_section_bytes: "section_bytes sample_image sample_record = Inr sample_content"
proof -
  have "sample_record \<in> set (img_sections sample_image)" by (simp add: sample_image_def)
  from image_ok_section_bytes [OF sample_image_ok this] show ?thesis
    by (simp add: subslice_def)
qed

lemma sample_payload: "drop 64 sample_content = sample_block"
  by (simp add: sample_content_def)

lemma sample_decoders: "decoders_consistent sample_codecs src"
  by (simp add: decoders_consistent_def sample_codecs_def)

lemma sample_blocks_decode: "blocks_decode sample_env sample_fs sample_blk"
proof -
  have "decompress_section sample_features sample_codecs sample_hash sample_image sample_record 16
      = Inr sample_block"
    using sample_section_bytes sample_payload
    by (simp add: decompress_section_def verify_xxh3_def compute_xxh3_def sample_hash_def)
      (simp add: sample_header_def decompress_def none_decompress_def sample_block_def)
  then show ?thesis
    using sample_decoders
    by (auto simp: blocks_decode_def sample_fs_def sample_env_def sample_blk_def result_simps)
qed

lemma sample_readable: "readable sample_env sample_fs sample_content sample_blk 1 0 2"
  using sample_fs_ok sample_image_ok sample_blocks_decode sample_kinds(2) sample_chunk_range
  by (simp add: readable_def) (simp add: sample_fs_def)

lemma sample_chunks_inside: "chunks_inside sample_fs sample_blk 0 2"
proof -
  have two: "i < (2 :: nat) \<longleftrightarrow> i = 0 \<or> i = 1" for i by linarith
  show ?thesis
    unfolding chunks_inside_def two
    by (intro allI impI; elim disjE; simp add: sample_fs_def sample_chunks_def is_hole_chunk_def
        sample_blk_def sample_block_def)
qed

lemma sample_cache_ready: "cache_ready sample_env sample_fs (cache_new n)"
  using idle_cache_new by (simp add: cache_ready_def)

lemma sample_file_content: "file_content sample_fs sample_blk 0 2 = [20, 30, 40, 0, 0]"
proof -
  have "[0..<2] = [0, 1]" "[0..<3] = [0, 1, 2]" by (simp_all add: upt_rec)
  moreover have "replicate 2 (0 :: byte) = [0, 0]" by (simp add: numeral_2_eq_2)
  ultimately show ?thesis
    by (simp add: file_content_def chunk_bytes_def Let_def is_hole_chunk_def logical_len_def
        logical_of_def chunk_logical_len_def hole_length_def sample_fs_def sample_chunks_def sample_blk_def
        sample_block_def LARGE_HOLE_SENTINEL_def U32_MAX_def checked_mul64_def checked_add64_def)
qed

lemma sample_subdirs: "subdirs sample_fs 0 = {}"
  by (simp add: subdirs_def sample_read_dir)

lemma sample_borrow:
  "\<exists>c bs. read_borrowed sample_env sample_fs 1 0 2 (cache_new 32) = Some (c, Inr (Some bs))"
proof -
  let ?c = "cache_new 32"
  have image: "image_ok (fs_image sample_fs) sample_content"
    using sample_readable by (simp add: readable_def)
  have "block_served sample_env sample_fs 0 3"
    by (rule blocks_served [OF sample_blocks_decode sample_fs_ok image])
      (simp_all add: sample_fs_def sample_blk_def sample_block_def)
  with decode_block_ok [OF sample_cache_ready, of 32 0 3] obtain c bs where
    dec: "decode_block sample_env sample_fs ?c 0 3 = Some (c, Inr bs)" and len: "3 \<le> length bs"
    by auto
  note res = decoded_block_resident [OF sample_cache_ready dec]
  have cover: "chunks_covering sample_fs (0, 2) 0 = [0, 1]"
  proof -
    have "[0..<2] = [0, 1]" by (simp add: upt_rec)
    then show ?thesis
      by (simp add: chunks_covering_def partition_point_def sample_fs_def subslice_def Let_def)
  qed
  have chunk: "fs_chunks sample_fs ! 0 = \<lparr>ck_block = 0, ck_offset = 1, ck_size = 3\<rparr>"
    "fs_chunk_end sample_fs ! 0 = 3" "fs_hole_block_index sample_fs = Some 1"
    by (simp_all add: sample_fs_def sample_chunks_def)
  show ?thesis
    using sample_kinds(2) sample_chunk_range cover dec len res
    by (simp add: numeral_3_eq_3 read_borrowed_def require_kind_def Let_def chunk is_hole_chunk_def
        saturating_add64_def chunk_logical_len_def)
qed

subsection \<open>A cache with one thread decoding and one waiting\<close>

definition sample_decoding :: cache_system where
  "sample_decoding =
     \<lparr>cs_inner = inner_default\<lparr>ci_blocks := Map.empty(3 \<mapsto> Loading)\<rparr>,
      cs_threads = (\<lambda>_. Idle)(0 := Decoding 3 16 False)\<rparr>"

lemma sample_decoding_reachable: "reachable_cache budget sample_decoding"
proof -
  let ?s0 = "\<lparr>cs_inner = inner_default, cs_threads = (\<lambda>_. Idle)\<rparr>"
  let ?s1 = "goto 0 (Fetching 3 5 16) inner_default ?s0"
  have s1: "reachable_cache budget ?s1"
    using reachable_cache.step [OF reachable_cache.start cache_step.call [of ?s0 0]] by simp
  have "probe_block 3 5 (cs_inner ?s1)
      = (inner_default\<lparr>ci_blocks := Map.empty(3 \<mapsto> Loading)\<rparr>, StartDecode False)"
    by (simp add: goto_def probe_block_def begin_load_def inner_default_def)
  moreover have "cs_threads ?s1 0 = Fetching 3 5 16" by (simp add: goto_def)
  ultimately have "reachable_cache budget (goto 0 (after_probe 3 5 16 (StartDecode False))
      (inner_default\<lparr>ci_blocks := Map.empty(3 \<mapsto> Loading)\<rparr>) ?s1)"
    by (intro reachable_cache.step [OF s1, where t = 0] cache_step.probe)
  then show ?thesis by (simp add: goto_def sample_decoding_def)
qed

definition sample_waiting :: cache_system where
  "sample_waiting =
     sample_decoding\<lparr>cs_threads := (cs_threads sample_decoding)(1 := Waiting 3 5 16)\<rparr>"

lemma sample_waiting_reachable: "reachable_cache budget sample_waiting"
proof -
  let ?s1 = "goto 1 (Fetching 3 5 16) (cs_inner sample_decoding) sample_decoding"
  have "cs_threads sample_decoding 1 = Idle" by (simp add: sample_decoding_def)
  from reachable_cache.step [OF sample_decoding_reachable cache_step.call [OF this]]
  have s1: "reachable_cache budget ?s1" .
  have "probe_block 3 5 (cs_inner ?s1) = (cs_inner sample_decoding, MustWait)"
    by (simp add: goto_def probe_block_def sample_decoding_def)
  moreover have "cs_threads ?s1 1 = Fetching 3 5 16" by (simp add: goto_def)
  ultimately have "reachable_cache budget
      (goto 1 (after_probe 3 5 16 MustWait) (cs_inner sample_decoding) ?s1)"
    by (intro reachable_cache.step [OF s1, where t = 1] cache_step.probe)
  then show ?thesis by (simp add: goto_def sample_waiting_def sample_decoding_def)
qed

text \<open>The decode has ended, and the block is published; the waiting thread is still to be notified.\<close>

definition sample_marking :: cache_system where
  "sample_marking = goto 0 (Marking 3 16 [1, 2]) (cs_inner sample_waiting) sample_waiting"

lemma sample_decoded: "cache_step budget 0 sample_waiting sample_marking"
  unfolding sample_marking_def
  by (rule cache_step.decode_ok [where r = False]) (simp add: sample_waiting_def sample_decoding_def)

definition sample_published :: cache_system where
  "sample_published =
     \<lparr>cs_inner = \<lparr>ci_decoded_whole = {}, ci_resident = 2, ci_blocks = Map.empty(3 \<mapsto> Ready [1, 2]), ci_order = [3]\<rparr>,
      cs_threads = (\<lambda>_. Idle)(0 := Notifying 3 (Inr [1, 2]), 1 := Waiting 3 5 16)\<rparr>"

lemma sample_published_reachable: "reachable_cache 32 sample_published"
proof -
  let ?i = "cs_inner sample_waiting"
  let ?s = "goto 0 (Publishing 3 [1, 2]) (mark_whole 3 16 [1, 2] ?i) sample_marking"
  have "reachable_cache 32 sample_marking"
    by (rule reachable_cache.step [OF sample_waiting_reachable sample_decoded])
  moreover have "cache_step 32 0 sample_marking ?s"
    using cache_step.mark [of sample_marking 0 3 16 "[1, 2]" 32] by (simp add: sample_marking_def goto_def)
  moreover have "cache_step 32 0 ?s (goto 0 (Notifying 3 (Inr [1, 2])) (publish 3 [1, 2] 32 (cs_inner ?s)) ?s)"
    by (rule cache_step.publish) (simp add: goto_def)
  moreover have "publish 3 [1, 2] 32 (cs_inner ?s) = cs_inner sample_published"
    by (simp add: publish_def mark_whole_def admit_def Let_def evict_until.simps sample_published_def
        sample_waiting_def sample_decoding_def inner_default_def)
  moreover have "goto 0 (Notifying 3 (Inr [1, 2])) (cs_inner sample_published) ?s = sample_published"
    by (auto simp: goto_def sample_marking_def sample_waiting_def sample_decoding_def sample_published_def)
  ultimately show ?thesis by (metis reachable_cache.step)
qed

lemma sample_size: "file_size sample_fs 1 = Inr 5"
  using file_size_sum [OF sample_fs_ok sample_kinds(2) sample_chunk_range]
    length_file_content [of sample_fs sample_blk 0 2] sample_file_content by simp

lemma sample_root_stat: "\<exists>st. fs_stat sample_fs 0 = Inr st"
proof -
  have "inode_index sample_fs 0 = Inr 0" "fs_inodes sample_fs ! 0 = sample_inode 0"
    "mode_at sample_fs 0 = Inr 0x41ED" "mode_kind 0x41ED = KDirectory"
    "get_at (fs_uids sample_fs) 0 = Some 0" "get_at (fs_gids sample_fs) 0 = Some 0"
    by (simp_all add: inode_index_def sample_fs_def Let_def get_at_def mode_at_def mode_kind_def mode_consts)
  moreover have "stamp_at sample_fs t = Inr (100 + t)" if "t < 5" for t
    using that by (simp add: stamp_at_Inr) (simp add: sample_fs_def fs_options_default_def)
  moreover have "fo_mtime_only (fs_options sample_fs) = False"
    by (simp add: sample_fs_def fs_options_default_def)
  ultimately show ?thesis by (simp add: fs_stat_def sample_inode_def Let_def)
qed

lemma sample_stat: "\<exists>st. fs_stat sample_fs 1 = Inr st"
proof -
  have "inode_index sample_fs 1 = Inr 1" "fs_inodes sample_fs ! 1 = sample_inode 1"
    "mode_at sample_fs 1 = Inr 0x81A4" "mode_kind 0x81A4 = KRegular"
    "get_at (fs_uids sample_fs) 0 = Some 0" "get_at (fs_gids sample_fs) 0 = Some 0"
    by (simp_all add: inode_index_def sample_fs_def Let_def get_at_def mode_at_def mode_kind_def mode_consts)
  moreover have "stamp_at sample_fs t = Inr (100 + t)" if "t < 5" for t
    using that by (simp add: stamp_at_Inr) (simp add: sample_fs_def fs_options_default_def)
  moreover have "fo_mtime_only (fs_options sample_fs) = False"
    by (simp add: sample_fs_def fs_options_default_def)
  ultimately show ?thesis by (simp add: fs_stat_def sample_inode_def sample_size Let_def)
qed

subsection \<open>The sample opens\<close>

lemma sample_accepts: "accepts sample_content 0"
proof -
  have "subslice sample_content 0 64 = write_header sample_header"
    by (simp add: sample_content_def subslice_0)
  with sample_parse [of "[]" 0] sample_record_len show ?thesis
    by (simp add: accepts_def follows_a_section_boundary_def checked_add64_def record_section_len_def)
qed

lemma sample_detects: "detect_base_offset sample_content = Inr 0"
  using sample_accepts by (simp add: detect_base_offset_Inr)

lemma sample_sections_walk: "walk_sections (vec_source sample_content) 0 = Inr [sample_record]"
  using vec_src.walk_sections_iff [of sample_content 0] sample_tiling by simp

lemma sample_tail: "subslice sample_content 61 69 = [0, 0, 0, 10, 20, 30, 40, 50]"
proof -
  have eight: "(8 :: nat) = Suc (Suc (Suc (Suc (Suc (Suc (Suc (Suc 0)))))))" by simp
  have "le_bytes 8 5 = [5, 0, 0, 0, 0, 0, 0, 0]" unfolding eight le_bytes.simps by simp
  then show ?thesis
    by (simp add: sample_content_def subslice_def write_header_def sample_header_def sample_block_def
        to_le_bytes_def)
qed

lemma sample_no_index: "index_from_source (vec_source sample_content) 0 = Inr None"
proof -
  have "row_type (from_le_bytes [0, 0, 0, 10, 20, 30, 40, 50]) = 12840"
    by (simp add: row_type_def from_le_bytes_def)
  then show ?thesis
    by (simp add: index_from_source_def vec_src.src_len vec_src.src_read in_bounds_def sample_tail Let_def)
qed

lemma sample_build: "image_from_vec sample_content = Inr sample_image"
  using sample_detects sample_sections_walk sample_no_index
  by (simp add: image_from_vec_def image_from_source_def image_build_def detect_base_offset_in_def
      sample_image_def) (simp add: vec_source_def)

end
