(* ===== verification/Writer_Properties.thy ===== *)
theory Writer_Properties
  imports Filesystem_Writer Sample_Image
begin

text \<open>
  The properties of whole file systems: what the reference writer stores is what opening and reading
  give back. The instance is a written version of the sample file system.
\<close>

text \<open>The names are a packed table without a symbol table.\<close>

definition sample_names :: compact_strings where
  "sample_names = \<lparr>cp_buffer = [0x61], cp_symtab = None, cp_index = [1], cp_packed = True\<rparr>"

definition sample_tables :: metadata_tables where
  "sample_tables =
     \<lparr>mt_chunks = sample_chunks,
      mt_directories =
        [\<lparr>dr_parent_entry = 0, dr_first_entry = 0, dr_self_entry = 0\<rparr>,
         \<lparr>dr_parent_entry = 0, dr_first_entry = 1, dr_self_entry = 0\<rparr>],
      mt_inodes = [sample_inode 0, sample_inode 1], mt_chunk_table = [0, 2], mt_symlink_table = [],
      mt_uids = [0], mt_gids = [0], mt_modes = [0x41ED, 0x81A4], mt_names = [], mt_symlinks = [],
      mt_timestamp_base = 100, mt_block_size = 16, mt_total_fs_size = 5, mt_devices = [],
      mt_options = fs_options_default, mt_dir_entries = [\<lparr>de_name_index = 0, de_inode_num = 1\<rparr>],
      mt_shared_files = [], mt_compact_names = Some sample_names, mt_compact_symlinks = None, mt_separator = None, mt_features = [], mt_category_names = [],
      mt_block_categories = [], mt_hole_block = Some 1, mt_large_holes = [], mt_allocated = None\<rparr>"

definition sample_blocks :: "section_item list" where
  "sample_blocks = [(0, Block, sample_block)]"

lemma bit_length_numeral: "bit_length 0 = 0" "bit_length (numeral k) = Suc (bit_length (numeral k div 2))"
  "bit_length (Suc 0) = Suc 0"
  by (simp_all add: bit_length.simps)

lemma sample_root_bits: "root_bits (metadata_slots sample_tables) < 2000"
  by (simp add: opt_table_def root_bits_def metadata_slots_def one_int_def opt_int_def sample_tables_def bit_length_numeral)

lemma sample_data: "length (slots_data (metadata_slots sample_tables)) < 2000"
  by (simp add: opt_table_def sample_names_def no_strings_def index_data_def symtab_bytes_def index_width_def
    slots_data_def metadata_slots_def sample_tables_def one_int_def opt_int_def table_array_def int_array_def
    row_fields_def bytes_for_def  column_defs sample_chunks_def sample_inode_def chunk_row_def
    directory_row_def inode_row_def dir_entry_row_def table_widths_def column_cells_def column_width_def bit_length_numeral
    string_range_def upt_rec)

lemma sample_blob_length: "length (metadata_blob sample_tables) < 4096"
  using sample_root_bits sample_data
  by (simp add: metadata_blob_def write_blob_def bytes_for_def)

lemma sample_tables_fit: "tables_fit sample_tables"
proof -
  have "length (metadata_blob sample_tables) < 2 ^ 32" using sample_blob_length by simp
  then show ?thesis
    by (simp add: tables_fit_def lengths_fit_def)
      (simp add: sample_tables_def DEFAULT_LIST_CAP_def sample_chunks_def inode_fits_def inode_row_def
        sample_inode_def sample_names_def)
qed

lemma sample_writable: "filesystem_writable sample_env [] sample_tables sample_blocks True"
proof -
  have hl: "sized_digests (ev_hash sample_env)" by (simp add: sized_digests_def sample_env_def sample_hash_def)
  have data: "data_sections sample_blocks"
    by (simp add: data_sections_def sample_blocks_def canonical_section_type_iff)
  have "length (encode_schema (metadata_schema sample_tables)) \<le> 2 ^ 20"
    unfolding metadata_schema_def by (rule written_schema_length [OF metadata_slots_fit [OF sample_tables_fit]])
  with sample_blob_length
  have "length (filesystem_image (ev_hash sample_env) [] sample_tables sample_blocks True) < 2 ^ 48"
    by (simp add: filesystem_image_def build_image_sections [OF hl] written_items_def index_item_def
        length_section_image [OF hl] length_index_rows index_rows_of_def filesystem_sections_def
        sample_blocks_def sample_block_def)
  with hl data sample_tables_fit sample_blob_length show ?thesis
    by (simp add: filesystem_writable_def CAP_METADATA_BYTES_def)
qed

definition sample_opened :: image_file where
  "sample_opened = opened_as sample_hash [] (filesystem_sections sample_tables sample_blocks) True"

lemma sample_names_of:
  "names_of [] (Some sample_names) = Inr \<lparr>tb_data = [0x61], tb_offsets = [0, 1]\<rparr>"
  "names_of [] None = Inr \<lparr>tb_data = [], tb_offsets = [0]\<rparr>"
  by (simp_all add: names_of_def sample_names_def decode_string_table_def inclusive_prefix_sum_u32_def windows2_def
    window_bytes_def table_push_def subslice_def u32_try_from_def string_table_of_def String_Table.offsets_of_def Let_def)

lemma sample_filesystem_of_tables:
  "filesystem_of_tables sample_opened sample_tables
    = Inr (sample_fs\<lparr>fs_image := sample_opened,
        fs_block_records := filter (\<lambda>s. sh_section_type (rec_header s) = Block) (img_sections sample_opened),
        fs_symlinks := \<lparr>tb_data = [], tb_offsets = [0]\<rparr>\<rparr>)"
proof -
  have "compute_offsets (mt_inodes sample_tables) (mt_modes sample_tables) 0 = Inr sample_offsets"
    using sample_compute_offsets by (simp add: sample_fs_def sample_tables_def)
  moreover have "build_chunk_ends (mt_chunks sample_tables) (mt_chunk_table sample_tables)
      (mt_hole_block sample_tables) (mt_block_size sample_tables) (mt_large_holes sample_tables) = Inr [3, 5]"
    using sample_chunk_ends by (simp add: sample_fs_def sample_tables_def)
  moreover have "mt_options sample_tables = fs_options_default" "mt_features sample_tables = []"
    "mt_shared_files sample_tables = []" "mt_category_names sample_tables = []"
    by (simp_all add: sample_tables_def)
  ultimately show ?thesis
    by (simp add: filesystem_of_tables_def fs_options_default_def unpack_chunk_table_def unpack_directories_def
        check_features_def categories_of_def)
      (simp add: sample_fs_def sample_tables_def fs_options_default_def sample_names_of)
qed

text \<open>C2: an image written from metadata tables and data sections, with or without an index and behind
  any prefix in which nothing is taken for a section, is opened, and opening the file system on it
  gives exactly the file system of the tables: every table as it was written, whatever the widths of
  its columns, and the same error where the tables are inconsistent.\<close>

theorem filesystem_round_trip:
  assumes "filesystem_writable env prefix t blocks with_index"
  shows "\<exists>im. image_from_vec (filesystem_image (ev_hash env) prefix t blocks with_index) = Inr im
    \<and> img_base_offset im = length prefix
    \<and> filesystem_open env im = Some (filesystem_of_tables im t)"
  using written_filesystem_opens [OF assms] by (simp add: opened_as_def)

theorem filesystem_round_trip_witness:
  "\<exists>im fs. image_from_vec (filesystem_image sample_hash [] sample_tables sample_blocks True) = Inr im
    \<and> filesystem_open sample_env im = Some (Inr fs) \<and> fs_modes fs = [0x41ED, 0x81A4]
    \<and> fs_chunks fs = sample_chunks \<and> fs_chunk_end fs = [3, 5] \<and> fs_inodes fs = [sample_inode 0, sample_inode 1]
    \<and> fs_names fs = \<lparr>tb_data = [0x61], tb_offsets = [0, 1]\<rparr>"
proof -
  have env: "ev_hash sample_env = sample_hash" by (simp add: sample_env_def)
  from written_filesystem_opens(1) [OF sample_writable]
  have im: "image_from_vec (filesystem_image sample_hash [] sample_tables sample_blocks True) = Inr sample_opened"
    by (simp add: env sample_opened_def)
  with filesystem_round_trip [OF sample_writable] show ?thesis
    by (simp add: env sample_filesystem_of_tables sample_fs_def)
qed

text \<open>C1: a file whose chunks lie inside the written data blocks is read back from the bytes of the
  image: \<open>read_file\<close> returns the bytes of the blocks its chunks name, and zeros for holes.\<close>

theorem written_file_reads_back:
  assumes "filesystem_writable env prefix t blocks with_index" "blocks_fit env t blocks"
    and "image_from_vec (filesystem_image (ev_hash env) prefix t blocks with_index) = Inr im"
    and "filesystem_open env im = Some (Inr fs)"
    and "fs_kind fs inode = Inr KRegular" "chunk_range fs inode = Inr (a, b)"
    and "chunks_inside fs (payload_of blocks) a b"
  shows "read_file env fs inode = Some (Inr (file_content fs (payload_of blocks) a b))"
  by (rule read_file_right [OF written_file_readable [OF assms(1-6)] assms(7)])

definition sample_written :: filesystem where
  "sample_written = sample_fs\<lparr>fs_image := sample_opened,
     fs_block_records := filter (\<lambda>s. sh_section_type (rec_header s) = Block) (img_sections sample_opened),
     fs_symlinks := \<lparr>tb_data = [], tb_offsets = [0]\<rparr>\<rparr>"

lemma sample_written_fields:
  "fs_inodes sample_written = fs_inodes sample_fs" "fs_modes sample_written = fs_modes sample_fs"
  "fs_chunks sample_written = fs_chunks sample_fs" "fs_chunk_table sample_written = fs_chunk_table sample_fs"
  "fs_offsets sample_written = fs_offsets sample_fs" "fs_shared_files sample_written = fs_shared_files sample_fs"
  "fs_hole_block_index sample_written = fs_hole_block_index sample_fs" "fs_block_size sample_written = fs_block_size sample_fs"
  "fs_large_hole_size sample_written = fs_large_hole_size sample_fs"
  by (simp_all add: sample_written_def)

lemma sample_written_queries:
  "fs_kind sample_written 1 = Inr KRegular" "chunk_range sample_written 1 = Inr (0, 2)"
proof -
  show "fs_kind sample_written 1 = Inr KRegular"
    using sample_kinds(2) by (simp add: fs_kind_def mode_of_def inode_index_def mode_at_def sample_written_fields)
  show "chunk_range sample_written 1 = Inr (0, 2)"
    by (simp add: chunk_range_def chunk_table_slot_def sample_written_def sample_fs_def sample_offsets_def
        Let_def checked_sub_def sample_chunks_def)
qed

lemma sample_payload_of: "payload_of sample_blocks b = (if b = 0 then sample_block else [])"
  by (simp add: payload_of_def block_payloads_def sample_blocks_def unat_eq_0)

lemma sample_written_inside: "chunks_inside sample_written (payload_of sample_blocks) 0 2"
proof -
  have two: "i < (2 :: nat) \<longleftrightarrow> i = 0 \<or> i = 1" for i by linarith
  have "length (fs_block_records sample_written) = 1"
    by (simp add: sample_written_def sample_opened_def opened_as_def written_items_def index_item_def
        filesystem_sections_def sample_blocks_def)
  then show ?thesis
    unfolding chunks_inside_def two
    by (intro allI impI; elim disjE; simp add: sample_written_fields is_hole_chunk_def; simp add: sample_fs_def sample_chunks_def 
        sample_payload_of sample_block_def)
qed

lemma sample_written_content: "file_content sample_written (payload_of sample_blocks) 0 2 = [20, 30, 40, 0, 0]"
proof -
  have "[0..<2] = [0, 1]" "[0..<3] = [0, 1, 2]" by (simp_all add: upt_rec)
  moreover have "replicate 2 (0 :: byte) = [0, 0]" by (simp add: numeral_2_eq_2)
  ultimately show ?thesis
    by (simp add: file_content_def chunk_bytes_def Let_def is_hole_chunk_def logical_len_def
        logical_of_def chunk_logical_len_def hole_length_def sample_written_fields) (simp add: sample_fs_def sample_chunks_def sample_payload_of
        sample_block_def LARGE_HOLE_SENTINEL_def U32_MAX_def checked_mul64_def checked_add64_def)
qed

theorem written_file_reads_back_witness:
  "image_from_vec (filesystem_image sample_hash [] sample_tables sample_blocks True) = Inr sample_opened
    \<and> filesystem_open sample_env sample_opened = Some (Inr sample_written)
    \<and> read_file sample_env sample_written 1 = Some (Inr [20, 30, 40, 0, 0])"
proof -
  have env: "ev_hash sample_env = sample_hash" "ev_codecs sample_env = sample_codecs" by (simp_all add: sample_env_def)
  note w = written_filesystem_opens [OF sample_writable, unfolded env, folded sample_opened_def]
  have fs: "filesystem_open sample_env sample_opened = Some (Inr sample_written)"
    using w(2) by (simp add: sample_filesystem_of_tables sample_written_def)
  have fit: "blocks_fit sample_env sample_tables sample_blocks"
    using sample_decoders
    by (simp add: blocks_fit_def block_payloads_def sample_blocks_def sample_block_def sample_tables_def env)
  from written_file_reads_back [OF sample_writable fit _ fs sample_written_queries sample_written_inside] w(1) fs
  show ?thesis by (simp add: env sample_written_content)
qed

end
