(* ===== verification/Format_Properties.thy ===== *)
theory Format_Properties
  imports Sample_Image Image_Writer
begin

text \<open>
  The properties of the container format: headers are parsed exactly when they were written by the
  writer, detection finds the first section whichever way the source is read, the sections of an
  opened image tile its bytes, a written image is opened as it was written, and no payload is decoded before its
  hash is checked or beyond its cap. Each property with hypotheses is followed by an instance.
\<close>

subsection \<open>Headers and detection\<close>

text \<open>C14: parsing accepts exactly the images that start with a written header of a supported
  version.\<close>

theorem header_codec:
  "parse_header b off = Inr h
    \<longleftrightarrow> supported_header h \<and> 64 \<le> length b \<and> take 64 b = write_header h"
proof
  assume p: "parse_header b off = Inr h"
  show "supported_header h \<and> 64 \<le> length b \<and> take 64 b = write_header h"
    using parse_header_supported [OF p] parse_header_Inr_length [OF p] write_parse_header [OF p] by simp
next
  assume w: "supported_header h \<and> 64 \<le> length b \<and> take 64 b = write_header h"
  then have "b = write_header h @ drop 64 b" using append_take_drop_id [of 64 b] by simp
  with parse_write_header [of h "drop 64 b" off] w show "parse_header b off = Inr h" by simp
qed

text \<open>C30: detection returns the first position where a supported header is followed by another
  section or the end of the image; it fails only when there is none, with one of two errors.\<close>

theorem detect_finds_first:
  "(detect_base_offset img = Inr p \<longleftrightarrow> accepts img p \<and> (\<forall>q < p. \<not> accepts img q))
    \<and> (detect_base_offset img = Inl err \<longrightarrow>
        (\<forall>q. \<not> accepts img q) \<and> (err = NotADwarfsImage \<or> is_UnsupportedVersion err))"
  using detect_base_offset_Inr detect_base_offset_Inl by blast

lemma sample_embedded_accepts: "accepts (0 # sample_content) 1"
proof -
  have "subslice (0 # sample_content) 1 65 = write_header sample_header"
    by (simp add: sample_content_def subslice_def)
  with sample_parse [of "[]" 1] sample_record_len show ?thesis
    by (simp add: accepts_def follows_a_section_boundary_def checked_add64_def
        record_section_len_def)
qed

theorem detect_finds_first_witness: "detect_base_offset (0 # sample_content) = Inr 1"
proof -
  have "\<not> accepts (0 # sample_content) 0"
    using parse_header_magic_at [of "0 # sample_content" 0]
    by (auto simp: accepts_def magic_at_def MAGIC_def)
  then show ?thesis
    using sample_embedded_accepts
      detect_finds_first [of "0 # sample_content" 1 NotADwarfsImage] by simp
qed

text \<open>C31: scanning a file by positional reads, a window at a time, gives the same answer as scanning
  its bytes in memory, when no section of the file claims a length that overflows 64 bits.\<close>

theorem detect_positional_agrees:
  assumes "length content < 2 ^ 63"
    and "\<And>p h. p + 64 \<le> length content \<Longrightarrow>
           parse_header (subslice content p (p + 64)) p = Inr h \<Longrightarrow> p + section_len h + 6 < 2 ^ 64"
  shows "detect_base_offset_in (file_source (pread_of content) (length content))
    = detect_base_offset content"
  by (rule file_src.detect_in_agrees [OF assms])

lemma sample_embedded_magic:
  assumes "p + 64 \<le> 70" "p \<noteq> 1"
  shows "\<not> magic_at (0 # sample_content) p"
proof -
  have "p \<in> {0, 2, 3, 4, 5, 6}" using assms by auto
  then show ?thesis
    by (elim insertE) (simp_all add: magic_at_def sample_content_def write_header_def sample_header_def MAGIC_def)
qed

theorem detect_positional_agrees_witness:
  "detect_base_offset_in (file_source (pread_of (0 # sample_content)) 70) = Inr 1"
proof -
  let ?c = "0 # sample_content"
  have len: "length ?c = 70" by simp
  have short: "p + section_len h + 6 < 2 ^ 64"
    if "p + 64 \<le> length ?c" "parse_header (subslice ?c p (p + 64)) p = Inr h" for p h
  proof -
    have "p = 1"
      using sample_embedded_magic [of p] parse_header_magic_at [OF that(2)] that(1) by auto
    moreover have "subslice ?c 1 65 = write_header sample_header"
      by (simp add: sample_content_def subslice_def)
    ultimately have "h = sample_header" using that(2) sample_parse [of "[]" 1] by simp
    with \<open>p = 1\<close> show ?thesis using sample_record_len by (simp add: record_section_len_def)
  qed
  have "\<not> accepts ?c 0"
    using sample_embedded_magic [of 0] parse_header_magic_at [of ?c 0] by (auto simp: accepts_def)
  then have "detect_base_offset ?c = Inr 1"
    using sample_embedded_accepts by (simp add: detect_base_offset_Inr)
  moreover have "detect_base_offset_in (file_source (pread_of ?c) (length ?c)) = detect_base_offset ?c"
    by (rule detect_positional_agrees) (use short in auto)
  ultimately show ?thesis by (simp only: len)
qed

text \<open>A length close to the 64-bit limit is where the two scans part: the positional one fails the
  whole detection.\<close>

lemma detect_overflow_diverges:
  assumes "length content < 2 ^ 63" "6 \<le> length content"
    and "p + section_len h < 2 ^ 64" "2 ^ 64 \<le> p + section_len h + 6"
  shows "source_follows_a_section_boundary (file_source (pread_of content) (length content)) p h
      = Inl (SourceOutOfBounds (p + section_len h) 6 (length content))"
    and "\<not> follows_a_section_boundary content p h"
  using file_src.source_follows_overflow [OF assms] assms
  by (auto simp: follows_a_section_boundary_def checked_add64_def)

subsection \<open>Sections of an opened image\<close>

text \<open>C8: the sections of an opened image tile its source: they lie in order, do not overlap, and
  their bytes concatenated are the image from its base offset to the end.\<close>

theorem opened_image_tiles:
  assumes "byte_source s content" "length content < 2 ^ 63" "image_build s = Inr img"
  shows "concat (map (\<lambda>r. subslice content (rec_file_offset r) (rec_file_offset r + record_section_len r))
        (img_sections img)) = drop (img_base_offset img) content
    \<and> sorted_wrt (\<lambda>a b. rec_file_offset a + record_section_len a \<le> rec_file_offset b) (img_sections img)
    \<and> (\<forall>r \<in> set (img_sections img).
        section_bytes img r = Inr (subslice content (rec_file_offset r)
          (rec_file_offset r + record_section_len r)))"
proof -
  have ok: "image_ok img content" by (rule byte_source.image_build_ok [OF assms(1,3,2)])
  then have "tiling content (img_base_offset img) (img_sections img)" by (simp add: image_ok_def)
  from tiling_concat [OF this] tiling_sorted [OF this] image_ok_section_bytes [OF ok]
  show ?thesis by simp
qed

theorem opened_image_tiles_witness:
  "section_bytes sample_image sample_record = Inr sample_content"
proof -
  have "image_build (vec_source sample_content) = Inr sample_image"
    using sample_build by (simp add: image_from_vec_def image_from_source_def)
  from opened_image_tiles [OF vec_src.byte_source_axioms _ this]
  show ?thesis by (simp add: sample_image_def subslice_def)
qed

text \<open>C9: walking the sections fails exactly when some run of complete sections from the base offset
  ends at a fault, and with the error of that fault: too few bytes for a header, a header that does not
  parse, or a section longer than what is left. Where a header would reach beyond the 64-bit range its
  read fails instead.\<close>

theorem walk_reports_first_fault:
  assumes "byte_source s content" "length content < 2 ^ 64"
  shows "walk_sections s base = Inl e
    \<longleftrightarrow> (\<exists>rs stop. tiles_until content base rs stop \<and> section_fault content stop e)"
  unfolding walk_sections_def by (rule byte_source.walk_from_Inl_iff [OF assms])

theorem walk_reports_first_fault_witness:
  "walk_sections (vec_source (sample_content @ [0x44, 0x57])) 0 = Inl (TruncatedHeader 69)"
proof -
  have "subslice (sample_content @ [0x44, 0x57]) 0 64 = write_header sample_header"
    by (simp add: sample_content_def subslice_def)
  with sample_parse [of "[]" 0] sample_record_len
  have "tiles_until (sample_content @ [0x44, 0x57]) 0 [sample_record] 69"
    by (simp add: sample_record_def)
  moreover have "section_fault (sample_content @ [0x44, 0x57]) 69 (TruncatedHeader 69)"
    by (simp add: section_fault_def)
  ultimately have "\<exists>rs stop. tiles_until (sample_content @ [0x44, 0x57]) 0 rs stop
      \<and> section_fault (sample_content @ [0x44, 0x57]) stop (TruncatedHeader 69)" by blast
  then show ?thesis
    by (subst walk_reports_first_fault [OF vec_src.byte_source_axioms]) simp_all
qed

text \<open>C10: checking an opened image succeeds exactly when no section has a mismatch with its header, and
  otherwise reports the number of a section that has one and the hash that failed, the fast hash before
  the slow one: on a sequential build that of the first such section in file order, on a parallel build
  that of any of them.\<close>

theorem verify_reports_mismatch:
  assumes "byte_source s content" "length content < 2 ^ 63" "image_build s = Inr img" "pool_ok pool"
  shows "let found = List.map_filter (section_mismatch hl deep content) (img_sections img) in
    (verify_sections pool hl img deep = Inr () \<longleftrightarrow> found = [])
    \<and> (\<forall>e. verify_sections pool hl img deep = Inl e \<longrightarrow> e \<in> set found)
    \<and> verify_sections None hl img deep = (case found of [] \<Rightarrow> Inr () | e # _ \<Rightarrow> Inl e)"
  using verify_sections_mismatches [OF byte_source.image_build_ok(1) [OF assms(1,3,2)] assms(4)]
  unfolding Let_def by blast

text \<open>A pool that comes to the sections from the end of the file.\<close>

definition backward_pool :: section_loop where
  "backward_pool f rs = try_for_each f (rev rs)"

lemma backward_pool_ok: "pool_ok (Some backward_pool)"
proof -
  have "case try_for_each f (rev rs) of Inr _ \<Rightarrow> \<forall>r \<in> set (rev rs). f r = Inr ()
      | Inl e \<Rightarrow> \<exists>r \<in> set (rev rs). f r = Inl e" for f :: "section_record \<Rightarrow> unit result" and rs
    using try_for_each_some_error unfolding some_error_def by blast
  then show ?thesis unfolding pool_ok_def some_error_def backward_pool_def set_rev by simp
qed

theorem verify_reports_mismatch_witness:
  "verify_sections (Some backward_pool) sample_hash sample_image True = Inr ()
   \<and> verify_sections (Some backward_pool) (sample_hash\<lparr>hl_xxh3_64 := \<lambda>_. 8\<rparr>) sample_image True
      \<noteq> Inr ()
   \<and> verify_sections None (sample_hash\<lparr>hl_sha512_256 := \<lambda>_. []\<rparr>) sample_image True
      = Inl (IntegrityMismatch 0 ''sha512_256'')"
proof -
  have build: "image_build (vec_source sample_content) = Inr sample_image"
    using sample_build by (simp add: image_from_vec_def image_from_source_def)
  have len: "length sample_content < 2 ^ 63" by simp
  note verify = verify_reports_mismatch [OF vec_src.byte_source_axioms len build backward_pool_ok,
      unfolded Let_def]
  have found: "List.map_filter (section_mismatch hl True sample_content) (img_sections sample_image)
      = (if hl_xxh3_64 hl (drop 48 sample_content) \<noteq> 7 then [IntegrityMismatch 0 ''xxh3'']
         else if hl_sha512_256 hl (drop 40 sample_content) \<noteq> replicate 32 3
         then [IntegrityMismatch 0 ''sha512_256''] else [])" for hl
    by (simp add: sample_image_def map_filter_simps section_mismatch_def first_mismatch_def compute_xxh3_def
      compute_sha512_256_def subslice_def) (simp add: sample_header_def)
  show ?thesis
  proof (intro conjI)
    show "verify_sections (Some backward_pool) sample_hash sample_image True = Inr ()"
      unfolding verify [THEN conjunct1] found by (simp add: sample_hash_def)
    show "verify_sections (Some backward_pool) (sample_hash\<lparr>hl_xxh3_64 := \<lambda>_. 8\<rparr>) sample_image True
        \<noteq> Inr ()"
      unfolding verify [THEN conjunct1] found by simp
    show "verify_sections None (sample_hash\<lparr>hl_sha512_256 := \<lambda>_. []\<rparr>) sample_image True
        = Inl (IntegrityMismatch 0 ''sha512_256'')"
      unfolding verify [THEN conjunct2, THEN conjunct2] found by (simp add: sample_hash_def)
  qed
qed

text \<open>The borrowing iterator over the sections of an in-memory image and the walk over a source
  see the same sections, and fail with the same error.\<close>

lemma section_iterator_agrees:
  assumes "length img < 2 ^ 63"
  shows "try_map (\<lambda>x. x) (sections_collect (sections_new img pos))
    = and_then (walk_from (vec_source img) pos) (\<lambda>rs. Inr (map (ref_of_record img) rs))"
  by (rule sections_collect_eq_walk [OF assms])

lemma section_iterator_agrees_witness:
  "try_map (\<lambda>x. x) (sections_collect (sections_new sample_content 0))
    = Inr [ref_of_record sample_content sample_record]"
  using section_iterator_agrees [of sample_content 0]
    vec_src.walk_from_iff [of sample_content 0 "[sample_record]"] sample_tiling by simp

text \<open>An image inside a larger file opens, through a window, exactly as it would on its own,
  whatever surrounds it.\<close>

lemma embedded_image_opens:
  assumes "length pre + length body < 2 ^ 64"
  shows "image_from_window (vec_source (pre @ body @ post)) (length pre) (length body)
    = image_from_vec body"
  using window_of_vec [OF assms, of post]
  by (simp add: image_from_window_def image_from_vec_def)

subsection \<open>Written images\<close>

text \<open>C13: every image the writer of the unit tests builds, with or without a section index and
  behind any prefix in which nothing is taken for a section, is opened: the base is the end of the
  prefix, the sections have the numbers, types and payloads they were written with, the index lists
  each of them at its offset, and all hashes verify. An image written without an index must not end
  in eight bytes that read as an index row.\<close>

theorem written_image_opens:
  assumes "sized_digests hl" "list_all (\<lambda>(n, k, p). canonical_section_type k) body"
    and "length (build_image hl prefix body with_index) < 2 ^ 48"
    and "body \<noteq> [] \<or> with_index"
    and "\<And>q. q < length prefix \<Longrightarrow> \<not> accepts (build_image hl prefix body with_index) q"
    and "with_index \<or> no_index_tail (build_image hl prefix body with_index)"
  shows "\<exists>im. image_from_vec (build_image hl prefix body with_index) = Inr im
    \<and> img_base_offset im = length prefix
    \<and> length (img_sections im) = length body + (if with_index then 1 else 0)
    \<and> list_all2 (\<lambda>r (n, k, p). sh_number (rec_header r) = n \<and> sh_section_type (rec_header r) = k
         \<and> payload_bytes im r = Inr p) (take (length body) (img_sections im)) body
    \<and> map_option si_entries (img_section_index im)
        = (if with_index then Some (map (row_of (length prefix)) (img_sections im)) else None)
    \<and> (\<forall>pool. pool_ok pool \<longrightarrow> verify_deep pool hl im = Inr ())"
proof (intro exI conjI)
  let ?im = "opened_as hl prefix body with_index"
  have len: "length (build_image hl prefix body with_index) < 2 ^ 63" using assms(3) by simp
  show opened: "image_from_vec (build_image hl prefix body with_index) = Inr ?im"
    by (rule written_image_opened [OF assms])
  note all = written_image_sections [OF assms(1,2) len opened refl]
  from list_all2_takeI [OF all, of "length body"]
  show "list_all2 (\<lambda>r (n, k, p). sh_number (rec_header r) = n \<and> sh_section_type (rec_header r) = k
         \<and> payload_bytes ?im r = Inr p) (take (length body) (img_sections ?im)) body"
    unfolding written_items_body by (rule list.rel_mono_strong) auto
  show "\<forall>pool. pool_ok pool \<longrightarrow> verify_deep pool hl ?im = Inr ()"
    using written_image_verifies [OF all] by blast
qed (simp_all add: opened_as_def written_items_def index_rows_are_sections [OF assms(1)])

theorem written_image_opens_witness:
  "\<exists>im. image_from_vec (build_image sample_hash [0x23, 10] [(0, Block, [1, 2, 3]), (1, History, [])] True) = Inr im
    \<and> img_base_offset im = 2 \<and> length (img_sections im) = 3
    \<and> verify_deep None sample_hash im = Inr ()"
proof -
  let ?body = "[(0, Block, [1, 2, 3]), (1, History, [])]" and ?prefix = "[0x23, 10] :: bytes"
  let ?img = "build_image sample_hash ?prefix ?body True"
  have hl: "sized_digests sample_hash" by (simp add: sized_digests_def sample_hash_def)
  have img: "?img = [0x23, 10] @ section_images sample_hash (written_items sample_hash ?prefix ?body True)"
    by (rule build_image_sections [OF hl])
  have len: "length ?img < 2 ^ 48"
    by (simp add: img written_items_def index_item_def length_section_image [OF hl] length_index_rows
        index_rows_of_def)
  have "\<not> magic_at ?img 0" "\<not> magic_at ?img 1"
    unfolding img by (simp_all add: magic_at_def MAGIC_def)
  then have "\<not> accepts ?img q" if "q < length ?prefix" for q
    using that parse_header_magic_at [of ?img q] by (cases "q = 0"; cases "q = 1") (auto simp: accepts_def)
  from written_image_opens [OF hl _ len _ this] show ?thesis
    by (auto simp: canonical_section_type_iff)
qed

subsection \<open>Payloads\<close>

text \<open>C5: no byte of a section of an opened image reaches a codec before the section's hash has been
  checked: on a mismatch both decoding routes report it, and only otherwise do they decode, and what
  they decode is the payload stored behind the header.\<close>

theorem decode_after_hash:
  assumes "byte_source s content" "length content < 2 ^ 63" "image_build s = Inr img"
    and "r \<in> set (img_sections img)"
  shows "let section = subslice content (rec_file_offset r) (rec_file_offset r + record_section_len r);
             payload = subslice content (rec_file_offset r + 64) (rec_file_offset r + record_section_len r) in
    length payload = unat (sh_payload_len (rec_header r))
    \<and> decompress_section ft cl hl img r cap
      = (if compute_xxh3 hl section = sh_xxh3_64 (rec_header r)
         then decompress ft cl (sh_compression (rec_header r)) payload cap
         else Inl (IntegrityMismatch (sh_number (rec_header r)) ''xxh3''))
    \<and> decompress_section_prefix ft cl hl img r needed
      = (if compute_xxh3 hl section = sh_xxh3_64 (rec_header r)
         then decompress_prefix ft cl (sh_compression (rec_header r)) payload needed
         else Inl (IntegrityMismatch (sh_number (rec_header r)) ''xxh3''))"
proof -
  have ok: "image_ok img content" by (rule byte_source.image_build_ok [OF assms(1,3,2)])
  note bytes = image_ok_section_bytes [OF ok assms(4)]
  have payload: "drop 64 (subslice content (rec_file_offset r) (rec_file_offset r + record_section_len r))
      = subslice content (rec_file_offset r + 64) (rec_file_offset r + record_section_len r)"
    by (simp add: subslice_def drop_take add.commute)
  show ?thesis
    using decompress_section_corrupt [OF bytes] image_ok_payload_bytes(3) [OF ok assms(4) bytes, unfolded HEADER_LEN_def payload] bytes
    unfolding Let_def
    by (simp add: decompress_section_def decompress_section_prefix_def verify_xxh3_def payload)
qed
theorem decode_after_hash_witness:
  "decompress_section sample_features sample_codecs (sample_hash\<lparr>hl_xxh3_64 := \<lambda>_. 8\<rparr>)
     sample_image sample_record 16 = Inl (IntegrityMismatch 0 ''xxh3'')
   \<and> decompress_section sample_features sample_codecs sample_hash sample_image sample_record 16
     = decompress sample_features sample_codecs (sh_compression sample_header) sample_block 16"
proof -
  have build: "image_build (vec_source sample_content) = Inr sample_image"
    using sample_build by (simp add: image_from_vec_def image_from_source_def)
  have sec: "sample_record \<in> set (img_sections sample_image)" "length sample_content < 2 ^ 63"
    by (simp_all add: sample_image_def)
  have payload: "subslice sample_content 64 69 = sample_block"
    by (simp add: sample_content_def subslice_def sample_block_def)
  show ?thesis
    using decode_after_hash [OF vec_src.byte_source_axioms sec(2) build sec(1), of sample_features sample_codecs
      "sample_hash\<lparr>hl_xxh3_64 := \<lambda>_. 8\<rparr>" 16]
     decode_after_hash [OF vec_src.byte_source_axioms sec(2) build sec(1), of sample_features sample_codecs
      sample_hash 16]
    by (simp add: compute_xxh3_def payload Let_def) (simp add: sample_header_def sample_hash_def)
qed

text \<open>C32: whatever the payload claims, a decoder never returns more bytes than its cap.\<close>

theorem decode_within_cap:
  assumes "one_shot_bounded cl" "cap < 2 ^ 64 - 1" "decompress ft cl codec src cap = Inr out"
  shows "length out \<le> cap"
  by (rule decompress_within_cap [OF assms])

definition stream_codecs :: codec_lib where
  "stream_codecs = sample_codecs\<lparr>cl_xz_output := \<lambda>_. [Chunk [1, 2], Chunk [3, 4]]\<rparr>"

lemma stream_collects:
  "xz_into_capped [Chunk [1, 2], Chunk [3, 4]] (capped_new 16) = Inr \<lparr>cw_buf = [1, 2, 3, 4], cw_cap = 16\<rparr>"
  by (simp add: capped_new_def capped_write_def saturating_add64_def)

lemma stream_decode: "decompress sample_features stream_codecs Lzma [0] 16 = Inr [1, 2, 3, 4]"
  by (simp add: decompress_def lzma_decompress_def sample_features_def lzma_rs_decompress_def
      stream_collects stream_codecs_def del: xz_into_capped.simps)

theorem decode_within_cap_witness:
  "\<exists>out. decompress sample_features stream_codecs Lzma [0] 16 = Inr out \<and> length out \<le> 16"
proof -
  have "one_shot_bounded stream_codecs"
    by (simp add: one_shot_bounded_def stream_codecs_def sample_codecs_def)
  from decode_within_cap [OF this _ stream_decode] have "length [1 :: byte, 2, 3, 4] \<le> 16" by simp
  with stream_decode show ?thesis by blast
qed

text \<open>C33: decoding a prefix gives the beginning of what decoding everything gives, or is declined
  for the codec.\<close>

theorem prefix_of_full_decode:
  assumes "decoders_consistent cl src" "needed \<le> cap" "cap < 2 ^ 64 - 1"
    and "decompress ft cl codec src cap = Inr out"
  shows "decompress_prefix ft cl codec src needed = Inr None
    \<or> decompress_prefix ft cl codec src needed = Inr (Some (take needed out))"
  by (rule decompress_prefix_agrees [OF assms])

theorem prefix_of_full_decode_witness:
  "decompress_prefix sample_features stream_codecs Lzma [0] 3 = Inr (Some [1, 2, 3])"
proof -
  have "decoders_consistent stream_codecs [0]"
    by (simp add: decoders_consistent_def stream_codecs_def sample_codecs_def)
  from prefix_of_full_decode [OF this _ _ stream_decode, of 3] show ?thesis
    by (auto simp: decompress_prefix_def sample_features_def numeral_3_eq_3 result_simps)
qed

text \<open>The native lzma route cuts an oversized stream off at the cap and reports success, where
  the pure-Rust route reports an error.\<close>

lemma native_lzma_cuts_off:
  assumes "delivered (cl_liblzma_decoder cl src) = (bs, None)" "ft_lzma ft" "ft_lzma_native ft"
  shows "decompress ft cl Lzma src cap = Inr (take cap bs)"
  using native_lzma_truncates [OF assms(3,1), of cap] assms(2,3) by (simp add: decompress_def)

lemma native_lzma_cuts_off_witness:
  "decompress (sample_features\<lparr>ft_lzma_native := True\<rparr>)
     (sample_codecs\<lparr>cl_liblzma_decoder := \<lambda>_. [Chunk [1, 2], Chunk [3]]\<rparr>) Lzma [0] 2 = Inr [1, 2]"
  using native_lzma_cuts_off [of "sample_codecs\<lparr>cl_liblzma_decoder := \<lambda>_. [Chunk [1, 2], Chunk [3]]\<rparr>"
      "[0]" "[1, 2, 3]" "sample_features\<lparr>ft_lzma_native := True\<rparr>" 2]
  by (simp add: sample_features_def numeral_2_eq_2)

end
