(* ===== verification/Fsst_Encoding.thy ===== *)
theory Fsst_Encoding
  imports Fsst "HOL-Library.Multiset"
begin

text \<open>
  The writer of symbol tables that the unit tests of \<open>src/src/metadata/fsst.rs\<close> use
  (\<open>build_test_blob\<close>), and the proof that the parser reads every table it writes back: the codes
  number the symbols by length, two to eight bytes and then one, and a sequence of codes decodes to
  the symbols it names.
\<close>

definition symbols_of_len :: "bytes list \<Rightarrow> nat \<Rightarrow> bytes list" where
  "symbols_of_len symbols want = filter (\<lambda>s. length s = want) symbols"

definition count_symbol :: "bytes \<Rightarrow> bytes \<Rightarrow> bytes" where
  "count_symbol histo s = histo[length s - 1 := histo ! (length s - 1) + 1]"

definition build_test_blob :: "bytes list \<Rightarrow> bytes" where
  "build_test_blob symbols =
     (let histo = foldl count_symbol (replicate 8 0) symbols;
          version = push_bit 32 (ucast FSST_VERSION) :: u64
      in to_le_bytes version @ [0] @ histo
         @ concat (map (\<lambda>l. concat (symbols_of_len symbols (l mod 8 + 1))) [1..<9]))"

text \<open>The symbols in the order of their codes.\<close>

definition code_order :: "bytes list \<Rightarrow> bytes list" where
  "code_order symbols = concat (map (\<lambda>l. symbols_of_len symbols (l mod 8 + 1)) [1..<9])"

text \<open>The symbols the histogram has room for: one to eight bytes, 256 in all, and at most 255 of a length.\<close>

definition encodable :: "bytes list \<Rightarrow> bool" where
  "encodable symbols \<longleftrightarrow>
     list_all (\<lambda>s. s \<noteq> [] \<and> length s \<le> 8) symbols \<and> length symbols \<le> 256
     \<and> (\<forall>k \<le> 8. length (symbols_of_len symbols k) < 256)"

subsection \<open>A written table is read back\<close>

lemma histogram_counts:
  "list_all (\<lambda>s. s \<noteq> [] \<and> length s \<le> 8) symbols \<Longrightarrow> length histo = 8 \<Longrightarrow> i < 8 \<Longrightarrow>
   length (foldl count_symbol histo symbols) = 8
   \<and> foldl count_symbol histo symbols ! i = histo ! i + word_of_nat (length (symbols_of_len symbols (Suc i)))"
proof (induction symbols arbitrary: histo)
  case Nil
  then show ?case by (simp add: symbols_of_len_def)
next
  case (Cons s symbols)
  from Cons.prems have "length s - 1 < 8" "length s = Suc (length s - 1)" by (cases s; auto)+
  with Cons.IH [of "count_symbol histo s"] Cons.prems show ?case
    by (auto simp: count_symbol_def symbols_of_len_def nth_list_update)
qed

text \<open>The parser, after it has taken the symbols \<open>syms\<close>.\<close>

definition spans_of :: "bytes list \<Rightarrow> (nat \<times> nat) list" where
  "spans_of syms = map (\<lambda>i. if i < length syms then (length (concat (take i syms)), length (syms ! i)) else (0, 0))
     [0..<256]"

definition parse_state :: "bytes list \<Rightarrow> fsst_parse_state" where
  "parse_state syms =
     \<lparr>fp_symbols = concat syms, fp_spans = spans_of syms, fp_code = length syms,
      fp_pos = FSST_HEADER_LEN + length (concat syms)\<rparr>"

lemma spans_of_snoc:
  assumes "length syms < 256"
  shows "(spans_of syms)[length syms := (length (concat syms), length s)] = spans_of (syms @ [s])"
  using assms by (intro nth_equalityI) (auto simp: spans_of_def nth_list_update nth_append)

lemma take_symbol_state:
  assumes "bs = hdr @ concat (syms @ s # us) @ rest" "length hdr = FSST_HEADER_LEN"
    and "length (syms @ s # us) \<le> 256" "length bs < 2 ^ 64" "length (concat syms) < 2 ^ 32"
  shows "fsst_take_symbol bs (length s) (parse_state syms) = Inr (parse_state (syms @ [s]))"
proof -
  let ?pos = "FSST_HEADER_LEN + length (concat syms)"
  have sub: "subslice bs ?pos (?pos + length s) = s"
    using subslice_append_at [of "length s" s "hdr @ concat syms" "concat us @ rest"] assms(1,2)
    by simp
  have "?pos + length s \<le> length bs" using assms(1,2) by simp
  moreover have "length syms < 256" using assms(3) by simp
  ultimately show ?thesis
    using sub assms(4,5) spans_of_snoc [of syms s]
    by (simp add: fsst_take_symbol_def parse_state_def NUM_CODES_def checked_add64_def
        u32_try_from_def unat_of_nat)
qed

lemma take_symbols_state:
  assumes "length hdr = FSST_HEADER_LEN" "length bs < 2 ^ 32"
  shows "list_all (\<lambda>s. length s = k) ss \<Longrightarrow> bs = hdr @ concat (syms @ ss @ us) @ rest \<Longrightarrow>
    length (syms @ ss @ us) \<le> 256 \<Longrightarrow>
    fsst_take_symbols bs k (length ss) (parse_state syms) = Inr (parse_state (syms @ ss))"
proof (induction ss arbitrary: syms)
  case Nil
  then show ?case by simp
next
  case (Cons s ss)
  have "fsst_take_symbol bs (length s) (parse_state syms) = Inr (parse_state (syms @ [s]))"
    using Cons.prems assms by (intro take_symbol_state [of bs hdr syms s "ss @ us" rest]) auto
  with Cons.IH [of "syms @ [s]"] Cons.prems show ?case by simp
qed

lemma take_slots_state:
  assumes "length hdr = FSST_HEADER_LEN" "length bs < 2 ^ 32"
    and grp: "\<And>l. list_all (\<lambda>s. length s = l mod 8 + 1) (grp l)"
  shows "(\<And>l. l \<in> set ls \<Longrightarrow> histo ! (l mod 8) = length (grp l)) \<Longrightarrow>
    bs = hdr @ concat (syms @ concat (map grp ls)) @ rest \<Longrightarrow>
    length (syms @ concat (map grp ls)) \<le> 256 \<Longrightarrow>
    fsst_take_slots bs histo ls (parse_state syms) = Inr (parse_state (syms @ concat (map grp ls)))"
proof (induction ls arbitrary: syms)
  case Nil
  then show ?case by simp
next
  case (Cons l ls)
  have "fsst_take_symbols bs (l mod 8 + 1) (length (grp l)) (parse_state syms)
      = Inr (parse_state (syms @ grp l))"
    by (rule take_symbols_state [OF assms(1,2) grp, where syms = syms and us = "concat (map grp ls)" and rest = rest])
      (use Cons.prems in simp_all)
  with Cons.IH [of "syms @ grp l"] Cons.prems show ?case by (simp add: Let_def)
qed

definition table_of :: "bytes list \<Rightarrow> sym_table" where
  "table_of syms = \<lparr>st_symbols = concat syms, st_spans = spans_of syms, st_zero_terminated = False\<rparr>"

lemma symbol_table_of:
  assumes "length syms \<le> 256"
  shows "symbol (table_of syms) c = (if unat c < length syms then syms ! unat c else [])"
proof (cases "unat c < length syms")
  case True
  let ?i = "unat c"
  have "syms = take ?i syms @ syms ! ?i # drop (Suc ?i) syms" using True by (rule id_take_nth_drop)
  then have "concat syms = concat (take ?i syms) @ syms ! ?i @ concat (drop (Suc ?i) syms)"
    by (metis concat_append concat.simps(2))
  with True unat_byte_less [of c] show ?thesis
    by (simp add: symbol_def table_of_def spans_of_def subslice_append_at)
next
  case False
  with unat_byte_less [of c] show ?thesis by (simp add: symbol_def table_of_def spans_of_def)
qed


lemma count_by_length:
  "distinct ks \<Longrightarrow> count (mset (concat (map (symbols_of_len symbols) ks))) x
    = (if length x \<in> set ks then count (mset symbols) x else 0)"
  by (induction ks) (auto simp: symbols_of_len_def mset_filter)

lemma code_order_symbols:
  assumes "list_all (\<lambda>s. s \<noteq> [] \<and> length s \<le> 8) symbols"
  shows "mset (code_order symbols) = mset symbols"
proof (rule multiset_eqI)
  fix x
  have order: "code_order symbols = concat (map (symbols_of_len symbols) (map (\<lambda>l. l mod 8 + 1) [1..<9]))"
    by (simp add: code_order_def comp_def)
  have lens: "map (\<lambda>l. l mod 8 + 1) [1..<9] = [2, 3, 4, 5, 6, 7, 8, 1]" by code_simp
  have "x \<in> set symbols \<Longrightarrow> x \<noteq> [] \<and> length x \<le> 8"
    using assms by (simp add: list_all_iff)
  moreover have "n \<noteq> 0 \<Longrightarrow> n \<le> 8 \<Longrightarrow> n \<in> {1, 2, 3, 4, 5, 6, 7, 8}" for n :: nat
    by simp presburger
  ultimately have "x \<in> set symbols \<Longrightarrow> length x \<in> {1, 2, 3, 4, 5, 6, 7, 8}"
    by (metis length_0_conv)
  then have "length x \<in> set [2, 3, 4, 5, 6, 7, 8, 1] \<or> count (mset symbols) x = 0"
    by (auto simp: count_mset_0_iff)
  then show "count (mset (code_order symbols)) x = count (mset symbols) x"
    unfolding order lens using count_by_length [of "[2, 3, 4, 5, 6, 7, 8, 1]" symbols x]
    by auto
qed

lemma length_build_test_blob:
  assumes "list_all (\<lambda>s. s \<noteq> [] \<and> length s \<le> 8) symbols"
  shows "length (build_test_blob symbols) = FSST_HEADER_LEN + length (concat (code_order symbols))"
proof -
  have "length (concat (map (\<lambda>l. concat (symbols_of_len symbols (l mod 8 + 1))) ls))
      = length (concat (concat (map (\<lambda>l. symbols_of_len symbols (l mod 8 + 1)) ls)))" for ls
    by (induction ls) auto
  then show ?thesis
    using histogram_counts [OF assms, of "replicate 8 0" 0]
    unfolding build_test_blob_def Let_def code_order_def by (simp add: FSST_HEADER_LEN_def del: upt_Suc)
qed

lemma symbol_table_read_back:
  assumes enc: "encodable symbols" and len: "length (build_test_blob symbols @ rest) < 2 ^ 32"
  shows "sym_table_parse (build_test_blob symbols @ rest)
    = Inr (table_of (code_order symbols), length (build_test_blob symbols))"
proof -
  let ?histo = "foldl count_symbol (replicate 8 0) symbols"
  let ?version = "push_bit 32 (ucast FSST_VERSION) :: u64"
  let ?hdr = "to_le_bytes ?version @ [0] @ ?histo"
  let ?bs = "build_test_blob symbols @ rest"
  let ?grp = "\<lambda>l. symbols_of_len symbols (l mod 8 + 1)"
  have order: "length (code_order symbols) \<le> 256"
    using enc mset_eq_length [OF code_order_symbols, of symbols] by (simp add: encodable_def)
  have hist: "length ?histo = 8" "\<And>i. i < 8 \<Longrightarrow> unat (?histo ! i) = length (symbols_of_len symbols (Suc i))"
  proof -
    have ok: "list_all (\<lambda>s. s \<noteq> [] \<and> length s \<le> 8) symbols" using enc by (simp add: encodable_def)
    show "length ?histo = 8" using histogram_counts [OF ok, of "replicate 8 0" 0] by simp
    fix i :: nat assume i: "i < 8"
    then have "length (symbols_of_len symbols (Suc i)) < 256" using enc by (simp add: encodable_def)
    with histogram_counts [OF ok _ i, of "replicate 8 0"] i
    show "unat (?histo ! i) = length (symbols_of_len symbols (Suc i))" by (simp add: unat_of_nat)
  qed
  have concat_grp: "concat (map (\<lambda>l. concat (?grp l)) ls) = concat (concat (map ?grp ls))" for ls
    by (induction ls) auto
  have bs: "?bs = ?hdr @ concat (code_order symbols) @ rest"
    unfolding build_test_blob_def Let_def code_order_def concat_grp by simp
  have hdr: "length ?hdr = FSST_HEADER_LEN" using hist(1) by (simp add: FSST_HEADER_LEN_def)
  have v: "ucast (drop_bit 32 (from_le_bytes (subslice ?bs 0 8) :: u64)) = FSST_VERSION"
    using subslice_append_at [of 8 "to_le_bytes ?version" "[]"] by (simp add: bs FSST_VERSION_def)
  have z: "?bs ! 8 = 0" by (simp add: bs nth_append)
  have h: "subslice ?bs 9 17 = ?histo"
    using hist(1) subslice_append_at [of 8 ?histo "to_le_bytes ?version @ [0]"] by (simp add: bs)
  have init: "\<lparr>fp_symbols = [], fp_spans = replicate NUM_CODES (0, 0), fp_code = 0, fp_pos = FSST_HEADER_LEN\<rparr>
      = parse_state []"
    by (auto simp: parse_state_def spans_of_def NUM_CODES_def intro!: nth_equalityI)
  have "fsst_take_slots ?bs (map unat ?histo) [1..<9] (parse_state []) = Inr (parse_state ([] @ code_order symbols))"
    unfolding code_order_def
  proof (rule take_slots_state [OF hdr len])
    show "list_all (\<lambda>s. length s = l mod 8 + 1) (?grp l)" for l
      by (simp add: symbols_of_len_def list_all_iff)
    show "map unat ?histo ! (l mod 8) = length (?grp l)" for l
      using hist(1) hist(2) [of "l mod 8"] by simp
    show "?bs = ?hdr @ concat ([] @ concat (map ?grp [1..<9])) @ rest"
      unfolding bs code_order_def by simp
    show "length ([] @ concat (map ?grp [1..<9])) \<le> 256"
      using order unfolding code_order_def by simp
  qed
  then have slots: "fsst_take_slots ?bs (map unat ?histo) [1..<9]
      \<lparr>fp_symbols = [], fp_spans = replicate NUM_CODES (0, 0), fp_code = 0, fp_pos = FSST_HEADER_LEN\<rparr>
      = Inr (parse_state (code_order symbols))" unfolding init by simp
  have used: "length (build_test_blob symbols) = FSST_HEADER_LEN + length (concat (code_order symbols))"
    using enc by (intro length_build_test_blob) (simp add: encodable_def)
  have "\<not> length ?bs < FSST_HEADER_LEN" using used by simp
  then show ?thesis
    unfolding sym_table_parse_def Let_def v z h
    by (simp add: slots [unfolded One_nat_def] used del: upt_Suc) (simp add: parse_state_def table_of_def)
qed

lemma code_order_decodes:
  assumes enc: "encodable symbols" and idx: "\<forall>i \<in> set idx. i < length symbols \<and> i < 255"
  shows "decode_to_vec (table_of (code_order symbols)) (map word_of_nat idx)
    = Inr (concat (map (\<lambda>i. code_order symbols ! i) idx))"
proof -
  let ?t = "table_of (code_order symbols)"
  have ok: "list_all (\<lambda>s. s \<noteq> [] \<and> length s \<le> 8) symbols" using enc by (simp add: encodable_def)
  have perm: "mset (code_order symbols) = mset symbols" by (rule code_order_symbols [OF ok])
  have len: "length (code_order symbols) = length symbols" by (rule mset_eq_length [OF perm])
  have sym: "symbol ?t (word_of_nat i) = code_order symbols ! i \<and> usable_token ?t (Code (word_of_nat i))"
    if "i \<in> set idx" for i
  proof -
    have i: "i < length symbols" "i < 255" using idx that by auto
    have u: "unat (word_of_nat i :: byte) = i" using i(2) by (simp add: unat_of_nat)
    have s: "symbol ?t (word_of_nat i) = code_order symbols ! i"
      using symbol_table_of [of "code_order symbols"] enc len i(1) u by (simp add: encodable_def)
    have "code_order symbols ! i \<in> set symbols"
      using i(1) len mset_eq_setD [OF perm] nth_mem by metis
    moreover have "(word_of_nat i :: byte) \<noteq> FSST_ESC"
    proof
      assume "word_of_nat i = FSST_ESC"
      then have "unat (word_of_nat i :: byte) = 255" by (simp add: FSST_ESC_def)
      with u i(2) show False by simp
    qed
    ultimately show ?thesis using s ok by (auto simp: usable_token_def list_all_iff)
  qed
  have "decode_to_vec ?t (concat (map token_bytes (map (\<lambda>i. Code (word_of_nat i)) idx)))
      = Inr (concat (map (token_text ?t) (map (\<lambda>i. Code (word_of_nat i)) idx)))"
    by (rule fsst_decode_tokens) (use sym in auto)
  moreover have "concat (map (token_text ?t) (map (\<lambda>i. Code (word_of_nat i)) idx))
      = concat (map (\<lambda>i. code_order symbols ! i) idx)"
    using sym by (induction idx) auto
  moreover have "concat (map token_bytes (map (\<lambda>i. Code (word_of_nat i)) idx)) = map word_of_nat idx"
    by (induction idx) auto
  ultimately show ?thesis by simp
qed

end
