(* ===== verification/Metadata_Properties.thy ===== *)
theory Metadata_Properties
  imports Model Schema_Encoding Fsst_Encoding
begin

text \<open>
  The properties of the metadata decoders: every encoded schema is read back, the
  recursive parsers return on every input, bit-packed reads give the bits of the buffer, symbol
  tables and string tables decode to what was encoded, and no list exceeds its bound.
\<close>

subsection \<open>The schema and the history\<close>

definition demo_schema :: schema where
  "demo_schema =
     \<lparr>sc_file_version = 1, sc_relax_type_checks = True,
      sc_layouts =
        [(1, \<lparr>ly_size = 4, ly_bits = 0, ly_fields = [(7, \<lparr>fl_layout_id = 2, fl_offset = - 3\<rparr>)],
              ly_type_name = [0x64, 0x65, 0x6D, 0x6F]\<rparr>),
         (2, \<lparr>ly_size = 0, ly_bits = 5, ly_fields = [], ly_type_name = [0x69, 0x33, 0x32]\<rparr>)],
      sc_root_layout = 1\<rparr>"

lemma demo_schema_fits: "schema_fits demo_schema"
  by (simp add: demo_schema_def schema_fits_def layout_fits_def i16_map_def field_fits_def i16_def
      i32_def)

lemma demo_schema_length: "length (encode_schema demo_schema) = 37"
  by code_simp

text \<open>C15: the schema parser reads every encoded schema back: the version, the root and the flag,
  every layout under its id, with its size, bit width and type name and every field's layout and
  offset. What follows the encoding does not matter, and nothing in it is skipped or defaulted
  that the encoder did not leave out.\<close>

theorem schema_round_trip:
  assumes "schema_fits s" "length (encode_schema s) < 2 ^ 64"
  shows "schema_parse (encode_schema s @ rest) = Some (Inr s)"
  using assms by (rule schema_encoding_parses)

theorem schema_round_trip_witness:
  "schema_parse (encode_schema demo_schema @ [7, 0]) = Some (Inr demo_schema)
    \<and> map_option ly_bits (map_of (sc_layouts demo_schema) 2) = Some 5"
  using schema_round_trip [OF demo_schema_fits] demo_schema_length by (simp add: demo_schema_def)

text \<open>C36: the schema and the history parser return on every input, however its structures nest:
  every recursive step consumes a byte.\<close>

theorem metadata_parsers_return:
  "(\<exists>r. schema_parse bs = Some r) \<and> (\<exists>r. history_parse bs = Some r)"
  using schema_parse_returns [of bs] history_parse_returns [of bs] by auto

text \<open>Skipping a value of any type returns, and leaves the reader further on in the same bytes
  and the same frame of field ids.\<close>

lemma skip_value_moves_on:
  "case skip_value t r of
     None \<Rightarrow> False
   | Some (Inl e) \<Rightarrow> True
   | Some (Inr (u, r')) \<Rightarrow> advances r r' \<and> same_frame r r'"
  using skip_value_returns [of t r] skip_value_progress [of t r]
  by (auto split: option.split sum.split)

subsection \<open>Bit-packed reads\<close>

text \<open>C37: reading a field of up to 64 bits gives those bits of the buffer, least significant first,
  and sign-extends them for a signed field, whatever the bytes around them hold.\<close>

theorem bit_reads_exact:
  assumes "0 < n" "n \<le> 64" "off + n \<le> bit_len bs" "bit_len bs < 2 ^ 64"
  shows "read_u64 bs off n = Inr (bits_at bs off n)
    \<and> Bitbuf.read_i64 bs off n = Inr (signed_take_bit (n - 1) (int (bits_at bs off n)))"
  using read_u64_eq [OF assms(2-4)] read_i64_eq [OF assms] by simp

theorem bit_reads_exact_witness:
  "read_u64 [0xF0, 0x01] 4 5 = Inr 31 \<and> Bitbuf.read_i64 [0xF0, 0x01] 4 5 = Inr (- 1)"
  using bit_reads_exact [of 5 4 "[0xF0, 0x01]"]
  by (simp add: bits_at_def bit_len_def)

subsection \<open>Strings\<close>

text \<open>C38: decoding a compressed string succeeds exactly on the byte strings that are sequences of
  table codes and escaped literals, and gives the text they stand for.\<close>

theorem fsst_decodes_tokens:
  "decode_to_vec t bs = Inr res \<longleftrightarrow>
     (\<exists>toks. set toks \<subseteq> {tok. usable_token t tok} \<and> bs = concat (map token_bytes toks)
        \<and> res = concat (map (token_text t) toks))"
  unfolding fsst_decode_iff by (metis mem_Collect_eq subset_eq)

text \<open>C39: a symbol table written by the test writer is parsed to exactly its symbols, numbered by
  length, and what follows it is left alone; every code of the table stands for its symbol, every
  other for none, and a sequence of codes below the escape decodes to the symbols it names.\<close>

theorem symbol_table_round_trip:
  assumes "encodable symbols" "length (build_test_blob symbols @ rest) < 2 ^ 32"
  shows "\<exists>t. sym_table_parse (build_test_blob symbols @ rest) = Inr (t, length (build_test_blob symbols))
    \<and> mset (code_order symbols) = mset symbols
    \<and> (\<forall>c. symbol t c = (if unat c < length symbols then code_order symbols ! unat c else []))
    \<and> (\<forall>codes. set codes \<subseteq> {..<min 255 (length symbols)} \<longrightarrow>
         decode_to_vec t (map word_of_nat codes) = Inr (concat (map (\<lambda>i. code_order symbols ! i) codes)))"
proof -
  have perm: "mset (code_order symbols) = mset symbols"
    using assms(1) by (intro code_order_symbols) (simp add: encodable_def)
  have len: "length (code_order symbols) = length symbols" by (rule mset_eq_length [OF perm])
  show ?thesis
  proof (intro exI conjI allI impI)
    show "sym_table_parse (build_test_blob symbols @ rest)
        = Inr (table_of (code_order symbols), length (build_test_blob symbols))"
      by (rule symbol_table_read_back [OF assms])
    show "symbol (table_of (code_order symbols)) c
        = (if unat c < length symbols then code_order symbols ! unat c else [])" for c
      using symbol_table_of [of "code_order symbols"] assms(1) len by (simp add: encodable_def)
    show "decode_to_vec (table_of (code_order symbols)) (map word_of_nat codes)
        = Inr (concat (map (\<lambda>i. code_order symbols ! i) codes))"
      if "set codes \<subseteq> {..<min 255 (length symbols)}" for codes
      using that by (intro code_order_decodes [OF assms(1)]) auto
  qed (rule perm)
qed

theorem symbol_table_round_trip_witness:
  "\<exists>t. sym_table_parse (build_test_blob [[0x71], [0x61, 0x62], [0x63, 0x64]]) = Inr (t, 22)
    \<and> decode_to_vec t [0, 1, 2] = Inr [0x61, 0x62, 0x63, 0x64, 0x71]"
proof -
  let ?s = "[[0x71], [0x61, 0x62], [0x63, 0x64]] :: bytes list"
  have enc: "encodable ?s" by (simp add: encodable_def symbols_of_len_def)
  have order: "code_order ?s = [[0x61, 0x62], [0x63, 0x64], [0x71]]" by code_simp
  have len: "length (build_test_blob ?s) = 22"
    using enc by (subst length_build_test_blob) (simp_all add: encodable_def order FSST_HEADER_LEN_def)
  have small: "length (build_test_blob ?s @ []) < 2 ^ 32" by (simp add: len)
  from symbol_table_round_trip [OF enc small] obtain t where
    t: "sym_table_parse (build_test_blob ?s @ []) = Inr (t, length (build_test_blob ?s))"
    and decode: "\<forall>codes. set codes \<subseteq> {..<min 255 (length ?s)} \<longrightarrow>
         decode_to_vec t (map word_of_nat codes) = Inr (concat (map (\<lambda>i. code_order ?s ! i) codes))"
    by blast
  have "set [0, 1, 2] \<subseteq> {..<min 255 (length ?s)}" by simp
  with decode have "decode_to_vec t (map word_of_nat [0, 1, 2])
      = Inr (concat (map (\<lambda>i. code_order ?s ! i) [0, 1, 2]))" by blast
  then have "decode_to_vec t [0, 1, 2] = Inr [0x61, 0x62, 0x63, 0x64, 0x71]" by (simp add: order)
  with t len show ?thesis by (intro exI [of _ t]) simp
qed

text \<open>C40: a string table serialised as a buffer with its offsets, plain or packed as deltas, is
  decoded to the strings it was made of.\<close>

theorem string_table_round_trip:
  assumes "length (concat ss) < 2 ^ 32" "ss \<noteq> []"
  shows "\<exists>t. decode_string_table (concat ss) None (offsets_of ss) False = Inr t
    \<and> decode_string_table (concat ss) None (deltas (offsets_of ss)) True = Inr t
    \<and> table_iter t = ss \<and> (\<forall>i. table_get t i = (if i < length ss then Some (ss ! i) else None))"
proof -
  from decode_serialized_table [OF assms] obtain t
    where t: "decode_string_table (concat ss) None (offsets_of ss) False = Inr t" "represents t ss" by blast
  have "offsets_of ss \<noteq> []" "hd (offsets_of ss) = 0"
    by (simp_all add: offsets_of_def del: upt_Suc add: upt_conv_Cons)
  from decode_string_table_packed [OF this, of "concat ss" None] t represents_get [OF t(2)]
    represents_iter [OF t(2)] show ?thesis by auto
qed

theorem string_table_round_trip_witness:
  "\<exists>t. decode_string_table [0x61, 0x62, 0x63] None (offsets_of [[0x61], [], [0x62, 0x63]]) False = Inr t
    \<and> table_get t 2 = Some [0x62, 0x63] \<and> table_get t 3 = None"
  using string_table_round_trip [of "[[0x61], [], [0x62, 0x63]]"] by fastforce

subsection \<open>Lists\<close>

lemma runs_from_replicate:
  "runs_from i cs = concat (map (\<lambda>j. replicate (cs ! j) (word_of_nat (i + j))) [0..<length cs])"
proof (induction cs arbitrary: i)
  case (Cons c cs)
  have "[0..<length (c # cs)] = 0 # map Suc [0..<length cs]" by (simp add: map_Suc_upt upt_conv_Cons del: upt_Suc)
  with Cons.IH [of "i + 1"] show ?case by (simp add: comp_def algebra_simps del: upt_Suc)
qed simp

text \<open>The table of shared files, stored as how often each file occurs less two, is unpacked to
  the occurrences: \<open>counts\<close> of file 0, then of file 1, and so on. Its length is the sum of the
  counts, which nothing in the reader bounds.\<close>

lemma shared_files_round_trip:
  assumes "\<forall>c \<in> set counts. 2 \<le> c \<and> c < 2 ^ 32" "length counts \<le> 2 ^ 32"
  shows "unpack_shared_from 0 (map (\<lambda>c. word_of_nat (c - 2)) counts)
      = Inr (concat (map (\<lambda>i. replicate (counts ! i) (word_of_nat i)) [0..<length counts]))"
  using unpack_shared_pack [OF assms] by (simp add: runs_from_replicate)

lemma shared_files_round_trip_witness: "unpack_shared_from 0 [0, 1] = Inr [0, 0, 1, 1, 1]"
proof -
  have "[0..<2] = [0, 1]" by (simp add: upt_rec)
  moreover have "replicate 2 (0 :: u32) = [0, 0]" "replicate 3 (1 :: u32) = [1, 1, 1]"
    by (simp_all add: numeral_2_eq_2 numeral_3_eq_3)
  ultimately show ?thesis using shared_files_round_trip [of "[2, 3]"] by simp
qed

lemma shared_files_exceed_cap:
  "\<exists>packed out. length packed = 1 \<and> unpack_shared_from 0 packed = Inr out \<and> DEFAULT_LIST_CAP < length out"
proof -
  have two: "unpack_shared_from 0 [- 1 :: u32] \<noteq> Inl e" for e
    using unpack_shared_runs [of 0 "[- 1]"] by simp
  then obtain out where out: "unpack_shared_from 0 [- 1 :: u32] = Inr out"
    by (metis sum.exhaust_sel)
  from unpack_shared_length [OF _ this] have "DEFAULT_LIST_CAP < length out"
    by (simp add: DEFAULT_LIST_CAP_def unsigned_minus_1_eq_mask mask_eq_exp_minus_1)
  with out show ?thesis
    by (intro exI [of _ "[- 1]"] exI [of _ out]) (simp del: unpack_shared_from.simps)
qed

end
