(* ===== verification/Lru_Refinement.thy ===== *)
theory Lru_Refinement
  imports Block_Cache
begin

text \<open>
  The abstract specification of the block cache: a list of blocks with their bytes, least recently
  used first. The map, queue and counter of \<open>Inner\<close> implement it: every critical section that
  touches, evicts or admits a block is the corresponding list operation under the abstraction
  \<open>lru_view\<close>.
\<close>

type_synonym lru = "(u32 \<times> bytes) list"

definition lru_total :: "lru \<Rightarrow> nat" where
  "lru_total xs = (\<Sum>(b, bs) \<leftarrow> xs. length bs)"

definition lru_remove :: "u32 \<Rightarrow> lru \<Rightarrow> lru" where
  "lru_remove b xs = filter (\<lambda>x. fst x \<noteq> b) xs"

definition lru_touch :: "u32 \<Rightarrow> lru \<Rightarrow> lru" where
  "lru_touch b xs = (case map_of xs b of None \<Rightarrow> xs | Some bs \<Rightarrow> lru_remove b xs @ [(b, bs)])"

fun lru_trim :: "nat \<Rightarrow> nat \<Rightarrow> lru \<Rightarrow> lru" where
  "lru_trim budget len [] = []"
| "lru_trim budget len (x # xs) =
     (if budget < lru_total (x # xs) + len then lru_trim budget len xs else x # xs)"

definition lru_insert :: "nat \<Rightarrow> u32 \<Rightarrow> bytes \<Rightarrow> lru \<Rightarrow> lru" where
  "lru_insert budget b bs xs = lru_trim budget (length bs) (lru_remove b xs) @ [(b, bs)]"

subsection \<open>The abstraction\<close>

definition block_bytes :: "(u32 \<Rightarrow> entry option) \<Rightarrow> u32 \<Rightarrow> bytes" where
  "block_bytes m b = (case m b of Some (Ready bs) \<Rightarrow> bs | _ \<Rightarrow> [])"

definition lru_of :: "(u32 \<Rightarrow> entry option) \<Rightarrow> u32 list \<Rightarrow> lru" where
  "lru_of m queue = map (\<lambda>b. (b, block_bytes m b)) queue"

definition lru_view :: "cache_inner \<Rightarrow> lru" where
  "lru_view i = lru_of (ci_blocks i) (ci_order i)"

lemma length_block_bytes: "length (block_bytes m b) = ready_len m b"
  by (simp add: block_bytes_def ready_len_def split: option.split entry.split)

lemma lru_total_of: "lru_total (lru_of m queue) = sum_list (map (ready_len m) queue)"
  by (simp add: lru_total_def lru_of_def comp_def case_prod_beta length_block_bytes)

lemma lru_total_view: "accounted i \<Longrightarrow> lru_total (lru_view i) = ci_resident i"
  by (simp add: lru_view_def lru_total_of accounted_def accounts_def)

lemma lru_of_forget: "b \<notin> set queue \<Longrightarrow> lru_of (m(b := x)) queue = lru_of m queue"
  by (auto simp: lru_of_def block_bytes_def)

lemma lru_of_remove1:
  assumes "distinct queue"
  shows "lru_of (m(b := x)) (remove1 b queue) = lru_remove b (lru_of m queue)"
proof -
  have "b \<notin> set (remove1 b queue)" using assms by simp
  then have "lru_of (m(b := x)) (remove1 b queue) = lru_of m (remove1 b queue)" by (rule lru_of_forget)
  also have "\<dots> = lru_remove b (lru_of m queue)"
    using assms by (simp add: lru_of_def lru_remove_def filter_map comp_def distinct_remove1_removeAll
        removeAll_filter_not_eq) (metis (mono_tags, lifting))
  finally show ?thesis .
qed

lemma map_of_lru: "map_of (lru_of m queue) b = (if b \<in> set queue then Some (block_bytes m b) else None)"
  by (induction queue) (auto simp: lru_of_def)

text \<open>The view holds exactly the resident blocks.\<close>

lemma lru_view_lookup:
  assumes "accounted i"
  shows "map_of (lru_view i) b = Some bs \<longleftrightarrow> ci_blocks i b = Some (Ready bs)"
proof -
  from assms have "b \<in> set (ci_order i) \<longleftrightarrow> (\<exists>bs. ci_blocks i b = Some (Ready bs))"
    by (simp add: accounted_def accounts_def)
  then show ?thesis by (auto simp: lru_view_def map_of_lru block_bytes_def)
qed

lemma lru_view_touch:
  assumes "accounted i"
  shows "lru_view (touch b i) = lru_touch b (lru_view i)"
proof (cases "b \<in> set (ci_order i)")
  case True
  from assms have d: "distinct (ci_order i)" by (simp add: accounted_def accounts_def)
  from lru_of_remove1 [OF d, of "ci_blocks i" b "ci_blocks i b"]
  have "lru_of (ci_blocks i) (remove1 b (ci_order i)) = lru_remove b (lru_view i)"
    by (simp add: lru_view_def)
  with True show ?thesis
    by (simp add: lru_touch_def lru_view_def touch_def map_of_lru) (simp add: lru_of_def)
next
  case False
  then show ?thesis by (simp add: lru_touch_def lru_view_def touch_def map_of_lru)
qed

lemma lru_view_evict:
  assumes "accounted i"
  shows "lru_view (evict b i) = lru_remove b (lru_view i)"
  using assms lru_of_remove1 [of "ci_order i" "ci_blocks i" b None]
  by (simp add: lru_view_def accounted_def accounts_def)

lemma lru_view_evict_one:
  assumes "accounted i"
  shows "lru_view (fst (evict_one i)) = tl (lru_view i)"
proof (cases "ci_order i")
  case Nil
  then show ?thesis by (simp add: evict_one_def lru_view_def lru_of_def)
next
  case (Cons key rest)
  with assms have "key \<notin> set rest" by (simp add: accounted_def accounts_def)
  with Cons lru_of_forget [of key rest "ci_blocks i" None] show ?thesis
    by (simp add: evict_one_def lru_view_def) (simp add: lru_of_def)
qed

lemma lru_view_evict_until:
  "accounted i \<Longrightarrow> lru_view (evict_until budget len i) = lru_trim budget len (lru_view i)"
proof (induction budget len i rule: evict_until.induct)
  case (1 budget len i)
  obtain i1 more where step: "evict_one i = (i1, more)" by (cases "evict_one i")
  have res: "lru_total (lru_view i) = ci_resident i" by (rule lru_total_view [OF 1(2)])
  have view1: "lru_view i1 = tl (lru_view i)" using lru_view_evict_one [OF 1(2)] step by simp
  have acc1: "accounted i1" using accounted_evict_one [OF 1(2)] step by simp
  have empty: "lru_view i = [] \<longleftrightarrow> ci_order i = []" by (simp add: lru_view_def lru_of_def)
  show ?case
  proof (cases "budget < ci_resident i + len")
    case over: True
    show ?thesis
    proof (cases more)
      case True
      then have "ci_order i \<noteq> []" using evict_one_False(1) [of i] step by simp
      then obtain x xs where xs: "lru_view i = x # xs" using empty by (cases "lru_view i") auto
      have "(i1, True) = evict_one i" using step True by simp
      from 1(1) [OF over this refl acc1] view1 xs
      have "lru_view (evict_until budget len i1) = lru_trim budget len xs" by simp
      with over True step xs res show ?thesis
        unfolding evict_until.simps [of budget len i] by simp
    next
      case False
      then have "ci_order i = []" "i1 = i" using evict_one_False [of i] step by auto
      with over False step empty show ?thesis
        unfolding evict_until.simps [of budget len i] by simp
    qed
  next
    case False
    with res show ?thesis
      unfolding evict_until.simps [of budget len i] by (cases "lru_view i") auto
  qed
qed

lemma lru_view_admit:
  assumes "accounted i"
  shows "lru_view (admit b bs budget i) = lru_insert budget b bs (lru_view i)"
proof -
  define i2 where "i2 = evict_until budget (length bs) (evict b i)"
  have ev: "accounted (evict b i)" by (rule accounted_evict [OF assms])
  have view2: "lru_view i2 = lru_trim budget (length bs) (lru_remove b (lru_view i))"
    unfolding i2_def by (simp add: lru_view_evict_until [OF ev] lru_view_evict [OF assms])
  have "b \<notin> set (ci_order (evict b i))"
    using assms by (simp add: accounted_def accounts_def)
  moreover have "shrunk (evict b i) i2" using evict_until_ok [OF ev i2_def] by simp
  ultimately have "b \<notin> set (ci_order i2)" by (auto simp: shrunk_def)
  then have "lru_view (admit b bs budget i) = lru_view i2 @ [(b, bs)]"
    using lru_of_forget [of b "ci_order i2" "ci_blocks i2" "Some (Ready bs)"]
    by (simp add: admit_eq [OF assms] Let_def flip: i2_def)
      (simp add: lru_view_def lru_of_def block_bytes_def)
  with view2 show ?thesis by (simp add: lru_insert_def)
qed

text \<open>
  Trimming keeps the longest suffix that fits, so eviction removes the least recently used blocks
  and no more of them than it has to.
\<close>

lemma lru_trim_suffix: "\<exists>old. xs = old @ lru_trim budget len xs"
  by (induction xs) (auto intro: exI [of _ "[]"], metis append_Cons)

lemma lru_trim_fits: "lru_trim budget len xs = [] \<or> lru_total (lru_trim budget len xs) + len \<le> budget"
  by (induction xs) (auto simp: not_less)

lemma lru_total_append: "lru_total (xs @ ys) = lru_total xs + lru_total ys"
  by (simp add: lru_total_def)

lemma lru_trim_longest:
  "xs = old @ kept \<Longrightarrow> lru_total kept + len \<le> budget \<Longrightarrow> length kept \<le> length (lru_trim budget len xs)"
proof (induction xs arbitrary: old)
  case Nil
  then show ?case by simp
next
  case (Cons x xs)
  show ?case
  proof (cases old)
    case Nil
    with Cons.prems(1) have "kept = x # xs" by simp
    with Cons.prems(2) show ?thesis by (simp add: not_less)
  next
    case (Cons y ys)
    with Cons.prems have "xs = ys @ kept" by simp
    from Cons.IH [OF this Cons.prems(2)] Cons.prems(1) \<open>xs = ys @ kept\<close> show ?thesis by simp
  qed
qed

subsection \<open>Runs of operations\<close>

datatype cache_op = Touch u32 | Evict u32 | Admit u32 bytes nat | Clear

fun cache_apply :: "cache_op \<Rightarrow> cache_inner \<Rightarrow> cache_inner" where
  "cache_apply (Touch b) i = touch b i"
| "cache_apply (Evict b) i = evict b i"
| "cache_apply (Admit b bs budget) i = admit b bs budget i"
| "cache_apply Clear i = clear_inner i"

fun lru_apply :: "cache_op \<Rightarrow> lru \<Rightarrow> lru" where
  "lru_apply (Touch b) xs = lru_touch b xs"
| "lru_apply (Evict b) xs = lru_remove b xs"
| "lru_apply (Admit b bs budget) xs = lru_insert budget b bs xs"
| "lru_apply Clear xs = []"

lemma map_of_snoc: "b \<notin> fst ` set ys \<Longrightarrow> map_of (ys @ [(b, x)]) b = Some x"
  by (induction ys) auto

text \<open>
  The interface of an implementation of the specification: an invariant, an abstraction to the list,
  and operations that keep the one and commute with the other.
\<close>

locale lru_store =
  fixes ok :: "'s \<Rightarrow> bool"
    and view :: "'s \<Rightarrow> lru"
    and apply_op :: "cache_op \<Rightarrow> 's \<Rightarrow> 's"
  assumes apply_ok: "ok s \<Longrightarrow> ok (apply_op c s)"
    and apply_view: "ok s \<Longrightarrow> view (apply_op c s) = lru_apply c (view s)"
begin

lemma run_view: "ok s \<Longrightarrow> ok (fold apply_op cs s) \<and> view (fold apply_op cs s) = fold lru_apply cs (view s)"
  by (induction cs arbitrary: s) (simp_all add: apply_ok apply_view)

lemma admitted_present:
  assumes "ok s"
  shows "map_of (view (apply_op (Admit b bs budget) s)) b = Some bs"
proof -
  let ?old = "lru_remove b (view s)" and ?new = "lru_trim budget (length bs) (lru_remove b (view s))"
  obtain gone where "?old = gone @ ?new" using lru_trim_suffix by blast
  then have "fst ` set ?new \<subseteq> fst ` set ?old" by (metis Un_iff image_mono set_append subsetI)
  then have "b \<notin> fst ` set ?new" by (auto simp: lru_remove_def)
  then have "map_of (?new @ [(b, bs)]) b = Some bs" by (rule map_of_snoc)
  with assms show ?thesis by (simp add: apply_view lru_insert_def)
qed

lemma admit_evicts_oldest:
  assumes "ok s" "lru_remove b (view s) = old @ kept" "lru_total kept + length bs \<le> budget"
  shows "\<exists>gone stay. lru_remove b (view s) = gone @ stay
    \<and> view (apply_op (Admit b bs budget) s) = stay @ [(b, bs)] \<and> length kept \<le> length stay
    \<and> (stay = [] \<or> lru_total stay + length bs \<le> budget)"
  using lru_trim_suffix [of "lru_remove b (view s)" budget "length bs"]
    lru_trim_longest [OF assms(2,3)] lru_trim_fits [of budget "length bs" "lru_remove b (view s)"] assms(1)
  by (auto simp: apply_view lru_insert_def)

end

interpretation inner_lru: lru_store accounted lru_view cache_apply
proof unfold_locales
  fix i c assume ok: "accounted i"
  show "accounted (cache_apply c i)"
    using ok admit_ok(1) [OF ok] by (cases c) (simp_all add: accounted_evict accounted_touch clear_inner_ok)
  show "lru_view (cache_apply c i) = lru_apply c (lru_view i)"
    using ok lru_view_touch [OF ok] lru_view_evict [OF ok] lru_view_admit [OF ok]
    by (cases c) (simp_all add: lru_view_def lru_of_def clear_inner_def)
qed

lemma lru_view_default: "lru_view inner_default = []"
  by (simp add: lru_view_def lru_of_def inner_default_def)

end
