(* ===== verification/Filesystem_Properties.thy ===== *)
theory Filesystem_Properties
  imports Sample_Image Lru_Refinement
begin

text \<open>
  The properties of the read-side filesystem: reads deliver the logical content of a file, the
  cache keeps its accounts and decodes each block once, the derived tables are right, lookups agree
  with listings and with the walk. Each property with hypotheses is followed by its instance on the
  sample image.
\<close>

subsection \<open>Reading\<close>

text \<open>C3: on a readable file whose chunks lie inside their blocks, \<open>read_into\<close> fills the buffer
  with exactly the bytes of the file's content from the offset on, reports how many there were,
  and leaves the rest of the buffer and the cache's invariant untouched.\<close>

theorem read_into_delivers:
  assumes "readable env fs content blk inode a b" "chunks_inside fs blk a b" "cache_ready env fs c"
  shows "\<exists>c'. cache_ready env fs c' \<and> read_into env fs inode offset buf c
    = (let new = take (length buf) (drop offset (file_content fs blk a b))
       in Some (c', put_at 0 new buf, Inr (length new)))"
  using read_into_right [OF assms(1,3), of offset buf] assms(2) by (auto simp: Let_def)

theorem read_into_delivers_witness:
  "\<exists>c'. cache_ready sample_env sample_fs c' \<and>
     read_into sample_env sample_fs 1 2 [9, 9, 9, 9] (cache_new 32)
       = Some (c', [40, 0, 0, 9], Inr 3)"
  using read_into_delivers [OF sample_readable sample_chunks_inside sample_cache_ready [of 32],
      where offset = 2 and buf = "[9, 9, 9, 9]"]
  by (simp add: sample_file_content put_at_def numeral_3_eq_3)

text \<open>\<open>read_at\<close> returns the requested window of the content, short at the end of the file.\<close>

lemma read_at_delivers:
  assumes "readable env fs content blk inode a b" "chunks_inside fs blk a b" "cache_ready env fs c"
  shows "\<exists>c'. cache_ready env fs c' \<and> read_at env fs inode offset sz c
    = Some (c', Inr (take sz (drop offset (file_content fs blk a b))))"
  using read_at_right [OF assms(1,3), of offset sz] assms(2) by auto

lemma read_at_delivers_witness:
  "\<exists>c'. cache_ready sample_env sample_fs c' \<and>
     read_at sample_env sample_fs 1 1 3 (cache_new 32) = Some (c', Inr [30, 40, 0])"
  using read_at_delivers [OF sample_readable sample_chunks_inside sample_cache_ready [of 32], where offset = 1 and sz = 3]
  by (simp add: sample_file_content)

subsection \<open>The block cache\<close>

text \<open>C4: two threads never decode the same block at the same time.\<close>

theorem cache_single_flight:
  assumes "reachable_cache budget s"
    and "in_flight (cs_threads s t) = Some b" "in_flight (cs_threads s t') = Some b"
  shows "t = t'"
  by (rule single_flight [OF assms])

theorem cache_single_flight_witness:
  "{t. in_flight (cs_threads sample_decoding t) = Some 3} = {0}"
proof -
  have held: "in_flight (cs_threads sample_decoding 0) = Some 3" by (simp add: sample_decoding_def)
  then show ?thesis
    using cache_single_flight [OF sample_decoding_reachable _ held] by blast
qed

text \<open>C16: in every reachable state the byte counter is the number of bytes the resident blocks
  hold, and it is within the budget unless a single block is resident.\<close>

theorem cache_accounting:
  assumes "reachable_cache budget s"
  shows "ci_resident (cs_inner s) = (\<Sum>b \<leftarrow> ci_order (cs_inner s). ready_len (ci_blocks (cs_inner s)) b)
    \<and> (ci_resident (cs_inner s) \<le> budget \<or> length (ci_order (cs_inner s)) \<le> 1)"
  using reachable_resident [OF assms] by simp

theorem cache_accounting_witness: "ci_resident (cs_inner sample_published) = length [1 :: byte, 2]"
  using cache_accounting [OF sample_published_reachable]
  by (simp add: sample_published_def ready_len_def)

text \<open>C18: a waiting thread is never stranded: from any reachable state in which it waits, and in whatever
  order the threads go on, some other thread owes it a notification, is never blocked, and gives the
  notification by its fourth step. No spurious wake-up is needed.\<close>

theorem cache_waiter_woken:
  assumes "reachable_cache budget s" "cs_threads s t = Waiting b needed whole"
  shows "\<exists>t'. t' \<noteq> t \<and> owes_notify (cs_threads s t') = Some b
    \<and> (\<forall>steps. cache_run budget s steps \<and> (\<forall>s' \<in> snd ` set steps. is_waiting (cs_threads s' t))
        \<longrightarrow> count_list (map fst steps) t' < 4 \<and> (\<exists>s'. cache_step budget t' (cache_end s steps) s'))"
  by (rule waiter_woken [OF assms])

theorem cache_waiter_woken_witness:
  "owes_notify (cs_threads sample_waiting 0) = Some 3 \<and> (\<exists>s'. cache_step 32 0 sample_marking s')"
proof -
  have waits: "cs_threads sample_waiting 1 = Waiting 3 5 16" by (simp add: sample_waiting_def)
  obtain t' where t': "t' \<noteq> 1" "owes_notify (cs_threads sample_waiting t') = Some 3"
    and runs: "\<forall>steps. cache_run 32 sample_waiting steps
      \<and> (\<forall>s' \<in> snd ` set steps. is_waiting (cs_threads s' 1))
      \<longrightarrow> count_list (map fst steps) t' < 4
        \<and> (\<exists>s'. cache_step 32 t' (cache_end sample_waiting steps) s')"
    using cache_waiter_woken [OF sample_waiting_reachable [of 32] waits] by blast
  have "t' = 0" using t' by (auto simp: sample_waiting_def sample_decoding_def split: if_splits)
  have "is_waiting (cs_threads sample_marking 1)"
    by (simp add: sample_marking_def sample_waiting_def goto_def)
  with sample_decoded [of 32] have "cache_run 32 sample_waiting [(0, sample_marking)]
      \<and> (\<forall>s' \<in> snd ` set [(0 :: nat, sample_marking)]. is_waiting (cs_threads s' 1))" by simp
  with runs have "\<exists>s'. cache_step 32 t' (cache_end sample_waiting [(0, sample_marking)]) s'" by blast
  with t' \<open>t' = 0\<close> show ?thesis by simp
qed

text \<open>C17: the map, queue and byte counter implement an LRU list: after any sequence of touches,
  evictions, admissions and clears from the empty cache, the cache holds what the list of the
  specification holds, in its order, and the counter is its total.\<close>

theorem cache_refines_lru:
  "lru_view (fold cache_apply ops inner_default) = fold lru_apply ops []
    \<and> (ci_blocks (fold cache_apply ops inner_default) b = Some (Ready bs)
        \<longleftrightarrow> map_of (fold lru_apply ops []) b = Some bs)
    \<and> ci_resident (fold cache_apply ops inner_default) = lru_total (fold lru_apply ops [])"
proof -
  note run = inner_lru.run_view [OF accounted_default, of ops, unfolded lru_view_default]
  with lru_view_lookup [OF conjunct1 [OF run], of b bs] lru_total_view [OF conjunct1 [OF run]]
  show ?thesis by simp
qed

text \<open>In particular a block just admitted is found, and what it pushes out is the least recently used
  part: the longest recent part that leaves room for it stays.\<close>

lemmas cache_admits = inner_lru.admitted_present inner_lru.admit_evicts_oldest

text \<open>C19: a borrowed slice is the one a copying read would deliver.\<close>

theorem read_borrowed_delivers:
  assumes "readable env fs content blk inode a b" "cache_ready env fs c" "offset + len < 2 ^ 64"
    and "read_borrowed env fs inode offset len c = Some (c', Inr (Some bs))"
  shows "bs = take len (drop offset (file_content fs blk a b)) \<and> length bs = len"
  using read_borrowed_right [OF assms(1,2,4,3)] by blast

theorem read_borrowed_delivers_witness:
  "\<exists>c. read_borrowed sample_env sample_fs 1 0 2 (cache_new 32) = Some (c, Inr (Some [20, 30]))"
proof -
  obtain c bs where borrow: "read_borrowed sample_env sample_fs 1 0 2 (cache_new 32)
      = Some (c, Inr (Some bs))" using sample_borrow by blast
  from read_borrowed_delivers [OF sample_readable sample_cache_ready _ borrow] borrow show ?thesis
    by (simp add: sample_file_content)
qed

subsection \<open>The tables of an open filesystem\<close>

text \<open>C20: opening always returns, and what it returns without an error has consistent tables over
  the image it was given: the chunk ends and inode partition are the computed ones, every list is
  bounded, and every declared feature is supported.\<close>

theorem filesystem_open_outcome:
  "case filesystem_open env image_h of
     None \<Rightarrow> False
   | Some (Inl e) \<Rightarrow> True
   | Some (Inr fs) \<Rightarrow> fs_ok fs \<and> fs_image fs = image_h"
  using filesystem_open_returns [of env image_h] filesystem_open_ok [of env image_h]
  by (auto split: option.split sum.split)

text \<open>C29: the constant-time file size is the sum of the lengths of the file's chunks.\<close>

theorem file_size_is_sum:
  assumes "fs_ok fs" "fs_kind fs inode = Inr KRegular" "chunk_range fs inode = Inr (a, b)"
  shows "file_size fs inode = Inr (\<Sum>i = a..<b. logical_len fs i)"
  by (rule file_size_sum [OF assms])

theorem file_size_is_sum_witness: "file_size sample_fs 1 = Inr 5"
  using file_size_is_sum [OF sample_fs_ok sample_kinds(2) sample_chunk_range]
    length_file_content [of sample_fs sample_blk 0 2] sample_file_content by simp

text \<open>The inode partition: unique regular files come before the shared ones, the shared ones
  fill the range up to the first device or special inode, and every bound is at most the number of
  inodes.\<close>

lemma compute_offsets_partitions:
  assumes "compute_offsets inodes mode_col n = Inr off"
  shows "io_file_offset off \<le> io_shared_file_offset off
    \<and> unat (io_shared_file_offset off) + n = unat (min (io_device_offset off) (io_special_offset off))
    \<and> io_device_offset off \<le> io_total off \<and> io_special_offset off \<le> io_total off
    \<and> io_total off = word_of_nat (length inodes)"
  using compute_offsets_partition [OF assms] by simp

lemma compute_offsets_partitions_witness:
  "io_file_offset sample_offsets \<le> io_shared_file_offset sample_offsets"
  using compute_offsets_partitions [OF sample_compute_offsets] by simp

text \<open>C35: rebuilding the links of packed directories: a directory that exactly one entry names, in the
  root or in any other directory, gets that entry as its \<open>self_entry\<close> and the \<open>self_entry\<close> of the
  directory holding the entry as its \<open>parent_entry\<close>; the \<open>self_entry\<close> of the root is zero and its
  \<open>parent_entry\<close> is left as it was.\<close>

theorem rebuild_links_tree:
  assumes "0 < c" "c < length dirs - 1"
    and "(p, e) \<in> set (link_pairs dirs es)" "names_dir es c e"
    and "\<And>d e'. (d, e') \<in> set (link_pairs dirs es) \<Longrightarrow> names_dir es c e' \<Longrightarrow> (d, e') = (p, e)"
  shows "dr_self_entry (rebuild_directory_links dirs es ! c) = word_of_nat e
    \<and> dr_parent_entry (rebuild_directory_links dirs es ! c)
        = dr_self_entry (rebuild_directory_links dirs es ! p)
    \<and> dr_self_entry (rebuild_directory_links dirs es ! 0) = 0
    \<and> dr_parent_entry (rebuild_directory_links dirs es ! 0) = dr_parent_entry (dirs ! 0)"
  using rebuild_directory_links_tree [OF assms] rebuild_directory_links_root [of dirs es] assms(1,2) by simp

text \<open>Three directories in a row: the root, which holds a file and the second, which holds the third.\<close>

definition sample_dirs :: "directory list" where
  "sample_dirs = map (\<lambda>n. \<lparr>dr_parent_entry = 0, dr_first_entry = n, dr_self_entry = 0\<rparr>) [0, 2, 3, 3]"

definition sample_entries :: "dir_entry list" where
  "sample_entries =
     [\<lparr>de_name_index = 0, de_inode_num = 3\<rparr>, \<lparr>de_name_index = 1, de_inode_num = 1\<rparr>,
      \<lparr>de_name_index = 2, de_inode_num = 2\<rparr>]"

lemma sample_pairs: "link_pairs sample_dirs sample_entries = [(0, 0), (0, 1), (1, 2)]"
proof -
  have "[0..<3] = [0, 1, 2]" "[0..<2] = [0, 1]" "[2..<3] = [2]" by (simp_all add: upt_rec)
  then show ?thesis
    by (simp add: link_pairs_def link_entry_range_def sample_dirs_def sample_entries_def Let_def)
qed

lemma sample_names_dir: "names_dir sample_entries c e \<and> e < 3 \<longleftrightarrow> (c, e) \<in> {(3, 0), (1, 1), (2, 2)}"
proof -
  have "e < 3 \<longleftrightarrow> e = 0 \<or> e = 1 \<or> e = 2" by linarith
  then show ?thesis by (auto simp: names_dir_def sample_entries_def)
qed

theorem rebuild_links_tree_witness:
  "map (\<lambda>c. (dr_parent_entry (rebuild_directory_links sample_dirs sample_entries ! c),
      dr_self_entry (rebuild_directory_links sample_dirs sample_entries ! c))) [0, 1, 2] = [(0, 0), (0, 1), (1, 2)]"
proof -
  have len: "length sample_dirs = 4" "dr_parent_entry (sample_dirs ! 0) = 0" by (simp_all add: sample_dirs_def)
  have only: "(d, e') = (p, e)" if "(d, e') \<in> set (link_pairs sample_dirs sample_entries)"
    "names_dir sample_entries c e'" "(c, p, e) \<in> {(1, 0, 1), (2, 1, 2)}" for d e' c p e
    using that sample_names_dir [of c e'] by (auto simp: sample_pairs)
  have names: "names_dir sample_entries 1 1" "names_dir sample_entries 2 2"
    using sample_names_dir [of 1 1] sample_names_dir [of 2 2] by simp_all
  have one: "(0, 1) \<in> set (link_pairs sample_dirs sample_entries)"
    and two: "(1, 2) \<in> set (link_pairs sample_dirs sample_entries)" by (simp_all add: sample_pairs)
  note links = rebuild_links_tree [OF _ _ one names(1)] rebuild_links_tree [OF _ _ two names(2)]
  show ?thesis
    using links(1) links(2) only [of _ _ 1 0 1] only [of _ _ 2 1 2] by (simp add: len)
qed

subsection \<open>Directories\<close>

text \<open>C7: the bisecting child lookup agrees with a scan of the directory's listing, wherever the
  listing is sorted by name.\<close>

theorem lookup_agrees_with_listing:
  assumes "read_dir fs d = Inr es" "listing_sorted es"
  shows "lookup_child fs d name = Inr (map_option ls_inode (find (\<lambda>x. ls_name x = name) es))"
  by (rule lookup_child_scan [OF assms])

theorem lookup_agrees_with_listing_witness:
  "lookup_child sample_fs 0 [0x61] = Inr (Some 1) \<and> lookup_child sample_fs 0 [0x62] = Inr None"
  using lookup_agrees_with_listing [OF sample_read_dir, of "[0x61]"]
    lookup_agrees_with_listing [OF sample_read_dir, of "[0x62]"]
  by (simp add: listing_sorted_def)

text \<open>C6: every path the walk yields resolves, by the path lookup, to the inode and kind the walk
  yielded with it, on directories whose listings are sorted and whose names are non-empty and hold
  no separator.\<close>

theorem walk_paths_resolve:
  assumes "plain_dirs fs" "walk_tree fs fuel = Some (Inr out)" "w \<in> set out"
  shows "lookup_path fs (we_path w) = Inr \<lparr>nd_inode = we_inode w, nd_kind = we_kind w\<rparr>"
  by (rule walk_tree_resolves [OF assms])

lemma sample_listings: "read_dir sample_fs d = Inr es \<Longrightarrow> d = 0"
proof (rule ccontr)
  assume r: "read_dir sample_fs d = Inr es" and "d \<noteq> 0"
  have k: "fs_kind sample_fs d = Inr KDirectory" by (rule read_dir_Inr(1) [OF r])
  then have "unat d < 2"
    by (auto simp: fs_kind_def mode_of_def inode_index_def sample_fs_def Let_def get_at_def result_simps
        split: if_splits)
  then have "unat d = unat (0 :: u32) \<or> unat d = unat (1 :: u32)" by (simp add: less_2_cases_iff)
  with \<open>d \<noteq> 0\<close> have "d = 1" by (metis word_eq_iff_unsigned)
  with k sample_kinds(2) show False by simp
qed

lemma sample_plain: "plain_dirs sample_fs"
  unfolding plain_dirs_def
proof (intro allI impI)
  fix d es assume r: "read_dir sample_fs d = Inr es"
  with sample_listings [OF r] sample_read_dir
  show "listing_sorted es \<and> (\<forall>x\<in>set es. ls_name x \<noteq> [] \<and> SLASH \<notin> set (ls_name x))"
    by (auto simp: listing_sorted_def SLASH_def)
qed

theorem walk_paths_resolve_witness:
  "lookup_path sample_fs [SLASH, 0x61] = Inr \<lparr>nd_inode = 1, nd_kind = KRegular\<rparr>"
  using walk_paths_resolve [OF sample_plain sample_walk,
      of "\<lparr>we_path = [SLASH, 0x61], we_inode = 1, we_kind = KRegular\<rparr>"] by simp

text \<open>C34: the walk ends when the directories can be ranked so that every subdirectory ranks below
  its parent: as many nested calls as the root's rank are enough.\<close>

theorem walk_returns_on_trees:
  assumes "\<And>d c. c \<in> subdirs fs d \<Longrightarrow> rank c < rank d" "rank 0 < fuel"
  shows "\<exists>r. walk_tree fs fuel = Some r"
  using walk_tree_returns [of fs rank, OF assms] by blast

text \<open>A root that holds a directory, which holds a file.\<close>

definition nested_fs :: filesystem where
  "nested_fs = sample_fs
     \<lparr>fs_inodes := [sample_inode 0, sample_inode 0, sample_inode 1],
      fs_directories :=
        [\<lparr>dr_parent_entry = 0, dr_first_entry = 0, dr_self_entry = 0\<rparr>,
         \<lparr>dr_parent_entry = 0, dr_first_entry = 1, dr_self_entry = 0\<rparr>,
         \<lparr>dr_parent_entry = 0, dr_first_entry = 2, dr_self_entry = 0\<rparr>],
      fs_dir_entries := [\<lparr>de_name_index = 0, de_inode_num = 1\<rparr>, \<lparr>de_name_index = 0, de_inode_num = 2\<rparr>]\<rparr>"

lemma nested_kinds:
  "fs_kind nested_fs 0 = Inr KDirectory" "fs_kind nested_fs 1 = Inr KDirectory"
  "fs_kind nested_fs 2 = Inr KRegular"
  by (simp_all add: fs_kind_def mode_of_def inode_index_def mode_at_def nested_fs_def sample_fs_def
      sample_inode_def mode_kind_def mode_consts Let_def get_at_def)

lemma nested_read_dir:
  "read_dir nested_fs 0 = Inr [\<lparr>ls_inode = 1, ls_kind = KDirectory, ls_name = [0x61]\<rparr>]"
  "read_dir nested_fs 1 = Inr [\<lparr>ls_inode = 2, ls_kind = KRegular, ls_name = [0x61]\<rparr>]"
proof -
  have range: "dir_entry_range nested_fs 0 = Inr (0, 1)" "dir_entry_range nested_fs 1 = Inr (1, 2)"
    by (simp_all add: dir_entry_range_def nested_fs_def Let_def)
  have name: "entry_name nested_fs 0 = Inr [0x61]"
    by (simp add: entry_name_def) (simp add: nested_fs_def sample_fs_def table_get_def get_at_def subslice_def)
  have entries: "fs_dir_entries nested_fs = [\<lparr>de_name_index = 0, de_inode_num = 1\<rparr>, \<lparr>de_name_index = 0, de_inode_num = 2\<rparr>]"
    by (simp add: nested_fs_def)
  have upt: "[Suc 0..<2] = [1]" by (simp add: upt_rec)
  show "read_dir nested_fs 0 = Inr [\<lparr>ls_inode = 1, ls_kind = KDirectory, ls_name = [0x61]\<rparr>]"
    "read_dir nested_fs 1 = Inr [\<lparr>ls_inode = 2, ls_kind = KRegular, ls_name = [0x61]\<rparr>]"
    using range name entries nested_kinds by (simp_all add: read_dir_def require_kind_def listing_at_def upt)
qed

lemma nested_subdirs: "subdirs nested_fs d = (if d = 0 then {1} else {})"
proof (cases "d = 0 \<or> d = 1")
  case True
  then show ?thesis by (auto simp: subdirs_def nested_read_dir)
next
  case False
  then have "unat d \<noteq> unat (0 :: u32)" "unat d \<noteq> unat (1 :: u32)" by (metis word_eq_iff_unsigned)+
  then have "unat d = unat (2 :: u32) \<or> 3 \<le> unat d" by simp linarith
  then have "fs_kind nested_fs d \<noteq> Inr KDirectory"
  proof
    assume "unat d = unat (2 :: u32)"
    then have "d = 2" by (metis word_eq_iff_unsigned)
    with nested_kinds(3) show ?thesis by simp
  next
    assume "3 \<le> unat d"
    then have "inode_index nested_fs d = Inl (fs_error ''inode {inode} out of {} entries'')"
      by (simp add: inode_index_def nested_fs_def Let_def)
    then show ?thesis by (simp add: fs_kind_def mode_of_def)
  qed
  then have "\<nexists>es. read_dir nested_fs d = Inr es" using read_dir_Inr(1) by blast
  with False show ?thesis by (auto simp: subdirs_def split: sum.split)
qed

theorem walk_returns_on_trees_witness:
  "subdirs nested_fs 0 = {1} \<and> (\<exists>r. walk_tree nested_fs 2 = Some r)"
proof
  show "subdirs nested_fs 0 = {1}" by (simp add: nested_subdirs)
  show "\<exists>r. walk_tree nested_fs 2 = Some r"
  proof (rule walk_returns_on_trees [where rank = "\<lambda>d. if d = 0 then 1 else 0"])
    fix d c assume "c \<in> subdirs nested_fs d"
    then have "d = 0" "c = 1" by (auto simp: nested_subdirs split: if_splits)
    then show "(if c = 0 then 1 else 0) < (if d = 0 then 1 else 0 :: nat)" by simp
  qed simp
qed

text \<open>Nothing in the code bounds the recursion of the walk: on a directory whose first entry is
  itself, no number of nested calls is enough.\<close>

lemma walk_cycle_never_returns:
  assumes "read_dir fs d = Inr (x # es)" "ls_inode x = d" "ls_kind x = KDirectory"
  shows "walk_inner fs fuel d prefix = None"
  by (rule walk_inner_cycle [OF assms])

definition cyclic_fs :: filesystem where
  "cyclic_fs = sample_fs\<lparr>fs_dir_entries := [\<lparr>de_name_index = 0, de_inode_num = 0\<rparr>]\<rparr>"

lemma walk_cycle_never_returns_witness: "walk_inner cyclic_fs 1000 0 [] = None"
proof -
  have kind: "fs_kind cyclic_fs 0 = Inr KDirectory"
    by (simp add: fs_kind_def mode_of_def inode_index_def mode_at_def cyclic_fs_def sample_fs_def
        sample_inode_def mode_kind_def mode_consts Let_def get_at_def)
  have "dir_entry_range cyclic_fs 0 = Inr (0, 1)"
    by (simp add: dir_entry_range_def cyclic_fs_def sample_fs_def Let_def)
  moreover have "listing_at cyclic_fs 0 = Inr \<lparr>ls_inode = 0, ls_kind = KDirectory, ls_name = [0x61]\<rparr>"
    using kind by (simp add: listing_at_def Let_def entry_name_def)
      (simp add: cyclic_fs_def sample_fs_def table_get_def get_at_def subslice_def)
  ultimately have "read_dir cyclic_fs 0 = Inr [\<lparr>ls_inode = 0, ls_kind = KDirectory, ls_name = [0x61]\<rparr>]"
    using kind by (simp add: read_dir_def require_kind_def)
  from walk_cycle_never_returns [OF this] show ?thesis by simp
qed

text \<open>The metadata of an inode is consistent with the queries that return its parts, the times
  fit 64 bits, and the options for missing times and link counts are followed.\<close>

lemma stat_agrees_with_queries:
  assumes "fs_stat fs inode = Inr st"
  shows "st_inode st = inode \<and> fs_kind fs inode = Inr (st_kind st) \<and> mode_of fs inode = Inr (st_mode st)
    \<and> file_size fs inode = Inr (st_size st) \<and> st_mtime st < 2 ^ 64
    \<and> (fo_mtime_only (fs_options fs) \<longrightarrow> st_atime st = st_mtime st \<and> st_ctime st = st_mtime st)
    \<and> (\<not> fo_inodes_have_nlink (fs_options fs) \<longrightarrow> st_nlink st = 1)"
  using fs_stat_agrees [OF assms] by blast

lemma stat_agrees_with_queries_witness: "\<exists>st. fs_stat sample_fs 1 = Inr st \<and> st_size st = 5 \<and> st_nlink st = 1"
proof -
  obtain st where st: "fs_stat sample_fs 1 = Inr st" using sample_stat by blast
  with stat_agrees_with_queries [OF st] sample_size show ?thesis
    by (simp add: sample_fs_def fs_options_default_def)
qed

end
