(* ===== verification/Glob.thy ===== *)
theory Glob
  imports Directories
begin

text \<open>
  The pattern matcher of \<open>src/src/fs/extract.rs\<close> (\<open>glob_match\<close>) and the selection of entries
  (\<open>OptionsView::matches\<close>). The nested function \<open>go\<close> is \<open>glob_go\<close>, its loop over the splits of a
  \<open>*\<close> is \<open>glob_star\<close>. A character class that is never closed makes the slice \<open>p[end + 1..]\<close>
  panic once a byte of the text is in the class: \<open>None\<close> is that panic.
\<close>

definition STAR :: byte where "STAR = 0x2A"
definition QUESTION :: byte where "QUESTION = 0x3F"
definition LBRACKET :: byte where "LBRACKET = 0x5B"
definition RBRACKET :: byte where "RBRACKET = 0x5D"
definition DASH :: byte where "DASH = 0x2D"

lemma glob_bytes_distinct [simp]:
  "STAR \<noteq> QUESTION" "STAR \<noteq> LBRACKET" "QUESTION \<noteq> LBRACKET" "QUESTION \<noteq> STAR" "LBRACKET \<noteq> STAR"
  "LBRACKET \<noteq> QUESTION"
  by (simp_all add: STAR_def QUESTION_def LBRACKET_def)

text \<open>The scan of a class for the byte \<open>c\<close>: ranges \<open>a-b\<close> and single bytes.\<close>

fun class_matches :: "byte \<Rightarrow> bytes \<Rightarrow> bool" where
  "class_matches c [] = False"
| "class_matches c [a] = (c = a)"
| "class_matches c [a, b] = (c = a \<or> class_matches c [b])"
| "class_matches c (a # m # b # rest) =
     (if m = DASH then a \<le> c \<and> c \<le> b \<or> class_matches c rest
      else c = a \<or> class_matches c (m # b # rest))"

lemma dropWhile_Cons_length: "dropWhile P xs = y # ys \<Longrightarrow> length ys < length xs"
  by (metis length_dropWhile_le length_Cons Suc_le_lessD)

function glob_go :: "bytes \<Rightarrow> bytes \<Rightarrow> bool option"
  and glob_star :: "bytes \<Rightarrow> bytes \<Rightarrow> bool option" where
  "glob_go [] t = Some (t = [])"
| "glob_go (b # p) t =
     (if b = STAR then glob_star p t
      else case t of
        [] \<Rightarrow> Some False
      | c # t' \<Rightarrow>
          if b = QUESTION then (if c = SLASH then Some False else glob_go p t')
          else if b = LBRACKET then
            (if class_matches c (takeWhile (\<lambda>x. x \<noteq> RBRACKET) p)
             then (case dropWhile (\<lambda>x. x \<noteq> RBRACKET) p of
                     [] \<Rightarrow> None
                   | _ # p' \<Rightarrow> glob_go p' t')
             else Some False)
          else if b = c then glob_go p t' else Some False)"
| "glob_star p t =
     (case glob_go p t of
        None \<Rightarrow> None
      | Some True \<Rightarrow> Some True
      | Some False \<Rightarrow>
          (case t of
             [] \<Rightarrow> Some False
           | c # t' \<Rightarrow> if c = SLASH then Some False else glob_star p t'))"
  by pat_completeness auto
termination
  by (relation "measures [\<lambda>x. case x of Inl (p, t) \<Rightarrow> length p | Inr (p, t) \<Rightarrow> length p,
        \<lambda>x. case x of Inl (p, t) \<Rightarrow> length t | Inr (p, t) \<Rightarrow> length t,
        \<lambda>x. case x of Inl _ \<Rightarrow> 0 | Inr _ \<Rightarrow> 1]")
    (auto dest: dropWhile_Cons_length)

declare glob_star.simps [simp del]

definition glob_match :: "bytes \<Rightarrow> bytes \<Rightarrow> bool option" where
  "glob_match pattern txt = glob_go pattern txt"

subsection \<open>Selecting entries\<close>

record extract_options =
  eo_continue_on_error :: bool
  eo_hardlink_shared :: bool
  eo_include_patterns :: "bytes list"

definition extract_options_new :: extract_options where
  "extract_options_new =
     \<lparr>eo_continue_on_error = False, eo_hardlink_shared = True, eo_include_patterns = []\<rparr>"

definition strip_slash :: "bytes \<Rightarrow> bytes" where
  "strip_slash path = (case path of [] \<Rightarrow> [] | c # rest \<Rightarrow> if c = SLASH then rest else path)"

fun try_any :: "('a \<Rightarrow> bool option) \<Rightarrow> 'a list \<Rightarrow> bool option" where
  "try_any f [] = Some False"
| "try_any f (x # xs) =
     (case f x of None \<Rightarrow> None | Some True \<Rightarrow> Some True | Some False \<Rightarrow> try_any f xs)"

definition entry_matches :: "extract_options \<Rightarrow> walk_entry \<Rightarrow> bool option" where
  "entry_matches options entry =
     (if eo_include_patterns options = [] then Some True
      else if we_path entry = [] then Some True
      else let trimmed = strip_slash (we_path entry);
               path_str = (if utf8_valid trimmed then trimmed else []) in
        if we_kind entry = KDirectory then Some True
        else try_any (\<lambda>p. glob_match p path_str) (eo_include_patterns options))"

subsection \<open>What a pattern means\<close>

text \<open>
  A pattern as a sequence of items, each standing for a set of byte strings. Parsing fails on a
  class that is never closed.
\<close>

datatype glob_item = AnyRun | AnyOne | OneOf bytes | Exactly byte

function glob_items :: "bytes \<Rightarrow> glob_item list option" where
  "glob_items [] = Some []"
| "glob_items (b # p) =
     (if b = LBRACKET then
        (case dropWhile (\<lambda>x. x \<noteq> RBRACKET) p of
           [] \<Rightarrow> None
         | _ # p' \<Rightarrow> map_option (Cons (OneOf (takeWhile (\<lambda>x. x \<noteq> RBRACKET) p))) (glob_items p'))
      else map_option (Cons (if b = STAR then AnyRun else if b = QUESTION then AnyOne else Exactly b))
             (glob_items p))"
  by pat_completeness auto
termination by (relation "measure length") (auto dest: dropWhile_Cons_length)

fun item_lang :: "glob_item \<Rightarrow> bytes set" where
  "item_lang AnyRun = {u. SLASH \<notin> set u}"
| "item_lang AnyOne = {[c] |c. c \<noteq> SLASH}"
| "item_lang (OneOf cls) = {[c] |c. class_matches c cls}"
| "item_lang (Exactly b) = {[b]}"

fun glob_lang :: "glob_item list \<Rightarrow> bytes set" where
  "glob_lang [] = {[]}"
| "glob_lang (g # gs) = {u @ v |u v. u \<in> item_lang g \<and> v \<in> glob_lang gs}"

text \<open>A class matches exactly the bytes of its ranges and its single bytes.\<close>

lemma run_lang_unfold:
  "t \<in> glob_lang (AnyRun # gs) \<longleftrightarrow>
     t \<in> glob_lang gs \<or> (\<exists>c t'. t = c # t' \<and> c \<noteq> SLASH \<and> t' \<in> glob_lang (AnyRun # gs))"
proof
  assume "t \<in> glob_lang (AnyRun # gs)"
  then obtain u v where t: "t = u @ v" "SLASH \<notin> set u" "v \<in> glob_lang gs" by auto
  show "t \<in> glob_lang gs \<or> (\<exists>c t'. t = c # t' \<and> c \<noteq> SLASH \<and> t' \<in> glob_lang (AnyRun # gs))"
  proof (cases u)
    case (Cons c u')
    with t have "t = c # (u' @ v)" "c \<noteq> SLASH" "u' @ v \<in> glob_lang (AnyRun # gs)" by auto
    then show ?thesis by blast
  qed (use t in simp)
next
  assume "t \<in> glob_lang gs \<or> (\<exists>c t'. t = c # t' \<and> c \<noteq> SLASH \<and> t' \<in> glob_lang (AnyRun # gs))"
  then show "t \<in> glob_lang (AnyRun # gs)"
  proof
    assume "t \<in> glob_lang gs"
    then have "t = [] @ t" "[] \<in> item_lang AnyRun" "t \<in> glob_lang gs" by simp_all
    then show ?thesis unfolding glob_lang.simps by blast
  next
    assume "\<exists>c t'. t = c # t' \<and> c \<noteq> SLASH \<and> t' \<in> glob_lang (AnyRun # gs)"
    then obtain c u v where "t = (c # u) @ v" "c # u \<in> item_lang AnyRun" "v \<in> glob_lang gs" by auto
    then show ?thesis unfolding glob_lang.simps by blast
  qed
qed

lemma item_single: "g \<noteq> AnyRun \<Longrightarrow> u \<in> item_lang g \<Longrightarrow> \<exists>c. u = [c]"
  by (cases g) auto

lemma byte_lang_unfold:
  assumes "g \<noteq> AnyRun"
  shows "[] \<notin> glob_lang (g # gs)"
    and "c # t \<in> glob_lang (g # gs) \<longleftrightarrow> [c] \<in> item_lang g \<and> t \<in> glob_lang gs"
proof -
  show "[] \<notin> glob_lang (g # gs)" using item_single [OF assms] by auto
  have "c # t = [c] @ t" by simp
  moreover have "[c] = u \<and> t = v" if "c # t = u @ v" "u \<in> item_lang g" for u v
    using that item_single [OF assms that(2)] by auto
  ultimately show "c # t \<in> glob_lang (g # gs) \<longleftrightarrow> [c] \<in> item_lang g \<and> t \<in> glob_lang gs"
    unfolding glob_lang.simps by blast
qed

lemma run_lang_simps:
  "[] \<in> glob_lang (AnyRun # gs) \<longleftrightarrow> [] \<in> glob_lang gs"
  "c # t \<in> glob_lang (AnyRun # gs) \<longleftrightarrow>
     c # t \<in> glob_lang gs \<or> c \<noteq> SLASH \<and> t \<in> glob_lang (AnyRun # gs)"
  using run_lang_unfold [of "[]" gs] run_lang_unfold [of "c # t" gs] by blast+

lemma glob_go_correct:
  "glob_items p = Some gs \<Longrightarrow> glob_go p t = Some (t \<in> glob_lang gs)"
  "glob_items p = Some gs \<Longrightarrow> glob_star p t = Some (t \<in> glob_lang (AnyRun # gs))"
proof (induction p t and p t arbitrary: gs and gs rule: glob_go_glob_star.induct)
  case (1 t)
  then show ?case by simp
next
  case (2 b p t)
  show ?case
  proof (cases "b = LBRACKET")
    case True
    with 2(5) obtain x p' gs' where cut: "dropWhile (\<lambda>x. x \<noteq> RBRACKET) p = x # p'"
      and gs': "glob_items p' = Some gs'" "gs = OneOf (takeWhile (\<lambda>x. x \<noteq> RBRACKET) p) # gs'"
      by (auto split: list.splits)
    show ?thesis
    proof (cases t)
      case (Cons c t')
      show ?thesis
        using 2(3) [OF _ Cons _ True _ cut gs'(1)] True Cons cut gs'(2)
        by (simp add: byte_lang_unfold del: glob_lang.simps)
    qed (use True gs' in \<open>simp add: byte_lang_unfold del: glob_lang.simps\<close>)
  next
    case False
    with 2(5) obtain gs' where gs': "glob_items p = Some gs'"
      "gs = (if b = STAR then AnyRun else if b = QUESTION then AnyOne else Exactly b) # gs'" by auto
    show ?thesis
    proof (cases "b = STAR")
      case True
      with 2(1) [OF True gs'(1)] gs'(2) show ?thesis by (simp del: glob_lang.simps)
    next
      case nostar: False
      show ?thesis
      proof (cases t)
        case (Cons c t')
        show ?thesis
          using 2(2) [OF nostar Cons _ _ gs'(1)] 2(4) [OF nostar Cons _ False _ gs'(1)] nostar False Cons gs'(2)
          by (auto simp: byte_lang_unfold simp del: glob_lang.simps)
      qed (use nostar False gs' in \<open>simp add: byte_lang_unfold del: glob_lang.simps\<close>)
    qed
  qed
next
  case (3 p t)
  have go: "glob_go p t = Some (t \<in> glob_lang gs)" using 3 by blast
  show ?case
  proof (cases "t \<in> glob_lang gs")
    case True
    with go run_lang_unfold [of t gs] show ?thesis unfolding glob_star.simps [of p t] by simp
  next
    case False
    show ?thesis
    proof (cases t)
      case Nil
      with go False run_lang_unfold [of t gs] show ?thesis unfolding glob_star.simps [of p t] by simp
    next
      case (Cons c t')
      show ?thesis
      proof (cases "c = SLASH")
        case True
        with go False Cons run_lang_unfold [of t gs] show ?thesis unfolding glob_star.simps [of p t] by simp
      next
        case nosl: False
        from 3(2) [OF go _ Cons nosl 3(3)] False
        have "glob_star p t' = Some (t' \<in> glob_lang (AnyRun # gs))" by simp
        with go False Cons nosl run_lang_unfold [of t gs] show ?thesis
          unfolding glob_star.simps [of p t] by simp
      qed
    qed
  qed
qed

end
