(* ===== verification/Extract.thy ===== *)
theory Extract
  imports Glob Read_Path "HOL-Library.Multiset" "HOL-Library.Product_Lexorder" "HOL-Library.Option_ord"
begin

text \<open>
  \<open>src/src/fs/extract.rs\<close>: extraction of a tree to a destination directory. The destination is the
  operating system's file system; its operations are a record of functions on its state
  (\<open>dest_ops\<close>), each returning its result and the state it leaves. The sequential build is
  modelled (without the \<open>parallel\<close> feature). An outcome \<open>None\<close> is a run that does not return: a
  walk that exceeds its fuel, or a pattern that panics. Paths are byte strings, joined as
  \<open>PathBuf::push\<close> joins them on Unix. Messages to stderr are not modelled.
\<close>

record 'd dest_ops =
  do_create_dir_all :: "bytes \<Rightarrow> 'd \<Rightarrow> unit result \<times> 'd"
  do_create_parent :: "bytes \<Rightarrow> 'd \<Rightarrow> unit result \<times> 'd"
  do_create_file :: "bytes \<Rightarrow> 'd \<Rightarrow> unit result \<times> 'd"
  do_write_all :: "bytes \<Rightarrow> bytes \<Rightarrow> 'd \<Rightarrow> unit result \<times> 'd"
  do_hard_link :: "bytes \<Rightarrow> bytes \<Rightarrow> 'd \<Rightarrow> unit result \<times> 'd"
  do_copy :: "bytes \<Rightarrow> bytes \<Rightarrow> 'd \<Rightarrow> unit result \<times> 'd"
  do_symlink :: "bytes \<Rightarrow> bytes \<Rightarrow> 'd \<Rightarrow> unit result \<times> 'd"

text \<open>Run an operation of the destination and go on when it succeeds: the \<open>?\<close> of the source.\<close>

definition dest_bind :: "'a result \<times> 'd \<Rightarrow> ('a \<Rightarrow> 'd \<Rightarrow> 'b result \<times> 'd) \<Rightarrow> 'b result \<times> 'd" where
  "dest_bind m f = (case m of (Inl e, d) \<Rightarrow> (Inl e, d) | (Inr x, d) \<Rightarrow> f x d)"

lemma dest_bind_simps [simp]:
  "dest_bind (Inl e, d) f = (Inl e, d)" "dest_bind (Inr x, d) f = f x d"
  by (simp_all add: dest_bind_def)

subsection \<open>Paths\<close>

text \<open>\<open>PathBuf::push\<close> on Unix: an absolute path replaces the buffer.\<close>

definition path_push :: "bytes \<Rightarrow> bytes \<Rightarrow> bytes" where
  "path_push buf path =
     (if path \<noteq> [] \<and> hd path = SLASH then path
      else if buf \<noteq> [] \<and> last buf \<noteq> SLASH then buf @ SLASH # path
      else buf @ path)"

definition resolve_path :: "bytes \<Rightarrow> bytes \<Rightarrow> bytes" where
  "resolve_path dest rel = (if rel = [] then dest else path_push dest (strip_slash rel))"

text \<open>
  \<open>PathBuf\<close>s are compared by their components: a root, then the names between separators, without empty
  ones and without \<open>.\<close>, which only counts at the start of a relative path.
\<close>

definition DOT :: byte where "DOT = 0x2E"

definition path_components :: "bytes \<Rightarrow> bool \<times> bytes list" where
  "path_components path =
     (let rooted = (path \<noteq> [] \<and> hd path = SLASH);
          parts = split_slash path;
          names = filter (\<lambda>c. c \<noteq> [] \<and> c \<noteq> [DOT]) parts
      in (rooted, if \<not> rooted \<and> hd parts = [DOT] then [DOT] # names else names))"

definition path_eq :: "bytes \<Rightarrow> bytes \<Rightarrow> bool" where
  "path_eq p q \<longleftrightarrow> path_components p = path_components q"

lemma path_eq_refl [simp]: "path_eq p p"
  by (simp add: path_eq_def)

text \<open>Repeated and trailing separators and a \<open>.\<close> behind the first name make no difference.\<close>

lemma path_components_join:
  assumes "p \<noteq> []"
  shows "path_components (p @ SLASH # q)
    = (fst (path_components p), snd (path_components p) @ filter (\<lambda>c. c \<noteq> [] \<and> c \<noteq> [DOT]) (split_slash q))"
proof -
  have "hd (split_slash p @ split_slash q) = hd (split_slash p)"
    using split_slash_nonempty [of p] by simp
  with assms show ?thesis by (simp add: path_components_def Let_def split_slash_snoc)
qed

lemma path_eq_ignores:
  assumes "p \<noteq> []"
  shows "path_eq (p @ SLASH # SLASH # q) (p @ SLASH # q)"
    and "path_eq (p @ SLASH # DOT # SLASH # q) (p @ SLASH # q)"
    and "path_eq (p @ [SLASH]) p"
proof -
  have dot: "DOT \<noteq> SLASH" by (simp add: DOT_def SLASH_def)
  show "path_eq (p @ SLASH # SLASH # q) (p @ SLASH # q)"
    and "path_eq (p @ SLASH # DOT # SLASH # q) (p @ SLASH # q)"
    and "path_eq (p @ [SLASH]) p"
    using dot by (simp_all add: path_eq_def path_components_join [OF assms])
qed

subsection \<open>One entry\<close>

definition make_directory :: "'d dest_ops \<Rightarrow> bytes \<Rightarrow> walk_entry \<Rightarrow> 'd \<Rightarrow> unit result \<times> 'd" where
  "make_directory ops dest entry = do_create_dir_all ops (resolve_path dest (we_path entry))"

definition EXTRACT_CACHE_BYTES :: nat where "EXTRACT_CACHE_BYTES = 512 * 2 ^ 20"

definition extract_cache_bytes :: "filesystem \<Rightarrow> nat" where
  "extract_cache_bytes fs = max EXTRACT_CACHE_BYTES (unat (fs_block_size fs))"

text \<open>The loop of \<open>write_regular\<close>: a buffer at a time from \<open>offset\<close> on.\<close>

function copy_loop ::
    "environment \<Rightarrow> filesystem \<Rightarrow> 'd dest_ops \<Rightarrow> u32 \<Rightarrow> bytes \<Rightarrow> nat \<Rightarrow> nat \<Rightarrow> bytes \<Rightarrow> block_cache \<Rightarrow> 'd
       \<Rightarrow> (block_cache \<times> unit result \<times> 'd) option" where
  "copy_loop env fs ops inode target sz offset buf c d =
     (if offset < sz then
        (case read_into env fs inode offset buf c of
           None \<Rightarrow> None
         | Some (c', buf', Inl e) \<Rightarrow> Some (c', Inl e, d)
         | Some (c', buf', Inr n) \<Rightarrow>
             if n = 0 then Some (c', Inr (), d)
             else (case do_write_all ops target (take n buf') d of
                     (Inl e, d') \<Rightarrow> Some (c', Inl e, d')
                   | (Inr _, d') \<Rightarrow> copy_loop env fs ops inode target sz (offset + n) buf' c' d'))
      else Some (c, Inr (), d))"
  by pat_completeness auto
termination
  by (relation "measure (\<lambda>(env, fs, ops, inode, target, sz, offset, _). sz - offset)") auto

declare copy_loop.simps [simp del]

definition write_regular ::
    "environment \<Rightarrow> filesystem \<Rightarrow> 'd dest_ops \<Rightarrow> u32 \<Rightarrow> bytes \<Rightarrow> block_cache \<Rightarrow> 'd
       \<Rightarrow> (block_cache \<times> nat result \<times> 'd) option" where
  "write_regular env fs ops inode target c d =
     (case dest_bind (do_create_parent ops target d) (\<lambda>_. do_create_file ops target) of
        (Inl e, d1) \<Rightarrow> Some (c, Inl e, d1)
      | (Inr _, d1) \<Rightarrow>
          (case file_size fs inode of
             Inl e \<Rightarrow> Some (c, Inl e, d1)
           | Inr sz \<Rightarrow>
               (case copy_loop env fs ops inode target sz 0 (replicate (min (2 ^ 20) (max sz 1)) 0) c d1 of
                  None \<Rightarrow> None
                | Some (c', Inl e, d') \<Rightarrow> Some (c', Inl e, d')
                | Some (c', Inr _, d') \<Rightarrow> Some (c', Inr sz, d'))))"

definition write_symlink :: "filesystem \<Rightarrow> 'd dest_ops \<Rightarrow> bytes \<Rightarrow> walk_entry \<Rightarrow> 'd \<Rightarrow> unit result \<times> 'd" where
  "write_symlink fs ops dest entry d =
     (let target = resolve_path dest (we_path entry) in
      case read_link fs (we_inode entry) of
        Inl e \<Rightarrow> (Inl e, d)
      | Inr link_target \<Rightarrow>
          dest_bind (do_create_parent ops target d) (\<lambda>_. do_symlink ops link_target target))"

definition link_hardlink :: "'d dest_ops \<Rightarrow> bytes \<Rightarrow> bytes \<Rightarrow> 'd \<Rightarrow> unit result \<times> 'd" where
  "link_hardlink ops source target d =
     dest_bind (do_create_parent ops target d) (\<lambda>_. do_hard_link ops source target)"

subsection \<open>The extraction\<close>

record extract_stats =
  xs_directories :: nat
  xs_files :: nat
  xs_hardlinks :: nat
  xs_symlinks :: nat
  xs_skipped :: nat
  xs_errors :: nat

definition extract_stats_default :: extract_stats where
  "extract_stats_default =
     \<lparr>xs_directories = 0, xs_files = 0, xs_hardlinks = 0, xs_symlinks = 0, xs_skipped = 0, xs_errors = 0\<rparr>"

text \<open>Count a failed entry, or stop at it.\<close>

definition entry_failed :: "extract_options \<Rightarrow> error \<Rightarrow> extract_stats \<Rightarrow> extract_stats result" where
  "entry_failed options e stats =
     (if eo_continue_on_error options then Inr (stats\<lparr>xs_errors := xs_errors stats + 1\<rparr>) else Inl e)"

text \<open>The entries that pass the filter; \<open>None\<close> when a pattern panics.\<close>

fun select_entries :: "extract_options \<Rightarrow> walk_entry list \<Rightarrow> walk_entry list option" where
  "select_entries options [] = Some []"
| "select_entries options (e # es) =
     (case entry_matches options e of
        None \<Rightarrow> None
      | Some keep \<Rightarrow>
          map_option (\<lambda>rest. if keep then e # rest else rest) (select_entries options es))"

text \<open>Phase 1: directories, in the order of the walk.\<close>

primrec make_directories ::
    "extract_options \<Rightarrow> 'd dest_ops \<Rightarrow> bytes \<Rightarrow> walk_entry list \<Rightarrow> extract_stats \<Rightarrow> 'd
       \<Rightarrow> extract_stats result \<times> 'd" where
  "make_directories options ops dest [] stats d = (Inr stats, d)"
| "make_directories options ops dest (e # es) stats d =
     (if we_kind e \<noteq> KDirectory then make_directories options ops dest es stats d
      else case make_directory ops dest e d of
        (Inr _, d') \<Rightarrow>
          make_directories options ops dest es (stats\<lparr>xs_directories := xs_directories stats + 1\<rparr>) d'
      | (Inl err, d') \<Rightarrow>
          (case entry_failed options err stats of
             Inl e' \<Rightarrow> (Inl e', d')
           | Inr stats' \<Rightarrow> make_directories options ops dest es stats' d'))"

text \<open>Phase 2: the first entry of every distinct content.\<close>

fun first_writers :: "filesystem \<Rightarrow> u32 set \<Rightarrow> walk_entry list \<Rightarrow> walk_entry list result" where
  "first_writers fs seen [] = Inr []"
| "first_writers fs seen (e # es) =
     (if we_kind e \<noteq> KRegular then first_writers fs seen es
      else and_then (content_id fs (we_inode e)) (\<lambda>cid.
        and_then (first_writers fs (insert cid seen) es) (\<lambda>rest.
        Inr (if cid \<in> seen then rest else e # rest))))"

text \<open>
  The sort key \<open>(first_block, inode)\<close>: pairs are ordered lexicographically and \<open>None\<close> is below every
  block, in Rust as in the library. Both sorts are stable.
\<close>

definition writer_key :: "filesystem \<Rightarrow> walk_entry \<Rightarrow> u32 option \<times> u32" where
  "writer_key fs e = (first_block fs (we_inode e), we_inode e)"

definition sort_writers :: "(walk_entry \<Rightarrow> u32 option \<times> u32) \<Rightarrow> walk_entry list \<Rightarrow> walk_entry list" where
  "sort_writers key es = sort_key key es"

text \<open>
  The writes of phase 2. Every writer runs before the results are looked at; the paths of the
  contents written so far are a map, and the result of each writer is collected.
\<close>

primrec write_contents ::
    "environment \<Rightarrow> filesystem \<Rightarrow> 'd dest_ops \<Rightarrow> bytes \<Rightarrow> walk_entry list \<Rightarrow> block_cache
       \<Rightarrow> (u32 \<rightharpoonup> bytes) \<Rightarrow> 'd \<Rightarrow> (nat result list \<times> (u32 \<rightharpoonup> bytes) \<times> 'd) option" where
  "write_contents env fs ops dest [] c paths d = Some ([], paths, d)"
| "write_contents env fs ops dest (e # es) c paths d =
     (let target = resolve_path dest (we_path e) in
      case write_regular env fs ops (we_inode e) target c d of
        None \<Rightarrow> None
      | Some (c', r, d') \<Rightarrow>
          (let (r', paths') =
             (case r of
                Inl err \<Rightarrow> (Inl err, paths)
              | Inr n \<Rightarrow>
                  (case content_id fs (we_inode e) of
                     Inl err \<Rightarrow> (Inl err, paths)
                   | Inr cid \<Rightarrow> (Inr n, paths(cid \<mapsto> target))))
           in map_option (\<lambda>(rs, paths'', d''). (r' # rs, paths'', d''))
                (write_contents env fs ops dest es c' paths' d')))"

fun count_writes :: "extract_options \<Rightarrow> nat result list \<Rightarrow> extract_stats \<Rightarrow> extract_stats result" where
  "count_writes options [] stats = Inr stats"
| "count_writes options (Inr _ # rs) stats =
     count_writes options rs (stats\<lparr>xs_files := xs_files stats + 1\<rparr>)"
| "count_writes options (Inl err # rs) stats =
     and_then (entry_failed options err stats) (count_writes options rs)"

text \<open>
  Phase 3: links, and files whose content another entry has written. \<open>EntryAborts\<close> is an error
  the source returns at once, whatever \<open>continue_on_error\<close> says.
\<close>

datatype entry_outcome =
    EntryDone extract_stats "u32 \<rightharpoonup> bytes"
  | EntryFails error
  | EntryAborts error

definition finish_regular ::
    "environment \<Rightarrow> filesystem \<Rightarrow> extract_options \<Rightarrow> 'd dest_ops \<Rightarrow> walk_entry \<Rightarrow> u32 \<Rightarrow> bytes
       \<Rightarrow> extract_stats \<Rightarrow> (u32 \<rightharpoonup> bytes) \<Rightarrow> 'd \<Rightarrow> (entry_outcome \<times> 'd) option" where
  "finish_regular env fs options ops e cid target stats paths d =
     (case paths cid of
        Some writer \<Rightarrow>
          if path_eq writer target then Some (EntryDone stats paths, d)
          else if eo_hardlink_shared options then
            (case link_hardlink ops writer target d of
               (Inr _, d') \<Rightarrow> Some (EntryDone (stats\<lparr>xs_hardlinks := xs_hardlinks stats + 1\<rparr>) paths, d')
             | (Inl err, d') \<Rightarrow> Some (EntryFails err, d'))
          else
            (case do_copy ops writer target d of
               (Inr _, d') \<Rightarrow> Some (EntryDone (stats\<lparr>xs_files := xs_files stats + 1\<rparr>) paths, d')
             | (Inl err, d') \<Rightarrow> Some (EntryFails err, d'))
      | None \<Rightarrow>
          (case write_regular env fs ops (we_inode e) target (cache_new (extract_cache_bytes fs)) d of
             None \<Rightarrow> None
           | Some (_, Inr _, d') \<Rightarrow>
               Some (EntryDone (stats\<lparr>xs_files := xs_files stats + 1\<rparr>) (paths(cid \<mapsto> target)), d')
           | Some (_, Inl err, d') \<Rightarrow> Some (EntryFails err, d')))"

definition finish_entry ::
    "environment \<Rightarrow> filesystem \<Rightarrow> extract_options \<Rightarrow> 'd dest_ops \<Rightarrow> bytes \<Rightarrow> walk_entry
       \<Rightarrow> extract_stats \<Rightarrow> (u32 \<rightharpoonup> bytes) \<Rightarrow> 'd \<Rightarrow> (entry_outcome \<times> 'd) option" where
  "finish_entry env fs options ops dest e stats paths d =
     (case we_kind e of
        KDirectory \<Rightarrow> Some (EntryDone stats paths, d)
      | KRegular \<Rightarrow>
          (case content_id fs (we_inode e) of
             Inl err \<Rightarrow> Some (EntryAborts err, d)
           | Inr cid \<Rightarrow>
               finish_regular env fs options ops e cid (resolve_path dest (we_path e)) stats paths d)
      | KSymlink \<Rightarrow>
          (case write_symlink fs ops dest e d of
             (Inr _, d') \<Rightarrow> Some (EntryDone (stats\<lparr>xs_symlinks := xs_symlinks stats + 1\<rparr>) paths, d')
           | (Inl err, d') \<Rightarrow> Some (EntryFails err, d'))
      | _ \<Rightarrow> Some (EntryDone (stats\<lparr>xs_skipped := xs_skipped stats + 1\<rparr>) paths, d))"

primrec finish_entries ::
    "environment \<Rightarrow> filesystem \<Rightarrow> extract_options \<Rightarrow> 'd dest_ops \<Rightarrow> bytes \<Rightarrow> walk_entry list
       \<Rightarrow> extract_stats \<Rightarrow> (u32 \<rightharpoonup> bytes) \<Rightarrow> 'd \<Rightarrow> (extract_stats result \<times> 'd) option" where
  "finish_entries env fs options ops dest [] stats paths d = Some (Inr stats, d)"
| "finish_entries env fs options ops dest (e # es) stats paths d =
     (case finish_entry env fs options ops dest e stats paths d of
        None \<Rightarrow> None
      | Some (EntryDone stats' paths', d') \<Rightarrow>
          finish_entries env fs options ops dest es stats' paths' d'
      | Some (EntryFails err, d') \<Rightarrow>
          (case entry_failed options err stats of
             Inl e' \<Rightarrow> Some (Inl e', d')
           | Inr stats' \<Rightarrow> finish_entries env fs options ops dest es stats' paths d')
      | Some (EntryAborts err, d') \<Rightarrow> Some (Inl err, d'))"

text \<open>The writes and links, once the directories exist.\<close>

definition extract_files ::
    "environment \<Rightarrow> filesystem \<Rightarrow> bytes \<Rightarrow> extract_options \<Rightarrow> 'd dest_ops \<Rightarrow> walk_entry list
       \<Rightarrow> extract_stats \<Rightarrow> 'd \<Rightarrow> (extract_stats result \<times> 'd) option" where
  "extract_files env fs dest options ops filtered stats d =
     (case first_writers fs {} filtered of
        Inl e \<Rightarrow> Some (Inl e, d)
      | Inr ws \<Rightarrow>
          (case write_contents env fs ops dest (sort_writers (writer_key fs) ws)
                  (cache_new (extract_cache_bytes fs)) Map.empty d of
             None \<Rightarrow> None
           | Some (rs, paths, d') \<Rightarrow>
               (case count_writes options rs stats of
                  Inl e \<Rightarrow> Some (Inl e, d')
                | Inr stats' \<Rightarrow> finish_entries env fs options ops dest filtered stats' paths d')))"

definition extract_all ::
    "environment \<Rightarrow> filesystem \<Rightarrow> nat \<Rightarrow> bytes \<Rightarrow> extract_options \<Rightarrow> 'd dest_ops \<Rightarrow> 'd
       \<Rightarrow> (extract_stats result \<times> 'd) option" where
  "extract_all env fs fuel dest options ops d =
     (case do_create_dir_all ops dest d of
        (Inl e, d1) \<Rightarrow> Some (Inl e, d1)
      | (Inr _, d1) \<Rightarrow>
          (case walk_tree fs fuel of
             None \<Rightarrow> None
           | Some (Inl e) \<Rightarrow> Some (Inl e, d1)
           | Some (Inr entries) \<Rightarrow>
               (case select_entries options entries of
                  None \<Rightarrow> None
                | Some filtered \<Rightarrow>
                    (case make_directories options ops dest filtered extract_stats_default d1 of
                       (Inl e, d2) \<Rightarrow> Some (Inl e, d2)
                     | (Inr stats, d2) \<Rightarrow>
                         map_option
                           (\<lambda>(r, d3). (and_then r (\<lambda>stats.
                              if 0 < xs_errors stats
                              then Inl (Decode ''fs-extract'' ''{errors} entries failed during extraction'')
                              else Inr stats), d3))
                           (extract_files env fs dest options ops filtered stats d2)))))"

subsection \<open>A regular file is copied byte for byte\<close>

text \<open>
  What a destination that does not fail does with a file: \<open>view\<close> is the content of \<open>target\<close>;
  creating truncates it and writing appends to it.
\<close>

definition stores :: "'d dest_ops \<Rightarrow> bytes \<Rightarrow> ('d \<Rightarrow> bytes) \<Rightarrow> bool" where
  "stores ops target view \<longleftrightarrow>
     (\<forall>d. \<exists>d'. do_create_parent ops target d = (Inr (), d'))
     \<and> (\<forall>d. \<exists>d'. do_create_file ops target d = (Inr (), d') \<and> view d' = [])
     \<and> (\<forall>bs d. \<exists>d'. do_write_all ops target bs d = (Inr (), d') \<and> view d' = view d @ bs)"

lemma copy_loop_copies:
  assumes r: "readable env fs content blk inode a b" and inside: "chunks_inside fs blk a b"
    and st: "stores ops target view" and sz: "sz = length (file_content fs blk a b)"
  shows "cache_ready env fs c \<Longrightarrow> buf \<noteq> [] \<Longrightarrow> view d = take offset (file_content fs blk a b) \<Longrightarrow> offset \<le> sz \<Longrightarrow>
    \<exists>c' d'. copy_loop env fs ops inode target sz offset buf c d = Some (c', Inr (), d')
      \<and> cache_ready env fs c' \<and> view d' = file_content fs blk a b"
proof (induction "sz - offset" arbitrary: offset buf c d rule: less_induct)
  case less
  let ?F = "file_content fs blk a b"
  show ?case
  proof (cases "offset < sz")
    case False
    with less.prems sz show ?thesis
      unfolding copy_loop.simps [of env fs ops inode target sz offset buf c d] by simp
  next
    case True
    let ?new = "take (length buf) (drop offset ?F)"
    from read_into_right [OF r less.prems(1), of offset buf] inside obtain c1 where
      rd: "read_into env fs inode offset buf c = Some (c1, put_at 0 ?new buf, Inr (length ?new))"
      and c1: "cache_ready env fs c1" by auto
    have "offset < length ?F" "0 < length buf" using True sz less.prems(2) by simp_all
    note step = chunk_step [OF this, folded sz]
    have written: "take (length ?new) (put_at 0 ?new buf) = ?new" by (rule put_at_0_take) simp
    from st obtain d1 where wr: "do_write_all ops target ?new d = (Inr (), d1)" and d1: "view d1 = view d @ ?new"
      unfolding stores_def by blast
    have view1: "view d1 = take (offset + length ?new) ?F" using d1 less.prems(3) step(4) by simp
    have "put_at 0 ?new buf \<noteq> []" using step(1) by (auto simp: put_at_def)
    then obtain c' d' where ih:
      "copy_loop env fs ops inode target sz (offset + length ?new) (put_at 0 ?new buf) c1 d1
        = Some (c', Inr (), d')" "cache_ready env fs c'" "view d' = ?F"
      using less.hyps [OF step(3) c1 _ view1 step(2)] by blast
    have "length ?new \<noteq> 0" using step(1) by simp
    with rd wr written ih True show ?thesis
      unfolding copy_loop.simps [of env fs ops inode target sz offset buf c d] by (simp del: length_take length_drop)
  qed
qed

lemma write_regular_copies:
  assumes r: "readable env fs content blk inode a b" and inside: "chunks_inside fs blk a b"
    and c: "cache_ready env fs c" and st: "stores ops target view"
  shows "\<exists>c' d'. write_regular env fs ops inode target c d
      = Some (c', Inr (length (file_content fs blk a b)), d')
    \<and> cache_ready env fs c' \<and> view d' = file_content fs blk a b"
proof -
  let ?F = "file_content fs blk a b"
  from r have ok: "fs_ok fs" "fs_kind fs inode = Inr KRegular" "chunk_range fs inode = Inr (a, b)"
    by (auto simp: readable_def)
  from file_size_sum [OF ok] have sz: "file_size fs inode = Inr (length ?F)"
    by (simp add: length_file_content)
  from st obtain d1 d2 where d: "do_create_parent ops target d = (Inr (), d1)"
    "do_create_file ops target d1 = (Inr (), d2)" "view d2 = []" unfolding stores_def by meson
  let ?buf = "replicate (min (2 ^ 20) (max (length ?F) 1)) (0 :: byte)"
  have "?buf \<noteq> []" by simp
  from copy_loop_copies [OF r inside st refl c this, of d2 0] d(3) obtain c' d' where
    "copy_loop env fs ops inode target (length ?F) 0 ?buf c d2 = Some (c', Inr (), d')"
    "cache_ready env fs c'" "view d' = ?F" by auto
  with d sz show ?thesis by (simp add: write_regular_def)
qed

subsection \<open>The counters account for every entry\<close>

lemma entry_failed_Inr:
  "entry_failed options e stats = Inr stats' \<longleftrightarrow>
     eo_continue_on_error options \<and> stats' = stats\<lparr>xs_errors := xs_errors stats + 1\<rparr>"
  by (auto simp: entry_failed_def)

text \<open>Directories: either some entry failed, or each was created.\<close>

lemma make_directories_counts:
  "make_directories options ops dest es stats d = (Inr stats', d') \<Longrightarrow>
     xs_errors stats < xs_errors stats'
     \<or> stats' = stats\<lparr>xs_directories := xs_directories stats
                 + length (filter (\<lambda>e. we_kind e = KDirectory) es)\<rparr>"
proof (induction es arbitrary: stats d)
  case Nil
  then show ?case by simp
next
  case (Cons e es)
  show ?case
  proof (cases "we_kind e = KDirectory")
    case False
    with Cons show ?thesis by simp
  next
    case True
    obtain r d1 where dir: "make_directory ops dest e d = (r, d1)" by (cases "make_directory ops dest e d")
    show ?thesis
    proof (cases r)
      case (Inr u)
      with Cons.prems True dir have "make_directories options ops dest es
          (stats\<lparr>xs_directories := xs_directories stats + 1\<rparr>) d1 = (Inr stats', d')" by simp
      from Cons.IH [OF this] True show ?thesis by auto
    next
      case (Inl err)
      with Cons.prems True dir have
        "make_directories options ops dest es (stats\<lparr>xs_errors := xs_errors stats + 1\<rparr>) d1 = (Inr stats', d')"
        by (auto simp: entry_failed_def split: if_splits)
      from Cons.IH [OF this] show ?thesis by auto
    qed
  qed
qed

lemma count_writes_counts:
  "count_writes options rs stats = Inr stats' \<Longrightarrow>
     xs_errors stats < xs_errors stats'
     \<or> (\<forall>r \<in> set rs. is_ok r) \<and> stats' = stats\<lparr>xs_files := xs_files stats + length rs\<rparr>"
proof (induction options rs stats rule: count_writes.induct)
  case (3 options err rs stats)
  then show ?case by (auto simp: result_simps entry_failed_Inr)
qed auto

text \<open>Writers: one entry per distinct content, each content's first.\<close>

definition content_of :: "filesystem \<Rightarrow> walk_entry \<Rightarrow> u32" where
  "content_of fs e = projr (content_id fs (we_inode e))"

abbreviation regulars :: "walk_entry list \<Rightarrow> walk_entry list" where
  "regulars es \<equiv> filter (\<lambda>e. we_kind e = KRegular) es"

lemma first_writers_distinct:
  "first_writers fs seen es = Inr ws \<Longrightarrow>
     (\<forall>e \<in> set (regulars es). content_id fs (we_inode e) = Inr (content_of fs e))
     \<and> distinct (map (content_of fs) ws) \<and> set ws \<subseteq> set (regulars es)
     \<and> content_of fs ` set ws = content_of fs ` set (regulars es) - seen"
proof (induction fs seen es arbitrary: ws rule: first_writers.induct)
  case (1 fs seen)
  then show ?case by simp
next
  case (2 fs seen e es)
  show ?case
  proof (cases "we_kind e = KRegular")
    case False
    with 2 show ?thesis by auto
  next
    case True
    with 2(3) obtain cid rest where cid: "content_id fs (we_inode e) = Inr cid"
      and rest: "first_writers fs (insert cid seen) es = Inr rest"
      and ws: "ws = (if cid \<in> seen then rest else e # rest)" by (auto simp: result_simps)
    have ce: "content_of fs e = cid" using cid by (simp add: content_of_def)
    from 2(2) [OF _ cid rest] True cid ce ws show ?thesis by auto
  qed
qed

lemma sort_writers_perm: "mset (sort_writers key es) = mset es"
  by (simp add: sort_writers_def)

lemma sort_writers_sorted: "sorted (map key (sort_writers key es))"
  by (simp add: sort_writers_def)

lemma write_contents_paths:
  "write_contents env fs ops dest ws c paths d = Some (rs, paths', d') \<Longrightarrow>
     (\<forall>r \<in> set rs. is_ok r) \<Longrightarrow> distinct (map (content_of fs) ws) \<Longrightarrow>
     (\<forall>w \<in> set ws. content_id fs (we_inode w) = Inr (content_of fs w)) \<Longrightarrow>
     length rs = length ws
     \<and> (\<forall>w \<in> set ws. paths' (content_of fs w) = Some (resolve_path dest (we_path w)))
     \<and> (\<forall>cid. cid \<notin> content_of fs ` set ws \<longrightarrow> paths' cid = paths cid)"
proof (induction ws arbitrary: c paths d rs)
  case Nil
  then show ?case by simp
next
  case (Cons w ws)
  let ?t = "resolve_path dest (we_path w)"
  from Cons.prems(1) obtain c1 r d1 where w: "write_regular env fs ops (we_inode w) ?t c d = Some (c1, r, d1)"
    by (auto simp: Let_def split: option.splits prod.splits)
  have cid: "content_id fs (we_inode w) = Inr (content_of fs w)" using Cons.prems(4) by simp
  obtain n where r: "r = Inr n"
    using Cons.prems(1,2) w by (cases r) (auto simp: Let_def)
  with Cons.prems(1) w cid obtain rs1 where rs: "rs = Inr n # rs1"
    and rest: "write_contents env fs ops dest ws c1 (paths(content_of fs w \<mapsto> ?t)) d1 = Some (rs1, paths', d')"
    by (auto simp: Let_def)
  from Cons.IH [OF rest] Cons.prems(2-4) rs show ?case by auto
qed

text \<open>Links and copies: every other regular file, every symlink, everything else skipped.\<close>

definition destination :: "bytes \<Rightarrow> walk_entry \<Rightarrow> bool \<times> bytes list" where
  "destination dest e = path_components (resolve_path dest (we_path e))"

definition already_written :: "filesystem \<Rightarrow> bytes \<Rightarrow> (u32 \<rightharpoonup> bytes) \<Rightarrow> walk_entry \<Rightarrow> bool" where
  "already_written fs dest paths e \<longleftrightarrow>
     we_kind e = KRegular \<and> map_option path_components (paths (content_of fs e)) = Some (destination dest e)"

definition finished :: "extract_options \<Rightarrow> filesystem \<Rightarrow> bytes \<Rightarrow> (u32 \<rightharpoonup> bytes) \<Rightarrow> walk_entry list
    \<Rightarrow> extract_stats \<Rightarrow> extract_stats" where
  "finished options fs dest paths es stats =
     (let others = length (filter (\<lambda>e. \<not> already_written fs dest paths e) (regulars es)) in
      stats\<lparr>xs_hardlinks := xs_hardlinks stats + (if eo_hardlink_shared options then others else 0),
            xs_files := xs_files stats + (if eo_hardlink_shared options then 0 else others),
            xs_symlinks := xs_symlinks stats + length (filter (\<lambda>e. we_kind e = KSymlink) es),
            xs_skipped := xs_skipped stats
              + length (filter (\<lambda>e. we_kind e \<notin> {KDirectory, KRegular, KSymlink}) es)\<rparr>)"

lemma finish_regular_done:
  assumes "finish_regular env fs options ops e cid target stats paths d = Some (EntryDone stats' paths', d')"
    and "paths cid = Some writer"
  shows "paths' = paths"
    and "stats' = (if path_eq writer target then stats
      else if eo_hardlink_shared options then stats\<lparr>xs_hardlinks := xs_hardlinks stats + 1\<rparr>
      else stats\<lparr>xs_files := xs_files stats + 1\<rparr>)"
  using assms by (auto simp: finish_regular_def split: if_splits prod.splits sum.splits)

lemma finish_entry_done:
  assumes "finish_entry env fs options ops dest e stats paths d = Some (EntryDone stats' paths', d')"
    and "we_kind e = KRegular \<Longrightarrow> content_id fs (we_inode e) = Inr (content_of fs e)
      \<and> paths (content_of fs e) \<noteq> None"
  shows "paths' = paths \<and> stats' = finished options fs dest paths [e] stats"
proof (cases "we_kind e = KRegular")
  case True
  with assms(2) obtain writer where w: "content_id fs (we_inode e) = Inr (content_of fs e)"
    "paths (content_of fs e) = Some writer" by auto
  with assms(1) True have "finish_regular env fs options ops e (content_of fs e)
      (resolve_path dest (we_path e)) stats paths d = Some (EntryDone stats' paths', d')"
    by (simp add: finish_entry_def)
  from finish_regular_done [OF this w(2)] w True show ?thesis
    by (auto simp: finished_def already_written_def destination_def path_eq_def Let_def)
next
  case False
  with assms(1) show ?thesis
    by (auto simp: finish_entry_def finished_def Let_def split: inode_kind.splits prod.splits sum.splits)
qed

lemma finished_Cons:
  "finished options fs dest paths es (finished options fs dest paths [e] stats)
    = finished options fs dest paths (e # es) stats"
  by (simp add: finished_def Let_def)

lemma finish_entries_counts:
  "finish_entries env fs options ops dest es stats paths d = Some (Inr stats', d') \<Longrightarrow>
     (\<forall>e \<in> set (regulars es). content_id fs (we_inode e) = Inr (content_of fs e)
        \<and> paths (content_of fs e) \<noteq> None) \<Longrightarrow>
     xs_errors stats < xs_errors stats' \<or> stats' = finished options fs dest paths es stats"
proof (induction es arbitrary: stats d)
  case Nil
  then show ?case by (simp add: finished_def)
next
  case (Cons e es)
  from Cons.prems(1) obtain out d1 where
    e: "finish_entry env fs options ops dest e stats paths d = Some (out, d1)"
    by (auto split: option.splits prod.splits)
  show ?case
  proof (cases out)
    case (EntryDone stats1 paths1)
    from finish_entry_done [OF e [unfolded EntryDone]] Cons.prems(2)
    have same: "paths1 = paths" "stats1 = finished options fs dest paths [e] stats" by auto
    with Cons.prems(1) e EntryDone have "finish_entries env fs options ops dest es stats1 paths d1
        = Some (Inr stats', d')" by simp
    from Cons.IH [OF this] Cons.prems(2) same finished_Cons show ?thesis
      by (auto simp: finished_def Let_def split: if_splits)
  next
    case (EntryFails err)
    with Cons.prems(1) e have "finish_entries env fs options ops dest es
        (stats\<lparr>xs_errors := xs_errors stats + 1\<rparr>) paths d1 = Some (Inr stats', d')"
      by (auto simp: entry_failed_def split: if_splits)
    from Cons.IH [OF this] Cons.prems(2) show ?thesis by (auto simp: finished_def Let_def)
  next
    case (EntryAborts err)
    with Cons.prems(1) e show ?thesis by simp
  qed
qed

lemma finish_entries_errors:
  "finish_entries env fs options ops dest es stats paths d = Some (Inr stats', d') \<Longrightarrow>
     xs_errors stats \<le> xs_errors stats'"
proof (induction es arbitrary: stats paths d)
  case Nil
  then show ?case by simp
next
  case (Cons e es)
  from Cons.prems obtain out d1 where
    e: "finish_entry env fs options ops dest e stats paths d = Some (out, d1)"
    by (auto split: option.splits prod.splits)
  show ?case
  proof (cases out)
    case (EntryDone stats1 paths1)
    have "xs_errors stats1 = xs_errors stats"
      using e EntryDone by (auto simp: finish_entry_def finish_regular_def
          split: inode_kind.splits prod.splits sum.splits option.splits if_splits)
    with Cons.prems Cons.IH [of stats1 paths1 d1] e EntryDone show ?thesis by simp
  next
    case (EntryFails err)
    with Cons.prems e Cons.IH [of "stats\<lparr>xs_errors := xs_errors stats + 1\<rparr>" paths d1]
    show ?thesis by (auto simp: entry_failed_def split: if_splits)
  next
    case (EntryAborts err)
    with Cons.prems e show ?thesis by simp
  qed
qed

text \<open>With distinct destinations, the files already written are exactly the writers.\<close>

lemma already_written_writers:
  assumes "distinct (map (destination dest) (regulars es))"
    and "set ws \<subseteq> set (regulars es)" "distinct (map (content_of fs) ws)"
    and "content_of fs ` set ws = content_of fs ` set (regulars es)"
    and "\<forall>w \<in> set ws. paths (content_of fs w) = Some (resolve_path dest (we_path w))"
  shows "length (filter (already_written fs dest paths) (regulars es)) = length ws"
proof -
  have inj: "inj_on (destination dest) (set (regulars es))" and dist: "distinct (regulars es)"
    using assms(1) by (simp_all add: distinct_map)
  have "set (filter (already_written fs dest paths) (regulars es)) = set ws"
  proof (intro equalityI subsetI)
    fix e assume "e \<in> set (filter (already_written fs dest paths) (regulars es))"
    then have e: "e \<in> set (regulars es)" "already_written fs dest paths e" by auto
    with assms(4) obtain w where w: "w \<in> set ws" "content_of fs w = content_of fs e" by (metis imageE image_eqI)
    with assms(5) e(2) have "destination dest w = destination dest e"
      by (auto simp: already_written_def destination_def)
    with inj w(1) assms(2) e(1) have "w = e" by (auto dest: inj_onD)
    with w(1) show "e \<in> set ws" by simp
  next
    fix w assume "w \<in> set ws"
    with assms(2,5) show "w \<in> set (filter (already_written fs dest paths) (regulars es))"
      by (auto simp: already_written_def destination_def)
  qed
  moreover have "distinct (filter (already_written fs dest paths) (regulars es))"
    using dist by (rule distinct_filter)
  moreover have "distinct ws" using assms(3) by (simp add: distinct_map)
  ultimately show ?thesis by (metis distinct_card)
qed

lemma extract_files_accounts:
  assumes run: "extract_files env fs dest options ops es stats d = Some (Inr stats', d')"
    and errors: "xs_errors stats' = 0"
    and dist: "distinct (map (destination dest) (regulars es))"
  shows "xs_errors stats = 0 \<and> xs_directories stats' = xs_directories stats
    \<and> xs_symlinks stats' = xs_symlinks stats + length (filter (\<lambda>e. we_kind e = KSymlink) es)
    \<and> xs_skipped stats' = xs_skipped stats
        + length (filter (\<lambda>e. we_kind e \<notin> {KDirectory, KRegular, KSymlink}) es)
    \<and> xs_files stats' + xs_hardlinks stats'
        = xs_files stats + xs_hardlinks stats + length (regulars es)
    \<and> (eo_hardlink_shared options \<longrightarrow>
        xs_files stats' = xs_files stats + card (content_of fs ` set (regulars es)))"
proof -
  from run obtain ws rs paths d1 stats1 where fw: "first_writers fs {} es = Inr ws"
    and wc: "write_contents env fs ops dest (sort_writers (writer_key fs) ws)
        (cache_new (extract_cache_bytes fs)) Map.empty d = Some (rs, paths, d1)"
    and cw: "count_writes options rs stats = Inr stats1"
    and fin: "finish_entries env fs options ops dest es stats1 paths d1 = Some (Inr stats', d')"
    by (auto simp: extract_files_def split: sum.splits option.splits prod.splits)
  let ?sorted = "sort_writers (writer_key fs) ws"
  note writers = first_writers_distinct [OF fw]
  have mset: "mset ?sorted = mset ws" by (rule sort_writers_perm)
  then have set_sorted: "set ?sorted = set ws" and len_sorted: "length ?sorted = length ws"
    by (auto dest: mset_eq_setD mset_eq_length)
  have dist_sorted: "distinct (map (content_of fs) ?sorted)"
    using writers mset by (metis mset_map mset_eq_imp_distinct_iff)
  have fin_ok: "xs_errors stats1 = 0"
    using fin errors finish_entries_errors [OF fin] by simp
  from count_writes_counts [OF cw] fin_ok
  have all_ok: "\<forall>r \<in> set rs. is_ok r" and stats1: "stats1 = stats\<lparr>xs_files := xs_files stats + length rs\<rparr>"
    by auto
  from write_contents_paths [OF wc all_ok dist_sorted] writers
  have paths: "length rs = length ws" "\<forall>w \<in> set ws. paths (content_of fs w) = Some (resolve_path dest (we_path w))"
    by (auto simp: set_sorted len_sorted)
  have cover: "content_of fs ` set ws = content_of fs ` set (regulars es)" using writers by simp
  have "\<forall>e \<in> set (regulars es). content_id fs (we_inode e) = Inr (content_of fs e) \<and> paths (content_of fs e) \<noteq> None"
  proof
    fix e assume "e \<in> set (regulars es)"
    then show "content_id fs (we_inode e) = Inr (content_of fs e) \<and> paths (content_of fs e) \<noteq> None"
      using writers cover paths(2) by (metis image_eqI imageE option.discI)
  qed
  from finish_entries_counts [OF fin this] errors
  have stats': "stats' = finished options fs dest paths es stats1" by simp
  have written: "length (filter (already_written fs dest paths) (regulars es)) = length ws"
    using already_written_writers [OF dist _ _ cover paths(2)] writers by simp
  then have others: "length ws + length (filter (\<lambda>e. \<not> already_written fs dest paths e) (regulars es))
      = length (regulars es)"
    using sum_length_filter_compl [of "already_written fs dest paths" "regulars es"] by simp
  have "length ws = card (content_of fs ` set (regulars es))"
    using writers cover by (metis distinct_card length_map set_map)
  with others stats' stats1 paths(1) fin_ok show ?thesis
    by (simp add: finished_def Let_def)
qed

lemma extract_all_accounts:
  assumes run: "extract_all env fs fuel dest options ops d = Some (Inr stats, d')"
    and sel: "walk_tree fs fuel = Some (Inr entries)" "select_entries options entries = Some es"
    and dist: "distinct (map (destination dest) (regulars es))"
  shows "xs_errors stats = 0
    \<and> xs_directories stats = length (filter (\<lambda>e. we_kind e = KDirectory) es)
    \<and> xs_symlinks stats = length (filter (\<lambda>e. we_kind e = KSymlink) es)
    \<and> xs_skipped stats = length (filter (\<lambda>e. we_kind e \<notin> {KDirectory, KRegular, KSymlink}) es)
    \<and> xs_files stats + xs_hardlinks stats = length (regulars es)
    \<and> (eo_hardlink_shared options \<longrightarrow> xs_files stats = card (content_of fs ` set (regulars es)))"
proof -
  from run sel obtain stats1 d1 d2 where
    dirs: "make_directories options ops dest es extract_stats_default d1 = (Inr stats1, d2)"
    and files: "extract_files env fs dest options ops es stats1 d2 = Some (Inr stats, d')"
    and ok: "xs_errors stats = 0"
    by (auto simp: extract_all_def result_simps split: prod.splits sum.splits option.splits if_splits)
  from extract_files_accounts [OF files ok dist] make_directories_counts [OF dirs] ok
  show ?thesis by (auto simp: extract_stats_default_def)
qed

text \<open>
  Nothing confines an entry to the destination: an entry whose name begins with a separator has
  a path that, once one separator is stripped, is absolute and replaces the destination.
\<close>

lemma resolve_path_escapes: "resolve_path dest (SLASH # SLASH # rest) = SLASH # rest"
  by (simp add: resolve_path_def strip_slash_def path_push_def)

end
