(* ===== verification/Text_Bytes.thy ===== *)
theory Text_Bytes
  imports Thrift
begin

text \<open>
  \<open>String::from_utf8_lossy\<close> of the standard library, used by \<open>src/src/fs/tar.rs\<close> and
  \<open>src/src/bin/dwarfsck.rs\<close>: well-formed sequences are kept, and every maximal ill-formed prefix
  is replaced by U+FFFD.
\<close>

definition REPLACEMENT :: bytes where "REPLACEMENT = [0xEF, 0xBF, 0xBD]"

text \<open>The second byte of a sequence of three or four bytes.\<close>

definition utf8_second :: "byte \<Rightarrow> byte \<Rightarrow> bool" where
  "utf8_second b c \<longleftrightarrow>
     utf8_tail c \<and> (b = 0xE0 \<longrightarrow> 0xA0 \<le> c) \<and> (b = 0xED \<longrightarrow> c \<le> 0x9F)
     \<and> (b = 0xF0 \<longrightarrow> 0x90 \<le> c) \<and> (b = 0xF4 \<longrightarrow> c \<le> 0x8F)"

fun utf8_lossy :: "bytes \<Rightarrow> bytes" where
  "utf8_lossy [] = []"
| "utf8_lossy (b # bs) =
     (if b \<le> 0x7F then b # utf8_lossy bs
      else if 0xC2 \<le> b \<and> b \<le> 0xDF then
        (case bs of
           [] \<Rightarrow> REPLACEMENT
         | c # r \<Rightarrow> if utf8_tail c then b # c # utf8_lossy r else REPLACEMENT @ utf8_lossy bs)
      else if 0xE0 \<le> b \<and> b \<le> 0xF4 then
        (case bs of
           [] \<Rightarrow> REPLACEMENT
         | c # r \<Rightarrow>
             if \<not> utf8_second b c then REPLACEMENT @ utf8_lossy bs
             else (case r of
                [] \<Rightarrow> REPLACEMENT
              | d # r' \<Rightarrow>
                  if \<not> utf8_tail d then REPLACEMENT @ utf8_lossy r
                  else if b \<le> 0xEF then b # c # d # utf8_lossy r'
                  else (case r' of
                     [] \<Rightarrow> REPLACEMENT
                   | e # r'' \<Rightarrow>
                       if utf8_tail e then b # c # d # e # utf8_lossy r''
                       else REPLACEMENT @ utf8_lossy r')))
      else REPLACEMENT @ utf8_lossy bs)"

text \<open>The branches of the decoder, one rule each.\<close>

declare utf8_lossy.simps(2) [simp del] utf8_valid.simps(2) [simp del]

lemma byte_le_trans: "b \<le> c \<Longrightarrow> c \<le> d \<Longrightarrow> b \<le> (d :: byte)"
  by simp

lemma lossy_ascii: "b \<le> 0x7F \<Longrightarrow> utf8_lossy (b # bs) = b # utf8_lossy bs"
  by (simp add: utf8_lossy.simps(2))

lemma lossy_two:
  "\<not> b \<le> 0x7F \<Longrightarrow> 0xC2 \<le> b \<Longrightarrow> b \<le> 0xDF \<Longrightarrow> utf8_lossy (b # bs) =
     (case bs of
        [] \<Rightarrow> REPLACEMENT
      | c # r \<Rightarrow> if utf8_tail c then b # c # utf8_lossy r else REPLACEMENT @ utf8_lossy bs)"
  by (simp add: utf8_lossy.simps(2) [of b bs])

lemma lossy_more:
  "\<not> b \<le> 0x7F \<Longrightarrow> \<not> (0xC2 \<le> b \<and> b \<le> 0xDF) \<Longrightarrow> 0xE0 \<le> b \<Longrightarrow> b \<le> 0xF4 \<Longrightarrow>
   utf8_second b c \<Longrightarrow> utf8_tail d \<Longrightarrow> utf8_lossy (b # c # d # r) =
     (if b \<le> 0xEF then b # c # d # utf8_lossy r
      else case r of
        [] \<Rightarrow> REPLACEMENT
      | e # r' \<Rightarrow> if utf8_tail e then b # c # d # e # utf8_lossy r' else REPLACEMENT @ utf8_lossy r)"
  by (auto simp: utf8_lossy.simps(2) [of b "c # d # r"] split: list.split)

lemma utf8_lossy_valid: "utf8_valid bs \<Longrightarrow> utf8_lossy bs = bs"
proof (induction bs rule: utf8_valid.induct)
  case (2 b bs)
  show ?case
  proof (cases "b \<le> 0x7F")
    case True
    with 2 show ?thesis by (simp add: lossy_ascii utf8_valid.simps(2) [of b bs])
  next
    case no1: False
    show ?thesis
    proof (cases "0xC2 \<le> b \<and> b \<le> 0xDF")
      case True
      with 2(5) no1 obtain c rest where bs: "bs = c # rest" "utf8_tail c" "utf8_valid rest"
        by (simp add: utf8_valid.simps(2) [of b bs] split: list.splits)
      with 2(2) [OF no1 True bs(1,3)] True no1 show ?thesis by (simp add: lossy_two)
    next
      case no2: False
      show ?thesis
      proof (cases "0xE0 \<le> b \<and> b \<le> 0xEF")
        case True
        with 2(5) no1 no2 obtain c d rest where bs: "bs = c # d # rest" and ok: "utf8_tail c" "utf8_tail d"
          "b = 0xE0 \<longrightarrow> 0xA0 \<le> c" "b = 0xED \<longrightarrow> c \<le> 0x9F" "utf8_valid rest"
          by (simp add: utf8_valid.simps(2) [of b bs] split: list.splits)
        have "b \<noteq> 0xF0" "b \<noteq> 0xF4" using True by auto
        then have sec: "utf8_second b c" using ok by (simp add: utf8_second_def)
        have "b \<le> 0xF4" using True byte_le_trans [of b "0xEF" "0xF4"] by simp
        with 2(3) [OF no1 no2 True bs refl ok(5)] True sec ok(2) no1 no2 show ?thesis
          by (simp add: bs lossy_more)
      next
        case no3: False
        with 2(5) no1 no2 have b4: "0xF0 \<le> b \<and> b \<le> 0xF4"
          by (simp add: utf8_valid.simps(2) [of b bs] split: if_splits)
        with 2(5) no1 no2 no3 obtain c d e rest where bs: "bs = c # d # e # rest"
          and ok: "utf8_tail c" "utf8_tail d" "utf8_tail e" "b = 0xF0 \<longrightarrow> 0x90 \<le> c"
            "b = 0xF4 \<longrightarrow> c \<le> 0x8F" "utf8_valid rest"
          by (simp add: utf8_valid.simps(2) [of b bs] split: list.splits)
        have "b \<noteq> 0xE0" "b \<noteq> 0xED" using b4 by auto
        then have sec: "utf8_second b c" using ok by (simp add: utf8_second_def)
        have "0xE0 \<le> b" using b4 byte_le_trans [of "0xE0" "0xF0" b] by simp
        with no3 have "\<not> b \<le> 0xEF" by simp
        with 2(4) [OF no1 no2 no3 b4 bs refl refl ok(6)] b4 \<open>0xE0 \<le> b\<close> sec ok(2,3) no1 no2 show ?thesis
          by (simp add: bs lossy_more)
      qed
    qed
  qed
qed simp

lemma utf8_valid_replacement [simp]: "utf8_valid (REPLACEMENT @ bs) = utf8_valid bs"
  by (simp add: REPLACEMENT_def utf8_tail_def utf8_valid.simps(2) [of "0xEF"])

lemma utf8_valid_REPLACEMENT [simp]: "utf8_valid REPLACEMENT"
  using utf8_valid_replacement [of "[]"] by simp

lemma valid_ascii: "b \<le> 0x7F \<Longrightarrow> utf8_valid (b # bs) = utf8_valid bs"
  by (simp add: utf8_valid.simps(2) [of b bs])

lemma valid_two:
  "\<not> b \<le> 0x7F \<Longrightarrow> 0xC2 \<le> b \<and> b \<le> 0xDF \<Longrightarrow> utf8_tail c \<Longrightarrow> utf8_valid (b # c # bs) = utf8_valid bs"
  by (simp add: utf8_valid.simps(2) [of b "c # bs"])

lemma valid_three:
  "\<not> b \<le> 0x7F \<Longrightarrow> \<not> (0xC2 \<le> b \<and> b \<le> 0xDF) \<Longrightarrow> 0xE0 \<le> b \<Longrightarrow> b \<le> 0xEF \<Longrightarrow>
   utf8_second b c \<Longrightarrow> utf8_tail d \<Longrightarrow> utf8_valid (b # c # d # bs) = utf8_valid bs"
  by (auto simp: utf8_valid.simps(2) [of b "c # d # bs"] utf8_second_def)

lemma valid_four:
  "\<not> b \<le> 0x7F \<Longrightarrow> \<not> (0xC2 \<le> b \<and> b \<le> 0xDF) \<Longrightarrow> \<not> b \<le> 0xEF \<Longrightarrow> b \<le> 0xF4 \<Longrightarrow>
   utf8_second b c \<Longrightarrow> utf8_tail d \<Longrightarrow> utf8_tail e \<Longrightarrow> utf8_valid (b # c # d # e # bs) = utf8_valid bs"
proof -
  assume a: "\<not> b \<le> 0x7F" "\<not> (0xC2 \<le> b \<and> b \<le> 0xDF)" "\<not> b \<le> 0xEF" "b \<le> 0xF4"
    "utf8_second b c" "utf8_tail d" "utf8_tail e"
  have "0xF0 \<le> b" using a(3) by (simp add: word_le_nat_alt word_less_nat_alt)
  with a show ?thesis
    by (auto simp: utf8_valid.simps(2) [of b "c # d # e # bs"] utf8_second_def)
qed

lemma utf8_lossy_well_formed: "utf8_valid (utf8_lossy bs)"
proof (induction bs rule: utf8_lossy.induct)
  case (2 b bs)
  then show ?case
    unfolding utf8_lossy.simps(2) [of b bs]
    by (auto simp: valid_ascii valid_two valid_three valid_four split: list.split)
qed simp

subsection \<open>Characters\<close>

text \<open>\<open>str::chars\<close>: the Unicode scalar values of well-formed text, and their encoding.\<close>

fun utf8_chars :: "bytes \<Rightarrow> nat list" where
  "utf8_chars [] = []"
| "utf8_chars (b # bs) =
     (if b \<le> 0x7F then unat b # utf8_chars bs
      else if b \<le> 0xDF then
        (case bs of c # r \<Rightarrow> ((unat b - 0xC0) * 64 + (unat c - 0x80)) # utf8_chars r | _ \<Rightarrow> [])
      else if b \<le> 0xEF then
        (case bs of
           c # d # r \<Rightarrow>
             (((unat b - 0xE0) * 64 + (unat c - 0x80)) * 64 + (unat d - 0x80)) # utf8_chars r
         | _ \<Rightarrow> [])
      else
        (case bs of
           c # d # e # r \<Rightarrow>
             ((((unat b - 0xF0) * 64 + (unat c - 0x80)) * 64 + (unat d - 0x80)) * 64 + (unat e - 0x80))
             # utf8_chars r
         | _ \<Rightarrow> []))"

definition utf8_char :: "nat \<Rightarrow> bytes" where
  "utf8_char n =
     (if n < 0x80 then [word_of_nat n]
      else if n < 0x800 then [word_of_nat (0xC0 + n div 64), word_of_nat (0x80 + n mod 64)]
      else if n < 0x10000 then
        [word_of_nat (0xE0 + n div 4096), word_of_nat (0x80 + n div 64 mod 64), word_of_nat (0x80 + n mod 64)]
      else
        [word_of_nat (0xF0 + n div 262144), word_of_nat (0x80 + n div 4096 mod 64),
         word_of_nat (0x80 + n div 64 mod 64), word_of_nat (0x80 + n mod 64)])"

definition utf8_encode :: "nat list \<Rightarrow> bytes" where
  "utf8_encode cs = concat (map utf8_char cs)"

declare utf8_chars.simps(2) [simp del]

lemma utf8_tail_unat: "utf8_tail c \<Longrightarrow> \<exists>x < 64. unat c = 0x80 + x"
  by (intro exI [of _ "unat c - 0x80"]) (auto simp: utf8_tail_def word_le_nat_alt)

lemma byte_of_unat: "unat b = n \<Longrightarrow> word_of_nat n = (b :: byte)"
  by auto

lemma base64_digit: "w < 64 \<Longrightarrow> (k * 64 + w) div 64 = k" "w < 64 \<Longrightarrow> (k * 64 + w) mod 64 = (w :: nat)"
  by simp_all

lemma base64_high: "(n :: nat) div 4096 = n div 64 div 64" "n div 262144 = n div 64 div 64 div 64"
  by (simp_all add: div_mult2_eq [symmetric])

lemma utf8_char_two:
  assumes "unat b = 0xC0 + x" "2 \<le> x" "x < 32" "unat c = 0x80 + y" "y < 64"
  shows "utf8_char (x * 64 + y) = [b, c]"
proof -
  have n: "\<not> x * 64 + y < 0x80" "x * 64 + y < 0x800" using assms by simp_all
  show ?thesis unfolding utf8_char_def base64_digit [OF assms(5)]
    using n byte_of_unat [OF assms(1)] byte_of_unat [OF assms(4)] by simp
qed

lemma utf8_char_three:
  assumes "unat b = 0xE0 + x" "x < 16" "unat c = 0x80 + y" "y < 64" "unat d = 0x80 + z" "z < 64"
    and "x = 0 \<longrightarrow> 32 \<le> y"
  shows "utf8_char ((x * 64 + y) * 64 + z) = [b, c, d]"
proof -
  have "32 \<le> x * 64 + y" using assms(7) by (cases "x = 0") auto
  then have n: "\<not> (x * 64 + y) * 64 + z < 0x80" "\<not> (x * 64 + y) * 64 + z < 0x800" by simp_all
  have "x * 64 + y < 1024" using assms(2,4) by linarith
  with assms(6) have "(x * 64 + y) * 64 + z < 0x10000" by simp
  with n show ?thesis
    unfolding utf8_char_def base64_high base64_digit [OF assms(6)] base64_digit [OF assms(4)]
    using byte_of_unat [OF assms(1)] byte_of_unat [OF assms(3)] byte_of_unat [OF assms(5)] by simp
qed

lemma utf8_char_four:
  assumes "unat b = 0xF0 + x" "unat c = 0x80 + y" "y < 64" "unat d = 0x80 + z" "z < 64"
    and "unat e = 0x80 + w" "w < 64" "x = 0 \<longrightarrow> 16 \<le> y"
  shows "utf8_char (((x * 64 + y) * 64 + z) * 64 + w) = [b, c, d, e]"
proof -
  let ?n = "((x * 64 + y) * 64 + z) * 64 + w"
  have "16 \<le> x * 64 + y" using assms(8) by (cases "x = 0") auto
  then have n: "\<not> ?n < 0x80" "\<not> ?n < 0x800" "\<not> ?n < 0x10000" by simp_all
  show ?thesis
    unfolding utf8_char_def base64_high base64_digit [OF assms(7)] base64_digit [OF assms(5)]
      base64_digit [OF assms(3)]
    using n byte_of_unat [OF assms(1)] byte_of_unat [OF assms(2)] byte_of_unat [OF assms(4)]
      byte_of_unat [OF assms(6)] by simp
qed

lemma chars_ascii: "b \<le> 0x7F \<Longrightarrow> utf8_chars (b # bs) = unat b # utf8_chars bs"
  by (simp add: utf8_chars.simps(2))

lemma chars_two: "\<not> b \<le> 0x7F \<Longrightarrow> b \<le> 0xDF \<Longrightarrow>
    utf8_chars (b # c # r) = ((unat b - 0xC0) * 64 + (unat c - 0x80)) # utf8_chars r"
  by (simp add: utf8_chars.simps(2) [of b "c # r"])

lemma chars_three: "\<not> b \<le> 0x7F \<Longrightarrow> \<not> b \<le> 0xDF \<Longrightarrow> b \<le> 0xEF \<Longrightarrow>
    utf8_chars (b # c # d # r)
      = (((unat b - 0xE0) * 64 + (unat c - 0x80)) * 64 + (unat d - 0x80)) # utf8_chars r"
  by (simp add: utf8_chars.simps(2) [of b "c # d # r"])

lemma chars_four: "\<not> b \<le> 0x7F \<Longrightarrow> \<not> b \<le> 0xDF \<Longrightarrow> \<not> b \<le> 0xEF \<Longrightarrow>
    utf8_chars (b # c # d # e # r)
      = ((((unat b - 0xF0) * 64 + (unat c - 0x80)) * 64 + (unat d - 0x80)) * 64 + (unat e - 0x80))
        # utf8_chars r"
  by (simp add: utf8_chars.simps(2) [of b "c # d # e # r"])

lemma utf8_encode_Cons: "utf8_encode (n # ns) = utf8_char n @ utf8_encode ns"
  by (simp add: utf8_encode_def)

lemma utf8_encode_chars: "utf8_valid bs \<Longrightarrow> utf8_encode (utf8_chars bs) = bs"
proof (induction bs rule: utf8_valid.induct)
  case 1
  show ?case by (simp add: utf8_encode_def)
next
  case (2 b bs)
  show ?case
  proof (cases "b \<le> 0x7F")
    case True
    then have "unat b < 0x80" by (simp add: word_le_nat_alt)
    with 2 True show ?thesis
      by (simp add: chars_ascii utf8_encode_Cons utf8_char_def utf8_valid.simps(2) [of b bs])
  next
    case no1: False
    show ?thesis
    proof (cases "0xC2 \<le> b \<and> b \<le> 0xDF")
      case True
      with 2(5) no1 obtain c rest where bs: "bs = c # rest" "utf8_tail c" "utf8_valid rest"
        by (simp add: utf8_valid.simps(2) [of b bs] split: list.splits)
      from utf8_tail_unat [OF bs(2)] obtain y where y: "y < 64" "unat c = 0x80 + y" by blast
      obtain x where x: "unat b = 0xC0 + x" "2 \<le> x" "x < 32"
        using True by (intro that [of "unat b - 0xC0"]) (auto simp: word_le_nat_alt)
      from 2(2) [OF no1 True bs(1,3)] True no1 utf8_char_two [OF x y(2,1)] x(1) y(2) show ?thesis
        by (simp add: bs(1) chars_two utf8_encode_Cons)
    next
      case no2: False
      show ?thesis
      proof (cases "0xE0 \<le> b \<and> b \<le> 0xEF")
        case True
        with 2(5) no1 no2 obtain c d rest where bs: "bs = c # d # rest" and ok: "utf8_tail c" "utf8_tail d"
          "b = 0xE0 \<longrightarrow> 0xA0 \<le> c" "utf8_valid rest"
          by (simp add: utf8_valid.simps(2) [of b bs] split: list.splits)
        from utf8_tail_unat [OF ok(1)] utf8_tail_unat [OF ok(2)] obtain y z where
          yz: "y < 64" "unat c = 0x80 + y" "z < 64" "unat d = 0x80 + z" by blast
        obtain x where x: "unat b = 0xE0 + x" "x < 16"
          using True by (intro that [of "unat b - 0xE0"]) (auto simp: word_le_nat_alt)
        have lead: "x = 0 \<longrightarrow> 32 \<le> y"
        proof
          assume "x = 0"
          then have "b = 0xE0" using x(1) byte_of_unat [of b "0xE0"] by simp
          with ok(3) yz(2) show "32 \<le> y" by (simp add: word_le_nat_alt)
        qed
        have "\<not> b \<le> 0xDF" using True by (auto simp: word_le_nat_alt)
        with 2(3) [OF no1 no2 True bs refl ok(4)] True no1 utf8_char_three [OF x yz(2,1,4,3) lead] x(1) yz(2,4)
        show ?thesis by (simp add: bs chars_three utf8_encode_Cons)
      next
        case no3: False
        with 2(5) no1 no2 have b4: "0xF0 \<le> b \<and> b \<le> 0xF4"
          by (simp add: utf8_valid.simps(2) [of b bs] split: if_splits)
        with 2(5) no1 no2 no3 obtain c d e rest where bs: "bs = c # d # e # rest"
          and ok: "utf8_tail c" "utf8_tail d" "utf8_tail e" "b = 0xF0 \<longrightarrow> 0x90 \<le> c" "utf8_valid rest"
          by (simp add: utf8_valid.simps(2) [of b bs] split: list.splits)
        from utf8_tail_unat [OF ok(1)] utf8_tail_unat [OF ok(2)] utf8_tail_unat [OF ok(3)] obtain y z w where
          yz: "y < 64" "unat c = 0x80 + y" "z < 64" "unat d = 0x80 + z" "w < 64" "unat e = 0x80 + w" by blast
        obtain x where x: "unat b = 0xF0 + x"
          using b4 by (intro that [of "unat b - 0xF0"]) (auto simp: word_le_nat_alt)
        have lead: "x = 0 \<longrightarrow> 16 \<le> y"
        proof
          assume "x = 0"
          then have "b = 0xF0" using x(1) byte_of_unat [of b "0xF0"] by simp
          with ok(4) yz(2) show "16 \<le> y" by (simp add: word_le_nat_alt)
        qed
        have "\<not> b \<le> 0xDF" "\<not> b \<le> 0xEF" using b4 by (auto simp: word_le_nat_alt)
        with 2(4) [OF no1 no2 no3 b4 bs refl refl ok(5)] no1 utf8_char_four [OF x yz(2,1,4,3,6,5) lead]
          x(1) yz(2,4,6)
        show ?thesis by (simp add: bs chars_four utf8_encode_Cons)
      qed
    qed
  qed
qed
end
