(* ===== verification/Tar.thy ===== *)
theory Tar
  imports Read_Path Directories Glob Text_Bytes
begin

text \<open>
  \<open>src/src/fs/tar.rs\<close>: the archive writer. The \<open>tar\<close> crate's \<open>Builder\<close> is a parameter: a record
  of the calls the source makes on it, over the builder's state. \<open>append_data\<close> of the crate pulls
  from the reader it is given, so it receives the reader's \<open>read\<close> operation and its state (the
  reader and the block cache it borrows) and returns the state it leaves. \<open>None\<close> is a read that
  would wait for another thread.
\<close>

definition tar_path :: "bytes \<Rightarrow> bytes" where
  "tar_path path =
     (let trimmed = strip_slash path in if trimmed = [] then [0x2E] else utf8_lossy trimmed)"

subsection \<open>The file reader\<close>

record file_reader =
  fr_inode :: u32
  fr_remaining :: nat
  fr_offset :: nat

definition file_reader_new :: "u32 \<Rightarrow> nat \<Rightarrow> file_reader" where
  "file_reader_new inode sz = \<lparr>fr_inode = inode, fr_remaining = sz, fr_offset = 0\<rparr>"

type_synonym reader_state = "file_reader \<times> block_cache"

text \<open>One \<open>read\<close>: the bytes put at the start of a buffer of \<open>buf_len\<close> bytes.\<close>

definition reader_read ::
    "environment \<Rightarrow> filesystem \<Rightarrow> nat \<Rightarrow> reader_state \<Rightarrow> (bytes result \<times> reader_state) option" where
  "reader_read env fs buf_len st =
     (case st of (fr, cache) \<Rightarrow>
        if fr_remaining fr = 0 \<or> buf_len = 0 then Some (Inr [], st)
        else (case read_at env fs (fr_inode fr) (fr_offset fr) (min buf_len (fr_remaining fr)) cache of
                None \<Rightarrow> None
              | Some (cache', Inl e) \<Rightarrow> Some (Inl e, fr, cache')
              | Some (cache', Inr data) \<Rightarrow>
                  Some (Inr data,
                    fr\<lparr>fr_offset := fr_offset fr + length data,
                       fr_remaining := fr_remaining fr - length data\<rparr>, cache')))"

subsection \<open>The archive\<close>

datatype tar_entry_type = TarDirectory | TarSymlink | TarRegular

record tar_header =
  th_mode :: u32
  th_uid :: u32
  th_gid :: u32
  th_mtime :: nat
  th_entry_type :: tar_entry_type
  th_size :: nat
  th_link_name :: bytes

record 'w tar_builder =
  tb_append_empty :: "tar_header \<Rightarrow> bytes \<Rightarrow> 'w \<Rightarrow> unit result \<times> 'w"
  tb_append_data :: "tar_header \<Rightarrow> bytes
     \<Rightarrow> (nat \<Rightarrow> reader_state \<Rightarrow> (bytes result \<times> reader_state) option)
     \<Rightarrow> reader_state \<Rightarrow> 'w \<Rightarrow> (unit result \<times> reader_state \<times> 'w) option"
  tb_check_link_name :: "bytes \<Rightarrow> unit result"
  tb_finish :: "'w \<Rightarrow> unit result \<times> 'w"

definition tar_header_of :: "stat \<Rightarrow> tar_header" where
  "tar_header_of st =
     \<lparr>th_mode = st_mode st AND 0xFFF, th_uid = st_uid st, th_gid = st_gid st, th_mtime = st_mtime st,
      th_entry_type = TarRegular, th_size = 0, th_link_name = []\<rparr>"

text \<open>One entry: the cache and the builder's state thread through.\<close>

definition append_symlink ::
    "filesystem \<Rightarrow> 'w tar_builder \<Rightarrow> walk_entry \<Rightarrow> tar_header \<Rightarrow> 'w \<Rightarrow> unit result \<times> 'w" where
  "append_symlink fs builder entry header w =
     (case read_link fs (we_inode entry) of
        Inl e \<Rightarrow> (Inl e, w)
      | Inr target \<Rightarrow>
          let name = (if utf8_valid target then target else []) in
          (case tb_check_link_name builder name of
             Inl e \<Rightarrow> (Inl e, w)
           | Inr _ \<Rightarrow>
               tb_append_empty builder
                 (header\<lparr>th_entry_type := TarSymlink, th_size := 0, th_link_name := name\<rparr>)
                 (tar_path (we_path entry)) w))"

definition append_regular ::
    "environment \<Rightarrow> filesystem \<Rightarrow> 'w tar_builder \<Rightarrow> walk_entry \<Rightarrow> tar_header \<Rightarrow> block_cache \<Rightarrow> 'w
       \<Rightarrow> (unit result \<times> block_cache \<times> 'w) option" where
  "append_regular env fs builder entry header cache w =
     (case file_size fs (we_inode entry) of
        Inl e \<Rightarrow> Some (Inl e, cache, w)
      | Inr sz \<Rightarrow>
          map_option (\<lambda>(r, (_, cache'), w'). (r, cache', w'))
            (tb_append_data builder (header\<lparr>th_entry_type := TarRegular, th_size := sz\<rparr>)
               (tar_path (we_path entry)) (reader_read env fs)
               (file_reader_new (we_inode entry) sz, cache) w))"

definition append_entry ::
    "environment \<Rightarrow> filesystem \<Rightarrow> 'w tar_builder \<Rightarrow> walk_entry \<Rightarrow> block_cache \<Rightarrow> 'w
       \<Rightarrow> (unit result \<times> block_cache \<times> 'w) option" where
  "append_entry env fs builder entry cache w =
     (if we_path entry = [] then Some (Inr (), cache, w)
      else case fs_stat fs (we_inode entry) of
        Inl e \<Rightarrow> Some (Inl e, cache, w)
      | Inr st \<Rightarrow>
          let header = tar_header_of st in
          (case we_kind entry of
             KDirectory \<Rightarrow>
               (case tb_append_empty builder (header\<lparr>th_entry_type := TarDirectory, th_size := 0\<rparr>)
                       (tar_path (we_path entry)) w of (r, w') \<Rightarrow> Some (r, cache, w'))
           | KSymlink \<Rightarrow>
               (case append_symlink fs builder entry header w of (r, w') \<Rightarrow> Some (r, cache, w'))
           | KRegular \<Rightarrow> append_regular env fs builder entry header cache w
           | _ \<Rightarrow> Some (Inr (), cache, w)))"

primrec append_entries ::
    "environment \<Rightarrow> filesystem \<Rightarrow> 'w tar_builder \<Rightarrow> walk_entry list \<Rightarrow> block_cache \<Rightarrow> 'w
       \<Rightarrow> (unit result \<times> 'w) option" where
  "append_entries env fs builder [] cache w = Some (Inr (), w)"
| "append_entries env fs builder (e # es) cache w =
     (case append_entry env fs builder e cache w of
        None \<Rightarrow> None
      | Some (Inl err, cache', w') \<Rightarrow> Some (Inl err, w')
      | Some (Inr _, cache', w') \<Rightarrow> append_entries env fs builder es cache' w')"

text \<open>The product of the block size and eight fits \<open>usize\<close>, since a block size is 32 bits wide.\<close>

definition write_tar ::
    "environment \<Rightarrow> filesystem \<Rightarrow> nat \<Rightarrow> 'w tar_builder \<Rightarrow> 'w \<Rightarrow> (unit result \<times> 'w) option" where
  "write_tar env fs fuel builder w =
     (case walk_tree fs fuel of
        None \<Rightarrow> None
      | Some (Inl e) \<Rightarrow> Some (Inl e, w)
      | Some (Inr entries) \<Rightarrow>
          (case append_entries env fs builder entries (cache_new (8 * unat (fs_block_size fs))) w of
             None \<Rightarrow> None
           | Some (Inl e, w') \<Rightarrow> Some (Inl e, w')
           | Some (Inr _, w') \<Rightarrow> Some (tb_finish builder w')))"

subsection \<open>Reading a file through the reader\<close>

text \<open>
  The crate reads with buffers of sizes it chooses. Whatever they are, the bytes it gets are the
  next bytes of the file, and the reader ends exactly at the end of the file.
\<close>

primrec read_with ::
    "environment \<Rightarrow> filesystem \<Rightarrow> nat list \<Rightarrow> reader_state \<Rightarrow> (bytes result \<times> reader_state) option" where
  "read_with env fs [] st = Some (Inr [], st)"
| "read_with env fs (n # ns) st =
     (case reader_read env fs n st of
        None \<Rightarrow> None
      | Some (Inl e, st') \<Rightarrow> Some (Inl e, st')
      | Some (Inr data, st') \<Rightarrow>
          map_option (\<lambda>(r, st''). (and_then r (\<lambda>rest. Inr (data @ rest)), st'')) (read_with env fs ns st'))"

definition reader_at_offset :: "bytes \<Rightarrow> u32 \<Rightarrow> nat \<Rightarrow> file_reader \<Rightarrow> bool" where
  "reader_at_offset whole inode k fr \<longleftrightarrow>
     k \<le> length whole \<and> fr = \<lparr>fr_inode = inode, fr_remaining = length whole - k, fr_offset = k\<rparr>"

lemma reader_read_delivers:
  assumes ready: "file_reading env fs content blk inode a b c"
    and at_k: "reader_at_offset (file_content fs blk a b) inode k fr"
  shows "\<exists>c' fr'. reader_read env fs n (fr, c)
      = Some (Inr (take n (drop k (file_content fs blk a b))), fr', c')
    \<and> file_reading env fs content blk inode a b c'
    \<and> reader_at_offset (file_content fs blk a b) inode
        (k + length (take n (drop k (file_content fs blk a b)))) fr'"
proof -
  let ?F = "file_content fs blk a b"
  from at_k have k: "k \<le> length ?F"
    and fr: "fr = \<lparr>fr_inode = inode, fr_remaining = length ?F - k, fr_offset = k\<rparr>"
    by (auto simp: reader_at_offset_def)
  show ?thesis
  proof (cases "length ?F - k = 0 \<or> n = 0")
    case True
    then have empty: "take n (drop k ?F) = []" by auto
    with True ready at_k show ?thesis unfolding empty by (auto simp: reader_read_def fr)
  next
    case False
    from file_bytes.within_rest [OF ready, of k n] False k show ?thesis
      by (auto simp: reader_read_def fr reader_at_offset_def min_def)
  qed
qed

lemma read_with_delivers:
  "file_reading env fs content blk inode a b c \<Longrightarrow> reader_at_offset (file_content fs blk a b) inode k fr \<Longrightarrow>
    \<exists>c' fr'. read_with env fs ns (fr, c)
      = Some (Inr (take (sum_list ns) (drop k (file_content fs blk a b))), fr', c')
    \<and> file_reading env fs content blk inode a b c'"
proof (induction ns arbitrary: c fr k)
  case (Cons n ns)
  let ?d = "take n (drop k (file_content fs blk a b))"
  from reader_read_delivers [OF Cons.prems, of n] obtain c1 fr1 where
    step: "reader_read env fs n (fr, c) = Some (Inr ?d, fr1, c1)"
    and c1: "file_reading env fs content blk inode a b c1"
    and fr1: "reader_at_offset (file_content fs blk a b) inode (k + length ?d) fr1" by blast
  from Cons.IH [OF c1 fr1] step file_bytes.pieces_join [of n k fs blk a b "sum_list ns"] show ?case by auto
qed simp

end
