(* ===== verification/Fuse.thy ===== *)
theory Fuse
  imports Read_Path Directories
begin

text \<open>
  \<open>src/src/fuse/mod.rs\<close>: the adapter that answers kernel requests. A handler is a function of the
  request to its reply; \<open>read\<close> also threads the mount's block cache. The \<open>fuser\<close> crate's
  \<open>ReplyDirectory\<close> is a parameter: \<open>add\<close> offers one entry with its cookie to the buffer and tells
  whether the buffer was already full. \<open>libc::makedev\<close> is a parameter of the attributes. A time is
  the number of seconds since the epoch; \<open>SystemTime\<close> holds a signed 64-bit count.
\<close>

datatype errno = ENOENT | EIO | EINVAL | ENOTDIR

datatype file_type = FtDirectory | FtRegularFile | FtSymlink | FtBlockDevice | FtCharDevice | FtNamedPipe | FtSocket

record file_attr =
  fa_ino :: nat
  fa_size :: nat
  fa_blocks :: nat
  fa_atime :: nat
  fa_mtime :: nat
  fa_ctime :: nat
  fa_crtime :: nat
  fa_kind :: file_type
  fa_perm :: u16
  fa_nlink :: u32
  fa_uid :: u32
  fa_gid :: u32
  fa_rdev :: u32
  fa_blksize :: u32

record dwarfs_fuse =
  df_fs :: filesystem
  df_cache :: block_cache

definition DEFAULT_BLOCK_CACHE_BYTES :: nat where "DEFAULT_BLOCK_CACHE_BYTES = 512 * 1024 * 1024"

definition with_cache :: "filesystem \<Rightarrow> nat \<Rightarrow> dwarfs_fuse" where
  "with_cache fs cache_bytes = \<lparr>df_fs = fs, df_cache = cache_new cache_bytes\<rparr>"

definition dwarfs_fuse_new :: "filesystem \<Rightarrow> dwarfs_fuse" where
  "dwarfs_fuse_new fs = with_cache fs DEFAULT_BLOCK_CACHE_BYTES"

text \<open>Kernel inodes are 64 bits wide and start at 1.\<close>

definition dwarfs_ino :: "nat \<Rightarrow> errno + u32" where
  "dwarfs_ino fuse =
     (if fuse = 0 then Inl ENOENT
      else case u32_try_from (fuse - 1) of None \<Rightarrow> Inl ENOENT | Some i \<Rightarrow> Inr i)"

definition fuse_ino :: "u32 \<Rightarrow> nat" where
  "fuse_ino i = unat i + 1"

definition file_type_of :: "inode_kind \<Rightarrow> file_type" where
  "file_type_of kind =
     (case kind of
        KDirectory \<Rightarrow> FtDirectory
      | KRegular \<Rightarrow> FtRegularFile
      | KSymlink \<Rightarrow> FtSymlink
      | KBlockDevice \<Rightarrow> FtBlockDevice
      | KCharDevice \<Rightarrow> FtCharDevice
      | KFifo \<Rightarrow> FtNamedPipe
      | KSocket \<Rightarrow> FtSocket
      | KUnknown \<Rightarrow> FtRegularFile)"

definition encode_rdev :: "(u32 \<Rightarrow> u32 \<Rightarrow> u64) \<Rightarrow> nat \<Rightarrow> u32" where
  "encode_rdev makedev rdev =
     (let major = word_of_nat (drop_bit 32 rdev) :: u32;
          minor = word_of_nat (rdev AND 0xFFFFFFFF) :: u32
      in ucast (makedev major minor))"

definition epoch_to_system_time :: "nat \<Rightarrow> nat" where
  "epoch_to_system_time epoch = (if epoch < 2 ^ 63 then epoch else 0)"

definition attr_of :: "(u32 \<Rightarrow> u32 \<Rightarrow> u64) \<Rightarrow> filesystem \<Rightarrow> u32 \<Rightarrow> file_attr result" where
  "attr_of makedev fs i =
     and_then (fs_stat fs i) (\<lambda>st.
     let mtime = epoch_to_system_time (st_mtime st) in
     Inr \<lparr>fa_ino = fuse_ino i, fa_size = st_size st, fa_blocks = (st_size st + 511) div 512,
          fa_atime = epoch_to_system_time (st_atime st), fa_mtime = mtime,
          fa_ctime = epoch_to_system_time (st_ctime st), fa_crtime = mtime,
          fa_kind = file_type_of (st_kind st), fa_perm = ucast (st_mode st AND 0xFFF),
          fa_nlink = st_nlink st, fa_uid = st_uid st, fa_gid = st_gid st,
          fa_rdev = encode_rdev makedev (st_rdev st), fa_blksize = fs_block_size fs\<rparr>)"

subsection \<open>Handlers\<close>

definition fuse_lookup ::
    "(u32 \<Rightarrow> u32 \<Rightarrow> u64) \<Rightarrow> filesystem \<Rightarrow> nat \<Rightarrow> bytes \<Rightarrow> errno + file_attr" where
  "fuse_lookup makedev fs parent name =
     (case dwarfs_ino parent of
        Inl e \<Rightarrow> Inl e
      | Inr parent_ino \<Rightarrow>
          (case lookup_child fs parent_ino name of
             Inr (Some child_ino) \<Rightarrow>
               (case attr_of makedev fs child_ino of Inr attr \<Rightarrow> Inr attr | Inl _ \<Rightarrow> Inl EIO)
           | Inr None \<Rightarrow> Inl ENOENT
           | Inl _ \<Rightarrow> Inl ENOENT))"

definition fuse_getattr :: "(u32 \<Rightarrow> u32 \<Rightarrow> u64) \<Rightarrow> filesystem \<Rightarrow> nat \<Rightarrow> errno + file_attr" where
  "fuse_getattr makedev fs ino =
     (case dwarfs_ino ino of
        Inl e \<Rightarrow> Inl e
      | Inr i \<Rightarrow> (case attr_of makedev fs i of Inr attr \<Rightarrow> Inr attr | Inl _ \<Rightarrow> Inl ENOENT))"

definition fuse_readlink :: "filesystem \<Rightarrow> nat \<Rightarrow> errno + bytes" where
  "fuse_readlink fs ino =
     (case dwarfs_ino ino of
        Inl e \<Rightarrow> Inl e
      | Inr i \<Rightarrow> (case read_link fs i of Inr target \<Rightarrow> Inr target | Inl _ \<Rightarrow> Inl EINVAL))"

definition fuse_read ::
    "environment \<Rightarrow> dwarfs_fuse \<Rightarrow> nat \<Rightarrow> nat \<Rightarrow> u32 \<Rightarrow> ((errno + bytes) \<times> dwarfs_fuse) option" where
  "fuse_read env df ino offset sz =
     (case dwarfs_ino ino of
        Inl e \<Rightarrow> Some (Inl e, df)
      | Inr i \<Rightarrow>
          (case read_into env (df_fs df) i offset (replicate (unat sz) 0) (df_cache df) of
             None \<Rightarrow> None
           | Some (cache', buf, Inr written) \<Rightarrow> Some (Inr (take written buf), df\<lparr>df_cache := cache'\<rparr>)
           | Some (cache', buf, Inl _) \<Rightarrow> Some (Inl EIO, df\<lparr>df_cache := cache'\<rparr>)))"

text \<open>A directory reply buffer: inode, cookie, type and name of an entry; \<open>True\<close> when it did not fit.\<close>

type_synonym 'b dir_add = "nat \<Rightarrow> nat \<Rightarrow> file_type \<Rightarrow> bytes \<Rightarrow> 'b \<Rightarrow> bool \<times> 'b"

fun add_dots :: "'b dir_add \<Rightarrow> nat \<Rightarrow> (nat \<times> file_type \<times> bytes) list \<Rightarrow> nat \<Rightarrow> 'b \<Rightarrow> nat \<times> bool \<times> 'b" where
  "add_dots add offset [] index buf = (index, False, buf)"
| "add_dots add offset ((ino, kind, name) # rest) index buf =
     (if offset \<le> index then
        (case add ino (index + 1) kind name buf of
           (True, buf') \<Rightarrow> (index, True, buf')
         | (False, buf') \<Rightarrow> add_dots add offset rest (index + 1) buf')
      else add_dots add offset rest (index + 1) buf)"

definition readdir_visit ::
    "'b dir_add \<Rightarrow> nat \<Rightarrow> u32 \<Rightarrow> inode_kind \<Rightarrow> bytes \<Rightarrow> nat \<times> 'b \<Rightarrow> (nat \<times> 'b) \<times> bool" where
  "readdir_visit add offset child_ino kind name st =
     (case st of (index, buf) \<Rightarrow>
        if index < offset then ((index + 1, buf), True)
        else (case add (fuse_ino child_ino) (index + 1) (file_type_of kind) name buf of
                (full, buf') \<Rightarrow> ((index + 1, buf'), \<not> full)))"

definition dot_entries :: "filesystem \<Rightarrow> u32 \<Rightarrow> (nat \<times> file_type \<times> bytes) list" where
  "dot_entries fs i =
     (let parent_ino = (case parent_dir fs i of Inl _ \<Rightarrow> i | Inr p \<Rightarrow> p) in
      [(fuse_ino i, FtDirectory, [0x2E]), (fuse_ino parent_ino, FtDirectory, [0x2E, 0x2E])])"

definition fuse_readdir :: "filesystem \<Rightarrow> 'b dir_add \<Rightarrow> nat \<Rightarrow> nat \<Rightarrow> 'b \<Rightarrow> errno + 'b" where
  "fuse_readdir fs add ino offset buf =
     (case dwarfs_ino ino of
        Inl e \<Rightarrow> Inl e
      | Inr i \<Rightarrow>
          (case add_dots add offset (dot_entries fs i) 0 buf of
             (index, True, buf') \<Rightarrow> Inr buf'
           | (index, False, buf') \<Rightarrow>
               (case for_each_entry fs i (readdir_visit add offset) (index, buf') of
                  ((_, buf''), Inr _) \<Rightarrow> Inr buf''
                | (_, Inl _) \<Rightarrow> Inl ENOTDIR)))"

subsection \<open>The inode shift\<close>

lemma dwarfs_fuse_ino [simp]: "dwarfs_ino (fuse_ino i) = Inr i"
  by (simp add: dwarfs_ino_def fuse_ino_def)

lemma dwarfs_ino_Inr: "dwarfs_ino n = Inr i \<longleftrightarrow> n = fuse_ino i"
proof
  assume n: "dwarfs_ino n = Inr i"
  then have "n \<noteq> 0" "u32_try_from (n - 1) = Some i"
    by (auto simp: dwarfs_ino_def split: if_splits option.splits)
  then show "n = fuse_ino i" by (auto simp: fuse_ino_def u32_try_from_Some)
qed simp

lemma fuse_ino_pos: "0 < fuse_ino i" "fuse_ino i \<le> 2 ^ 32"
  using unat_u32_less [of i] by (simp_all add: fuse_ino_def)

lemma fuse_ino_inj: "fuse_ino i = fuse_ino j \<longleftrightarrow> i = j"
  by (metis dwarfs_fuse_ino sum.inject(2))

subsection \<open>Directory listings in batches\<close>

text \<open>The entries a directory has for the kernel, numbered by their cookies.\<close>

definition kernel_entry :: "listing \<Rightarrow> nat \<times> file_type \<times> bytes" where
  "kernel_entry x = (fuse_ino (ls_inode x), file_type_of (ls_kind x), ls_name x)"

fun cookies :: "nat \<Rightarrow> (nat \<times> file_type \<times> bytes) list \<Rightarrow> (nat \<times> nat \<times> file_type \<times> bytes) list" where
  "cookies k [] = []"
| "cookies k ((ino, kind, name) # rest) = (ino, k + 1, kind, name) # cookies (k + 1) rest"

lemma length_cookies [simp]: "length (cookies k xs) = length xs"
  by (induction k xs rule: cookies.induct) auto

lemma cookies_append: "cookies k (xs @ ys) = cookies k xs @ cookies (k + length xs) ys"
  by (induction k xs rule: cookies.induct) auto

lemma cookies_nth:
  "i < length xs \<Longrightarrow> cookies k xs ! i = (case xs ! i of (ino, kind, name) \<Rightarrow> (ino, k + i + 1, kind, name))"
  by (induction k xs arbitrary: i rule: cookies.induct) (auto simp: nth_Cons')

text \<open>What \<open>ReplyDirectory\<close> promises: an entry is appended, or the buffer is full and unchanged.\<close>

definition bounded_add :: "nat \<Rightarrow> (nat \<times> nat \<times> file_type \<times> bytes) list dir_add" where
  "bounded_add n ino cookie kind name buf =
     (if length buf < n then (False, buf @ [(ino, cookie, kind, name)]) else (True, buf))"

lemma add_dots_bounded:
  "length buf \<le> n \<Longrightarrow>
   (let new = drop (offset - index) (cookies index xs) in
     \<exists>index'. add_dots (bounded_add n) offset xs index buf
       = (index', n < length buf + length new, buf @ take (n - length buf) new)
     \<and> (length buf + length new \<le> n \<longrightarrow> index' = index + length xs))"
proof (induction xs arbitrary: index buf)
  case Nil
  then show ?case by simp
next
  case (Cons x xs)
  obtain ino kind name where x: "x = (ino, kind, name)" by (cases x)
  show ?case
  proof (cases "offset \<le> index")
    case False
    then have "offset - index = Suc (offset - Suc index)" by simp
    with Cons.IH [OF Cons.prems, of "Suc index"] False x show ?thesis by (auto simp: Let_def)
  next
    case True
    show ?thesis
    proof (cases "length buf < n")
      case room: True
      let ?buf = "buf @ [(ino, index + 1, kind, name)]"
      from Cons.IH [of ?buf "Suc index"] room True x show ?thesis
        by (auto simp: Let_def bounded_add_def take_Cons' Suc_diff_Suc)
    next
      case False
      with Cons.prems True x show ?thesis by (auto simp: Let_def bounded_add_def)
    qed
  qed
qed

fun visit_list :: "(u32 \<Rightarrow> inode_kind \<Rightarrow> bytes \<Rightarrow> 's \<Rightarrow> 's \<times> bool) \<Rightarrow> listing list \<Rightarrow> 's \<Rightarrow> 's" where
  "visit_list visit [] s = s"
| "visit_list visit (x # xs) s =
     (case visit (ls_inode x) (ls_kind x) (ls_name x) s of
        (s', True) \<Rightarrow> visit_list visit xs s'
      | (s', False) \<Rightarrow> s')"

lemma visit_entries_list:
  "try_map (listing_at fs) is = Inr es \<Longrightarrow> visit_entries fs visit is s = (visit_list visit es s, Inr ())"
proof (induction "is" arbitrary: es s)
  case Nil
  then show ?case by simp
next
  case (Cons i "is")
  then obtain x xs where es: "es = x # xs" and x: "listing_at fs i = Inr x"
    and xs: "try_map (listing_at fs) is = Inr xs" by (auto simp: result_simps)
  from x Cons.IH [OF xs] show ?case
    by (auto simp: es listing_at_def Let_def result_simps split: prod.splits bool.splits)
qed

lemma visit_list_bounded:
  "length buf \<le> n \<Longrightarrow>
     snd (visit_list (readdir_visit (bounded_add n) offset) xs (index, buf))
     = buf @ take (n - length buf) (drop (offset - index) (cookies index (map kernel_entry xs)))"
proof (induction xs arbitrary: index buf)
  case Nil
  then show ?case by simp
next
  case (Cons x xs)
  show ?case
  proof (cases "index < offset")
    case True
    then have "offset - index = Suc (offset - Suc index)" by simp
    with Cons.IH [OF Cons.prems, of "Suc index"] True show ?thesis
      by (simp add: readdir_visit_def kernel_entry_def)
  next
    case False
    show ?thesis
    proof (cases "length buf < n")
      case room: True
      let ?buf = "buf @ [(fuse_ino (ls_inode x), index + 1, file_type_of (ls_kind x), ls_name x)]"
      from Cons.IH [of ?buf "Suc index"] room False show ?thesis
        by (auto simp: readdir_visit_def bounded_add_def kernel_entry_def take_Cons' Suc_diff_Suc)
    next
      case full: False
      with False Cons.prems show ?thesis by (simp add: readdir_visit_def bounded_add_def)
    qed
  qed
qed

lemma fuse_readdir_batch:
  assumes "read_dir fs i = Inr es"
  shows "fuse_readdir fs (bounded_add n) (fuse_ino i) offset []
    = Inr (take n (drop offset (cookies 0 (dot_entries fs i @ map kernel_entry es))))"
proof -
  from assms obtain lo hi where k: "require_kind fs i KDirectory ''inode {inode} is not a directory'' = Inr ()"
    and rng: "dir_entry_range fs i = Inr (lo, hi)" and es: "try_map (listing_at fs) [lo..<hi] = Inr es"
    by (auto simp: read_dir_def result_simps)
  have walk: "for_each_entry fs i visit st = (visit_list visit es st, Inr ())" for visit :: "_ \<Rightarrow> _ \<Rightarrow> _ \<Rightarrow> 's \<Rightarrow> 's \<times> bool" and st
    using k rng visit_entries_list [OF es] by (simp add: for_each_entry_def)
  let ?dots = "dot_entries fs i"
  have two: "length ?dots = 2" by (simp add: dot_entries_def Let_def)
  from add_dots_bounded [of "[]" n offset 0 ?dots] obtain index' where
    dots: "add_dots (bounded_add n) offset ?dots 0 []
      = (index', n < length (drop offset (cookies 0 ?dots)), take n (drop offset (cookies 0 ?dots)))"
    and idx: "length (drop offset (cookies 0 ?dots)) \<le> n \<Longrightarrow> index' = 2"
    by (auto simp: Let_def two)
  show ?thesis
  proof (cases "n < length (drop offset (cookies 0 ?dots))")
    case True
    with dots show ?thesis by (simp add: fuse_readdir_def cookies_append)
  next
    case False
    let ?b = "take n (drop offset (cookies 0 ?dots))"
    have b: "?b = drop offset (cookies 0 ?dots)" "length ?b \<le> n" using False by simp_all
    from False idx have "index' = 2" by simp
    obtain st where st: "visit_list (readdir_visit (bounded_add n) offset) es (2, ?b) = st" by simp
    from visit_list_bounded [OF b(2), of offset es 2] st
    have "snd st = take n (drop offset (cookies 0 (?dots @ map kernel_entry es)))"
      using False b(1) by (simp add: cookies_append two flip: numeral_2_eq_2)
    moreover obtain j buf where "st = (j, buf)" by (cases st)
    ultimately show ?thesis using dots False \<open>index' = 2\<close> st
      by (simp add: fuse_readdir_def walk)
  qed
qed

end
