(* ===== verification/Cli_Options.thy ===== *)
theory Cli_Options
  imports Image_File
begin

text \<open>
  The argument handling of the command-line tools: \<open>parse_size\<close>, \<open>split_options\<close> and
  \<open>open_image\<close> of \<open>src/src/bin/dwarfs.rs\<close>, \<open>open_image\<close> of \<open>src/src/bin/dwarfsck.rs\<close> and
  \<open>src/src/bin/dwarfsextract.rs\<close>. A \<open>&str\<close> is a list of Unicode scalar values. The declarative
  parser (\<open>clap\<close>) and the mount call are not modelled. Opening a file is a parameter: the source
  the path resolves to.
\<close>

type_synonym chars = "nat list"

definition chars_of :: "string \<Rightarrow> chars" where "chars_of s = map of_char s"

subsection \<open>String operations of the standard library\<close>

definition is_whitespace :: "nat \<Rightarrow> bool" where
  "is_whitespace c \<longleftrightarrow>
     9 \<le> c \<and> c \<le> 13 \<or> c = 0x20 \<or> c = 0x85 \<or> c = 0xA0 \<or> c = 0x1680 \<or> 0x2000 \<le> c \<and> c \<le> 0x200A
     \<or> c = 0x2028 \<or> c = 0x2029 \<or> c = 0x202F \<or> c = 0x205F \<or> c = 0x3000"

definition is_ascii_alphabetic :: "nat \<Rightarrow> bool" where
  "is_ascii_alphabetic c \<longleftrightarrow> 65 \<le> c \<and> c \<le> 90 \<or> 97 \<le> c \<and> c \<le> 122"

definition is_ascii_digit :: "nat \<Rightarrow> bool" where
  "is_ascii_digit c \<longleftrightarrow> 48 \<le> c \<and> c \<le> 57"

definition to_ascii_lowercase :: "nat \<Rightarrow> nat" where
  "to_ascii_lowercase c = (if 65 \<le> c \<and> c \<le> 90 then c + 32 else c)"

definition trim_end_matches :: "(nat \<Rightarrow> bool) \<Rightarrow> chars \<Rightarrow> chars" where
  "trim_end_matches p cs = rev (dropWhile p (rev cs))"

definition trim_chars :: "chars \<Rightarrow> chars" where
  "trim_chars cs = trim_end_matches is_whitespace (dropWhile is_whitespace cs)"

definition digits_value :: "chars \<Rightarrow> nat" where
  "digits_value = foldl (\<lambda>acc c. 10 * acc + (c - 48)) 0"

text \<open>\<open>str::parse\<close> for an unsigned type of \<open>bits\<close> bits: an optional plus sign, then digits.\<close>

definition parse_unsigned :: "nat \<Rightarrow> chars \<Rightarrow> nat option" where
  "parse_unsigned bits cs =
     (let digits = (case cs of c # rest \<Rightarrow> if c = 43 \<and> rest \<noteq> [] then rest else cs | [] \<Rightarrow> [])
      in if digits = [] \<or> \<not> list_all is_ascii_digit digits then None
         else if digits_value digits < 2 ^ bits then Some (digits_value digits) else None)"

definition strip_prefix :: "chars \<Rightarrow> chars \<Rightarrow> chars option" where
  "strip_prefix prefix cs =
     (if take (length prefix) cs = prefix then Some (drop (length prefix) cs) else None)"

fun split_on :: "nat \<Rightarrow> chars \<Rightarrow> chars list" where
  "split_on sep [] = [[]]"
| "split_on sep (c # cs) =
     (if c = sep then [] # split_on sep cs
      else case split_on sep cs of w # ws \<Rightarrow> (c # w) # ws | [] \<Rightarrow> [[c]])"

subsection \<open>Sizes\<close>

definition size_scale :: "chars \<Rightarrow> nat option" where
  "size_scale suffix =
     (if suffix = [] then Some 1
      else if suffix = [107] then Some (2 ^ 10)
      else if suffix = [109] then Some (2 ^ 20)
      else if suffix = [103] then Some (2 ^ 30)
      else if suffix = [116] then Some (2 ^ 40)
      else None)"

definition parse_size :: "chars \<Rightarrow> string + nat" where
  "parse_size value =
     (let trimmed = trim_chars value;
          digits = trim_end_matches is_ascii_alphabetic trimmed;
          suffix = map to_ascii_lowercase (drop (length digits) trimmed) in
      and_then (ok_or (size_scale (trim_end_matches (\<lambda>c. c = 98) suffix))
                 ''unknown size suffix `{other}` in `{value}`'') (\<lambda>scale.
      and_then (ok_or (parse_unsigned 64 digits) ''`{value}` is not a byte size'') (\<lambda>number.
      ok_or (checked_mul64 number scale) ''`{value}` overflows a byte size'')))"

subsection \<open>Mount options\<close>

datatype image_offset = OffsetStart | OffsetDetect | OffsetAt nat

record split_state =
  ss_cache :: "nat option"
  ss_offset :: image_offset
  ss_rest :: "chars list"

definition CACHESIZE :: chars where "CACHESIZE = chars_of ''cachesize=''"
definition OFFSET :: chars where "OFFSET = chars_of ''offset=''"
definition AUTO :: chars where "AUTO = chars_of ''auto''"

definition take_option :: "chars \<Rightarrow> split_state \<Rightarrow> string + split_state" where
  "take_option opt st =
     (case strip_prefix CACHESIZE opt of
        Some value \<Rightarrow> and_then (parse_size value) (\<lambda>bytes. Inr (st\<lparr>ss_cache := Some bytes\<rparr>))
      | None \<Rightarrow>
          (case strip_prefix OFFSET opt of
             Some value \<Rightarrow>
               and_then
                 (if value = AUTO then Inr OffsetDetect
                  else and_then (ok_or (parse_unsigned 64 value)
                         ''offset must be `auto` or a byte offset: {other}'') (\<lambda>n. Inr (OffsetAt n)))
                 (\<lambda>offset. Inr (st\<lparr>ss_offset := offset\<rparr>))
           | None \<Rightarrow> Inr (if opt = [] then st else st\<lparr>ss_rest := ss_rest st @ [opt]\<rparr>)))"

fun take_options :: "chars list \<Rightarrow> split_state \<Rightarrow> string + split_state" where
  "take_options [] st = Inr st"
| "take_options (opt # opts) st = and_then (take_option opt st) (take_options opts)"

text \<open>The two nested loops visit the pieces of all options in order.\<close>

definition split_options :: "chars list \<Rightarrow> string + split_state" where
  "split_options options =
     take_options (concat (map (split_on 44) options))
       \<lparr>ss_cache = None, ss_offset = OffsetStart, ss_rest = []\<rparr>"

subsection \<open>Opening an image\<close>

definition mount_open_image :: "image_source \<Rightarrow> image_offset \<Rightarrow> image_file result" where
  "mount_open_image source offset =
     (case offset of
        OffsetStart \<Rightarrow> image_from_source source
      | OffsetDetect \<Rightarrow> image_from_source source
      | OffsetAt n \<Rightarrow> image_from_window source n (src_len source - n))"

datatype cli_error = Usage string | Library error

definition parse_image_offset :: "chars \<Rightarrow> cli_error + nat option" where
  "parse_image_offset offset =
     (if offset = AUTO then Inr None
      else case parse_unsigned 64 offset of
        None \<Rightarrow> Inl (Usage ''--image-offset must be `auto` or a byte offset: {other}'')
      | Some n \<Rightarrow> Inr (Some n))"

definition library_result :: "'a result \<Rightarrow> cli_error + 'a" where
  "library_result r = (case r of Inl e \<Rightarrow> Inl (Library e) | Inr x \<Rightarrow> Inr x)"

text \<open>\<open>whole\<close> is the source \<open>Image::open\<close> reads from, \<open>source\<close> the one \<open>FileSource::open\<close> gives.\<close>

definition tool_open_image ::
    "image_source \<Rightarrow> image_source \<Rightarrow> chars \<Rightarrow> nat option \<Rightarrow> cli_error + image_file" where
  "tool_open_image whole source offset sz =
     and_then (parse_image_offset offset) (\<lambda>off.
     if off = None \<and> sz = None then library_result (image_from_source whole)
     else let n = (case off of None \<Rightarrow> 0 | Some n \<Rightarrow> n);
              len = (case sz of None \<Rightarrow> src_len source - n | Some l \<Rightarrow> l)
          in library_result (image_from_window source n len))"

subsection \<open>Sizes are read back\<close>

text \<open>The decimal digits of a number.\<close>

fun decimal :: "nat \<Rightarrow> chars" where
  "decimal n = (if n < 10 then [48 + n] else decimal (n div 10) @ [48 + n mod 10])"

declare decimal.simps [simp del]

lemma decimal_digits: "decimal n \<noteq> [] \<and> list_all is_ascii_digit (decimal n)"
  by (induction n rule: decimal.induct)
    (subst (1 2) decimal.simps, auto simp: is_ascii_digit_def list_all_iff)

lemma digits_value_snoc: "digits_value (cs @ [c]) = 10 * digits_value cs + (c - 48)"
  by (simp add: digits_value_def)

lemma digits_value_decimal: "digits_value (decimal n) = n"
proof (induction n rule: decimal.induct)
  case (1 n)
  show ?case
  proof (cases "n < 10")
    case True
    then show ?thesis by (simp add: decimal.simps [of n] digits_value_def)
  next
    case False
    with 1 show ?thesis by (simp add: decimal.simps [of n] digits_value_snoc)
  qed
qed

lemma parse_unsigned_decimal: "parse_unsigned bits (decimal n) = (if n < 2 ^ bits then Some n else None)"
proof -
  obtain c cs where d: "decimal n = c # cs" "is_ascii_digit c" using decimal_digits [of n]
    by (cases "decimal n") auto
  then have "c \<noteq> 43" by (auto simp: is_ascii_digit_def)
  with d decimal_digits [of n] digits_value_decimal [of n] show ?thesis
    by (simp add: parse_unsigned_def)
qed

lemma trim_end_matches_none: "(cs \<noteq> [] \<Longrightarrow> \<not> p (last cs)) \<Longrightarrow> trim_end_matches p cs = cs"
  by (cases cs rule: rev_cases) (auto simp: trim_end_matches_def)

lemma trim_end_matches_append:
  "list_all p ys \<Longrightarrow> trim_end_matches p (xs @ ys) = trim_end_matches p xs"
  by (simp add: trim_end_matches_def list_all_iff dropWhile_append)

text \<open>A number with a suffix of letters, surrounded by white space.\<close>

lemma parse_size_decimal:
  assumes "list_all is_ascii_alphabetic suffix" "list_all is_whitespace before" "list_all is_whitespace after"
  shows "parse_size (before @ decimal n @ suffix @ after) =
    and_then (ok_or (size_scale (trim_end_matches (\<lambda>c. c = 98) (map to_ascii_lowercase suffix)))
       ''unknown size suffix `{other}` in `{value}`'') (\<lambda>scale.
    and_then (ok_or (if n < 2 ^ 64 then Some n else None) ''`{value}` is not a byte size'') (\<lambda>number.
    ok_or (checked_mul64 number scale) ''`{value}` overflows a byte size''))"
proof -
  have digit_ws: "\<not> is_whitespace c" "\<not> is_ascii_alphabetic c" if "is_ascii_digit c" for c
    using that by (auto simp: is_ascii_digit_def is_whitespace_def is_ascii_alphabetic_def)
  have alpha_ws: "\<not> is_whitespace c" if "is_ascii_alphabetic c" for c
    using that by (auto simp: is_whitespace_def is_ascii_alphabetic_def)
  obtain c cs where d: "decimal n = c # cs" "is_ascii_digit c" using decimal_digits [of n]
    by (cases "decimal n") auto
  have last_digit: "is_ascii_digit (last (decimal n))"
    using decimal_digits [of n] by (metis last_in_set list_all_iff)
  have "dropWhile is_whitespace (before @ decimal n @ suffix @ after) = decimal n @ suffix @ after"
    using assms(2) d digit_ws by (simp add: dropWhile_append list_all_iff)
  moreover have "trim_end_matches is_whitespace ((decimal n @ suffix) @ after) = decimal n @ suffix"
    unfolding trim_end_matches_append [OF assms(3)]
    using assms(1) last_digit digit_ws alpha_ws d
    by (intro trim_end_matches_none) (auto simp: last_append list_all_iff)
  ultimately have t: "trim_chars (before @ decimal n @ suffix @ after) = decimal n @ suffix"
    by (simp add: trim_chars_def)
  have "trim_end_matches is_ascii_alphabetic (decimal n @ suffix) = decimal n"
    unfolding trim_end_matches_append [OF assms(1)]
    using last_digit digit_ws by (intro trim_end_matches_none) auto
  with t show ?thesis by (simp add: parse_size_def Let_def parse_unsigned_decimal)
qed

text \<open>The options left for FUSE are the pieces that are neither of the two, in order.\<close>

definition passed_through :: "chars \<Rightarrow> bool" where
  "passed_through opt \<longleftrightarrow> opt \<noteq> [] \<and> strip_prefix CACHESIZE opt = None \<and> strip_prefix OFFSET opt = None"

lemma take_options_rest:
  "take_options opts st = Inr st' \<Longrightarrow> ss_rest st' = ss_rest st @ filter passed_through opts"
proof (induction opts arbitrary: st)
  case Nil
  then show ?case by simp
next
  case (Cons opt opts)
  then obtain st1 where one: "take_option opt st = Inr st1" and rest: "take_options opts st1 = Inr st'"
    by (auto simp: result_simps)
  have "ss_rest st1 = ss_rest st @ (if passed_through opt then [opt] else [])"
    using one by (auto simp: take_option_def passed_through_def result_simps split: option.splits if_splits)
  with Cons.IH [OF rest] show ?case by simp
qed

end
