(* ===== verification/Json.thy ===== *)
theory Json
  imports Cli_Options
begin

text \<open>
  The JSON text of \<open>src/src/bin/dwarfsck.rs\<close>: \<open>json_string\<close> and the escapes it uses, character by
  character, and a reader of the objects the tool prints, whose values are numbers, strings and
  lists of strings. What is printed is read back by it.
\<close>

subsection \<open>Strings\<close>

definition hex_digit :: "nat \<Rightarrow> nat" where
  "hex_digit n = (if n < 10 then 48 + n else 87 + n)"

text \<open>\<open>n\<close> in \<open>width\<close> hexadecimal digits, as \<open>{:0width$x}\<close> prints it when it fits.\<close>

fun hex_fixed :: "nat \<Rightarrow> nat \<Rightarrow> chars" where
  "hex_fixed 0 n = []"
| "hex_fixed (Suc width) n = hex_fixed width (n div 16) @ [hex_digit (n mod 16)]"

lemma hex_fixed_2: "hex_fixed 2 n = [hex_digit (n div 16 mod 16), hex_digit (n mod 16)]"
  by (simp add: numeral_2_eq_2)

definition json_escape :: "nat \<Rightarrow> chars" where
  "json_escape c =
     (if c = 34 then [92, 34]
      else if c = 92 then [92, 92]
      else if c = 10 then [92, 110]
      else if c = 13 then [92, 114]
      else if c = 9 then [92, 116]
      else if c < 0x20 then [92, 117] @ hex_fixed 4 c
      else [c])"

definition json_string :: "chars \<Rightarrow> chars" where
  "json_string s = 34 # concat (map json_escape s) @ [34]"

lemma hex_fixed_printable: "x \<in> set (hex_fixed width n) \<Longrightarrow> 32 \<le> x"
  by (induction width n rule: hex_fixed.induct) (auto simp: hex_digit_def)

lemma json_escape_printable: "x \<in> set (json_escape c) \<Longrightarrow> 32 \<le> x"
  by (auto simp: json_escape_def simp del: hex_fixed.simps dest!: hex_fixed_printable split: if_splits)

lemma json_string_printable: "x \<in> set (json_string s) \<Longrightarrow> 32 \<le> x"
  using json_escape_printable by (auto simp: json_string_def)

subsection \<open>Values and objects\<close>

datatype json_value = JNum nat | JStr chars | JList "chars list"

fun join_with :: "chars \<Rightarrow> chars list \<Rightarrow> chars" where
  "join_with sep [] = []"
| "join_with sep [x] = x"
| "join_with sep (x # y # xs) = x @ sep @ join_with sep (y # xs)"

fun show_value :: "json_value \<Rightarrow> chars" where
  "show_value (JNum n) = decimal n"
| "show_value (JStr s) = json_string s"
| "show_value (JList ss) = 91 # join_with [44] (map json_string ss) @ [93]"

definition show_member :: "chars \<times> json_value \<Rightarrow> chars" where
  "show_member m = json_string (fst m) @ 58 # show_value (snd m)"

definition show_object :: "(chars \<times> json_value) list \<Rightarrow> chars" where
  "show_object ms = 123 # join_with [44] (map show_member ms) @ [125]"

subsection \<open>A strict reader\<close>

text \<open>
  Strings hold no raw control character and only the escapes of the JSON grammar; numbers have no
  leading zero; nothing may follow the closing brace.
\<close>

definition hex_value :: "nat \<Rightarrow> nat option" where
  "hex_value c =
     (if 48 \<le> c \<and> c \<le> 57 then Some (c - 48) else if 97 \<le> c \<and> c \<le> 102 then Some (c - 87)
      else if 65 \<le> c \<and> c \<le> 70 then Some (c - 55) else None)"

definition hex_quad :: "nat \<Rightarrow> nat \<Rightarrow> nat \<Rightarrow> nat \<Rightarrow> nat option" where
  "hex_quad a b c d =
     (case (hex_value a, hex_value b, hex_value c, hex_value d) of
        (Some w, Some x, Some y, Some z) \<Rightarrow> Some (((w * 16 + x) * 16 + y) * 16 + z)
      | _ \<Rightarrow> None)"

definition simple_escape :: "nat \<Rightarrow> nat option" where
  "simple_escape c =
     (if c = 34 \<or> c = 92 \<or> c = 47 then Some c
      else if c = 98 then Some 8 else if c = 102 then Some 12 else if c = 110 then Some 10
      else if c = 114 then Some 13 else if c = 116 then Some 9 else None)"

definition push_char :: "nat option \<Rightarrow> (chars \<times> 'r) option \<Rightarrow> (chars \<times> 'r) option" where
  "push_char c res =
     (case (c, res) of (Some x, Some (s, rest)) \<Rightarrow> Some (x # s, rest) | _ \<Rightarrow> None)"

fun read_text :: "chars \<Rightarrow> (chars \<times> chars) option" where
  "read_text [] = None"
| "read_text (c # cs) =
     (if c = 34 then Some ([], cs)
      else if c = 92 then
        (case cs of
           [] \<Rightarrow> None
         | e # r \<Rightarrow>
             if e = 117
             then (case r of a # b # d # g # r' \<Rightarrow> push_char (hex_quad a b d g) (read_text r') | _ \<Rightarrow> None)
             else push_char (simple_escape e) (read_text r))
      else if c < 32 then None
      else push_char (Some c) (read_text cs))"

definition read_quoted :: "chars \<Rightarrow> (chars \<times> chars) option" where
  "read_quoted cs = (case cs of [] \<Rightarrow> None | c # r \<Rightarrow> if c = 34 then read_text r else None)"

definition read_number :: "chars \<Rightarrow> (nat \<times> chars) option" where
  "read_number cs =
     (let digits = takeWhile is_ascii_digit cs in
      if digits = [] \<or> (1 < length digits \<and> hd digits = 48) then None
      else Some (digits_value digits, dropWhile is_ascii_digit cs))"

fun read_strings :: "nat \<Rightarrow> chars \<Rightarrow> (chars list \<times> chars) option" where
  "read_strings 0 cs = None"
| "read_strings (Suc n) cs =
     (case read_quoted cs of
        Some (s, c # r) \<Rightarrow>
          if c = 93 then Some ([s], r)
          else if c = 44 then map_option (\<lambda>(ss, r). (s # ss, r)) (read_strings n r)
          else None
      | _ \<Rightarrow> None)"

definition read_value :: "chars \<Rightarrow> (json_value \<times> chars) option" where
  "read_value cs =
     (case cs of
        [] \<Rightarrow> None
      | c # r \<Rightarrow>
          if c = 34 then map_option (\<lambda>(s, r). (JStr s, r)) (read_text r)
          else if c = 91 then
            (case r of
               d # r' \<Rightarrow> if d = 93 then Some (JList [], r')
                         else map_option (\<lambda>(ss, r). (JList ss, r)) (read_strings (length r) r)
             | [] \<Rightarrow> None)
          else map_option (\<lambda>(n, r). (JNum n, r)) (read_number cs))"

fun read_members :: "nat \<Rightarrow> chars \<Rightarrow> ((chars \<times> json_value) list \<times> chars) option" where
  "read_members 0 cs = None"
| "read_members (Suc n) cs =
     (case read_quoted cs of
        Some (k, c # r) \<Rightarrow>
          if c \<noteq> 58 then None
          else (case read_value r of
                  Some (v, d # r') \<Rightarrow>
                    if d = 125 then Some ([(k, v)], r')
                    else if d = 44 then map_option (\<lambda>(ms, r). ((k, v) # ms, r)) (read_members n r')
                    else None
                | _ \<Rightarrow> None)
      | _ \<Rightarrow> None)"

definition read_object :: "chars \<Rightarrow> (chars \<times> json_value) list option" where
  "read_object cs =
     (case cs of
        [] \<Rightarrow> None
      | c # r \<Rightarrow>
          if c \<noteq> 123 then None
          else if r = [125] then Some []
          else (case read_members (length r) r of Some (ms, []) \<Rightarrow> Some ms | _ \<Rightarrow> None))"

subsection \<open>What is printed is read back\<close>

lemma push_char_simps [simp]:
  "push_char (Some x) (Some (s, rest)) = Some (x # s, rest)" "push_char c None = None"
  by (simp_all add: push_char_def split: option.split)

lemma hex_value_digit [simp]: "n < 16 \<Longrightarrow> hex_value (hex_digit n) = Some n"
  by (auto simp: hex_value_def hex_digit_def)

lemma read_text_escape: "read_text (json_escape c @ rest) = push_char (Some c) (read_text rest)"
proof -
  have four: "(4 :: nat) = Suc (Suc (Suc (Suc 0)))" by simp
  have "read_text ([92, 117] @ hex_fixed 4 c @ rest) = push_char (Some c) (read_text rest)" if "c < 0x20"
    using that unfolding four by (simp add: hex_quad_def)
  then show ?thesis by (simp add: json_escape_def simple_escape_def)
qed

lemma read_text_string: "read_text (concat (map json_escape s) @ 34 # rest) = Some (s, rest)"
  by (induction s) (simp_all add: read_text_escape)

lemma read_quoted_string: "read_quoted (json_string s @ rest) = Some (s, rest)"
  using read_text_string [of s rest] by (simp add: read_quoted_def json_string_def)

lemma read_quoted_whole: "read_quoted (json_string s) = Some (s, [])"
  using read_quoted_string [of s "[]"] by simp

lemma decimal_no_leading_zero: "0 < n \<Longrightarrow> hd (decimal n) \<noteq> 48"
proof (induction n rule: decimal.induct)
  case (1 n)
  show ?case
  proof (cases "n < 10")
    case True
    with 1 show ?thesis by (simp add: decimal.simps [of n])
  next
    case False
    then have "decimal (n div 10) \<noteq> []" by (simp add: decimal.simps [of "n div 10"])
    with 1 False show ?thesis by (simp add: decimal.simps [of n])
  qed
qed

lemma read_number_decimal:
  assumes "rest \<noteq> [] \<longrightarrow> \<not> is_ascii_digit (hd rest)"
  shows "read_number (decimal n @ rest) = Some (n, rest)"
proof -
  have digits: "list_all is_ascii_digit (decimal n)" "decimal n \<noteq> []" using decimal_digits [of n] by auto
  have take: "takeWhile is_ascii_digit (decimal n @ rest) = decimal n"
    "dropWhile is_ascii_digit (decimal n @ rest) = rest"
    using digits(1) assms by (cases rest; auto simp: list_all_iff takeWhile_append dropWhile_append)+
  have "\<not> (1 < length (decimal n) \<and> hd (decimal n) = 48)"
  proof (cases "n = 0")
    case True
    then show ?thesis by (simp add: decimal.simps [of 0])
  next
    case False
    then show ?thesis using decimal_no_leading_zero [of n] by simp
  qed
  with digits(2) take digits_value_decimal [of n] show ?thesis by (simp add: read_number_def Let_def)
qed

lemma read_strings_list:
  "ss \<noteq> [] \<Longrightarrow> length ss \<le> n \<Longrightarrow>
    read_strings n (join_with [44] (map json_string ss) @ 93 # rest) = Some (ss, rest)"
proof (induction ss arbitrary: n)
  case (Cons s ss)
  then obtain m where n: "n = Suc m" by (cases n) auto
  show ?case
  proof (cases ss)
    case Nil
    then show ?thesis by (simp add: n read_quoted_string)
  next
    case (Cons t ts)
    with Cons.IH [of m] Cons.prems n show ?thesis
      by (simp add: read_quoted_string)
  qed
qed simp

lemma length_join_with: "length xs \<le> Suc (length (join_with [44] xs))"
  by (induction "[44 :: nat]" xs rule: join_with.induct) auto

lemma json_string_head: "\<exists>cs. json_string s = 34 # cs"
  by (simp add: json_string_def)

lemma join_strings_head: "\<exists>cs. join_with [44] (map json_string (s # ss)) = 34 # cs"
  by (cases ss) (simp_all add: json_string_def)

lemma decimal_head: "\<exists>c cs. decimal n = c # cs \<and> is_ascii_digit c"
  using decimal_digits [of n] by (cases "decimal n") auto

lemma read_value_show:
  assumes "rest \<noteq> [] \<longrightarrow> \<not> is_ascii_digit (hd rest)"
  shows "read_value (show_value v @ rest) = Some (v, rest)"
proof (cases v)
  case (JNum n)
  obtain c cs where d: "decimal n = c # cs" "is_ascii_digit c" using decimal_head by blast
  then have "c \<noteq> 34" "c \<noteq> 91" by (auto simp: is_ascii_digit_def)
  with read_number_decimal [OF assms, of n] d JNum show ?thesis by (simp add: read_value_def)
next
  case (JStr s)
  with read_text_string [of s rest] show ?thesis by (simp add: read_value_def json_string_def)
next
  case (JList ss)
  show ?thesis
  proof (cases ss)
    case Nil
    with JList show ?thesis by (simp add: read_value_def)
  next
    case (Cons s ts)
    let ?body = "join_with [44] (map json_string ss) @ 93 # rest"
    obtain cs where h: "join_with [44] (map json_string ss) = 34 # cs" using join_strings_head Cons by blast
    have "length ss \<le> length ?body" using length_join_with [of "map json_string ss"] by simp
    from read_strings_list [OF _ this] Cons have "read_strings (length ?body) ?body = Some (ss, rest)" by simp
    with h JList show ?thesis by (simp add: read_value_def del: read_strings.simps)
  qed
qed

lemma read_members_show:
  "ms \<noteq> [] \<Longrightarrow> length ms \<le> n \<Longrightarrow>
    read_members n (join_with [44] (map show_member ms) @ 125 # rest) = Some (ms, rest)"
proof (induction ms arbitrary: n)
  case (Cons m ms)
  then obtain k where n: "n = Suc k" by (cases n) auto
  have sep: "\<not> is_ascii_digit 125" "\<not> is_ascii_digit 44" by (simp_all add: is_ascii_digit_def)
  show ?case
  proof (cases ms)
    case Nil
    then show ?thesis using sep
      by (simp add: n show_member_def read_quoted_string read_value_show)
  next
    case (Cons m' ms')
    with Cons.IH [of k] Cons.prems n sep show ?thesis
      by (simp add: show_member_def [of m] read_quoted_string read_value_show)
  qed
qed simp

lemma read_object_show: "read_object (show_object ms) = Some ms"
proof (cases ms)
  case Nil
  then show ?thesis by (simp add: read_object_def show_object_def)
next
  case (Cons m ms')
  let ?body = "join_with [44] (map show_member ms) @ [125]"
  have "length ms \<le> length ?body" using length_join_with [of "map show_member ms"] by simp
  from read_members_show [OF _ this, of "[]"] Cons
  have "read_members (length ?body) ?body = Some (ms, [])" by simp
  moreover have "?body \<noteq> [125]" using Cons by (cases ms') (simp_all add: show_member_def json_string_def)
  ultimately show ?thesis by (simp add: read_object_def show_object_def del: read_members.simps)
qed

lemma join_with_set: "c \<in> set (join_with sep xs) \<Longrightarrow> c \<in> set sep \<or> (\<exists>x \<in> set xs. c \<in> set x)"
  by (induction sep xs rule: join_with.induct) auto

lemma show_value_printable: "c \<in> set (show_value v) \<Longrightarrow> 32 \<le> c"
proof (cases v)
  case (JNum n)
  assume "c \<in> set (show_value v)"
  with JNum decimal_digits [of n] have "is_ascii_digit c" by (auto simp: list_all_iff)
  then show ?thesis by (simp add: is_ascii_digit_def)
qed (auto dest!: join_with_set json_string_printable)

lemma show_object_printable: "c \<in> set (show_object ms) \<Longrightarrow> 32 \<le> c"
  by (auto simp: show_object_def show_member_def dest!: join_with_set json_string_printable show_value_printable)

end
