(* ===== verification/Dwarfsck.thy ===== *)
theory Dwarfsck
  imports Json History Filesystem Read_Path Directories Glob
begin

text \<open>
  \<open>src/src/bin/dwarfsck.rs\<close>: what the inspection tool computes. The values it prints are modelled,
  the layout of the report is not; strings the tool builds itself (JSON strings and hexadecimal
  digests) are modelled character by character. The hash crates are parameters. Sums of lengths
  wrap at 64 bits, as in a release build.
\<close>

subsection \<open>Checks and detail level\<close>

definition ck_verify :: "section_loop option \<Rightarrow> hash_lib \<Rightarrow> bool \<Rightarrow> bool \<Rightarrow> image_file \<Rightarrow> unit result" where
  "ck_verify pool hl no_check check_integrity img =
     (if no_check then Inr ()
      else if check_integrity then verify_deep pool hl img else verify_all pool hl img)"

definition ck_header_bytes :: "image_file \<Rightarrow> bytes result" where
  "ck_header_bytes img =
     (if 0 < img_base_offset img then image_read_range img 0 (img_base_offset img) else Inr [])"

definition parse_detail :: "chars \<Rightarrow> nat" where
  "parse_detail value = (case parse_unsigned 32 value of Some n \<Rightarrow> min n 7 | None \<Rightarrow> 3)"

definition effective_detail :: "chars \<Rightarrow> bool \<Rightarrow> bool \<Rightarrow> nat" where
  "effective_detail value quiet verbose =
     (let detail = (if quiet then 0 else parse_detail value) in if verbose then detail + 1 else detail)"

definition ck_list :: "walk_entry list \<Rightarrow> bytes list" where
  "ck_list entries = map (\<lambda>e. strip_slash (we_path e)) (filter (\<lambda>e. we_path e \<noteq> []) entries)"

subsection \<open>The section summary\<close>

record ck_summary =
  cs_block_count :: nat
  cs_block_compressed :: nat
  cs_metadata_compressed :: nat
  cs_schema_compressed :: nat
  cs_history_compressed :: nat
  cs_unknown :: "(u16 \<times> nat) list"

definition ck_summary_default :: ck_summary where
  "ck_summary_default =
     \<lparr>cs_block_count = 0, cs_block_compressed = 0, cs_metadata_compressed = 0, cs_schema_compressed = 0,
      cs_history_compressed = 0, cs_unknown = []\<rparr>"

fun add_unknown :: "u16 \<Rightarrow> nat \<Rightarrow> (u16 \<times> nat) list \<Rightarrow> (u16 \<times> nat) list" where
  "add_unknown v len [] = [(v, len)]"
| "add_unknown v len ((w, n) # rest) =
     (if w = v then (w, wrapping_add64 n len) # rest else (w, n) # add_unknown v len rest)"

definition summarize_section :: "section_record \<Rightarrow> ck_summary \<Rightarrow> ck_summary" where
  "summarize_section r s =
     (let len = unat (sh_payload_len (rec_header r)) in
      case sh_section_type (rec_header r) of
        Block \<Rightarrow> s\<lparr>cs_block_count := cs_block_count s + 1,
                  cs_block_compressed := wrapping_add64 (cs_block_compressed s) len\<rparr>
      | MetadataV2 \<Rightarrow> s\<lparr>cs_metadata_compressed := wrapping_add64 (cs_metadata_compressed s) len\<rparr>
      | MetadataV2Schema \<Rightarrow> s\<lparr>cs_schema_compressed := wrapping_add64 (cs_schema_compressed s) len\<rparr>
      | History \<Rightarrow> s\<lparr>cs_history_compressed := wrapping_add64 (cs_history_compressed s) len\<rparr>
      | UnknownSection v \<Rightarrow> s\<lparr>cs_unknown := add_unknown v len (cs_unknown s)\<rparr>
      | SectionIndex \<Rightarrow> s)"

definition ck_summarize :: "image_file \<Rightarrow> ck_summary" where
  "ck_summarize img = fold summarize_section (img_sections img) ck_summary_default"

definition decoded_len ::
    "features \<Rightarrow> codec_lib \<Rightarrow> hash_lib \<Rightarrow> image_file \<Rightarrow> section_type \<Rightarrow> nat option" where
  "decoded_len ft cl hl img kind =
     (case find_section img kind of
        None \<Rightarrow> None
      | Some record \<Rightarrow>
          (case decompress_section ft cl hl img record (2 ^ 30) of
             Inr bs \<Rightarrow> Some (length bs)
           | Inl _ \<Rightarrow> None))"

text \<open>The histories that decode and parse; the others are noted on stderr.\<close>

definition ck_histories ::
    "features \<Rightarrow> codec_lib \<Rightarrow> hash_lib \<Rightarrow> image_file \<Rightarrow> history_entry list list" where
  "ck_histories ft cl hl img =
     concat (map (\<lambda>r.
       case decompress_section ft cl hl img r (2 ^ 24) of
         Inr payload \<Rightarrow> (case history_parse payload of Some (Inr es) \<Rightarrow> [es] | _ \<Rightarrow> [])
       | Inl _ \<Rightarrow> [])
     (filter (\<lambda>r. sh_section_type (rec_header r) = History) (img_sections img)))"

subsection \<open>Metadata tables\<close>

definition METADATA_TABLES :: "(int \<times> string) list" where
  "METADATA_TABLES =
     [(1, ''chunks''), (2, ''directories''), (3, ''inodes''), (4, ''chunk_table''),
      (6, ''symlink_table''), (7, ''uids''), (8, ''gids''), (9, ''modes''), (17, ''devices''),
      (19, ''dir_entries''), (20, ''shared_files_table''), (29, ''block_categories''),
      (35, ''large_hole_size'')]"

text \<open>The array under an optional wrapper, with its position.\<close>

definition unwrap_table :: "metadata \<Rightarrow> schema \<Rightarrow> layout \<Rightarrow> pos \<Rightarrow> (layout \<times> pos) option" where
  "unwrap_table m s l p =
     (case layout_kind_of l s of
        Inr (KOptional value_id) \<Rightarrow>
          (case read_optional (md_frozen m) p l of
             Inl _ \<Rightarrow> None
           | Inr opt \<Rightarrow>
               if \<not> ov_present opt then None
               else (case value_id of
                       None \<Rightarrow> None
                     | Some v \<Rightarrow>
                         (case schema_layout s v of Inl _ \<Rightarrow> None | Inr inner \<Rightarrow> Some (inner, ov_value_pos opt))))
      | _ \<Rightarrow> Some (l, p))"

definition measure_array :: "metadata \<Rightarrow> schema \<Rightarrow> layout \<Rightarrow> pos \<Rightarrow> (nat \<times> nat) option" where
  "measure_array m s l p =
     (case layout_kind_of l s of
        Inr (KArray item_id) \<Rightarrow>
          (case (frozen_read_range (md_frozen m) p l, schema_layout s item_id) of
             (Inr rng, Inr item) \<Rightarrow>
               if rv_count rng = 0 then None
               else let bits = rv_count rng * max (ly_bits item) 1 mod 2 ^ 64
                    in Some (rv_count rng, (bits + 7) div 8)
           | _ \<Rightarrow> None)
      | _ \<Rightarrow> None)"

definition table_size :: "metadata \<Rightarrow> schema \<Rightarrow> layout \<Rightarrow> int \<Rightarrow> (nat \<times> nat) option" where
  "table_size m s root fid =
     (case layout_field root fid of
        None \<Rightarrow> None
      | Some fld \<Rightarrow>
          (case schema_layout s (fl_layout_id fld) of
             Inl _ \<Rightarrow> None
           | Inr l \<Rightarrow>
               (case unwrap_table m s l (child pos_root fld) of
                  None \<Rightarrow> None
                | Some (l', p) \<Rightarrow> measure_array m s l' p)))"

text \<open>Rows of the report: name, entries and bytes of every table that is not empty.\<close>

definition table_sizes :: "metadata \<Rightarrow> schema \<Rightarrow> layout \<Rightarrow> (string \<times> nat \<times> nat) list" where
  "table_sizes m s root =
     concat (map (\<lambda>(fid, name). case table_size m s root fid of None \<Rightarrow> [] | Some row \<Rightarrow> [(name, row)])
       METADATA_TABLES)"

definition print_table_sizes ::
    "features \<Rightarrow> codec_lib \<Rightarrow> hash_lib \<Rightarrow> image_file \<Rightarrow> (string \<times> nat \<times> nat) list option" where
  "print_table_sizes ft cl hl img =
     (case (find_section img MetadataV2Schema, find_section img MetadataV2) of
        (Some schema_rec, Some meta_rec) \<Rightarrow>
          (case (decompress_section ft cl hl img schema_rec (2 ^ 24),
                 decompress_section ft cl hl img meta_rec (2 ^ 30)) of
             (Inr schema_bytes, Inr meta_bytes) \<Rightarrow>
               (case schema_parse schema_bytes of
                  Some (Inr s) \<Rightarrow>
                    (case (metadata_parse s meta_bytes, schema_root s) of
                       (Inr m, Inr root) \<Rightarrow> Some (table_sizes m s root)
                     | _ \<Rightarrow> None)
                | _ \<Rightarrow> None)
           | _ \<Rightarrow> None)
      | _ \<Rightarrow> None)"

text \<open>The options the two reports name.\<close>

definition summary_flags :: "fs_options \<Rightarrow> string list" where
  "summary_flags opts =
     (if fo_mtime_only opts then [''mtime_only''] else [])
     @ (if fo_packed_chunk_table opts then [''packed_chunk_table''] else [])
     @ (if fo_packed_directories opts then [''packed_directories''] else [])
     @ (if fo_packed_shared_files_table opts then [''packed_shared_files_table''] else [])
     @ (if fo_has_btime opts then [''has_btime''] else [])
     @ (if fo_inodes_have_nlink opts then [''inodes_have_nlink''] else [])"

definition json_flags :: "fs_options \<Rightarrow> string list" where
  "json_flags opts =
     (if fo_packed_chunk_table opts then [''packed_chunk_table''] else [])
     @ (if fo_packed_directories opts then [''packed_directories''] else [])
     @ (if fo_packed_shared_files_table opts then [''packed_shared_files_table''] else [])
     @ (if fo_inodes_have_nlink opts then [''inodes_have_nlink''] else [])
     @ (if fo_has_btime opts then [''has_btime''] else [])
     @ (if fo_mtime_only opts then [''mtime_only''] else [])"

subsection \<open>Checksums\<close>

record ck_hashes =
  kh_sha256 :: "bytes \<Rightarrow> bytes"
  kh_sha512 :: "bytes \<Rightarrow> bytes"
  kh_xxh3_64 :: "bytes \<Rightarrow> u64"
  kh_xxh3_128 :: "bytes \<Rightarrow> 128 word"

definition hex_encode :: "bytes \<Rightarrow> chars" where
  "hex_encode bs = concat (map (\<lambda>b. hex_fixed 2 (unat b)) bs)"

datatype algorithm = Sha256 | Sha512 | Xxh3_64 | Xxh3_128

definition algorithm_of :: "chars \<Rightarrow> algorithm option" where
  "algorithm_of alg =
     (if alg = chars_of ''sha256'' then Some Sha256
      else if alg = chars_of ''sha512'' then Some Sha512
      else if alg = chars_of ''xxh3-64'' then Some Xxh3_64
      else if alg = chars_of ''xxh3-128'' then Some Xxh3_128
      else None)"

definition digest_hex :: "ck_hashes \<Rightarrow> algorithm \<Rightarrow> bytes \<Rightarrow> chars" where
  "digest_hex kh alg bs =
     (case alg of
        Sha256 \<Rightarrow> hex_encode (kh_sha256 kh bs)
      | Sha512 \<Rightarrow> hex_encode (kh_sha512 kh bs)
      | Xxh3_64 \<Rightarrow> hex_fixed 16 (unat (kh_xxh3_64 kh bs))
      | Xxh3_128 \<Rightarrow> hex_fixed 32 (unat (kh_xxh3_128 kh bs)))"

text \<open>
  The outcome for one file. The second \<open>match\<close> on the algorithm ends in \<open>unreachable!()\<close>, which
  is a panic when the loop did not look at the algorithm first.
\<close>

datatype digest_outcome = Digest chars | DigestFails cli_error | DigestPanics

text \<open>
  The loop feeds the digests 64 KiB at a time; what a digest has been fed is the concatenation.
  \<open>None\<close> is a read that would wait for another thread.
\<close>

function checksum_loop ::
    "environment \<Rightarrow> filesystem \<Rightarrow> chars \<Rightarrow> u32 \<Rightarrow> nat \<Rightarrow> nat \<Rightarrow> bytes \<Rightarrow> block_cache
       \<Rightarrow> (block_cache \<times> (cli_error + bytes)) option" where
  "checksum_loop env fs alg inode sz offset fed c =
     (if offset < sz then
        (case read_at env fs inode offset (64 * 1024) c of
           None \<Rightarrow> None
         | Some (c', Inl e) \<Rightarrow> Some (c', Inl (Library e))
         | Some (c', Inr chunk) \<Rightarrow>
             if algorithm_of alg = None then Some (c', Inl (Usage ''unknown --checksum algorithm `{alg}`''))
             else if chunk = [] then Some (c', Inr fed)
             else checksum_loop env fs alg inode sz (offset + length chunk) (fed @ chunk) c')
      else Some (c, Inr fed))"
  by pat_completeness auto
termination
  by (relation "measure (\<lambda>(env, fs, alg, inode, sz, offset, _). sz - offset)")
    (auto intro!: diff_less_mono2)

declare checksum_loop.simps [simp del]

definition checksum_file ::
    "environment \<Rightarrow> filesystem \<Rightarrow> ck_hashes \<Rightarrow> chars \<Rightarrow> u32 \<Rightarrow> block_cache
       \<Rightarrow> (block_cache \<times> digest_outcome) option" where
  "checksum_file env fs kh alg inode c =
     (case file_size fs inode of
        Inl e \<Rightarrow> Some (c, DigestFails (Library e))
      | Inr sz \<Rightarrow>
          (case checksum_loop env fs alg inode sz 0 [] c of
             None \<Rightarrow> None
           | Some (c', Inl e) \<Rightarrow> Some (c', DigestFails e)
           | Some (c', Inr fed) \<Rightarrow>
               Some (c', case algorithm_of alg of
                           None \<Rightarrow> DigestPanics
                         | Some a \<Rightarrow> Digest (digest_hex kh a fed))))"

text \<open>The lines printed before the first file that fails, and how the run ends.\<close>

datatype checksum_end = ChecksumsDone | ChecksumsFail cli_error | ChecksumsPanic

primrec checksum_lines ::
    "environment \<Rightarrow> filesystem \<Rightarrow> ck_hashes \<Rightarrow> chars \<Rightarrow> walk_entry list \<Rightarrow> block_cache
       \<Rightarrow> ((chars \<times> bytes) list \<times> checksum_end) option" where
  "checksum_lines env fs kh alg [] c = Some ([], ChecksumsDone)"
| "checksum_lines env fs kh alg (e # es) c =
     (if we_kind e \<noteq> KRegular \<or> we_path e = [] then checksum_lines env fs kh alg es c
      else case checksum_file env fs kh alg (we_inode e) c of
        None \<Rightarrow> None
      | Some (c', DigestFails err) \<Rightarrow> Some ([], ChecksumsFail err)
      | Some (c', DigestPanics) \<Rightarrow> Some ([], ChecksumsPanic)
      | Some (c', Digest d) \<Rightarrow>
          map_option (\<lambda>(rows, fin). ((d, strip_slash (we_path e)) # rows, fin))
            (checksum_lines env fs kh alg es c'))"

definition print_checksums ::
    "environment \<Rightarrow> filesystem \<Rightarrow> nat \<Rightarrow> ck_hashes \<Rightarrow> chars \<Rightarrow> ((chars \<times> bytes) list \<times> checksum_end) option" where
  "print_checksums env fs fuel kh alg =
     (case walk_tree fs fuel of
        None \<Rightarrow> None
      | Some (Inl e) \<Rightarrow> Some ([], ChecksumsFail (Library e))
      | Some (Inr entries) \<Rightarrow>
          checksum_lines env fs kh alg entries (cache_new (8 * unat (fs_block_size fs))))"

subsection \<open>The digest is of the content\<close>

lemma checksum_loop_feeds:
  assumes alg: "algorithm_of alg = Some h" and sz: "sz = length (file_content fs blk a b)"
  shows "file_reading env fs content blk inode a b c \<Longrightarrow> fed = take offset (file_content fs blk a b)
    \<Longrightarrow> offset \<le> sz \<Longrightarrow>
    \<exists>c'. checksum_loop env fs alg inode sz offset fed c = Some (c', Inr (file_content fs blk a b))
      \<and> file_reading env fs content blk inode a b c'"
proof (induction "sz - offset" arbitrary: offset fed c rule: less_induct)
  case less
  show ?case
  proof (cases "offset < sz")
    case False
    with less.prems sz show ?thesis
      unfolding checksum_loop.simps [of env fs alg inode sz offset fed c] by simp
  next
    case True
    then have "offset < length (file_content fs blk a b)" "0 < (64 * 1024 :: nat)" by (simp_all add: sz)
    from file_bytes.next_piece [OF less.prems(1) this] obtain c1 piece where
      rd: "read_at env fs inode offset (64 * 1024) c = Some (c1, Inr piece)"
      and c1: "file_reading env fs content blk inode a b c1" and "piece \<noteq> []"
      and step: "offset + length piece \<le> sz" "sz - (offset + length piece) < sz - offset"
      and fed: "take (offset + length piece) (file_content fs blk a b) = fed @ piece"
      unfolding sz less.prems(2) by blast
    from less.hyps [OF step(2) c1 fed [symmetric] step(1)] rd alg True \<open>piece \<noteq> []\<close> show ?thesis
      unfolding checksum_loop.simps [of env fs alg inode sz offset fed c] by simp
  qed
qed

lemma checksum_file_digests:
  assumes r: "readable env fs content blk inode a b" and inside: "chunks_inside fs blk a b"
    and c: "cache_ready env fs c" and alg: "algorithm_of alg = Some h"
  shows "\<exists>c'. checksum_file env fs kh alg inode c = Some (c', Digest (digest_hex kh h (file_content fs blk a b)))
    \<and> cache_ready env fs c'"
proof -
  from r have ok: "fs_ok fs" "fs_kind fs inode = Inr KRegular" "chunk_range fs inode = Inr (a, b)"
    by (auto simp: readable_def)
  from file_size_sum [OF ok] have "file_size fs inode = Inr (length (file_content fs blk a b))"
    by (simp add: length_file_content)
  moreover have "file_reading env fs content blk inode a b c" using r inside c by (simp add: file_reading_def)
  ultimately show ?thesis
    using checksum_loop_feeds [OF alg refl, of env fs content blk inode a b c "[]" 0] alg
    by (auto simp: checksum_file_def file_reading_def)
qed

text \<open>An unknown algorithm is reported when a file has bytes, and panics when it has none.\<close>

lemma checksum_file_unknown_empty:
  assumes "file_size fs inode = Inr 0" "algorithm_of alg = None"
  shows "checksum_file env fs kh alg inode c = Some (c, DigestPanics)"
  using assms by (simp add: checksum_file_def checksum_loop.simps [of env fs alg inode 0 0])

end
