(* ===== verification/Tool_Properties.thy ===== *)
theory Tool_Properties
  imports Sample_Image Extract Tar Fuse Dwarfsck
begin

text \<open>
  The properties of what is built on the filesystem: extraction, the archive writer, the mount and
  the inspection tool. Each property with hypotheses is followed by an instance.
\<close>

subsection \<open>Extraction\<close>

text \<open>C25: on a pattern whose character classes are closed, the matcher returns, and accepts exactly
  the byte strings the pattern stands for: runs and single bytes that are no separator, classes,
  and literal bytes.\<close>

theorem glob_accepts_language:
  assumes "glob_items pattern = Some gs"
  shows "glob_match pattern t = Some (t \<in> glob_lang gs)"
  using glob_go_correct(1) [OF assms, of t] by (simp add: glob_match_def)

theorem glob_accepts_language_witness:
  "glob_match [0x2A, 0x2E, 0x63] [0x61, 0x2E, 0x63] = Some True
    \<and> glob_match [0x2A, 0x2E, 0x63] [0x61, 0x2F, 0x2E, 0x63] = Some False"
proof -
  let ?p = "[0x2A, 0x2E, 0x63] :: bytes"
  have items: "glob_items ?p = Some [AnyRun, Exactly 0x2E, Exactly 0x63]"
    by (simp add: STAR_def LBRACKET_def QUESTION_def)
  have "[0x61, 0x2E, 0x63] \<in> glob_lang [AnyRun, Exactly 0x2E, Exactly 0x63]"
    "[0x61, 0x2F, 0x2E, 0x63] \<notin> glob_lang [AnyRun, Exactly 0x2E, Exactly 0x63]"
    by (simp_all add: run_lang_simps byte_lang_unfold SLASH_def del: glob_lang.simps(2))
  then show ?thesis unfolding glob_accepts_language [OF items] by (simp del: glob_lang.simps)
qed

text \<open>On a class that is never closed the matcher panics as soon as the text is in the class.\<close>

lemma glob_unclosed_panics: "glob_match [LBRACKET, 0x61] [0x61] = None"
  by (simp add: glob_match_def RBRACKET_def)

text \<open>C21: a regular file is extracted byte for byte: on a destination that stores what is written to
  it, the target holds exactly the content of the file, and the size is reported.\<close>

theorem extracted_file_is_content:
  assumes "readable env fs content blk inode a b" "chunks_inside fs blk a b" "cache_ready env fs c"
    and "stores ops target view"
  shows "\<exists>c' d'. write_regular env fs ops inode target c d
      = Some (c', Inr (length (file_content fs blk a b)), d')
    \<and> cache_ready env fs c' \<and> view d' = file_content fs blk a b"
  by (rule write_regular_copies [OF assms])

text \<open>A destination that keeps the content of every path, and whose directories always exist.\<close>

definition memory_ops :: "(bytes \<Rightarrow> bytes) dest_ops" where
  "memory_ops =
     \<lparr>do_create_dir_all = (\<lambda>p d. (Inr (), d)), do_create_parent = (\<lambda>p d. (Inr (), d)),
      do_create_file = (\<lambda>p d. (Inr (), d(p := []))),
      do_write_all = (\<lambda>p bs d. (Inr (), d(p := d p @ bs))),
      do_hard_link = (\<lambda>p q d. (Inr (), d(q := d p))), do_copy = (\<lambda>p q d. (Inr (), d(q := d p))),
      do_symlink = (\<lambda>t p d. (Inr (), d(p := t)))\<rparr>"

lemma memory_stores: "stores memory_ops target (\<lambda>d. d target)"
  by (auto simp: stores_def memory_ops_def)

theorem extracted_file_is_content_witness:
  "\<exists>c' d'. write_regular sample_env sample_fs memory_ops 1 [0x61] (cache_new 32) (\<lambda>_. [9])
      = Some (c', Inr 5, d') \<and> d' [0x61] = [20, 30, 40, 0, 0]"
  using extracted_file_is_content [OF sample_readable sample_chunks_inside sample_cache_ready [of 32]
      memory_stores, of "[0x61]" "\<lambda>_. [9]"]
  by (auto simp: sample_file_content)

text \<open>C22: an extraction that succeeds has accounted for every selected entry: each directory made,
  each symlink made, each other special file skipped, each regular file written or linked, and,
  when links are allowed, each distinct content written exactly once. The destinations of the
  regular files are assumed distinct as paths, which are compared by their components: a file whose path
  is another spelling of the path its content was first written to is passed over uncounted.\<close>

theorem extraction_accounts:
  assumes "extract_all env fs fuel dest options ops d = Some (Inr stats, d')"
    and "walk_tree fs fuel = Some (Inr entries)" "select_entries options entries = Some es"
    and "distinct (map (destination dest) (regulars es))"
  shows "xs_errors stats = 0
    \<and> xs_directories stats = length (filter (\<lambda>e. we_kind e = KDirectory) es)
    \<and> xs_symlinks stats = length (filter (\<lambda>e. we_kind e = KSymlink) es)
    \<and> xs_skipped stats = length (filter (\<lambda>e. we_kind e \<notin> {KDirectory, KRegular, KSymlink}) es)
    \<and> xs_files stats + xs_hardlinks stats = length (regulars es)
    \<and> (eo_hardlink_shared options \<longrightarrow> xs_files stats = card (content_of fs ` set (regulars es)))"
  by (rule extract_all_accounts [OF assms])

lemma sample_content_id: "content_id sample_fs 1 = Inr 0"
  by (simp add: content_id_def chunk_table_slot_def sample_fs_def sample_offsets_def Let_def
      u32_try_from_def checked_sub_def)

lemma sample_extraction:
  "\<exists>stats d'. extract_all sample_env sample_fs 1 [0x64] extract_options_new memory_ops d = Some (Inr stats, d')"
proof -
  let ?root = "\<lparr>we_path = [], we_inode = 0, we_kind = KDirectory\<rparr>"
  let ?leaf = "\<lparr>we_path = [SLASH, 0x61], we_inode = 1, we_kind = KRegular\<rparr>"
  let ?t = "[0x64, SLASH, 0x61] :: bytes"
  let ?c = "cache_new (extract_cache_bytes sample_fs)"
  have select: "select_entries extract_options_new [?root, ?leaf] = Some [?root, ?leaf]"
    by (simp add: entry_matches_def extract_options_new_def)
  have target: "resolve_path [0x64] [SLASH, 0x61] = ?t"
    by (simp add: resolve_path_def strip_slash_def path_push_def SLASH_def)
  obtain c' d' where wr: "write_regular sample_env sample_fs memory_ops 1 ?t ?c d = Some (c', Inr 5, d')"
    using write_regular_copies [OF sample_readable sample_chunks_inside
        sample_cache_ready [of "extract_cache_bytes sample_fs"] memory_stores, of ?t d]
    by (auto simp: sample_file_content)
  have dirs: "make_directories extract_options_new memory_ops [0x64] [?root, ?leaf] extract_stats_default d
      = (Inr (extract_stats_default\<lparr>xs_directories := 1\<rparr>), d)"
    by (simp add: make_directory_def memory_ops_def extract_stats_default_def)
  have writers: "first_writers sample_fs {} [?root, ?leaf] = Inr [?leaf]" "sort_writers k [?leaf] = [?leaf]" for k
    by (simp_all add: sample_content_id sort_writers_def)
  have created: "do_create_dir_all memory_ops [0x64] d = (Inr (), d)" by (simp add: memory_ops_def)
  have "extract_files sample_env sample_fs [0x64] extract_options_new memory_ops [?root, ?leaf]
      (extract_stats_default\<lparr>xs_directories := 1\<rparr>) d
      = Some (Inr (extract_stats_default\<lparr>xs_directories := 1, xs_files := 1\<rparr>), d')"
    using writers wr target sample_content_id
    by (simp add: extract_files_def finish_entry_def finish_regular_def extract_stats_default_def
        del: first_writers.simps)
  with select dirs created show ?thesis
    by (simp add: extract_all_def sample_walk [unfolded One_nat_def] extract_stats_default_def
        del: select_entries.simps make_directories.simps)
qed

theorem extraction_accounts_witness:
  "\<exists>stats d'. extract_all sample_env sample_fs 1 [0x64] extract_options_new memory_ops (\<lambda>_. [])
      = Some (Inr stats, d') \<and> xs_directories stats = 1 \<and> xs_files stats = 1 \<and> xs_hardlinks stats = 0"
proof -
  obtain stats d' where run: "extract_all sample_env sample_fs 1 [0x64] extract_options_new memory_ops
      (\<lambda>_. []) = Some (Inr stats, d')" using sample_extraction by blast
  have "select_entries extract_options_new
      [\<lparr>we_path = [], we_inode = 0, we_kind = KDirectory\<rparr>,
       \<lparr>we_path = [SLASH, 0x61], we_inode = 1, we_kind = KRegular\<rparr>]
    = Some [\<lparr>we_path = [], we_inode = 0, we_kind = KDirectory\<rparr>,
       \<lparr>we_path = [SLASH, 0x61], we_inode = 1, we_kind = KRegular\<rparr>]"
    by (simp add: entry_matches_def extract_options_new_def)
  from extraction_accounts [OF run sample_walk this] run show ?thesis
    by (simp add: extract_options_new_def)
qed

subsection \<open>Archives and mounts\<close>

text \<open>C23: whatever buffer sizes the archive builder reads with, it gets the next bytes of the file:
  together, the beginning of the content of their total length.\<close>

theorem archived_file_is_content:
  assumes "readable env fs content blk inode a b" "chunks_inside fs blk a b" "cache_ready env fs c"
  shows "\<exists>st. read_with env fs sizes (file_reader_new inode (length (file_content fs blk a b)), c)
    = Some (Inr (take (sum_list sizes) (file_content fs blk a b)), st)"
  using read_with_delivers [of env fs content blk inode a b c 0
      "file_reader_new inode (length (file_content fs blk a b))" sizes] assms
  by (auto simp: reader_at_offset_def file_reader_new_def file_reading_def)

theorem archived_file_is_content_witness:
  "\<exists>st. read_with sample_env sample_fs [2, 1, 9] (file_reader_new 1 5, cache_new 32)
    = Some (Inr [20, 30, 40, 0, 0], st)"
proof -
  have len: "length (file_content sample_fs sample_blk 0 2) = 5" by (simp add: sample_file_content)
  from archived_file_is_content [OF sample_readable sample_chunks_inside sample_cache_ready [of 32],
      of "[2, 1, 9]", unfolded len] show ?thesis
    unfolding sample_file_content by (simp del: read_with.simps)
qed

text \<open>C24: a directory read in batches is read without loss or repetition: with room for \<open>n\<close> entries,
  a request at an offset gets the next \<open>n\<close> entries of one fixed sequence (the two dot entries and the
  listing), and the cookie of an entry is the offset that continues after it.\<close>

theorem readdir_batches:
  assumes "read_dir fs i = Inr es"
  shows "fuse_readdir fs (bounded_add n) (fuse_ino i) offset []
      = Inr (take n (drop offset (cookies 0 (dot_entries fs i @ map kernel_entry es))))
    \<and> (\<forall>k < 2 + length es.
        fst (snd (cookies 0 (dot_entries fs i @ map kernel_entry es) ! k)) = k + 1)"
proof
  show "fuse_readdir fs (bounded_add n) (fuse_ino i) offset []
      = Inr (take n (drop offset (cookies 0 (dot_entries fs i @ map kernel_entry es))))"
    by (rule fuse_readdir_batch [OF assms])
  show "\<forall>k < 2 + length es. fst (snd (cookies 0 (dot_entries fs i @ map kernel_entry es) ! k)) = k + 1"
  proof (intro allI impI)
    fix k assume "k < 2 + length es"
    then have "k < length (dot_entries fs i @ map kernel_entry es)" by (simp add: dot_entries_def Let_def)
    from cookies_nth [OF this, of 0] show "fst (snd (cookies 0 (dot_entries fs i @ map kernel_entry es) ! k)) = k + 1"
      by (simp split: prod.split)
  qed
qed

theorem readdir_batches_witness:
  "fuse_readdir sample_fs (bounded_add 1) 1 2 [] = Inr [(2, 3, FtRegularFile, [0x61])]"
proof -
  have root: "fuse_ino 0 = 1" by (simp add: fuse_ino_def)
  obtain d where dots: "dot_entries sample_fs 0 = [(1, FtDirectory, [0x2E]), (d, FtDirectory, [0x2E, 0x2E])]"
    by (simp add: dot_entries_def Let_def fuse_ino_def)
  show ?thesis
    using readdir_batches [OF sample_read_dir, of 1 2]
    by (simp add: root dots kernel_entry_def fuse_ino_def file_type_of_def numeral_2_eq_2 numeral_3_eq_3)
qed

text \<open>The other handlers in terms of the filesystem.\<close>

lemma fuse_read_delivers:
  assumes "readable env (df_fs df) content blk inode a b" "chunks_inside (df_fs df) blk a b"
    and "cache_ready env (df_fs df) (df_cache df)"
  shows "\<exists>df'. fuse_read env df (fuse_ino inode) offset sz
      = Some (Inr (take (unat sz) (drop offset (file_content (df_fs df) blk a b))), df')
    \<and> df_fs df' = df_fs df \<and> cache_ready env (df_fs df) (df_cache df')"
proof -
  let ?new = "take (unat sz) (drop offset (file_content (df_fs df) blk a b))"
  from read_into_right [OF assms(1,3), of offset "replicate (unat sz) 0"] assms(2) obtain c' where
    rd: "read_into env (df_fs df) inode offset (replicate (unat sz) 0) (df_cache df)
      = Some (c', put_at 0 ?new (replicate (unat sz) 0), Inr (length ?new))"
    and c': "cache_ready env (df_fs df) c'" by auto
  have "take (length ?new) (put_at 0 ?new (replicate (unat sz) 0)) = ?new"
    by (rule put_at_0_take) simp
  with rd c' show ?thesis by (simp add: fuse_read_def del: length_take length_drop)
qed

subsection \<open>The inspection tool\<close>

text \<open>C28: the checksum printed for a file is the digest of its content.\<close>

theorem checksum_of_content:
  assumes "readable env fs content blk inode a b" "chunks_inside fs blk a b" "cache_ready env fs c"
    and "algorithm_of alg = Some h"
  shows "\<exists>c'. checksum_file env fs kh alg inode c
      = Some (c', Digest (digest_hex kh h (file_content fs blk a b))) \<and> cache_ready env fs c'"
  by (rule checksum_file_digests [OF assms])

definition sample_digests :: ck_hashes where
  "sample_digests =
     \<lparr>kh_sha256 = (\<lambda>bs. [word_of_nat (length bs)]), kh_sha512 = (\<lambda>bs. bs), kh_xxh3_64 = (\<lambda>_. 7),
      kh_xxh3_128 = (\<lambda>_. 7)\<rparr>"

theorem checksum_of_content_witness:
  "\<exists>c'. checksum_file sample_env sample_fs sample_digests (chars_of ''sha256'') 1 (cache_new 32)
    = Some (c', Digest (chars_of ''05''))"
proof -
  have "algorithm_of (chars_of ''sha256'') = Some Sha256" by (simp add: algorithm_of_def)
  moreover have "digest_hex sample_digests Sha256 [20, 30, 40, 0, 0] = chars_of ''05''"
    by (simp add: digest_hex_def sample_digests_def hex_encode_def chars_of_def hex_digit_def hex_fixed_2)
  ultimately show ?thesis
    using checksum_of_content [OF sample_readable sample_chunks_inside sample_cache_ready [of 32],
        of "chars_of ''sha256''" Sha256 sample_digests]
    by (auto simp: sample_file_content)
qed

text \<open>A byte size is read as the number times the scale of its suffix, whatever white space
  surrounds it, and an overflowing product is an error.\<close>

lemma size_argument_value:
  assumes "list_all is_ascii_alphabetic suffix" "list_all is_whitespace before" "list_all is_whitespace after"
    and "size_scale (trim_end_matches (\<lambda>c. c = 98) (map to_ascii_lowercase suffix)) = Some scale"
    and "n < 2 ^ 64"
  shows "parse_size (before @ decimal n @ suffix @ after)
    = (if n * scale < 2 ^ 64 then Inr (n * scale) else Inl ''`{value}` overflows a byte size'')"
  unfolding parse_size_decimal [OF assms(1-3)] using assms(4,5) by (simp add: checked_mul64_def)

lemma size_argument_value_witness: "parse_size (chars_of '' 512MB '') = Inr (512 * 2 ^ 20)"
proof -
  have "decimal 512 = [53, 49, 50]" by (simp add: decimal.simps [of 512] decimal.simps [of 51] decimal.simps [of 5])
  moreover have "size_scale (trim_end_matches (\<lambda>c. c = 98) (map to_ascii_lowercase [77, 66])) = Some (2 ^ 20)"
    by (simp add: to_ascii_lowercase_def trim_end_matches_def size_scale_def)
  ultimately show ?thesis
    using size_argument_value [of "[77, 66]" "[32]" "[32]" "2 ^ 20" 512]
    by (simp add: chars_of_def is_ascii_alphabetic_def is_whitespace_def)
qed

end
