(* ===== verification/Reports.thy ===== *)
theory Reports
  imports Dwarfsck Text_Bytes
begin

text \<open>
  The reports of \<open>src/src/bin/dwarfsck.rs\<close>, character by character: the metadata export, the JSON
  summary, the section and history report and the metadata report. A report is the text written, or
  the list of its lines without the line ends. Names in the image are UTF-8, read as characters by
  \<open>utf8_chars\<close>; writing to the output is assumed to succeed.
\<close>

subsection \<open>The metadata export\<close>

definition kind_name :: "inode_kind \<Rightarrow> string" where
  "kind_name kind =
     (case kind of
        KDirectory \<Rightarrow> ''directory''
      | KRegular \<Rightarrow> ''regular''
      | KSymlink \<Rightarrow> ''symlink''
      | KBlockDevice \<Rightarrow> ''block-device''
      | KCharDevice \<Rightarrow> ''char-device''
      | KFifo \<Rightarrow> ''fifo''
      | KSocket \<Rightarrow> ''socket''
      | KUnknown \<Rightarrow> ''unknown'')"

definition lossy_chars :: "bytes \<Rightarrow> chars" where
  "lossy_chars bs = utf8_chars (utf8_lossy bs)"

definition export_path :: "walk_entry \<Rightarrow> chars" where
  "export_path e = (if we_path e = [] then chars_of ''/'' else lossy_chars (we_path e))"

definition export_target :: "filesystem \<Rightarrow> stat \<Rightarrow> chars option" where
  "export_target fs st =
     (if st_kind st = KSymlink
      then (case read_link fs (st_inode st) of Inl _ \<Rightarrow> None | Inr t \<Rightarrow> Some (lossy_chars t))
      else None)"

definition export_record :: "chars \<Rightarrow> stat \<Rightarrow> chars option \<Rightarrow> chars" where
  "export_record path st target =
     chars_of ''{\"inode\":'' @ decimal (unat (st_inode st))
     @ chars_of '',\"path\":'' @ json_string path
     @ chars_of '',\"kind\":\"'' @ chars_of (kind_name (st_kind st))
     @ chars_of ''\",\"mode\":'' @ decimal (unat (st_mode st))
     @ chars_of '',\"uid\":'' @ decimal (unat (st_uid st))
     @ chars_of '',\"gid\":'' @ decimal (unat (st_gid st))
     @ chars_of '',\"mtime\":'' @ decimal (st_mtime st)
     @ chars_of '',\"atime\":'' @ decimal (st_atime st)
     @ chars_of '',\"ctime\":'' @ decimal (st_ctime st)
     @ chars_of '',\"size\":'' @ decimal (st_size st)
     @ chars_of '',\"nlink\":'' @ decimal (unat (st_nlink st))
     @ (case target of None \<Rightarrow> [] | Some t \<Rightarrow> chars_of '',\"target\":'' @ json_string t)
     @ chars_of ''}''"

text \<open>The text written, up to the entry whose metadata cannot be read.\<close>

primrec export_entries :: "filesystem \<Rightarrow> walk_entry list \<Rightarrow> chars \<times> unit result" where
  "export_entries fs [] = ([], Inr ())"
| "export_entries fs (e # es) =
     (case fs_stat fs (we_inode e) of
        Inl err \<Rightarrow> ([], Inl err)
      | Inr st \<Rightarrow>
          (case export_entries fs es of
             (rest, r) \<Rightarrow> (export_record (export_path e) st (export_target fs st) @ 10 # rest, r)))"

definition export_metadata :: "filesystem \<Rightarrow> nat \<Rightarrow> (chars \<times> unit result) option" where
  "export_metadata fs fuel =
     (case walk_tree fs fuel of
        None \<Rightarrow> None
      | Some (Inl e) \<Rightarrow> Some ([], Inl e)
      | Some (Inr entries) \<Rightarrow> Some (export_entries fs entries))"

subsection \<open>The JSON summary\<close>

definition print_json :: "filesystem \<Rightarrow> chars" where
  "print_json fs =
     (let opts = fs_options fs; offsets = fs_offsets fs in
      chars_of ''{''
      @ chars_of ''\"block_size\":'' @ decimal (unat (fs_block_size fs)) @ chars_of '',''
      @ chars_of ''\"inode_count\":'' @ decimal (unat (inode_count fs)) @ chars_of '',''
      @ chars_of ''\"total_fs_size\":'' @ decimal (fs_total_fs_size fs) @ chars_of '',''
      @ (case fs_total_allocated_fs_size fs of
           None \<Rightarrow> []
         | Some allocated \<Rightarrow>
             chars_of ''\"total_allocated_fs_size\":'' @ decimal allocated @ chars_of '','')
      @ chars_of ''\"time_resolution_sec\":''
        @ decimal (case fo_time_resolution_sec opts of None \<Rightarrow> 1 | Some r \<Rightarrow> unat r) @ chars_of '',''
      @ chars_of ''\"features\":[''
        @ join_with (chars_of '','') (map (\<lambda>f. json_string (utf8_chars f)) (fs_features fs)) @ chars_of ''],''
      @ chars_of ''\"categories\":[''
        @ join_with (chars_of '','') (map (\<lambda>c. json_string (utf8_chars c)) (fs_category_names fs))
        @ chars_of ''],''
      @ (case fs_preferred_path_separator fs of
           None \<Rightarrow> []
         | Some sep \<Rightarrow> chars_of ''\"preferred_path_separator\":'' @ decimal (unat sep) @ chars_of '','')
      @ chars_of ''\"dir_offset\":'' @ decimal (unat (io_dir_offset offsets)) @ chars_of '',''
      @ chars_of ''\"symlink_offset\":'' @ decimal (unat (io_symlink_offset offsets)) @ chars_of '',''
      @ chars_of ''\"file_offset\":'' @ decimal (unat (io_file_offset offsets)) @ chars_of '',''
      @ chars_of ''\"shared_file_offset\":'' @ decimal (unat (io_shared_file_offset offsets)) @ chars_of '',''
      @ chars_of ''\"device_offset\":'' @ decimal (unat (io_device_offset offsets)) @ chars_of '',''
      @ chars_of ''\"special_offset\":'' @ decimal (unat (io_special_offset offsets)) @ chars_of '',''
      @ chars_of ''\"timestamp_base\":'' @ decimal (fs_timestamp_base fs) @ chars_of '',''
      @ chars_of ''\"options\":[''
        @ join_with (chars_of '','')
            (map (\<lambda>opt. chars_of ''\"'' @ chars_of opt @ chars_of ''\"'') (json_flags opts))
        @ chars_of '']''
      @ chars_of ''}'' @ [10])"

subsection \<open>Reading the records back\<close>

definition num_member :: "string \<Rightarrow> nat \<Rightarrow> chars \<times> json_value" where
  "num_member name n = (chars_of name, JNum n)"

definition str_member :: "string \<Rightarrow> chars \<Rightarrow> chars \<times> json_value" where
  "str_member name s = (chars_of name, JStr s)"

definition list_member :: "string \<Rightarrow> chars list \<Rightarrow> chars \<times> json_value" where
  "list_member name ss = (chars_of name, JList ss)"

definition record_members :: "chars \<Rightarrow> stat \<Rightarrow> chars option \<Rightarrow> (chars \<times> json_value) list" where
  "record_members path st target =
     [num_member ''inode'' (unat (st_inode st)), str_member ''path'' path,
      str_member ''kind'' (chars_of (kind_name (st_kind st))),
      num_member ''mode'' (unat (st_mode st)), num_member ''uid'' (unat (st_uid st)),
      num_member ''gid'' (unat (st_gid st)), num_member ''mtime'' (st_mtime st),
      num_member ''atime'' (st_atime st), num_member ''ctime'' (st_ctime st),
      num_member ''size'' (st_size st), num_member ''nlink'' (unat (st_nlink st))]
     @ (case target of None \<Rightarrow> [] | Some t \<Rightarrow> [str_member ''target'' t])"

text \<open>A name that needs no escape is printed between quotes as it is.\<close>

definition plain_char :: "nat \<Rightarrow> bool" where
  "plain_char c \<longleftrightarrow> c \<noteq> 34 \<and> c \<noteq> 92 \<and> 32 \<le> c"

definition plain_name :: "string \<Rightarrow> bool" where
  "plain_name name \<longleftrightarrow> list_all plain_char (chars_of name)"

lemma chars_of_simps [simp]: "chars_of [] = []" "chars_of (c # cs) = of_char c # chars_of cs"
  by (simp_all add: chars_of_def)

lemma json_escape_plain: "plain_char c \<Longrightarrow> json_escape c = [c]"
  by (simp add: plain_char_def json_escape_def)

lemma json_string_plain:
  assumes "plain_name name"
  shows "json_string (chars_of name) = 34 # chars_of name @ [34]"
proof -
  have "concat (map json_escape cs) = cs" if "list_all plain_char cs" for cs
    using that by (induction cs) (simp_all add: json_escape_plain)
  with assms show ?thesis by (simp add: json_string_def plain_name_def)
qed

lemma show_num_member:
  "plain_name name \<Longrightarrow> show_member (num_member name n) = 34 # chars_of name @ [34, 58] @ decimal n"
  by (simp add: show_member_def num_member_def json_string_plain)

lemma show_str_member:
  "plain_name name \<Longrightarrow> show_member (str_member name s) = 34 # chars_of name @ [34, 58] @ json_string s"
  by (simp add: show_member_def str_member_def json_string_plain)

lemma show_list_member:
  "plain_name name \<Longrightarrow> show_member (list_member name ss)
    = 34 # chars_of name @ [34, 58, 91] @ join_with [44] (map json_string ss) @ [93]"
  by (simp add: show_member_def list_member_def json_string_plain)

lemma join_with_Cons: "xs \<noteq> [] \<Longrightarrow> join_with sep (x # xs) = x @ sep @ join_with sep xs"
  by (cases xs) auto

lemma plain_kind_name: "plain_name (kind_name k)"
  by (cases k) (simp_all add: plain_name_def kind_name_def plain_char_def)

lemma plain_record_names:
  "plain_name ''inode''" "plain_name ''path''" "plain_name ''kind''" "plain_name ''mode''" "plain_name ''uid''"
  "plain_name ''gid''" "plain_name ''mtime''" "plain_name ''atime''" "plain_name ''ctime''"
  "plain_name ''size''" "plain_name ''nlink''" "plain_name ''target''"
  by (simp_all add: plain_name_def plain_char_def)

lemmas show_members = show_num_member show_str_member show_list_member

lemma export_record_shows: "export_record path st target = show_object (record_members path st target)"
  by (cases target)
    (simp_all add: export_record_def record_members_def show_object_def show_members
      json_string_plain plain_kind_name plain_record_names join_with_Cons)

definition json_members :: "filesystem \<Rightarrow> (chars \<times> json_value) list" where
  "json_members fs =
     (let opts = fs_options fs; offsets = fs_offsets fs in
      [num_member ''block_size'' (unat (fs_block_size fs)), num_member ''inode_count'' (unat (inode_count fs)),
       num_member ''total_fs_size'' (fs_total_fs_size fs)]
      @ (case fs_total_allocated_fs_size fs of None \<Rightarrow> [] | Some n \<Rightarrow> [num_member ''total_allocated_fs_size'' n])
      @ [num_member ''time_resolution_sec'' (case fo_time_resolution_sec opts of None \<Rightarrow> 1 | Some r \<Rightarrow> unat r),
         list_member ''features'' (map utf8_chars (fs_features fs)),
         list_member ''categories'' (map utf8_chars (fs_category_names fs))]
      @ (case fs_preferred_path_separator fs of
           None \<Rightarrow> [] | Some sep \<Rightarrow> [num_member ''preferred_path_separator'' (unat sep)])
      @ [num_member ''dir_offset'' (unat (io_dir_offset offsets)),
         num_member ''symlink_offset'' (unat (io_symlink_offset offsets)),
         num_member ''file_offset'' (unat (io_file_offset offsets)),
         num_member ''shared_file_offset'' (unat (io_shared_file_offset offsets)),
         num_member ''device_offset'' (unat (io_device_offset offsets)),
         num_member ''special_offset'' (unat (io_special_offset offsets)),
         num_member ''timestamp_base'' (fs_timestamp_base fs),
         list_member ''options'' (map chars_of (json_flags opts))])"

lemma plain_json_names:
  "plain_name ''block_size''" "plain_name ''inode_count''" "plain_name ''total_fs_size''"
  "plain_name ''total_allocated_fs_size''" "plain_name ''time_resolution_sec''" "plain_name ''features''"
  "plain_name ''categories''" "plain_name ''preferred_path_separator''" "plain_name ''dir_offset''"
  "plain_name ''symlink_offset''" "plain_name ''file_offset''" "plain_name ''shared_file_offset''"
  "plain_name ''device_offset''" "plain_name ''special_offset''" "plain_name ''timestamp_base''"
  "plain_name ''options''"
  by (simp_all add: plain_name_def plain_char_def)

lemma plain_flags: "list_all plain_name (json_flags opts)"
  by (simp add: json_flags_def plain_name_def plain_char_def)

lemma quoted_flags:
  "map (\<lambda>opt. 34 # chars_of opt @ [34]) (json_flags opts) = map (\<lambda>opt. json_string (chars_of opt)) (json_flags opts)"
  using plain_flags [of opts] by (simp add: list_all_iff json_string_plain)

lemma print_json_shows: "print_json fs = show_object (json_members fs) @ [10]"
  by (cases "fs_total_allocated_fs_size fs"; cases "fs_preferred_path_separator fs")
    (simp_all add: print_json_def json_members_def show_object_def show_members plain_json_names
      join_with_Cons Let_def quoted_flags comp_def)

text \<open>The summary and every record are objects a JSON reader reads back.\<close>

lemma print_json_read: "read_object (butlast (print_json fs)) = Some (json_members fs)"
  by (simp add: print_json_shows read_object_show)

lemma split_on_plain: "c \<notin> set w \<Longrightarrow> split_on c (w @ c # rest) = w # split_on c rest"
  by (induction w) (auto split: list.split)

lemma newline_free: "10 \<notin> set (export_record path st target)"
  using show_object_printable [of 10 "record_members path st target"] by (auto simp: export_record_shows)

lemma export_entries_lines:
  assumes "export_entries fs entries = (out, Inr ())"
  shows "\<exists>stats. try_map (\<lambda>e. fs_stat fs (we_inode e)) entries = Inr stats
    \<and> split_on 10 out = map2 (\<lambda>e st. export_record (export_path e) st (export_target fs st)) entries stats @ [[]]"
  using assms
proof (induction entries arbitrary: out)
  case (Cons e es)
  from Cons.prems obtain st rest where st: "fs_stat fs (we_inode e) = Inr st"
    and rest: "export_entries fs es = (rest, Inr ())"
    and out: "out = export_record (export_path e) st (export_target fs st) @ 10 # rest"
    by (auto split: sum.splits prod.splits)
  from Cons.IH [OF rest] obtain stats where "try_map (\<lambda>e. fs_stat fs (we_inode e)) es = Inr stats"
    "split_on 10 rest = map2 (\<lambda>e st. export_record (export_path e) st (export_target fs st)) es stats @ [[]]"
    by blast
  with st out split_on_plain [OF newline_free] show ?case by (intro exI [of _ "st # stats"]) simp
qed simp

subsection \<open>The section report\<close>

text \<open>The derived \<open>Debug\<close> names of the two header enumerations.\<close>

definition debug_section_type :: "section_type \<Rightarrow> chars" where
  "debug_section_type t =
     (case t of
        Block \<Rightarrow> chars_of ''Block''
      | MetadataV2Schema \<Rightarrow> chars_of ''MetadataV2Schema''
      | MetadataV2 \<Rightarrow> chars_of ''MetadataV2''
      | SectionIndex \<Rightarrow> chars_of ''SectionIndex''
      | History \<Rightarrow> chars_of ''History''
      | UnknownSection v \<Rightarrow> chars_of ''Unknown('' @ decimal (unat v) @ chars_of '')'')"

definition debug_compression :: "compression \<Rightarrow> chars" where
  "debug_compression c =
     (case c of
        NoCompression \<Rightarrow> chars_of ''None''
      | Lzma \<Rightarrow> chars_of ''Lzma''
      | Zstd \<Rightarrow> chars_of ''Zstd''
      | Lz4 \<Rightarrow> chars_of ''Lz4''
      | Lz4Hc \<Rightarrow> chars_of ''Lz4Hc''
      | Brotli \<Rightarrow> chars_of ''Brotli''
      | Flac \<Rightarrow> chars_of ''Flac''
      | Ricepp \<Rightarrow> chars_of ''Ricepp''
      | UnknownCodec v \<Rightarrow> chars_of ''Unknown('' @ decimal (unat v) @ chars_of '')'')"

definition bytes_line :: "string \<Rightarrow> nat \<Rightarrow> chars" where
  "bytes_line label n = chars_of label @ chars_of '': '' @ decimal n @ chars_of '' bytes''"

definition section_line :: "nat \<Rightarrow> section_record \<Rightarrow> chars" where
  "section_line i r =
     (let payload_end = wrapping_add64 (rec_file_offset r)
            (wrapping_add64 HEADER_LEN (unat (sh_payload_len (rec_header r)))) in
      chars_of ''  ['' @ decimal i @ chars_of ''] type='' @ debug_section_type (sh_section_type (rec_header r))
      @ chars_of '' compression='' @ debug_compression (sh_compression (rec_header r))
      @ chars_of '' number='' @ decimal (unat (sh_number (rec_header r)))
      @ chars_of '' offset='' @ decimal (rec_file_offset r)
      @ chars_of '' len='' @ decimal (wrapping_add64 HEADER_LEN (unat (sh_payload_len (rec_header r))))
      @ chars_of '' end='' @ decimal payload_end)"

definition print_summary ::
    "features \<Rightarrow> codec_lib \<Rightarrow> hash_lib \<Rightarrow> image_file \<Rightarrow> nat \<Rightarrow> chars list" where
  "print_summary ft cl hl img detail =
     (let s = ck_summarize img in
      (case img_sections img of
         [] \<Rightarrow> []
       | first # _ \<Rightarrow>
           [chars_of ''DwarFS version: '' @ decimal (unat (sh_major (rec_header first))) @ chars_of ''.''
            @ decimal (unat (sh_minor (rec_header first)))])
      @ [bytes_line ''DwarFS image'' (image_len img),
         chars_of ''Sections: '' @ decimal (length (img_sections img)),
         chars_of ''Block count: '' @ decimal (cs_block_count s),
         bytes_line ''Compressed block size'' (cs_block_compressed s),
         bytes_line ''Compressed metadata size'' (cs_metadata_compressed s)]
      @ (case decoded_len ft cl hl img MetadataV2 of
           None \<Rightarrow> [] | Some n \<Rightarrow> [bytes_line ''Uncompressed metadata size'' n])
      @ [bytes_line ''Compressed schema size'' (cs_schema_compressed s)]
      @ (case decoded_len ft cl hl img MetadataV2Schema of
           None \<Rightarrow> [] | Some n \<Rightarrow> [bytes_line ''Uncompressed schema size'' n])
      @ (if 0 < cs_history_compressed s
         then [bytes_line ''Compressed history size'' (cs_history_compressed s)] else [])
      @ map (\<lambda>(v, n). chars_of ''Unknown section type '' @ decimal (unat v) @ chars_of '': '' @ decimal n
               @ chars_of '' bytes'') (cs_unknown s)
      @ (if 0 < img_base_offset img then [bytes_line ''Header prefix'' (img_base_offset img)] else [])
      @ (if 2 \<le> detail then map (\<lambda>(i, r). section_line i r) (enumerate 0 (img_sections img)) else [])
      @ (if img_section_index img \<noteq> None then [chars_of ''Section index: present''] else []))"

definition history_lines :: "history_entry \<Rightarrow> chars list" where
  "history_lines e =
     (let v = he_version e in
      [chars_of ''History: '' @ decimal (hv_major v) @ chars_of ''.'' @ decimal (hv_minor v) @ chars_of ''.''
       @ decimal (hv_patch v) @ chars_of '' on '' @ utf8_chars (he_system_id e) @ chars_of '' built with ''
       @ utf8_chars (he_compiler_id e)]
      @ (case he_timestamp e of None \<Rightarrow> [] | Some ts \<Rightarrow> [chars_of ''  created on: '' @ decimal ts])
      @ (case he_arguments e of
           None \<Rightarrow> []
         | Some args \<Rightarrow> [chars_of ''  args: '' @ join_with (chars_of '' '') (map utf8_chars args)]))"

definition print_history ::
    "features \<Rightarrow> codec_lib \<Rightarrow> hash_lib \<Rightarrow> image_file \<Rightarrow> chars list" where
  "print_history ft cl hl img = concat (map history_lines (concat (ck_histories ft cl hl img)))"

subsection \<open>The metadata report\<close>

definition pad_left :: "nat \<Rightarrow> chars \<Rightarrow> chars" where
  "pad_left width s = replicate (width - length s) 32 @ s"

definition pad_right :: "nat \<Rightarrow> chars \<Rightarrow> chars" where
  "pad_right width s = s @ replicate (width - length s) 32"

definition table_line :: "string \<times> nat \<times> nat \<Rightarrow> chars" where
  "table_line row =
     (case row of (name, count, len) \<Rightarrow>
        chars_of ''  '' @ pad_right 20 (chars_of name) @ chars_of '' '' @ pad_left 10 (decimal count)
        @ chars_of '' entries '' @ pad_left 10 (decimal len) @ chars_of '' bytes'')"

definition table_lines :: "features \<Rightarrow> codec_lib \<Rightarrow> hash_lib \<Rightarrow> image_file \<Rightarrow> chars list" where
  "table_lines ft cl hl img =
     (case print_table_sizes ft cl hl img of
        None \<Rightarrow> []
      | Some rows \<Rightarrow> chars_of ''Metadata tables:'' # map table_line rows)"

text \<open>\<open>char::from_u32\<close> accepts the scalar values.\<close>

definition is_scalar :: "nat \<Rightarrow> bool" where
  "is_scalar n \<longleftrightarrow> n < 0xD800 \<or> 0xE000 \<le> n \<and> n \<le> 0x10FFFF"

definition comma_list :: "chars list \<Rightarrow> chars" where
  "comma_list xs = join_with (chars_of '', '') xs"

definition print_metadata_summary ::
    "features \<Rightarrow> codec_lib \<Rightarrow> hash_lib \<Rightarrow> filesystem \<Rightarrow> nat \<Rightarrow> chars list" where
  "print_metadata_summary ft cl hl fs detail =
     (let options = fs_options fs; flags = summary_flags options; offsets = fs_offsets fs;
          categories = fs_category_names fs in
      [bytes_line ''Block size'' (unat (fs_block_size fs))]
      @ (if categories \<noteq> [] then [chars_of ''Block categories: '' @ comma_list (map utf8_chars categories)] else [])
      @ [chars_of ''Inode count: '' @ decimal (unat (inode_count fs)),
         bytes_line ''Original filesystem size'' (fs_total_fs_size fs)]
      @ (case fs_total_allocated_fs_size fs of
           None \<Rightarrow> [] | Some allocated \<Rightarrow> [bytes_line ''Original allocated size'' allocated])
      @ (if fs_features fs \<noteq> []
         then [chars_of ''Features: '' @ comma_list (map utf8_chars (fs_features fs))] else [])
      @ (if flags \<noteq> [] then [chars_of ''Options: '' @ comma_list (map chars_of flags)] else [])
      @ [chars_of ''Time resolution: ''
         @ decimal (case fo_time_resolution_sec options of None \<Rightarrow> 1 | Some r \<Rightarrow> unat r) @ chars_of '' seconds'']
      @ (case fs_preferred_path_separator fs of
           None \<Rightarrow> []
         | Some sep \<Rightarrow>
             if is_scalar (unat sep) then [chars_of ''Preferred path separator: '' @ [unat sep]] else [])
      @ (if detail < 3 then []
         else table_lines ft cl hl (fs_image fs)
           @ [chars_of ''Inode offsets: dir='' @ decimal (unat (io_dir_offset offsets))
              @ chars_of '' symlink='' @ decimal (unat (io_symlink_offset offsets))
              @ chars_of '' file='' @ decimal (unat (io_file_offset offsets))
              @ chars_of '' shared='' @ decimal (unat (io_shared_file_offset offsets))
              @ chars_of '' device='' @ decimal (unat (io_device_offset offsets))
              @ chars_of '' special='' @ decimal (unat (io_special_offset offsets))]))"

subsection \<open>The section report accounts for the image\<close>

definition payload_total :: "(section_type \<Rightarrow> bool) \<Rightarrow> section_record list \<Rightarrow> nat" where
  "payload_total p rs =
     (\<Sum>r \<leftarrow> filter (\<lambda>r. p (sh_section_type (rec_header r))) rs. unat (sh_payload_len (rec_header r)))"

definition unknown_total :: "ck_summary \<Rightarrow> u16 \<Rightarrow> nat" where
  "unknown_total s v = (case map_of (cs_unknown s) v of None \<Rightarrow> 0 | Some n \<Rightarrow> n)"

lemma payload_total_simps [simp]:
  "payload_total p [] = 0"
  "payload_total p (r # rs) =
     (if p (sh_section_type (rec_header r)) then unat (sh_payload_len (rec_header r)) else 0) + payload_total p rs"
  by (simp_all add: payload_total_def)

lemma add_unknown_lookup:
  "map_of (add_unknown v n us) w =
     (if w = v then Some (case map_of us v of None \<Rightarrow> n | Some m \<Rightarrow> wrapping_add64 m n) else map_of us w)"
  by (induction v n us rule: add_unknown.induct) auto

lemma wrapping_add64_mod: "wrapping_add64 (a mod 2 ^ 64) b = (a + b) mod 2 ^ 64"
  by (simp add: wrapping_add64_def mod_add_left_eq)

lemma summary_totals:
  fixes rs :: "section_record list"
  defines "s \<equiv> fold summarize_section rs ck_summary_default"
  assumes fits: "payload_total (\<lambda>_. True) rs < 2 ^ 64"
  shows "cs_block_count s = length (filter (\<lambda>r. sh_section_type (rec_header r) = Block) rs)"
    and "cs_block_compressed s = payload_total ((=) Block) rs"
    and "cs_metadata_compressed s = payload_total ((=) MetadataV2) rs"
    and "cs_schema_compressed s = payload_total ((=) MetadataV2Schema) rs"
    and "cs_history_compressed s = payload_total ((=) History) rs"
    and "unknown_total s v = payload_total ((=) (UnknownSection v)) rs"
  unfolding s_def using fits
proof (induction rs rule: rev_induct)
  case Nil
  { case 1 show ?case by (simp add: ck_summary_default_def) }
  { case 2 show ?case by (simp add: ck_summary_default_def) }
  { case 3 show ?case by (simp add: ck_summary_default_def) }
  { case 4 show ?case by (simp add: ck_summary_default_def) }
  { case 5 show ?case by (simp add: ck_summary_default_def) }
  { case 6 show ?case by (simp add: ck_summary_default_def unknown_total_def) }
next
  case (snoc r rs)
  have app: "payload_total p (rs @ [r]) = payload_total p rs + payload_total p [r]" for p
    by (simp add: payload_total_def)
  have part: "payload_total p rs \<le> payload_total (\<lambda>_. True) rs" for p
    by (induction rs) auto
  have all: "payload_total (\<lambda>_. True) rs + unat (sh_payload_len (rec_header r)) < 2 ^ 64"
    if "payload_total (\<lambda>_. True) (rs @ [r]) < 2 ^ 64" using that by (simp add: app)
  have wrap: "wrapping_add64 (payload_total p rs) (unat (sh_payload_len (rec_header r)))
      = payload_total p rs + unat (sh_payload_len (rec_header r))"
    if "payload_total (\<lambda>_. True) (rs @ [r]) < 2 ^ 64" for p
  proof -
    have "payload_total p rs + unat (sh_payload_len (rec_header r)) < 2 ^ 64"
      using all [OF that] part [of p] by (meson add_le_mono1 le_less_trans)
    then show ?thesis unfolding wrapping_add64_def by (rule mod_less)
  qed
  have pre: "payload_total (\<lambda>_. True) rs < 2 ^ 64" if "payload_total (\<lambda>_. True) (rs @ [r]) < 2 ^ 64"
    using all [OF that] by simp
  note IH = snoc.IH
  { case 1
    show ?case using IH(1) [OF pre [OF 1]]
      by (simp add: summarize_section_def Let_def split: section_type.split) }
  { case 2
    show ?case using IH(2) [OF pre [OF 2]]
      by (auto simp: summarize_section_def Let_def app wrap [OF 2] split: section_type.split) }
  { case 3
    show ?case using IH(3) [OF pre [OF 3]]
      by (auto simp: summarize_section_def Let_def app wrap [OF 3] split: section_type.split) }
  { case 4
    show ?case using IH(4) [OF pre [OF 4]]
      by (auto simp: summarize_section_def Let_def app wrap [OF 4] split: section_type.split) }
  { case 5
    show ?case using IH(5) [OF pre [OF 5]]
      by (auto simp: summarize_section_def Let_def app wrap [OF 5] split: section_type.split) }
  { case 6
    show ?case using IH(6) [OF pre [OF 6]] wrap [OF 6, of "(=) (UnknownSection v)"]
      by (auto simp: summarize_section_def Let_def app add_unknown_lookup unknown_total_def
          split: section_type.split option.split) }
qed

lemma tiling_payloads:
  "tiling content pos rs \<Longrightarrow> length content < 2 ^ 63 \<Longrightarrow>
    pos + 64 * length rs + payload_total (\<lambda>_. True) rs = length content"
proof (induction rs arbitrary: pos)
  case (Cons r rs)
  then have "record_section_len r < 2 ^ 63" by simp
  then have "record_section_len r = 64 + unat (sh_payload_len (rec_header r))"
    unfolding record_section_len_def by (intro section_len_exact) simp
  with Cons show ?case by fastforce
qed simp

lemma summary_accounts:
  assumes "image_ok img content"
  defines "s \<equiv> ck_summarize img"
  shows "cs_block_count s = length (filter (\<lambda>r. sh_section_type (rec_header r) = Block) (img_sections img))
    \<and> cs_block_compressed s = payload_total ((=) Block) (img_sections img)
    \<and> cs_metadata_compressed s = payload_total ((=) MetadataV2) (img_sections img)
    \<and> cs_schema_compressed s = payload_total ((=) MetadataV2Schema) (img_sections img)
    \<and> cs_history_compressed s = payload_total ((=) History) (img_sections img)
    \<and> unknown_total s v = payload_total ((=) (UnknownSection v)) (img_sections img)
    \<and> img_base_offset img + 64 * length (img_sections img) + payload_total (\<lambda>_. True) (img_sections img)
      = length content"
proof -
  have t: "tiling content (img_base_offset img) (img_sections img)" and l: "length content < 2 ^ 63"
    using assms(1) by (simp_all add: image_ok_def)
  from tiling_payloads [OF t l] have whole: "img_base_offset img + 64 * length (img_sections img)
      + payload_total (\<lambda>_. True) (img_sections img) = length content" .
  with l have fits: "payload_total (\<lambda>_. True) (img_sections img) < 2 ^ 64" by simp
  from summary_totals [OF fits] whole show ?thesis by (simp add: s_def ck_summarize_def)
qed

end
