(* ===== verification/Tool_Runs.thy ===== *)
theory Tool_Runs
  imports Reports Extract Tar Fuse
begin

text \<open>
  The \<open>run\<close> functions of \<open>src/src/bin/dwarfsck.rs\<close>, \<open>src/src/bin/dwarfsextract.rs\<close> and
  \<open>src/src/bin/dwarfs.rs\<close>: how the tools put the library together, from the parsed arguments to what
  is printed or written. Notes on standard error, the size of the thread pool and the arguments
  accepted without effect are left out, and the \<open>tar\<close> feature is compiled in; opening the file of an export is assumed to succeed. The
  image file is given by the sources its path opens to.
\<close>

text \<open>How a run ends: with a value, with an error that is printed, or with a panic.\<close>

datatype 'a run_end = RunDone 'a | RunFails cli_error | RunPanics

subsection \<open>The inspection tool\<close>

record ck_cli =
  ckc_image_offset :: chars
  ckc_image_size :: "nat option"
  ckc_print_header :: bool
  ckc_no_check :: bool
  ckc_check_integrity :: bool
  ckc_json :: bool
  ckc_export_metadata :: bool
  ckc_checksum :: "chars option"
  ckc_list :: bool
  ckc_detail :: chars
  ckc_quiet :: bool
  ckc_verbose :: bool

definition lines_text :: "chars list \<Rightarrow> bytes" where
  "lines_text ls = concat (map (\<lambda>l. utf8_encode l @ [10]) ls)"

definition result_end :: "unit result \<Rightarrow> unit run_end" where
  "result_end r = (case r of Inl e \<Rightarrow> RunFails (Library e) | Inr u \<Rightarrow> RunDone u)"

text \<open>Run a report on the filesystem of the image.\<close>

definition with_filesystem ::
    "environment \<Rightarrow> image_file \<Rightarrow> (filesystem \<Rightarrow> (bytes \<times> unit run_end) option) \<Rightarrow> (bytes \<times> unit run_end) option"
  where
  "with_filesystem env img report =
     (case filesystem_open env img of
        None \<Rightarrow> None
      | Some (Inl e) \<Rightarrow> Some ([], RunFails (Library e))
      | Some (Inr fs) \<Rightarrow> report fs)"

definition ck_checksum_text :: "(chars \<times> bytes) list \<times> checksum_end \<Rightarrow> bytes \<times> unit run_end" where
  "ck_checksum_text res =
     (case res of (rows, fin) \<Rightarrow>
        (concat (map (\<lambda>(digest, path). utf8_encode digest @ [32, 32] @ path @ [10]) rows),
         case fin of
           ChecksumsDone \<Rightarrow> RunDone ()
         | ChecksumsFail e \<Rightarrow> RunFails e
         | ChecksumsPanic \<Rightarrow> RunPanics))"

definition ck_list_report :: "nat \<Rightarrow> filesystem \<Rightarrow> (bytes \<times> unit run_end) option" where
  "ck_list_report fuel fs =
     (case walk_tree fs fuel of
        None \<Rightarrow> None
      | Some (Inl e) \<Rightarrow> Some ([], RunFails (Library e))
      | Some (Inr entries) \<Rightarrow> Some (concat (map (\<lambda>p. p @ [10]) (ck_list entries)), RunDone ()))"

definition ck_summary_report :: "environment \<Rightarrow> image_file \<Rightarrow> nat \<Rightarrow> (bytes \<times> unit run_end) option" where
  "ck_summary_report env img detail =
     (let ft = ev_features env; cl = ev_codecs env; hl = ev_hash env;
          sections = print_summary ft cl hl img detail @ print_history ft cl hl img in
      case filesystem_open env img of
        None \<Rightarrow> None
      | Some (Inl e) \<Rightarrow> Some (lines_text sections, RunDone ())
      | Some (Inr fs) \<Rightarrow>
          Some (lines_text (sections @ print_metadata_summary ft cl hl fs detail), RunDone ()))"

text \<open>What the run prints, by the first of the modes that is asked for.\<close>

definition ck_report ::
    "environment \<Rightarrow> ck_hashes \<Rightarrow> nat \<Rightarrow> ck_cli \<Rightarrow> image_file \<Rightarrow> (bytes \<times> unit run_end) option" where
  "ck_report env kh fuel cli img =
     (if ckc_json cli then
        with_filesystem env img (\<lambda>fs. Some (utf8_encode (print_json fs), RunDone ()))
      else if ckc_export_metadata cli then
        with_filesystem env img (\<lambda>fs.
          map_option (\<lambda>(t, r). (utf8_encode t, result_end r)) (export_metadata fs fuel))
      else case ckc_checksum cli of
        Some alg \<Rightarrow>
          with_filesystem env img (\<lambda>fs. map_option ck_checksum_text (print_checksums env fs fuel kh alg))
      | None \<Rightarrow>
          if ckc_list cli then with_filesystem env img (ck_list_report fuel)
          else let detail = effective_detail (ckc_detail cli) (ckc_quiet cli) (ckc_verbose cli) in
            if detail = 0 then Some ([], RunDone ()) else ck_summary_report env img detail)"

definition ck_image_run ::
    "environment \<Rightarrow> ck_hashes \<Rightarrow> nat \<Rightarrow> ck_cli \<Rightarrow> image_file \<Rightarrow> (bytes \<times> unit run_end) option" where
  "ck_image_run env kh fuel cli img =
     (if ckc_print_header cli then
        Some (case ck_header_bytes img of
                Inl e \<Rightarrow> ([], RunFails (Library e)) | Inr bs \<Rightarrow> (bs, RunDone ()))
      else case ck_verify (ev_pool env) (ev_hash env) (ckc_no_check cli) (ckc_check_integrity cli) img of
        Inl e \<Rightarrow> Some ([], RunFails (Library e))
      | Inr _ \<Rightarrow> ck_report env kh fuel cli img)"

definition ck_run ::
    "environment \<Rightarrow> ck_hashes \<Rightarrow> nat \<Rightarrow> image_source \<Rightarrow> image_source \<Rightarrow> ck_cli
       \<Rightarrow> (bytes \<times> unit run_end) option" where
  "ck_run env kh fuel whole source cli =
     (case tool_open_image whole source (ckc_image_offset cli) (ckc_image_size cli) of
        Inl e \<Rightarrow> Some ([], RunFails e)
      | Inr img \<Rightarrow> ck_image_run env kh fuel cli img)"

subsection \<open>The extraction tool\<close>

record ex_cli =
  exc_image_offset :: chars
  exc_image_size :: "nat option"
  exc_format :: "chars option"
  exc_man :: bool
  exc_disable_integrity_check :: bool
  exc_continue_on_error :: bool
  exc_pattern :: "bytes list"
  exc_output :: bytes

datatype ex_written = ExNothing | ExArchive | ExFiles extract_stats

text \<open>
  The destination is one state: the directory an extraction writes into, or the writer an archive
  goes to, which \<open>open_writer\<close> opens.
\<close>

definition ex_filesystem_run ::
    "environment \<Rightarrow> nat \<Rightarrow> ex_cli \<Rightarrow> filesystem \<Rightarrow> 'd dest_ops \<Rightarrow> 'd tar_builder
       \<Rightarrow> ('d \<Rightarrow> unit result \<times> 'd) \<Rightarrow> 'd \<Rightarrow> (ex_written run_end \<times> 'd) option" where
  "ex_filesystem_run env fuel cli fs ops builder open_writer d =
     (if exc_format cli = Some (chars_of ''tar'') then
        (case open_writer d of
           (Inl e, d') \<Rightarrow> Some (RunFails (Library e), d')
         | (Inr _, d') \<Rightarrow>
             map_option (\<lambda>(r, d''). (case r of Inl e \<Rightarrow> RunFails (Library e) | Inr _ \<Rightarrow> RunDone ExArchive, d''))
               (write_tar env fs fuel builder d'))
      else
        map_option (\<lambda>(r, d'). (case r of Inl e \<Rightarrow> RunFails (Library e) | Inr stats \<Rightarrow> RunDone (ExFiles stats), d'))
          (extract_all env fs fuel (exc_output cli)
             \<lparr>eo_continue_on_error = exc_continue_on_error cli, eo_hardlink_shared = True,
              eo_include_patterns = exc_pattern cli\<rparr> ops d))"

definition ex_run ::
    "environment \<Rightarrow> nat \<Rightarrow> image_source \<Rightarrow> image_source \<Rightarrow> ex_cli \<Rightarrow> 'd dest_ops \<Rightarrow> 'd tar_builder
       \<Rightarrow> ('d \<Rightarrow> unit result \<times> 'd) \<Rightarrow> 'd \<Rightarrow> (ex_written run_end \<times> 'd) option" where
  "ex_run env fuel whole source cli ops builder open_writer d =
     (if exc_man cli then Some (RunDone ExNothing, d)
      else case tool_open_image whole source (exc_image_offset cli) (exc_image_size cli) of
        Inl e \<Rightarrow> Some (RunFails e, d)
      | Inr img \<Rightarrow>
          (case (if exc_disable_integrity_check cli then Inr () else verify_all (ev_pool env) (ev_hash env) img) of
             Inl e \<Rightarrow> Some (RunFails (Library e), d)
           | Inr _ \<Rightarrow>
               (case filesystem_open env img of
                  None \<Rightarrow> None
                | Some (Inl e) \<Rightarrow> Some (RunFails (Library e), d)
                | Some (Inr fs) \<Rightarrow> ex_filesystem_run env fuel cli fs ops builder open_writer d)))"

subsection \<open>The mount tool\<close>

text \<open>Up to the call that serves the mount: the adapter and the options passed on.\<close>

definition mount_run ::
    "environment \<Rightarrow> image_source \<Rightarrow> chars list \<Rightarrow> ((string + error) + dwarfs_fuse \<times> chars list) option" where
  "mount_run env source options =
     (case split_options options of
        Inl msg \<Rightarrow> Some (Inl (Inl msg))
      | Inr st \<Rightarrow>
          (case mount_open_image source (ss_offset st) of
             Inl e \<Rightarrow> Some (Inl (Inr e))
           | Inr img \<Rightarrow>
               (case filesystem_open env img of
                  None \<Rightarrow> None
                | Some (Inl e) \<Rightarrow> Some (Inl (Inr e))
                | Some (Inr fs) \<Rightarrow>
                    Some (Inr (case ss_cache st of
                                 Some bytes \<Rightarrow> with_cache fs bytes
                               | None \<Rightarrow> dwarfs_fuse_new fs, ss_rest st)))))"

subsection \<open>Nothing is reported or written before the image is checked\<close>

definition sections_verified :: "hash_lib \<Rightarrow> image_file \<Rightarrow> bool" where
  "sections_verified hl img \<longleftrightarrow>
     (\<forall>r \<in> set (img_sections img).
        \<exists>bytes. section_bytes img r = Inr bytes \<and> compute_xxh3 hl bytes = sh_xxh3_64 (rec_header r))"

lemma verify_all_sections:
  "pool_ok pool \<Longrightarrow> verify_all pool hl img = Inr () \<longleftrightarrow> sections_verified hl img"
  by (simp add: verify_all_Inr sections_verified_def verify_xxh3_Inr)

lemma ck_verify_sections:
  assumes "pool_ok pool" "ck_verify pool hl False deep img = Inr u"
  shows "sections_verified hl img"
  using assms verify_deep_imp_all [of pool hl img]
  by (cases deep) (auto simp: ck_verify_def verify_all_sections)

lemma ck_run_checks:
  assumes "tool_open_image whole source (ckc_image_offset cli) (ckc_image_size cli) = Inr img"
    and "\<not> ckc_print_header cli" "\<not> ckc_no_check cli" "\<not> sections_verified (ev_hash env) img"
    and pool: "pool_ok (ev_pool env)"
  shows "\<exists>e. ck_run env kh fuel whole source cli = Some ([], RunFails (Library e))"
proof (cases "ck_verify (ev_pool env) (ev_hash env) False (ckc_check_integrity cli) img")
  case (Inl e)
  with assms show ?thesis by (simp add: ck_run_def ck_image_run_def)
next
  case (Inr u)
  from ck_verify_sections [OF pool Inr] assms(4) show ?thesis by simp
qed

lemma ex_run_checks:
  assumes "tool_open_image whole source (exc_image_offset cli) (exc_image_size cli) = Inr img"
    and "\<not> exc_man cli" "\<not> exc_disable_integrity_check cli" "\<not> sections_verified (ev_hash env) img"
    and pool: "pool_ok (ev_pool env)"
  shows "\<exists>e. ex_run env fuel whole source cli ops builder open_writer d = Some (RunFails (Library e), d)"
proof (cases "verify_all (ev_pool env) (ev_hash env) img")
  case (Inl e)
  with assms show ?thesis by (simp add: ex_run_def)
next
  case (Inr u)
  then have "sections_verified (ev_hash env) img" using verify_all_sections [OF pool] by (cases u) auto
  with assms(4) show ?thesis by simp
qed

end
