(* ===== verification/Report_Properties.thy ===== *)
theory Report_Properties
  imports Sample_Image Tool_Runs
begin

text \<open>
  The properties of the reports and of the runs of the tools. Each property with hypotheses is
  followed by an instance.
\<close>

subsection \<open>Reports\<close>

text \<open>C12: the metadata export writes one line per entry of the tree, in order, and every line is an
  object that a strict JSON reader reads back to the metadata of the entry; a path that is UTF-8 is
  read back exactly.\<close>

theorem export_reads_back:
  assumes "walk_tree fs fuel = Some (Inr entries)" "export_metadata fs fuel = Some (out, Inr ())"
  shows "\<exists>lines stats. split_on 10 out = lines @ [[]]
    \<and> try_map (\<lambda>e. fs_stat fs (we_inode e)) entries = Inr stats
    \<and> map read_object lines
      = map2 (\<lambda>e st. Some (record_members (export_path e) st (export_target fs st))) entries stats
    \<and> (\<forall>e. utf8_valid (we_path e) \<and> we_path e \<noteq> [] \<longrightarrow> utf8_encode (export_path e) = we_path e)"
proof -
  from assms have "export_entries fs entries = (out, Inr ())" by (simp add: export_metadata_def)
  from export_entries_lines [OF this] obtain stats where
    stats: "try_map (\<lambda>e. fs_stat fs (we_inode e)) entries = Inr stats"
      "split_on 10 out = map2 (\<lambda>e st. export_record (export_path e) st (export_target fs st)) entries stats @ [[]]"
    by blast
  have path: "utf8_encode (export_path e) = we_path e" if "utf8_valid (we_path e)" "we_path e \<noteq> []" for e
    using that by (simp add: export_path_def lossy_chars_def utf8_lossy_valid utf8_encode_chars)
  have "map read_object (map2 (\<lambda>e st. export_record (export_path e) st (export_target fs st)) entries stats)
      = map2 (\<lambda>e st. Some (record_members (export_path e) st (export_target fs st))) entries stats"
    by (auto simp: export_record_shows read_object_show)
  with stats path show ?thesis by blast
qed

theorem export_reads_back_witness:
  "\<exists>out lines. export_metadata sample_fs 1 = Some (out, Inr ()) \<and> split_on 10 out = lines @ [[]]
    \<and> length lines = 2"
proof -
  obtain s0 s1 where "fs_stat sample_fs 0 = Inr s0" "fs_stat sample_fs 1 = Inr s1"
    using sample_root_stat sample_stat by blast
  then obtain out where out: "export_metadata sample_fs 1 = Some (out, Inr ())"
    by (simp add: export_metadata_def sample_walk [unfolded One_nat_def])
  from export_reads_back [OF sample_walk out] obtain lines stats where lines: "split_on 10 out = lines @ [[]]"
    and stats: "try_map (\<lambda>e. fs_stat sample_fs (we_inode e))
        [\<lparr>we_path = [], we_inode = 0, we_kind = KDirectory\<rparr>,
         \<lparr>we_path = [SLASH, 0x61], we_inode = 1, we_kind = KRegular\<rparr>] = Inr stats"
    and read: "map read_object lines = map2 (\<lambda>e st. Some (record_members (export_path e) st
        (export_target sample_fs st))) [\<lparr>we_path = [], we_inode = 0, we_kind = KDirectory\<rparr>,
         \<lparr>we_path = [SLASH, 0x61], we_inode = 1, we_kind = KRegular\<rparr>] stats"
    by blast
  from arg_cong [OF read, of length] try_map_length [OF stats] have "length lines = 2" by simp
  with out lines show ?thesis by blast
qed

text \<open>C26: the JSON summary is one line, an object that a strict JSON reader reads back to the values
  of the filesystem, with the optional members when they are recorded.\<close>

theorem summary_reads_back:
  "read_object (butlast (print_json fs)) = Some (json_members fs)
    \<and> last (print_json fs) = 10 \<and> 10 \<notin> set (butlast (print_json fs))"
  using print_json_read [of fs] show_object_printable [of 10 "json_members fs"]
  by (auto simp: print_json_shows)

text \<open>C27: the section report of an opened image accounts for every byte: the sums it prints are the
  payload bytes of the sections of each kind, none wraps, and headers and payloads together fill the
  image from its base offset to the end.\<close>

theorem section_report_accounts:
  assumes "byte_source s content" "length content < 2 ^ 63" "image_build s = Inr img"
  shows "cs_block_count (ck_summarize img)
      = length (filter (\<lambda>r. sh_section_type (rec_header r) = Block) (img_sections img))
    \<and> cs_block_compressed (ck_summarize img) = payload_total ((=) Block) (img_sections img)
    \<and> cs_metadata_compressed (ck_summarize img) = payload_total ((=) MetadataV2) (img_sections img)
    \<and> cs_schema_compressed (ck_summarize img) = payload_total ((=) MetadataV2Schema) (img_sections img)
    \<and> cs_history_compressed (ck_summarize img) = payload_total ((=) History) (img_sections img)
    \<and> unknown_total (ck_summarize img) v = payload_total ((=) (UnknownSection v)) (img_sections img)
    \<and> img_base_offset img + 64 * length (img_sections img) + payload_total (\<lambda>_. True) (img_sections img)
      = length content"
  by (rule summary_accounts [OF byte_source.image_build_ok(1) [OF assms(1,3,2)]])

theorem section_report_accounts_witness:
  "cs_block_count (ck_summarize sample_image) = 1 \<and> cs_block_compressed (ck_summarize sample_image) = 5"
proof -
  have "image_build (vec_source sample_content) = Inr sample_image"
    using sample_build by (simp add: image_from_vec_def image_from_source_def)
  from section_report_accounts [OF vec_src.byte_source_axioms _ this] show ?thesis
    by (simp add: sample_image_def) (simp add: sample_header_def)
qed

subsection \<open>Runs\<close>

text \<open>C11: the extraction tool writes nothing, neither a file nor an archive, unless the hash of every
  section has been checked, except when the check is disabled, whether the sections are hashed in turn or
  by a pool of threads.\<close>

theorem extraction_checks_first:
  assumes "tool_open_image whole source (exc_image_offset cli) (exc_image_size cli) = Inr img"
    and "\<not> exc_man cli" "\<not> exc_disable_integrity_check cli" "\<not> sections_verified (ev_hash env) img"
    and "pool_ok (ev_pool env)"
  shows "\<exists>e. ex_run env fuel whole source cli ops builder open_writer d = Some (RunFails (Library e), d)"
  by (rule ex_run_checks [OF assms])

definition sample_extraction_args :: ex_cli where
  "sample_extraction_args =
     \<lparr>exc_image_offset = AUTO, exc_image_size = None, exc_format = None, exc_man = False,
      exc_disable_integrity_check = False, exc_continue_on_error = True, exc_pattern = [], exc_output = [0x64]\<rparr>"

definition corrupt_env :: environment where
  "corrupt_env = sample_env\<lparr>ev_hash := sample_hash\<lparr>hl_xxh3_64 := \<lambda>_. 8\<rparr>\<rparr>"

lemma sample_tool_open: "tool_open_image (vec_source sample_content) whole AUTO None = Inr sample_image"
  using sample_build
  by (simp add: tool_open_image_def parse_image_offset_def image_from_vec_def library_result_def)

lemma sample_not_verified: "\<not> sections_verified (ev_hash corrupt_env) sample_image"
proof -
  have "sample_record \<in> set (img_sections sample_image)" by (simp add: sample_image_def)
  moreover have "sh_xxh3_64 (rec_header sample_record) \<noteq> 8" by (simp add: sample_header_def)
  moreover have "compute_xxh3 (ev_hash corrupt_env) sample_content = 8"
    by (simp add: corrupt_env_def compute_xxh3_def)
  ultimately show ?thesis
    unfolding sections_verified_def using sample_section_bytes by (metis sum.inject(2))
qed

theorem extraction_checks_first_witness:
  "\<forall>ops builder open_writer. \<exists>e. ex_run corrupt_env 9 (vec_source sample_content)
    (vec_source sample_content) sample_extraction_args ops builder open_writer (0 :: nat)
    = Some (RunFails (Library e), 0)"
  by (intro allI, rule extraction_checks_first [OF _ _ _ sample_not_verified])
    (simp_all add: sample_extraction_args_def sample_tool_open corrupt_env_def sample_env_def)

end
