(* ===== verification/Spec2Isabelle.thy ===== *)
theory Spec2Isabelle
  imports Writer_Properties Format_Properties Metadata_Properties Filesystem_Properties Tool_Properties Report_Properties
begin

text \<open>
  Verification of \<open>rdwarfs\<close>, a Rust reader of DwarFS file system images and the three tools built on
  it.

  \<^bold>\<open>The program.\<close> An image is a sequence of sections, each a 64-byte header and a payload, possibly
  behind a prefix (an executable or a script). Opening an image (\<open>src/src/format/image.rs\<close>) detects
  the first section, walks all of them and reads the optional index at the end. Two sections hold the
  metadata: a Thrift-encoded schema and a bit-packed blob it describes; the others hold file data in
  compressed blocks. Opening a file system (\<open>src/src/fs/read.rs\<close>) decodes the metadata into tables;
  reading a file maps a byte range to chunks, and chunks to decoded blocks through a bounded cache
  shared by threads. Extraction, the tar export, the FUSE adapter and the command-line tools are
  clients of the file system.

  \<^bold>\<open>The theories\<close>, in the order of the calls:
  \<^item> \<open>Prelude\<close>: bytes, little-endian words, the result type and its early return, fuelled runs,
    checked 64-bit arithmetic, and the collections \<open>result_simps\<close> and \<open>width_defs\<close>.
  \<^item> \<open>Errors\<close> (\<open>error.rs\<close>), \<open>Section_Types\<close> (\<open>format/types.rs\<close>), \<open>Section_Header\<close>
    (\<open>format/header.rs\<close>), \<open>Image_Source\<close> (\<open>format/source.rs\<close>), \<open>Detect\<close> (\<open>format/detect.rs\<close>),
    \<open>Sections\<close> (\<open>format/sections.rs\<close> and the walk of \<open>format/image.rs\<close>), \<open>Section_Index\<close>
    (\<open>format/index.rs\<close>), \<open>Integrity\<close> (\<open>format/integrity.rs\<close>), \<open>Leb128\<close> and \<open>Codecs\<close>
    (\<open>compression/\<close>), \<open>Image_File\<close> (\<open>format/image.rs\<close>): the container. \<open>Image_Writer\<close> is the
    writer of images the unit tests of \<open>image.rs\<close> and \<open>index.rs\<close> use.
  \<^item> \<open>Thrift\<close> (\<open>metadata/thrift.rs\<close>), \<open>History\<close> (\<open>format/history.rs\<close>), \<open>Schema\<close>
    (\<open>metadata/schema.rs\<close>), \<open>Bitbuf\<close>, \<open>Frozen\<close>, \<open>Fsst\<close>, \<open>String_Table\<close> and \<open>Model\<close>
    (\<open>metadata/bitbuf.rs\<close>, \<open>frozen.rs\<close>, \<open>fsst.rs\<close>, \<open>model.rs\<close>): the metadata.
    \<open>Thrift_Encoding\<close>, \<open>Schema_Encoding\<close> and \<open>Fsst_Encoding\<close> are the writers the unit tests of
    \<open>schema.rs\<close> and \<open>fsst.rs\<close> use.
  \<^item> \<open>Fs_Tables\<close>, \<open>Chunks\<close>, \<open>Filesystem\<close>, \<open>Directories\<close>, \<open>Block_Cache\<close>, \<open>Read_Path\<close>
    (\<open>fs/inode.rs\<close>, \<open>fs/read.rs\<close>): the file system. \<open>Cache_Threads\<close> runs the cache with any number
    of threads, \<open>Lru_Refinement\<close> is its specification.
  \<^item> \<open>Glob\<close> and \<open>Extract\<close> (\<open>fs/extract.rs\<close>), \<open>Text_Bytes\<close> (the UTF-8 functions of the standard
    library they share), \<open>Tar\<close> (\<open>fs/tar.rs\<close>), \<open>Fuse\<close> (\<open>fuse/mod.rs\<close>): the clients.
  \<^item> \<open>Cli_Options\<close>, \<open>Json\<close>, \<open>Dwarfsck\<close>, \<open>Reports\<close>, \<open>Tool_Runs\<close> (\<open>bin/dwarfs.rs\<close>,
    \<open>bin/dwarfsck.rs\<close>, \<open>bin/dwarfsextract.rs\<close>): the tools.
  \<^item> \<open>Bit_Writer\<close>, \<open>Frozen_Writer\<close>, \<open>Schema_Size\<close>, \<open>Frozen_Reader\<close>, \<open>Metadata_Writer\<close>,
    \<open>Filesystem_Writer\<close>: a reference writer of metadata blobs and of whole images. The repository
    has none; it is specified after the layout the comments of \<open>metadata/frozen.rs\<close> and
    \<open>metadata/model.rs\<close> document, and stands for no code of the map.
  \<^item> \<open>Sample_Image\<close>: a small image and the file system on it, the input of the instances.
    \<open>Format_Properties\<close>, \<open>Metadata_Properties\<close>, \<open>Filesystem_Properties\<close>, \<open>Tool_Properties\<close>,
    \<open>Report_Properties\<close> and \<open>Writer_Properties\<close>: the properties.

  \<^bold>\<open>How the code is modelled.\<close> A struct is a record and an enum a datatype, with the names of the
  source where Isabelle allows them. A function that returns \<open>Result\<close> gives a sum, the error on the
  left; error messages are the format strings of the source without the values put into them. Table
  entries and header fields are words of their width; positions and lengths (\<open>usize\<close> and \<open>u64\<close>) are
  natural numbers, with each checked, saturating or wrapping operation of the source written out at
  64 bits. A method that changes its receiver returns it. Names and file contents are byte lists; the
  text the tools print is a list of Unicode scalar values.

  A loop that ends by its own counter is a recursive function with its measure. Where the input
  decides the depth, a run is on fuel and \<open>None\<close> says that it ran out: the recursion of
  \<open>skip_value\<close> and the field loops of the Thrift reader get the bytes left as fuel, and
  \<open>metadata_parsers_return\<close> shows that this is always enough; \<open>walk_tree\<close> gets its fuel from the
  caller, any number above the height of the tree is enough (\<open>walk_returns_on_trees\<close>), and on a
  directory that contains itself none is (\<open>walk_cycle_never_returns\<close>). In \<open>fetch\<close> a \<open>None\<close> is a read
  that would wait for another thread; a cache used by one thread never waits (\<open>read_into_delivers\<close>).
  In \<open>glob_match\<close> and the checksum run \<open>None\<close> and \<open>DigestPanics\<close> are the panics of the source.

  \<^bold>\<open>What is a parameter.\<close> Code outside the repository is an argument of the definitions that use it:
  the codec crates (\<open>codec_lib\<close>, a decoder being the sequence of results its reads deliver), the hash
  crates (\<open>hash_lib\<close>, \<open>ck_hashes\<close>), the parallel loop of rayon that hashes the sections
  (\<open>section_loop\<close>, absent on a sequential build), the Cargo features (\<open>features\<close>), the operating system an
  extraction writes to (\<open>dest_ops\<close>), the \<open>tar\<close> crate's builder (\<open>tar_builder\<close>), the kernel's reply
  buffer (\<open>dir_add\<close>) and \<open>makedev\<close>. What the code relies on is a named hypothesis:
  \<open>byte_source\<close> (a source reads the bytes it holds), \<open>one_shot_bounded\<close> (the one-shot
  decoders respect the size they are given), \<open>pool_ok\<close> (the parallel loop succeeds when every item
  does and otherwise returns the error of one), \<open>decoders_consistent\<close> (the two zstd routes see one stream), \<open>stores\<close> (a
  destination keeps what is written), \<open>plain_dirs\<close> and \<open>listing_sorted\<close> (names are sorted, not
  empty and without separators, as the writer of images produces them).

  \<^bold>\<open>What the lemmas show.\<close>
  \<^item> The container: headers are exactly the written ones, detection finds the first acceptable
    position whichever way the source is read, the sections of an opened image tile it, an embedded
    image opens as it would alone, a written image opens as it was written, payloads are decoded only after
    their hash has been checked and never beyond the cap, and a prefix decode is the beginning of the
    full one. On damaged images the errors are exact: the walk fails at the first fault, with the error
    of that fault, and a check reports a section that does not hash to its header, on a sequential build
    the first one.
  \<^item> The metadata: schemas, symbol tables, string tables and shared-file tables survive a round trip, bit reads are
    the bits of the buffer, compressed strings decode exactly when they are token sequences, and the
    parsers return on every input.
  \<^item> The file system: an opened one has consistent tables (\<open>fs_ok\<close>); chunk ends are running sums;
    rebuilt directory links are the tree; a read delivers exactly the content of the file whatever the
    cache held before; lookups agree with listings and with the walk.
  \<^item> The cache: its counter counts, its budget holds, no block is decoded by two threads at once, no
    waiter is stranded (notifying is a step of its own, and no wait needs a spurious wake-up to end), and any sequence of operations is that of an LRU list.
  \<^item> The clients: extraction copies every file byte for byte and accounts for every entry, the archive
    writer reads the same bytes, a directory read in batches loses and repeats nothing, patterns
    accept their language, checksums are digests of the content, the JSON reports are read back to the
    values they print, the section report accounts for every byte, and nothing is extracted before the
    image is checked.
  \<^item> Whole images: an image written from metadata tables and data blocks opens as the file system of
    those tables, whatever the widths of the columns, and its files read back from the blocks. The
    tables are within what the reader accepts: lists up to \<open>DEFAULT_LIST_CAP\<close>, a blob up to
    \<open>CAP_METADATA_BYTES\<close> and 64-bit values; that the written schema stays below its own cap is
    \<open>written_schema_length\<close>.

  \<^bold>\<open>Interfaces.\<close> Four contracts are locales, interpreted on the model in the theory that provides
  them: \<open>byte_source\<close> (in-memory, mapped and file sources), \<open>block_fetcher\<close> (decoding through the
  cache, which the read loop uses), \<open>content_reader\<close> (reading one file, which extraction, archives and
  checksums use) and \<open>lru_store\<close> (the cache as an LRU list).

  \<^bold>\<open>Not modelled.\<close> The argument parser (\<open>clap\<close>), the calls that serve a mount (\<open>fuser\<close>), notes on
  standard error and the size of the thread pool; \<open>Debug\<close> output of handles; memory exhaustion and
  stack depth, apart from the fuel of the recursive functions; the platform variants for systems that
  are not Unix; the unit tests, apart from the writers of images, schemas and symbol tables they use, the integration tests, the fuzz target and the module files, which
  hold declarations only. The parallel writes of an extraction are modelled as the sequential build
  runs them: each writes its own file, and the sharing of the cache between threads is the subject of
  \<open>Cache_Threads\<close>.
\<close>

end
